(* ===== verification/Go_Prelude.thy ===== *)
theory Go_Prelude
  imports Main "HOL-Library.AList" "HOL-Library.List_Lexorder" "HOL-Library.Char_ord"
begin

text \<open>
  What the components share: Go's types and the parts of its language and standard library
  that the modelled packages use.

  \<^item> \<open>duration\<close> is \<^verbatim>\<open>time.Duration\<close> (nanoseconds) and \<open>time\<close> is
    \<^verbatim>\<open>time.Time\<close> as nanoseconds since Go's zero time, so \<^verbatim>\<open>time.Time{}\<close> is \<open>0\<close>;
    \<open>time_sub\<close> saturates as \<^verbatim>\<open>Time.Sub\<close> does.
  \<^item> \<open>to_int64\<close> is the wrap-around of a signed 64-bit integer.
  \<^item> \<open>gomap\<close> is a Go map as an association list with distinct keys
    (\<open>gm_wf\<close>): the list order stands for one iteration order, so a fact proved for every
    list holds for every order in which Go may range over the map.
  \<^item> A Go string is its list of bytes.
  \<^item> \<open>trim_suffix\<close>, \<open>trim_right\<close>, \<open>trim_left\<close>, \<open>to_lower\<close> and
    \<open>filepath_ext\<close> are the functions of those names in \<^verbatim>\<open>strings\<close>,
    \<^verbatim>\<open>bytes\<close> and \<^verbatim>\<open>path/filepath\<close>.

  \<^item> \<open>outcome\<close> is what a call does: it returns, blocks forever or panics.

  The collections \<open>gomap_simps\<close> and \<open>int64_simps\<close> carry the component proofs.
\<close>

named_theorems gomap_simps
named_theorems int64_simps

section \<open>Integers, time and durations\<close>

type_synonym duration = int
type_synonym time = int

definition max_int64 :: int where
  "max_int64 = 9223372036854775807"

definition min_int64 :: int where
  "min_int64 = -9223372036854775808"

definition to_int64 :: "int \<Rightarrow> int" where
  "to_int64 x = (x + 9223372036854775808) mod 18446744073709551616 - 9223372036854775808"

definition in_int64 :: "int \<Rightarrow> bool" where
  "in_int64 x \<longleftrightarrow> min_int64 \<le> x \<and> x \<le> max_int64"

definition zero_time :: time where
  "zero_time = 0"

definition second :: duration where
  "second = 1000000000"

definition time_sub :: "time \<Rightarrow> time \<Rightarrow> duration" where
  "time_sub t u = max min_int64 (min max_int64 (t - u))"

section \<open>Maps\<close>

type_synonym ('k, 'v) gomap = "('k \<times> 'v) list"

definition gm_wf :: "('k, 'v) gomap \<Rightarrow> bool" where
  "gm_wf m \<longleftrightarrow> distinct (map fst m)"

section \<open>Strings\<close>

definition has_suffix :: "string \<Rightarrow> string \<Rightarrow> bool" where
  "has_suffix s suf \<longleftrightarrow> length suf \<le> length s \<and> drop (length s - length suf) s = suf"

definition trim_suffix :: "string \<Rightarrow> string \<Rightarrow> string" where
  "trim_suffix s suf = (if has_suffix s suf then take (length s - length suf) s else s)"

definition trim_left :: "string \<Rightarrow> char list \<Rightarrow> string" where
  "trim_left s cutset = dropWhile (\<lambda>c. c \<in> set cutset) s"

definition trim_right :: "string \<Rightarrow> char list \<Rightarrow> string" where
  "trim_right s cutset = rev (dropWhile (\<lambda>c. c \<in> set cutset) (rev s))"

definition to_lower_char :: "char \<Rightarrow> char" where
  "to_lower_char c =
     (if 65 \<le> (of_char c :: nat) \<and> (of_char c :: nat) \<le> 90 then char_of ((of_char c :: nat) + 32) else c)"

definition to_lower :: "string \<Rightarrow> string" where
  "to_lower s = map to_lower_char s"

text \<open>\<^verbatim>\<open>filepath.Ext\<close>: the suffix that starts at the final dot of the last path element.\<close>

definition filepath_ext :: "string \<Rightarrow> string" where
  "filepath_ext s =
     (let r = takeWhile (\<lambda>c. c \<noteq> CHR ''.'' \<and> c \<noteq> CHR ''/'') (rev s) in
      if length r < length s \<and> rev s ! length r = CHR ''.'' then CHR ''.'' # rev r else [])"

section \<open>Calls that may not return\<close>

text \<open>A call returns, blocks forever (it waits for a lock its own goroutine holds), or panics.\<close>

datatype 'a outcome = Returns 'a | Blocks | Panics

fun and_then :: "'a outcome \<Rightarrow> ('a \<Rightarrow> 'b outcome) \<Rightarrow> 'b outcome" where
  "and_then (Returns x) f = f x"
| "and_then Blocks f = Blocks"
| "and_then Panics f = Panics"

text \<open>The state of a \<^verbatim>\<open>sync.RWMutex\<close> as the goroutine that runs an operation sees it.\<close>

datatype rwmutex = Unlocked | WriteLocked

section \<open>Lemmas\<close>

lemma to_int64_id [int64_simps]: "in_int64 x \<Longrightarrow> to_int64 x = x"
  by (simp add: to_int64_def in_int64_def min_int64_def max_int64_def)

lemma to_int64_range: "in_int64 (to_int64 x)"
  by (simp add: to_int64_def in_int64_def min_int64_def max_int64_def)

lemma time_sub_range: "in_int64 (time_sub t u)"
  by (auto simp: time_sub_def in_int64_def min_int64_def max_int64_def)

lemma time_sub_pos_iff: "0 < time_sub t u \<longleftrightarrow> u < t"
  by (auto simp: time_sub_def min_int64_def max_int64_def)

lemma distinct_map_eqD: "distinct (map f xs) \<Longrightarrow> x \<in> set xs \<Longrightarrow> y \<in> set xs \<Longrightarrow> f x = f y \<Longrightarrow> x = y"
  by (simp add: distinct_map inj_on_def)

lemma gm_wf_empty [simp]: "gm_wf []"
  by (simp add: gm_wf_def)

lemma gm_wf_update [simp]: "gm_wf m \<Longrightarrow> gm_wf (AList.update k v m)"
  by (simp add: gm_wf_def distinct_update)

lemma gm_wf_delete [simp]: "gm_wf m \<Longrightarrow> gm_wf (AList.delete k m)"
  by (simp add: gm_wf_def distinct_delete)

lemma gm_update [gomap_simps]: "map_of (AList.update k v m) = (map_of m)(k \<mapsto> v)"
  by (rule update_conv')

lemma gm_delete [gomap_simps]: "map_of (AList.delete k m) = (map_of m)(k := None)"
  by (rule delete_conv')

lemma map_of_Some_iff: "gm_wf m \<Longrightarrow> map_of m k = Some v \<longleftrightarrow> (k, v) \<in> set m"
  by (simp add: gm_wf_def)

lemma map_of_filter_key:
  "gm_wf m \<Longrightarrow> map_of (filter P m) k =
     (case map_of m k of Some v \<Rightarrow> if P (k, v) then Some v else None | None \<Rightarrow> None)"
  by (induction m) (auto simp: gm_wf_def dom_map_of_conv_image_fst map_of_eq_None_iff split: option.splits)

lemma gm_wf_filter [simp]: "gm_wf m \<Longrightarrow> gm_wf (filter P m)"
  by (induction m) (auto simp: gm_wf_def)

lemma trim_right_snoc_in: "c \<in> set cs \<Longrightarrow> trim_right (s @ [c]) cs = trim_right s cs"
  by (simp add: trim_right_def)

lemma trim_right_snoc_notin: "c \<notin> set cs \<Longrightarrow> trim_right (s @ [c]) cs = s @ [c]"
  by (simp add: trim_right_def)

lemma trim_right_Nil [simp]: "trim_right [] cs = []"
  by (simp add: trim_right_def)

lemma has_suffix_append [simp]: "has_suffix (s @ suf) suf"
  by (simp add: has_suffix_def)

lemma trim_suffix_append [simp]: "trim_suffix (s @ suf) suf = s"
  by (simp add: trim_suffix_def)

lemma in_updateD: "(k, v) \<in> set (AList.update k' v' m) \<Longrightarrow> (k = k' \<and> v = v') \<or> (k, v) \<in> set m"
  by (induction m) (auto split: if_splits)

end
