(* ===== verification/Circuit_Interface.thy ===== *)
theory Circuit_Interface
  imports Go_Prelude
begin

text \<open>
  What the two circuit breakers of the program share (\<^verbatim>\<open>watchdog/circuit_breaker.go\<close> and
  \<^verbatim>\<open>export/circuit_breaker.go\<close>): the three states, and the contract a guarded caller relies
  on, as the locale \<open>circuit_breaker\<close>. A caller that asks before it acts and then records the
  outcome makes an \<open>attempt\<close>; \<open>attempts\<close> is a sequence of them. Every clock reading of
  an operation is an argument of it, so an operation that reads the clock twice takes two.
\<close>

section \<open>States and guarded attempts\<close>

datatype circuit_state = CircuitClosed | CircuitOpen | CircuitHalfOpen

text \<open>The clock readings of one attempt and whether the guarded operation succeeds.\<close>

record attempt_input =
  at_check :: time
  at_half_open :: time
  at_open1 :: time
  at_open2 :: time
  at_close :: time
  succeeds :: bool

fun attempt :: "('cb \<Rightarrow> time \<Rightarrow> time \<Rightarrow> 'cb \<times> bool) \<Rightarrow> ('cb \<Rightarrow> time \<Rightarrow> 'cb) \<Rightarrow>
    ('cb \<Rightarrow> time \<Rightarrow> time \<Rightarrow> 'cb) \<Rightarrow> 'cb \<Rightarrow> attempt_input \<Rightarrow> 'cb \<times> bool" where
  "attempt allow success failure cb i =
     (case allow cb (at_check i) (at_half_open i) of
        (cb1, False) \<Rightarrow> (cb1, False)
      | (cb1, True) \<Rightarrow>
          (if succeeds i then (success cb1 (at_close i), True)
           else (failure cb1 (at_open1 i) (at_open2 i), True)))"

fun attempts :: "('cb \<Rightarrow> time \<Rightarrow> time \<Rightarrow> 'cb \<times> bool) \<Rightarrow> ('cb \<Rightarrow> time \<Rightarrow> 'cb) \<Rightarrow>
    ('cb \<Rightarrow> time \<Rightarrow> time \<Rightarrow> 'cb) \<Rightarrow> 'cb \<Rightarrow> attempt_input list \<Rightarrow> 'cb \<times> bool list" where
  "attempts allow success failure cb [] = (cb, [])"
| "attempts allow success failure cb (i # is) =
     (let (cb1, b) = attempt allow success failure cb i;
          (cb2, bs) = attempts allow success failure cb1 is
      in (cb2, b # bs))"

lemma attempts_Cons:
  "attempts a s f cb (i # is) =
     (fst (attempts a s f (fst (attempt a s f cb i)) is),
      snd (attempt a s f cb i) # snd (attempts a s f (fst (attempt a s f cb i)) is))"
  by (simp add: Let_def split: prod.split del: attempt.simps)

lemma attempts_preserve:
  assumes "\<And>cb i. g (fst (attempt a s f cb i)) = g cb"
  shows "g (fst (attempts a s f cb is)) = g cb"
proof (induction "is" arbitrary: cb)
  case Nil
  show ?case by simp
next
  case (Cons i "is")
  show ?case by (simp only: attempts_Cons fst_conv Cons.IH assms)
qed

section \<open>The contract\<close>

locale circuit_breaker =
  fixes allow :: "'cb \<Rightarrow> time \<Rightarrow> time \<Rightarrow> 'cb \<times> bool"
    and success :: "'cb \<Rightarrow> time \<Rightarrow> 'cb"
    and failure :: "'cb \<Rightarrow> time \<Rightarrow> time \<Rightarrow> 'cb"
    and enabled :: "'cb \<Rightarrow> bool"
    and state_of :: "'cb \<Rightarrow> circuit_state"
    and failures_of :: "'cb \<Rightarrow> int"
    and successes_of :: "'cb \<Rightarrow> int"
    and open_until :: "'cb \<Rightarrow> time"
    and failure_threshold :: "'cb \<Rightarrow> int"
    and success_threshold :: "'cb \<Rightarrow> int"
    and reset_timeout :: "'cb \<Rightarrow> duration"
  assumes disabled_allow: "\<not> enabled cb \<Longrightarrow> allow cb t u = (cb, True)"
    and disabled_success: "\<not> enabled cb \<Longrightarrow> success cb t = cb"
    and disabled_failure: "\<not> enabled cb \<Longrightarrow> failure cb t u = cb"
    and closed_allow: "enabled cb \<Longrightarrow> state_of cb = CircuitClosed \<Longrightarrow> allow cb t u = (cb, True)"
    and half_allow: "enabled cb \<Longrightarrow> state_of cb = CircuitHalfOpen \<Longrightarrow>
          allow cb t u = (cb, successes_of cb = 0)"
    and open_allow_early: "enabled cb \<Longrightarrow> state_of cb = CircuitOpen \<Longrightarrow> t \<le> open_until cb \<Longrightarrow>
          allow cb t u = (cb, False)"
    and open_allow_late: "enabled cb \<Longrightarrow> state_of cb = CircuitOpen \<Longrightarrow> open_until cb < t \<Longrightarrow>
          snd (allow cb t u) \<and> state_of (fst (allow cb t u)) = CircuitHalfOpen \<and>
          successes_of (fst (allow cb t u)) = 0"
    and closed_success: "enabled cb \<Longrightarrow> state_of cb = CircuitClosed \<Longrightarrow>
          state_of (success cb t) = CircuitClosed \<and> failures_of (success cb t) = 0"
    and closed_failure: "enabled cb \<Longrightarrow> state_of cb = CircuitClosed \<Longrightarrow>
          failures_of (failure cb t u) = to_int64 (failures_of cb + 1) \<and>
          state_of (failure cb t u) =
            (if failure_threshold cb \<le> to_int64 (failures_of cb + 1) then CircuitOpen else CircuitClosed) \<and>
          (failure_threshold cb \<le> to_int64 (failures_of cb + 1) \<longrightarrow>
             open_until (failure cb t u) = t + reset_timeout cb)"
    and half_success: "enabled cb \<Longrightarrow> state_of cb = CircuitHalfOpen \<Longrightarrow>
          state_of (success cb t) =
            (if success_threshold cb \<le> to_int64 (successes_of cb + 1) then CircuitClosed else CircuitHalfOpen) \<and>
          (to_int64 (successes_of cb + 1) < success_threshold cb \<longrightarrow>
             successes_of (success cb t) = to_int64 (successes_of cb + 1))"
    and half_failure: "enabled cb \<Longrightarrow> state_of cb = CircuitHalfOpen \<Longrightarrow>
          state_of (failure cb t u) = CircuitOpen \<and> open_until (failure cb t u) = t + reset_timeout cb"
    and failure_config: "enabled (failure cb t u) = enabled cb \<and>
          failure_threshold (failure cb t u) = failure_threshold cb \<and>
          reset_timeout (failure cb t u) = reset_timeout cb"
begin

text \<open>A half-open breaker that has seen a success but not enough of them rejects every attempt and
  never changes again.\<close>

lemma half_open_stuck:
  assumes "enabled cb" "state_of cb = CircuitHalfOpen" "successes_of cb \<noteq> 0"
  shows "attempts allow success failure cb is = (cb, replicate (length is) False)"
proof (induction "is")
  case Nil
  then show ?case by simp
next
  case (Cons i "is")
  have "attempt allow success failure cb i = (cb, False)"
    using assms by (simp add: half_allow)
  with Cons.IH show ?case by simp
qed

text \<open>An open breaker rejects, unchanged, every attempt made before its timeout.\<close>

lemma open_rejects:
  assumes "enabled cb" "state_of cb = CircuitOpen" "\<forall>i \<in> set is. at_check i \<le> open_until cb"
  shows "attempts allow success failure cb is = (cb, replicate (length is) False)"
  using assms(3)
proof (induction "is")
  case Nil
  then show ?case by simp
next
  case (Cons i "is")
  then have "attempt allow success failure cb i = (cb, False)"
    using assms by (simp add: open_allow_early)
  with Cons show ?case by simp
qed

text \<open>Consecutive failures open a closed breaker when, and not before, they reach the threshold.\<close>

lemma closed_failures_open:
  assumes "enabled cb" "state_of cb = CircuitClosed" "failures_of cb = 0"
    and "0 < failure_threshold cb" "failure_threshold cb \<le> max_int64"
    and "\<forall>i \<in> set is. \<not> succeeds i" "int (length is) < failure_threshold cb"
  shows "state_of (fst (attempts allow success failure cb is)) = CircuitClosed \<and>
    failures_of (fst (attempts allow success failure cb is)) = int (length is) \<and>
    snd (attempts allow success failure cb is) = replicate (length is) True"
proof -
  have step: "state_of (fst (attempts allow success failure c is)) = CircuitClosed \<and>
      failures_of (fst (attempts allow success failure c is)) = failures_of c + int (length is) \<and>
      snd (attempts allow success failure c is) = replicate (length is) True"
    if "enabled c" "state_of c = CircuitClosed" "0 \<le> failures_of c"
      "failures_of c + int (length is) < failure_threshold c" "failure_threshold c \<le> max_int64"
      "\<forall>i \<in> set is. \<not> succeeds i" for c
    using that
  proof (induction "is" arbitrary: c)
    case Nil
    then show ?case by simp
  next
    case (Cons i "is")
    let ?c = "failure c (at_open1 i) (at_open2 i)"
    have "to_int64 (failures_of c + 1) = failures_of c + 1"
      using Cons.prems by (intro to_int64_id) (simp add: in_int64_def min_int64_def max_int64_def)
    then have c: "state_of ?c = CircuitClosed" "failures_of ?c = failures_of c + 1"
      using closed_failure [OF Cons.prems(1,2), of "at_open1 i" "at_open2 i"] Cons.prems(4)
      by auto
    have att: "attempt allow success failure c i = (?c, True)"
      using Cons.prems by (simp add: closed_allow)
    have "state_of (fst (attempts allow success failure ?c is)) = CircuitClosed \<and>
      failures_of (fst (attempts allow success failure ?c is)) = failures_of ?c + int (length is) \<and>
      snd (attempts allow success failure ?c is) = replicate (length is) True"
      by (rule Cons.IH) (use Cons.prems c failure_config [of c "at_open1 i" "at_open2 i"] in auto)
    with c att show ?case by (auto simp: Let_def split: prod.splits)
  qed
  show ?thesis using step [of cb] assms by simp
qed

end

end
