(* ===== verification/Watchdog_Breaker.thy ===== *)
theory Watchdog_Breaker
  imports Circuit_Interface
begin

text \<open>
  The circuit breaker of \<^verbatim>\<open>watchdog/circuit_breaker.go\<close>, operation by operation. Each
  operation holds the breaker's mutex for its whole body, so it is one atomic step; \<open>cb_step\<close>
  is the step relation over them and \<open>cb_reachable\<close> the states that some interleaving of
  callers can produce. \<open>notified\<close> records the listener goroutines an operation starts, in
  order. The \<^verbatim>\<open>default\<close> branches of the source's switches are unreachable: no operation
  stores a state other than the three constants.
\<close>

section \<open>The breaker\<close>

record CircuitBreakerConfig =
  Enabled :: bool
  FailureThreshold :: int
  ResetTimeout :: duration
  HalfOpenSuccessThreshold :: int

record CircuitBreaker =
  cb_name :: string
  cb_config :: CircuitBreakerConfig
  cb_state :: circuit_state
  failures :: int
  successesInHalfOpen :: int
  lastStateChangeTime :: time
  openUntil :: time
  listeners :: "nat list"
  notified :: "(nat \<times> string \<times> circuit_state \<times> circuit_state) list"

fun CircuitState_String :: "circuit_state \<Rightarrow> string" where
  "CircuitState_String CircuitClosed = ''Closed''"
| "CircuitState_String CircuitOpen = ''Open''"
| "CircuitState_String CircuitHalfOpen = ''HalfOpen''"

definition NewCircuitBreaker :: "string \<Rightarrow> CircuitBreakerConfig \<Rightarrow> time \<Rightarrow> CircuitBreaker" where
  "NewCircuitBreaker n cfg now =
     \<lparr>cb_name = n, cb_config = cfg, cb_state = CircuitClosed, failures = 0, successesInHalfOpen = 0,
      lastStateChangeTime = now, openUntil = zero_time, listeners = [], notified = []\<rparr>"

definition AddStateChangeListener :: "CircuitBreaker \<Rightarrow> nat \<Rightarrow> CircuitBreaker" where
  "AddStateChangeListener cb l = cb\<lparr>listeners := listeners cb @ [l]\<rparr>"

definition notifyStateChange :: "CircuitBreaker \<Rightarrow> circuit_state \<Rightarrow> circuit_state \<Rightarrow> CircuitBreaker" where
  "notifyStateChange cb oldState newState =
     cb\<lparr>notified := notified cb @ map (\<lambda>l. (l, cb_name cb, oldState, newState)) (listeners cb)\<rparr>"

definition toOpen :: "CircuitBreaker \<Rightarrow> time \<Rightarrow> time \<Rightarrow> CircuitBreaker" where
  "toOpen cb now now2 =
     (let oldState = cb_state cb in
      if cb_state cb \<noteq> CircuitOpen then
        notifyStateChange
          (cb\<lparr>cb_state := CircuitOpen, openUntil := now + ResetTimeout (cb_config cb),
              lastStateChangeTime := now2\<rparr>) oldState CircuitOpen
      else cb)"

definition toHalfOpen :: "CircuitBreaker \<Rightarrow> time \<Rightarrow> CircuitBreaker" where
  "toHalfOpen cb now =
     (let oldState = cb_state cb in
      if cb_state cb \<noteq> CircuitHalfOpen then
        notifyStateChange
          (cb\<lparr>cb_state := CircuitHalfOpen, successesInHalfOpen := 0, lastStateChangeTime := now\<rparr>)
          oldState CircuitHalfOpen
      else cb)"

definition toClosed :: "CircuitBreaker \<Rightarrow> time \<Rightarrow> CircuitBreaker" where
  "toClosed cb now =
     (let oldState = cb_state cb in
      if cb_state cb \<noteq> CircuitClosed then
        notifyStateChange
          (cb\<lparr>cb_state := CircuitClosed, failures := 0, successesInHalfOpen := 0,
              lastStateChangeTime := now\<rparr>) oldState CircuitClosed
      else cb)"

definition AllowOperation :: "CircuitBreaker \<Rightarrow> time \<Rightarrow> time \<Rightarrow> CircuitBreaker \<times> bool" where
  "AllowOperation cb now now2 =
     (if \<not> Enabled (cb_config cb) then (cb, True)
      else case cb_state cb of
             CircuitClosed \<Rightarrow> (cb, True)
           | CircuitOpen \<Rightarrow> if openUntil cb < now then (toHalfOpen cb now2, True) else (cb, False)
           | CircuitHalfOpen \<Rightarrow> (cb, successesInHalfOpen cb = 0))"

definition RecordSuccess :: "CircuitBreaker \<Rightarrow> time \<Rightarrow> CircuitBreaker" where
  "RecordSuccess cb now =
     (if \<not> Enabled (cb_config cb) then cb
      else case cb_state cb of
             CircuitClosed \<Rightarrow> cb\<lparr>failures := 0\<rparr>
           | CircuitHalfOpen \<Rightarrow>
               (let cb1 = cb\<lparr>successesInHalfOpen := to_int64 (successesInHalfOpen cb + 1)\<rparr> in
                if HalfOpenSuccessThreshold (cb_config cb) \<le> successesInHalfOpen cb1
                then toClosed cb1 now else cb1)
           | CircuitOpen \<Rightarrow> cb)"

definition RecordFailure :: "CircuitBreaker \<Rightarrow> time \<Rightarrow> time \<Rightarrow> CircuitBreaker" where
  "RecordFailure cb now now2 =
     (if \<not> Enabled (cb_config cb) then cb
      else case cb_state cb of
             CircuitClosed \<Rightarrow>
               (let cb1 = cb\<lparr>failures := to_int64 (failures cb + 1)\<rparr> in
                if FailureThreshold (cb_config cb) \<le> failures cb1 then toOpen cb1 now now2 else cb1)
           | CircuitHalfOpen \<Rightarrow> toOpen cb now now2
           | CircuitOpen \<Rightarrow> cb)"

record CircuitBreakerStatus =
  st_State :: circuit_state
  st_Failures :: int
  st_SuccessesInHalfOpen :: int
  st_LastStateChangeTime :: time
  st_OpenUntil :: time

definition Status :: "CircuitBreaker \<Rightarrow> CircuitBreakerStatus" where
  "Status cb =
     \<lparr>st_State = cb_state cb, st_Failures = failures cb,
      st_SuccessesInHalfOpen = successesInHalfOpen cb,
      st_LastStateChangeTime = lastStateChangeTime cb, st_OpenUntil = openUntil cb\<rparr>"

definition cb_Reset :: "CircuitBreaker \<Rightarrow> time \<Rightarrow> CircuitBreaker" where
  "cb_Reset cb now = toClosed cb now"

section \<open>Steps and reachable states\<close>

inductive cb_step :: "CircuitBreaker \<Rightarrow> CircuitBreaker \<Rightarrow> bool" where
  step_listen: "cb_step cb (AddStateChangeListener cb l)"
| step_allow: "cb_step cb (fst (AllowOperation cb now now2))"
| step_success: "cb_step cb (RecordSuccess cb now)"
| step_failure: "cb_step cb (RecordFailure cb now now2)"
| step_reset: "cb_step cb (cb_Reset cb now)"

inductive_cases cb_stepE: "cb_step cb cb'"

inductive cb_reachable :: "CircuitBreakerConfig \<Rightarrow> CircuitBreaker \<Rightarrow> bool" for cfg where
  reach_new: "cb_reachable cfg (NewCircuitBreaker n cfg now)"
| reach_step: "cb_reachable cfg cb \<Longrightarrow> cb_step cb cb' \<Longrightarrow> cb_reachable cfg cb'"

definition cb_inv :: "CircuitBreakerConfig \<Rightarrow> CircuitBreaker \<Rightarrow> bool" where
  "cb_inv cfg cb \<longleftrightarrow> cb_config cb = cfg \<and> 0 \<le> failures cb \<and> 0 \<le> successesInHalfOpen cb \<and>
     (cb_state cb = CircuitClosed \<longrightarrow> failures cb < FailureThreshold cfg) \<and>
     (cb_state cb = CircuitHalfOpen \<longrightarrow> successesInHalfOpen cb < HalfOpenSuccessThreshold cfg) \<and>
     failures cb \<le> FailureThreshold cfg \<and> successesInHalfOpen cb \<le> HalfOpenSuccessThreshold cfg"

definition legal_change :: "circuit_state \<Rightarrow> circuit_state \<Rightarrow> bool" where
  "legal_change old new \<longleftrightarrow>
     (old, new) \<in> {(CircuitClosed, CircuitOpen), (CircuitOpen, CircuitHalfOpen),
       (CircuitHalfOpen, CircuitOpen), (CircuitHalfOpen, CircuitClosed), (CircuitOpen, CircuitClosed)}"

definition example_cfg :: CircuitBreakerConfig where
  "example_cfg = \<lparr>Enabled = True, FailureThreshold = 2, ResetTimeout = 30 * second,
     HalfOpenSuccessThreshold = 2\<rparr>"

definition example_attempt :: "bool \<Rightarrow> attempt_input" where
  "example_attempt ok = \<lparr>at_check = 10, at_half_open = 10, at_open1 = 11, at_open2 = 12, at_close = 12,
     succeeds = ok\<rparr>"

section \<open>Lemmas\<close>

lemmas cb_op_defs = AllowOperation_def RecordSuccess_def RecordFailure_def cb_Reset_def toOpen_def
  toHalfOpen_def toClosed_def notifyStateChange_def AddStateChangeListener_def Let_def

interpretation wd: circuit_breaker AllowOperation RecordSuccess RecordFailure "\<lambda>cb. Enabled (cb_config cb)"
    cb_state failures successesInHalfOpen openUntil "\<lambda>cb. FailureThreshold (cb_config cb)"
    "\<lambda>cb. HalfOpenSuccessThreshold (cb_config cb)" "\<lambda>cb. ResetTimeout (cb_config cb)"
  by unfold_locales (auto simp: cb_op_defs split: circuit_state.splits)

lemma cb_step_inv:
  assumes "cb_step cb cb'" "cb_inv cfg cb" "0 < FailureThreshold cfg" "0 < HalfOpenSuccessThreshold cfg"
    and "FailureThreshold cfg \<le> max_int64" "HalfOpenSuccessThreshold cfg \<le> max_int64"
  shows "cb_inv cfg cb'"
proof -
  have wrap_f: "cb_state cb = CircuitClosed \<Longrightarrow> to_int64 (failures cb + 1) = failures cb + 1"
    and wrap_s: "cb_state cb = CircuitHalfOpen \<Longrightarrow> to_int64 (successesInHalfOpen cb + 1) = successesInHalfOpen cb + 1"
    using assms(2,5,6)
    by (auto intro!: to_int64_id simp: cb_inv_def in_int64_def min_int64_def max_int64_def)
  from assms(1) show ?thesis
  proof (cases rule: cb_step.cases)
    case (step_success now)
    then show ?thesis
      using assms(2-4) wrap_s by (cases "cb_state cb") (auto simp: cb_inv_def cb_op_defs)
  next
    case (step_failure now now2)
    then show ?thesis
      using assms(2-4) wrap_f by (cases "cb_state cb") (auto simp: cb_inv_def cb_op_defs)
  qed (use assms(2-4) in \<open>auto simp: cb_inv_def cb_op_defs split: circuit_state.splits\<close>)
qed

lemma cb_step_legal: "cb_step cb cb' \<Longrightarrow> cb_state cb' \<noteq> cb_state cb \<Longrightarrow> legal_change (cb_state cb) (cb_state cb')"
  by (erule cb_stepE; cases "cb_state cb")
    (auto simp: cb_op_defs legal_change_def split: if_splits)

lemma cb_step_notifies:
  "cb_step cb cb' \<Longrightarrow> cb_state cb' \<noteq> cb_state cb \<Longrightarrow>
   notified cb' = notified cb @ map (\<lambda>l. (l, cb_name cb, cb_state cb, cb_state cb')) (listeners cb)"
  by (erule cb_stepE) (auto simp: cb_op_defs split: circuit_state.splits if_splits)

lemma cb_op_config:
  "cb_config (fst (AllowOperation cb t u)) = cb_config cb"
  "cb_config (RecordSuccess cb t) = cb_config cb"
  "cb_config (RecordFailure cb t u) = cb_config cb"
  by (auto simp: cb_op_defs split: circuit_state.splits)

lemma attempts_config:
  "cb_config (fst (attempts AllowOperation RecordSuccess RecordFailure cb is)) = cb_config cb"
proof (rule attempts_preserve)
  fix cb i
  show "cb_config (fst (attempt AllowOperation RecordSuccess RecordFailure cb i)) = cb_config cb"
    using cb_op_config(1) [of cb "at_check i" "at_half_open i"]
    by (cases "AllowOperation cb (at_check i) (at_half_open i)")
      (auto simp: cb_op_config split: bool.splits)
qed

section \<open>Properties\<close>

text \<open>
  C18. In every state the breaker can reach, a closed breaker has fewer failures than its threshold
  and a half-open one fewer successes than its threshold, and its configuration is unchanged.
\<close>

theorem cb_reachable_inv:
  assumes "cb_reachable cfg cb" "0 < FailureThreshold cfg" "0 < HalfOpenSuccessThreshold cfg"
    and "FailureThreshold cfg \<le> max_int64" "HalfOpenSuccessThreshold cfg \<le> max_int64"
  shows "cb_inv cfg cb"
  using assms(1)
proof (induction rule: cb_reachable.induct)
  case (reach_new n now)
  then show ?case using assms(2,3) by (simp add: cb_inv_def NewCircuitBreaker_def)
next
  case (reach_step cb cb')
  from cb_step_inv [OF reach_step.hyps(2) reach_step.IH assms(2-5)] show ?case .
qed

theorem cb_reachable_inv_witness:
  "cb_inv example_cfg (RecordFailure (NewCircuitBreaker ''sampler'' example_cfg 1) 5 6)"
proof (rule cb_reachable_inv)
  show "cb_reachable example_cfg (RecordFailure (NewCircuitBreaker ''sampler'' example_cfg 1) 5 6)"
    by (rule reach_step [OF reach_new step_failure])
qed (simp_all add: example_cfg_def max_int64_def)

text \<open>
  Every state change a step makes is one of the five of the circuit-breaker pattern, and it
  starts exactly one notification for each registered listener, in their order, with the old and
  the new state; a step that changes no state starts none.
\<close>

lemma cb_step_changes:
  assumes "cb_step cb cb'"
  shows "if cb_state cb' = cb_state cb then notified cb' = notified cb
    else legal_change (cb_state cb) (cb_state cb') \<and>
      notified cb' = notified cb @ map (\<lambda>l. (l, cb_name cb, cb_state cb, cb_state cb')) (listeners cb)"
proof (cases "cb_state cb' = cb_state cb")
  case True
  with assms have "notified cb' = notified cb"
    by (elim cb_stepE) (auto simp: cb_op_defs split: circuit_state.splits if_splits)
  with True show ?thesis by simp
next
  case False
  with cb_step_legal [OF assms] cb_step_notifies [OF assms] show ?thesis by simp
qed

text \<open>
  C12. A new, enabled breaker lets every operation through until as many consecutive ones have failed
  as its threshold says; that last failure opens it, and from then until the reset timeout has
  passed it rejects every operation.
\<close>

theorem breaker_opens_at_threshold:
  assumes "Enabled cfg" "0 < FailureThreshold cfg" "FailureThreshold cfg \<le> max_int64"
    and "\<forall>i \<in> set is. \<not> succeeds i" "int (length is) + 1 = FailureThreshold cfg" "\<not> succeeds j"
    and "\<forall>k \<in> set ks. at_check k \<le> at_open1 j + ResetTimeout cfg"
  shows "let (cb, bs) = attempts AllowOperation RecordSuccess RecordFailure (NewCircuitBreaker n cfg now) is;
             (cb', b) = attempt AllowOperation RecordSuccess RecordFailure cb j
         in cb_state cb = CircuitClosed \<and> bs = replicate (length is) True \<and> b \<and>
            cb_state cb' = CircuitOpen \<and>
            attempts AllowOperation RecordSuccess RecordFailure cb' ks = (cb', replicate (length ks) False)"
proof -
  let ?new = "NewCircuitBreaker n cfg now"
  obtain cb bs where run: "attempts AllowOperation RecordSuccess RecordFailure ?new is = (cb, bs)"
    by (cases "attempts AllowOperation RecordSuccess RecordFailure ?new is")
  have closed: "cb_state cb = CircuitClosed" "failures cb = int (length is)" "bs = replicate (length is) True"
    using wd.closed_failures_open [of ?new "is"] assms run
    by (auto simp: NewCircuitBreaker_def)
  have cfg: "cb_config cb = cfg"
    using attempts_config [of ?new "is"] run by (simp add: NewCircuitBreaker_def)
  let ?cb = "RecordFailure cb (at_open1 j) (at_open2 j)"
  have att: "attempt AllowOperation RecordSuccess RecordFailure cb j = (?cb, True)"
    using closed cfg assms by (simp add: wd.closed_allow)
  have "to_int64 (failures cb + 1) = FailureThreshold cfg"
    using closed(2) assms(2,3,5)
    by (subst to_int64_id) (auto simp: in_int64_def min_int64_def max_int64_def)
  then have op: "cb_state ?cb = CircuitOpen" "openUntil ?cb = at_open1 j + ResetTimeout cfg"
      "cb_config ?cb = cfg"
    using closed cfg assms(1) by (auto simp: cb_op_defs)
  have "attempts AllowOperation RecordSuccess RecordFailure ?cb ks = (?cb, replicate (length ks) False)"
    using op assms(1,7) by (intro wd.open_rejects) auto
  with run att closed op show ?thesis by simp
qed


theorem breaker_opens_at_threshold_witness:
  "let (cb, bs) = attempts AllowOperation RecordSuccess RecordFailure
                    (NewCircuitBreaker ''sampler'' example_cfg 1) [example_attempt False];
       (cb', b) = attempt AllowOperation RecordSuccess RecordFailure cb (example_attempt False)
   in cb_state cb = CircuitClosed \<and> bs = replicate (length [example_attempt False]) True \<and> b \<and>
      cb_state cb' = CircuitOpen \<and>
      attempts AllowOperation RecordSuccess RecordFailure cb' [example_attempt True] =
        (cb', replicate (length [example_attempt True]) False)"
  by (rule breaker_opens_at_threshold)
    (simp_all add: example_cfg_def example_attempt_def max_int64_def second_def)

text \<open>
  C19. With a success threshold above one, the first success in the half-open state leaves an enabled
  breaker half-open for good: it rejects every later guarded operation and its state never changes
  again, whatever their times and outcomes.
\<close>

theorem breaker_stuck_half_open:
  assumes "Enabled (cb_config cb)" "cb_state cb = CircuitHalfOpen" "successesInHalfOpen cb = 0"
    and "2 \<le> HalfOpenSuccessThreshold (cb_config cb)" "succeeds i"
  shows "let (cb', b) = attempt AllowOperation RecordSuccess RecordFailure cb i in
    b \<and> cb_state cb' = CircuitHalfOpen \<and>
    attempts AllowOperation RecordSuccess RecordFailure cb' is = (cb', replicate (length is) False)"
proof -
  let ?cb = "RecordSuccess cb (at_close i)"
  have one: "to_int64 1 = 1" by (simp add: to_int64_def)
  have att: "attempt AllowOperation RecordSuccess RecordFailure cb i = (?cb, True)"
    using assms by (simp add: wd.half_allow)
  have half: "cb_state ?cb = CircuitHalfOpen" "successesInHalfOpen ?cb = 1"
    using wd.half_success [OF assms(1,2), of "at_close i"] assms(3,4) one by auto
  have "attempts AllowOperation RecordSuccess RecordFailure ?cb is = (?cb, replicate (length is) False)"
    using half assms(1) by (intro wd.half_open_stuck) (simp_all add: cb_op_config)
  with att half show ?thesis by simp
qed

theorem breaker_stuck_half_open_witness:
  "let (cb', b) = attempt AllowOperation RecordSuccess RecordFailure
         ((NewCircuitBreaker ''sampler'' example_cfg 1)\<lparr>cb_state := CircuitHalfOpen\<rparr>) (example_attempt True)
   in b \<and> cb_state cb' = CircuitHalfOpen \<and>
      attempts AllowOperation RecordSuccess RecordFailure cb' [example_attempt True, example_attempt False] =
        (cb', replicate (length [example_attempt True, example_attempt False]) False)"
  by (rule breaker_stuck_half_open)
    (simp_all add: example_cfg_def example_attempt_def NewCircuitBreaker_def)

text \<open>\<^verbatim>\<open>Reset\<close> of a closed breaker changes nothing: the failures it has counted stay.\<close>

lemma Reset_closed_keeps_failures: "cb_state cb = CircuitClosed \<Longrightarrow> cb_Reset cb now = cb"
  by (simp add: cb_op_defs)

end
