(* ===== verification/Float64.thy ===== *)
theory Float64
  imports Go_Prelude "HOL-Library.Word"
begin

text \<open>
  Go's \<^verbatim>\<open>float64\<close> as its IEEE 754 bit pattern, with what the modelled packages observe of it
  without arithmetic: comparisons, infinities and not-a-number. The constants are those of
  \<^verbatim>\<open>math.Inf\<close>; \<open>f_key\<close> orders the numbers, with both zeros equal. The rounding of
  arithmetic, conversions and the functions of \<^verbatim>\<open>math\<close> depends on the platform (fused operations,
  assembly versions of \<^verbatim>\<open>math.Log\<close> and \<^verbatim>\<open>math.Exp\<close>, conversions out of range): it is
  the parameter \<open>fmath\<close>, and a theorem that needs a fact about it has that fact as a hypothesis.
\<close>

type_synonym float64 = "64 word"

definition f_sign :: "float64 \<Rightarrow> bool" where
  "f_sign x \<longleftrightarrow> 0x8000000000000000 \<le> x"

definition f_magnitude :: "float64 \<Rightarrow> int" where
  "f_magnitude x = uint x mod 0x8000000000000000"

definition f_inf :: float64 where
  "f_inf = 0x7FF0000000000000"

definition f_neg_inf :: float64 where
  "f_neg_inf = 0xFFF0000000000000"

definition f_nan :: "float64 \<Rightarrow> bool" where
  "f_nan x \<longleftrightarrow> 0x7FF0000000000000 < f_magnitude x"

definition f_key :: "float64 \<Rightarrow> int" where
  "f_key x = (if f_sign x then - f_magnitude x else f_magnitude x)"

definition f_less :: "float64 \<Rightarrow> float64 \<Rightarrow> bool" where
  "f_less x y \<longleftrightarrow> \<not> f_nan x \<and> \<not> f_nan y \<and> f_key x < f_key y"

definition f_le :: "float64 \<Rightarrow> float64 \<Rightarrow> bool" where
  "f_le x y \<longleftrightarrow> \<not> f_nan x \<and> \<not> f_nan y \<and> f_key x \<le> f_key y"

definition f_eq :: "float64 \<Rightarrow> float64 \<Rightarrow> bool" where
  "f_eq x y \<longleftrightarrow> \<not> f_nan x \<and> \<not> f_nan y \<and> f_key x = f_key y"

record fmath =
  fm_add :: "float64 \<Rightarrow> float64 \<Rightarrow> float64"
  fm_sub :: "float64 \<Rightarrow> float64 \<Rightarrow> float64"
  fm_mul :: "float64 \<Rightarrow> float64 \<Rightarrow> float64"
  fm_div :: "float64 \<Rightarrow> float64 \<Rightarrow> float64"
  fm_log :: "float64 \<Rightarrow> float64"
  fm_log1p :: "float64 \<Rightarrow> float64"
  fm_exp :: "float64 \<Rightarrow> float64"
  fm_ceil :: "float64 \<Rightarrow> float64"
  fm_of_int :: "int \<Rightarrow> float64"
  fm_of_u64 :: "64 word \<Rightarrow> float64"
  fm_to_int :: "float64 \<Rightarrow> int"
  fm_to_u64 :: "float64 \<Rightarrow> 64 word"

definition f_one :: float64 where
  "f_one = 0x3FF0000000000000"

lemma f_less_trans: "f_less x y \<Longrightarrow> f_less y z \<Longrightarrow> f_less x z"
  by (simp add: f_less_def)

lemma f_less_irrefl [simp]: "\<not> f_less x x"
  by (simp add: f_less_def)

lemma f_le_less_trans: "f_le x y \<Longrightarrow> f_less y z \<Longrightarrow> f_less x z"
  by (simp add: f_less_def f_le_def)

lemma f_le_trans: "f_le x y \<Longrightarrow> f_le y z \<Longrightarrow> f_le x z"
  by (simp add: f_le_def)

lemma f_not_less: "\<not> f_nan x \<Longrightarrow> \<not> f_nan y \<Longrightarrow> \<not> f_less x y \<longleftrightarrow> f_le y x"
  by (auto simp: f_less_def f_le_def)

lemma f_less_imp_le: "f_less x y \<Longrightarrow> f_le x y"
  by (simp add: f_less_def f_le_def)

lemma f_le_refl: "\<not> f_nan x \<Longrightarrow> f_le x x"
  by (simp add: f_le_def)

lemma f_less_inf: "\<not> f_nan x \<Longrightarrow> x \<noteq> f_inf \<Longrightarrow> f_less x f_inf"
proof -
  assume nan: "\<not> f_nan x" and ne: "x \<noteq> f_inf"
  have le: "f_magnitude x \<le> 0x7FF0000000000000" using nan by (simp add: f_nan_def)
  have "f_key x \<noteq> 0x7FF0000000000000"
  proof
    assume key: "f_key x = 0x7FF0000000000000"
    have "0 \<le> f_magnitude x" by (simp add: f_magnitude_def)
    with key have sgn: "\<not> f_sign x" by (auto simp: f_key_def split: if_splits)
    then have "x < 0x8000000000000000" by (simp add: f_sign_def)
    then have "uint x < 0x8000000000000000" by (simp add: word_less_def)
    with key sgn have "uint x = 0x7FF0000000000000" by (simp add: f_key_def f_magnitude_def)
    then have "x = f_inf" by (simp add: f_inf_def word_uint_eq_iff)
    with ne show False ..
  qed
  moreover have "f_key f_inf = 0x7FF0000000000000" "\<not> f_nan f_inf"
    by (simp_all add: f_key_def f_sign_def f_magnitude_def f_nan_def f_inf_def)
  moreover have "f_key x \<le> 0x7FF0000000000000"
  proof -
    have "0 \<le> f_magnitude x" by (simp add: f_magnitude_def)
    with le show ?thesis by (simp add: f_key_def)
  qed
  ultimately show ?thesis using nan by (simp add: f_less_def)
qed

end
