(* ===== verification/Watchdog_Config.thy ===== *)
theory Watchdog_Config
  imports Watchdog_Breaker Float64
begin

text \<open>
  The configuration of the watchdog: the records of \<^verbatim>\<open>watchdog/config.go\<close> with the default configuration and
  \<^verbatim>\<open>Validate\<close>, and the thresholds of \<^verbatim>\<open>watchdog/threshold.go\<close>. An error of
  \<^verbatim>\<open>Validate\<close> is a constructor that carries what its message names. \<open>watchdog_Validate_iff\<close> says what a
  configuration that passes guarantees, whatever the order in which its components are visited.
\<close>

section \<open>Thresholds\<close>

record CPUThreshold =
  ct_Global :: float64
  ct_Component :: float64

record MemoryThreshold =
  mt_Global :: float64
  mt_Component :: float64

record ResourceThresholds =
  th_MaxCPUPercent :: float64
  th_MaxMemoryMB :: int
  th_MaxGoroutines :: int
  th_MaxFileHandles :: int
  th_MaxGCPercent :: float64

record ThresholdConfig =
  tc_CPU :: CPUThreshold
  tc_Memory :: MemoryThreshold
  tc_Goroutines :: int
  tc_FileDescriptors :: int
  tc_GCPercent :: float64

definition NewThresholdConfig :: ThresholdConfig where
  "NewThresholdConfig =
     \<lparr>tc_CPU = \<lparr>ct_Global = 0x4054000000000000, ct_Component = 0x4051800000000000\<rparr>, tc_Memory = \<lparr>mt_Global = 0x408F400000000000, mt_Component = 0x4069000000000000\<rparr>,
      tc_Goroutines = 1000, tc_FileDescriptors = 1000, tc_GCPercent = 0x4024000000000000\<rparr>"

definition DefaultResourceThresholds :: ResourceThresholds where
  "DefaultResourceThresholds =
     \<lparr>th_MaxCPUPercent = 0x4051800000000000, th_MaxMemoryMB = 200, th_MaxGoroutines = 1000, th_MaxFileHandles = 1000, th_MaxGCPercent = 0x4024000000000000\<rparr>"

record ComponentMetrics =
  mx_LastResponseTime :: duration
  mx_GoroutineCount :: int
  mx_State :: string
  mx_HealthStatus :: string

section \<open>Configuration\<close>

record DegradationLevel =
  dl_Name :: string
  dl_CPUThresholdPercent :: float64
  dl_MemoryThresholdMB :: int
  dl_Actions :: "string list"
  dl_Description :: string

record DeadlockConfig =
  dd_Enabled :: bool
  dd_HeartbeatInterval :: duration
  dd_HeartbeatMissThreshold :: int
  dd_StackTraceEnabled :: bool
  dd_MaxOperationTime :: duration

record RestartConfig =
  rc_Enabled :: bool
  rc_GracefulShutdownTimeout :: duration
  rc_MaxRestartAttempts :: int
  rc_RestartBackoffInitial :: duration
  rc_RestartBackoffMax :: duration
  rc_RestartBackoffFactor :: float64

record DiagnosticConfig =
  dg_DetailLevel :: string
  dg_MaxEvents :: int
  dg_IncludeStackTraces :: bool
  dg_IncludeSystemMetrics :: bool

record ComponentConfig =
  wc_Enabled :: bool
  wc_MaxCPUPercent :: float64
  wc_MaxMemoryMB :: int
  wc_MaxFileDescriptors :: int
  wc_MaxGoroutines :: int
  wc_CircuitBreaker :: CircuitBreakerConfig
  wc_DegradationLevels :: "DegradationLevel list"

record Config =
  wd_Enabled :: bool
  wd_MonitoringInterval :: duration
  wd_ComponentConfigs :: "(string, ComponentConfig) gomap"
  wd_DeadlockDetection :: DeadlockConfig
  wd_RestartPolicy :: RestartConfig
  wd_DiagnosticCollection :: DiagnosticConfig

text \<open>The circuit breaker of each of the default components.\<close>

definition default_breaker :: CircuitBreakerConfig where
  "default_breaker = \<lparr>Enabled = True, FailureThreshold = 3, ResetTimeout = 30 * second, HalfOpenSuccessThreshold = 2\<rparr>"

definition watchdog_DefaultConfig :: Config where
  "watchdog_DefaultConfig =
     \<lparr>wd_Enabled = True, wd_MonitoringInterval = 15 * second,
      wd_ComponentConfigs =
       [
        (''collector'', \<lparr>wc_Enabled = True, wc_MaxCPUPercent = 0x3FE8000000000000, wc_MaxMemoryMB = 100, wc_MaxFileDescriptors = 100, wc_MaxGoroutines = 50,
          wc_CircuitBreaker = default_breaker,
          wc_DegradationLevels =
           [\<lparr>dl_Name = ''warning'', dl_CPUThresholdPercent = 0x3FE0000000000000, dl_MemoryThresholdMB = 75, dl_Actions = [''reduce_scan_frequency''],
              dl_Description = ''Reduce scan frequency to conserve resources''\<rparr>,
            \<lparr>dl_Name = ''critical'', dl_CPUThresholdPercent = 0x3FE6666666666666, dl_MemoryThresholdMB = 90, dl_Actions = [''reduce_scan_frequency'', ''filter_events''],
              dl_Description = ''Severely restrict operations to prevent resource exhaustion''\<rparr>]\<rparr>),
        (''sampler'', \<lparr>wc_Enabled = True, wc_MaxCPUPercent = 0x3FE0000000000000, wc_MaxMemoryMB = 50, wc_MaxFileDescriptors = 50, wc_MaxGoroutines = 25,
          wc_CircuitBreaker = default_breaker,
          wc_DegradationLevels =
           [\<lparr>dl_Name = ''warning'', dl_CPUThresholdPercent = 0x3FD3333333333333, dl_MemoryThresholdMB = 35, dl_Actions = [''reduce_sample_frequency''],
              dl_Description = ''Reduce sampling frequency to conserve resources''\<rparr>,
            \<lparr>dl_Name = ''critical'', dl_CPUThresholdPercent = 0x3FDCCCCCCCCCCCCD, dl_MemoryThresholdMB = 45, dl_Actions = [''reduce_sample_frequency'', ''reduce_tracked_processes''],
              dl_Description = ''Severely restrict sampling to prevent resource exhaustion''\<rparr>]\<rparr>),
        (''sketch'', \<lparr>wc_Enabled = True, wc_MaxCPUPercent = 0x3FD0000000000000, wc_MaxMemoryMB = 30, wc_MaxFileDescriptors = 20, wc_MaxGoroutines = 10,
          wc_CircuitBreaker = default_breaker,
          wc_DegradationLevels =
           [\<lparr>dl_Name = ''warning'', dl_CPUThresholdPercent = 0x3FC3333333333333, dl_MemoryThresholdMB = 20, dl_Actions = [''switch_to_dense_store''],
              dl_Description = ''Switch to dense store to reduce memory allocations''\<rparr>,
            \<lparr>dl_Name = ''critical'', dl_CPUThresholdPercent = 0x3FC999999999999A, dl_MemoryThresholdMB = 25, dl_Actions = [''switch_to_dense_store'', ''reduce_accuracy''],
              dl_Description = ''Reduce statistical accuracy to conserve resources''\<rparr>]\<rparr>),
        (''export'', \<lparr>wc_Enabled = True, wc_MaxCPUPercent = 0x3FE0000000000000, wc_MaxMemoryMB = 50, wc_MaxFileDescriptors = 100, wc_MaxGoroutines = 25,
          wc_CircuitBreaker = default_breaker,
          wc_DegradationLevels =
           [\<lparr>dl_Name = ''warning'', dl_CPUThresholdPercent = 0x3FD3333333333333, dl_MemoryThresholdMB = 35, dl_Actions = [''increase_batch_size''],
              dl_Description = ''Increase batch size to reduce overhead''\<rparr>,
            \<lparr>dl_Name = ''critical'', dl_CPUThresholdPercent = 0x3FDCCCCCCCCCCCCD, dl_MemoryThresholdMB = 45, dl_Actions = [''increase_batch_size'', ''reduce_export_frequency''],
              dl_Description = ''Reduce export frequency to conserve resources''\<rparr>]\<rparr>)],
      wd_DeadlockDetection =
        \<lparr>dd_Enabled = True, dd_HeartbeatInterval = 5 * second, dd_HeartbeatMissThreshold = 3, dd_StackTraceEnabled = True,
         dd_MaxOperationTime = 30 * second\<rparr>,
      wd_RestartPolicy =
        \<lparr>rc_Enabled = True, rc_GracefulShutdownTimeout = 5 * second, rc_MaxRestartAttempts = 5, rc_RestartBackoffInitial = 1 * second,
         rc_RestartBackoffMax = 60 * second, rc_RestartBackoffFactor = 0x4000000000000000\<rparr>,
      wd_DiagnosticCollection =
        \<lparr>dg_DetailLevel = ''normal'', dg_MaxEvents = 100, dg_IncludeStackTraces = True, dg_IncludeSystemMetrics = True\<rparr>\<rparr>"

section \<open>Validation\<close>

datatype watchdog_config_error =
    BadMonitoringInterval | NoComponents
  | BadMaxCPU string | BadMaxMemory string | BadFailureThreshold string | BadResetTimeout string | BadHalfOpenThreshold string
  | BadLevelCPU nat string | BadLevelMemory nat string | NoLevelActions nat string
  | BadHeartbeatInterval | BadHeartbeatMiss | BadMaxOperationTime
  | BadShutdownTimeout | BadMaxRestarts | BadBackoffInitial | BadBackoffMax | BadBackoffFactor
  | BadMaxEvents

text \<open>The first error of a loop.\<close>

fun first_error :: "('a \<Rightarrow> 'e option) \<Rightarrow> 'a list \<Rightarrow> 'e option" where
  "first_error f [] = None"
| "first_error f (x # xs) = (case f x of None \<Rightarrow> first_error f xs | Some e \<Rightarrow> Some e)"

definition f_max_percent :: float64 where
  "f_max_percent = 0x4059000000000000"

text \<open>Both comparisons are false for a not-a-number.\<close>

definition bad_percent :: "float64 \<Rightarrow> bool" where
  "bad_percent p \<longleftrightarrow> f_le p 0 \<or> f_less f_max_percent p"

definition Validate_level :: "string \<Rightarrow> nat \<times> DegradationLevel \<Rightarrow> watchdog_config_error option" where
  "Validate_level name = (\<lambda>(i, level).
     if bad_percent (dl_CPUThresholdPercent level) then Some (BadLevelCPU i name)
     else if dl_MemoryThresholdMB level \<le> 0 then Some (BadLevelMemory i name)
     else if dl_Actions level = [] then Some (NoLevelActions i name)
     else None)"

definition Validate_component :: "string \<times> ComponentConfig \<Rightarrow> watchdog_config_error option" where
  "Validate_component = (\<lambda>(name, config).
     if bad_percent (wc_MaxCPUPercent config) then Some (BadMaxCPU name)
     else if wc_MaxMemoryMB config \<le> 0 then Some (BadMaxMemory name)
     else if Enabled (wc_CircuitBreaker config) \<and> FailureThreshold (wc_CircuitBreaker config) \<le> 0 then Some (BadFailureThreshold name)
     else if Enabled (wc_CircuitBreaker config) \<and> ResetTimeout (wc_CircuitBreaker config) \<le> 0 then Some (BadResetTimeout name)
     else if Enabled (wc_CircuitBreaker config) \<and> HalfOpenSuccessThreshold (wc_CircuitBreaker config) \<le> 0 then Some (BadHalfOpenThreshold name)
     else first_error (Validate_level name) (enumerate 0 (wc_DegradationLevels config)))"

definition watchdog_Validate :: "Config \<Rightarrow> watchdog_config_error option" where
  "watchdog_Validate c =
     (if \<not> wd_Enabled c then None
      else if wd_MonitoringInterval c \<le> 0 then Some BadMonitoringInterval
      else if wd_ComponentConfigs c = [] then Some NoComponents
      else case first_error Validate_component (wd_ComponentConfigs c) of
        Some e \<Rightarrow> Some e
      | None \<Rightarrow>
          let dd = wd_DeadlockDetection c; rc = wd_RestartPolicy c in
          if dd_Enabled dd \<and> dd_HeartbeatInterval dd \<le> 0 then Some BadHeartbeatInterval
          else if dd_Enabled dd \<and> dd_HeartbeatMissThreshold dd \<le> 0 then Some BadHeartbeatMiss
          else if dd_Enabled dd \<and> dd_MaxOperationTime dd \<le> 0 then Some BadMaxOperationTime
          else if rc_Enabled rc \<and> rc_GracefulShutdownTimeout rc \<le> 0 then Some BadShutdownTimeout
          else if rc_Enabled rc \<and> rc_MaxRestartAttempts rc \<le> 0 then Some BadMaxRestarts
          else if rc_Enabled rc \<and> rc_RestartBackoffInitial rc \<le> 0 then Some BadBackoffInitial
          else if rc_Enabled rc \<and> rc_RestartBackoffMax rc \<le> 0 then Some BadBackoffMax
          else if rc_Enabled rc \<and> f_le (rc_RestartBackoffFactor rc) f_one then Some BadBackoffFactor
          else if dg_MaxEvents (wd_DiagnosticCollection c) \<le> 0 then Some BadMaxEvents
          else None)"

text \<open>What a valid configuration of a component, and a valid configuration, has.\<close>

definition level_ok :: "DegradationLevel \<Rightarrow> bool" where
  "level_ok level \<longleftrightarrow> \<not> bad_percent (dl_CPUThresholdPercent level) \<and> 0 < dl_MemoryThresholdMB level \<and> dl_Actions level \<noteq> []"

definition component_ok :: "ComponentConfig \<Rightarrow> bool" where
  "component_ok config \<longleftrightarrow> \<not> bad_percent (wc_MaxCPUPercent config) \<and> 0 < wc_MaxMemoryMB config \<and>
     (Enabled (wc_CircuitBreaker config) \<longrightarrow> 0 < FailureThreshold (wc_CircuitBreaker config) \<and> 0 < ResetTimeout (wc_CircuitBreaker config) \<and>
        0 < HalfOpenSuccessThreshold (wc_CircuitBreaker config)) \<and>
     list_all level_ok (wc_DegradationLevels config)"

definition restart_ok :: "RestartConfig \<Rightarrow> bool" where
  "restart_ok rc \<longleftrightarrow> 0 < rc_GracefulShutdownTimeout rc \<and> 0 < rc_MaxRestartAttempts rc \<and> 0 < rc_RestartBackoffInitial rc \<and>
     0 < rc_RestartBackoffMax rc \<and> \<not> f_le (rc_RestartBackoffFactor rc) f_one"

definition deadlock_ok :: "DeadlockConfig \<Rightarrow> bool" where
  "deadlock_ok dd \<longleftrightarrow> 0 < dd_HeartbeatInterval dd \<and> 0 < dd_HeartbeatMissThreshold dd \<and> 0 < dd_MaxOperationTime dd"

section \<open>Lemmas\<close>

lemma first_error_None: "first_error f xs = None \<longleftrightarrow> (\<forall>x \<in> set xs. f x = None)"
  by (induction xs) (auto split: option.split)

lemma enumerate_all: "(\<forall>x \<in> set (enumerate n xs). P (snd x)) \<longleftrightarrow> (\<forall>x \<in> set xs. P x)"
  by (induction xs arbitrary: n) auto

lemma Validate_level_None: "Validate_level name x = None \<longleftrightarrow> level_ok (snd x)"
  by (auto simp: Validate_level_def level_ok_def split_beta)

lemma Validate_component_None: "Validate_component x = None \<longleftrightarrow> component_ok (snd x)"
  by (auto simp: Validate_component_def component_ok_def split_beta first_error_None Validate_level_None enumerate_all list_all_iff)

lemma watchdog_Validate_iff:
  "watchdog_Validate c = None \<longleftrightarrow> (wd_Enabled c \<longrightarrow> 0 < wd_MonitoringInterval c \<and> wd_ComponentConfigs c \<noteq> [] \<and>
     (\<forall>(name, config) \<in> set (wd_ComponentConfigs c). component_ok config) \<and>
     (dd_Enabled (wd_DeadlockDetection c) \<longrightarrow> deadlock_ok (wd_DeadlockDetection c)) \<and>
     (rc_Enabled (wd_RestartPolicy c) \<longrightarrow> restart_ok (wd_RestartPolicy c)) \<and> 0 < dg_MaxEvents (wd_DiagnosticCollection c))"
proof (cases "first_error Validate_component (wd_ComponentConfigs c)")
  case None
  then have "\<forall>(name, config) \<in> set (wd_ComponentConfigs c). component_ok config" by (auto simp: first_error_None Validate_component_None)
  then show ?thesis using None by (auto simp: watchdog_Validate_def Let_def deadlock_ok_def restart_ok_def)
next
  case (Some e)
  then have "first_error Validate_component (wd_ComponentConfigs c) \<noteq> None" by simp
  then have "\<not> (\<forall>(name, config) \<in> set (wd_ComponentConfigs c). component_ok config)" unfolding first_error_None Validate_component_None by auto
  then show ?thesis using Some by (auto simp: watchdog_Validate_def)
qed

lemma watchdog_DefaultConfig_valid: "watchdog_Validate watchdog_DefaultConfig = None"
  by code_simp

text \<open>A not-a-number passes as a percentage.\<close>

lemma nan_percent: "f_nan p \<Longrightarrow> \<not> bad_percent p"
  by (simp add: bad_percent_def f_le_def f_less_def)

end
