(* ===== verification/Watchdog_Monitor.thy ===== *)
theory Watchdog_Monitor
  imports Watchdog_Config
begin

text \<open>
  The resource monitor of \<^verbatim>\<open>watchdog/monitor.go\<close>. A component is any value of the type \<open>'c\<close>; what its method
  \<^verbatim>\<open>ResourceUsage\<close> returns is the argument \<open>read\<close> of the operations that call it. Every operation holds the mutex
  for its whole body and is one step. \<open>mo_notified\<close> records the goroutines started for the handlers, in order; the clock
  readings of the events are an argument indexed by component and kind of event. \<^verbatim>\<open>GetTotalResourceUsage\<close> only
  reads the Go runtime.

  The properties say what one round of checks does to every component, and what the history of a component holds after any
  number of rounds.
\<close>

section \<open>Data\<close>

record MonitorUsage =
  mu_CPUPercent :: float64
  mu_MemoryBytes :: "64 word"
  mu_FileDescriptors :: int
  mu_Goroutines :: int
  mu_LastUpdated :: time

record ThresholdExceededEvent =
  ev_ComponentName :: string
  ev_ResourceType :: string
  ev_CurrentValue :: float64
  ev_ThresholdValue :: float64
  ev_Timestamp :: time

record 'c ResourceMonitor =
  mo_config :: Config
  mo_components :: "(string, 'c) gomap"
  mo_usageHistory :: "(string, MonitorUsage list) gomap"
  mo_historyMaxLen :: nat
  mo_handlers :: "nat list"
  mo_degradationState :: "(string, string) gomap"
  mo_cancelled :: bool
  mo_loops :: nat
  mo_notified :: "(nat \<times> ThresholdExceededEvent) list"

definition NewResourceMonitor :: "Config \<Rightarrow> 'c ResourceMonitor" where
  "NewResourceMonitor config =
     \<lparr>mo_config = config, mo_components = [], mo_usageHistory = [], mo_historyMaxLen = 20, mo_handlers = [], mo_degradationState = [],
      mo_cancelled = False, mo_loops = 0, mo_notified = []\<rparr>"

definition AddComponent :: "string \<Rightarrow> 'c \<Rightarrow> 'c ResourceMonitor \<Rightarrow> 'c ResourceMonitor" where
  "AddComponent name component m =
     m\<lparr>mo_components := AList.update name component (mo_components m), mo_usageHistory := AList.update name [] (mo_usageHistory m),
       mo_degradationState := AList.update name [] (mo_degradationState m)\<rparr>"

definition RemoveComponent :: "string \<Rightarrow> 'c ResourceMonitor \<Rightarrow> 'c ResourceMonitor" where
  "RemoveComponent name m =
     m\<lparr>mo_components := AList.delete name (mo_components m), mo_usageHistory := AList.delete name (mo_usageHistory m),
       mo_degradationState := AList.delete name (mo_degradationState m)\<rparr>"

definition AddThresholdHandler :: "nat \<Rightarrow> 'c ResourceMonitor \<Rightarrow> 'c ResourceMonitor" where
  "AddThresholdHandler h m = m\<lparr>mo_handlers := mo_handlers m @ [h]\<rparr>"

text \<open>Starting adds a loop; stopping cancels the context, which is never renewed, and waits for every loop to end.\<close>

definition monitor_Start :: "'c ResourceMonitor \<Rightarrow> 'c ResourceMonitor" where
  "monitor_Start m = m\<lparr>mo_loops := Suc (mo_loops m)\<rparr>"

definition monitor_Stop :: "'c ResourceMonitor \<Rightarrow> 'c ResourceMonitor" where
  "monitor_Stop m = m\<lparr>mo_cancelled := True, mo_loops := 0\<rparr>"

definition monitor_GetResourceUsage :: "('c \<Rightarrow> MonitorUsage) \<Rightarrow> string \<Rightarrow> 'c ResourceMonitor \<Rightarrow> MonitorUsage option" where
  "monitor_GetResourceUsage read name m = map_option read (map_of (mo_components m) name)"

definition GetResourceHistory :: "string \<Rightarrow> 'c ResourceMonitor \<Rightarrow> MonitorUsage list option" where
  "GetResourceHistory name m = map_of (mo_usageHistory m) name"

definition GetDegradationLevel :: "string \<Rightarrow> 'c ResourceMonitor \<Rightarrow> string option" where
  "GetDegradationLevel name m = map_of (mo_degradationState m) name"

section \<open>Checks\<close>

definition notifyThresholdExceeded :: "ThresholdExceededEvent \<Rightarrow> 'c ResourceMonitor \<Rightarrow> 'c ResourceMonitor" where
  "notifyThresholdExceeded event m = m\<lparr>mo_notified := mo_notified m @ map (\<lambda>h. (h, event)) (mo_handlers m)\<rparr>"

definition memoryMB :: "fmath \<Rightarrow> MonitorUsage \<Rightarrow> float64" where
  "memoryMB F usage = fm_div F (fm_of_u64 F (mu_MemoryBytes usage)) (fm_of_int F (1024 * 1024))"

definition level_met :: "fmath \<Rightarrow> MonitorUsage \<Rightarrow> DegradationLevel \<Rightarrow> bool" where
  "level_met F usage level \<longleftrightarrow> f_le (dl_CPUThresholdPercent level) (mu_CPUPercent usage) \<or> f_le (fm_of_int F (dl_MemoryThresholdMB level)) (memoryMB F usage)"

definition checkDegradationLevels ::
    "fmath \<Rightarrow> (string \<Rightarrow> time) \<Rightarrow> string \<Rightarrow> MonitorUsage \<Rightarrow> 'c ResourceMonitor \<Rightarrow> 'c ResourceMonitor" where
  "checkDegradationLevels F ck name usage m =
     (case map_of (wd_ComponentConfigs (mo_config m)) name of
        None \<Rightarrow> m
      | Some config \<Rightarrow>
          if \<not> wc_Enabled config then m
          else
            let currentLevel = fold (\<lambda>level cur. if level_met F usage level then dl_Name level else cur) (wc_DegradationLevels config) [];
                previousLevel = (case map_of (mo_degradationState m) name of Some l \<Rightarrow> l | None \<Rightarrow> [])
            in if currentLevel = previousLevel then m
               else let m1 = m\<lparr>mo_degradationState := AList.update name currentLevel (mo_degradationState m)\<rparr> in
                 if currentLevel = [] then m1
                 else notifyThresholdExceeded
                   (if f_le (wc_MaxCPUPercent config) (mu_CPUPercent usage)
                    then \<lparr>ev_ComponentName = name, ev_ResourceType = ''DegradationLevel'', ev_CurrentValue = mu_CPUPercent usage,
                          ev_ThresholdValue = wc_MaxCPUPercent config, ev_Timestamp = ck ''DegradationLevel''\<rparr>
                    else \<lparr>ev_ComponentName = name, ev_ResourceType = ''DegradationLevel'', ev_CurrentValue = memoryMB F usage,
                          ev_ThresholdValue = fm_of_int F (wc_MaxMemoryMB config), ev_Timestamp = ck ''DegradationLevel''\<rparr>) m1)"

text \<open>The events of the four thresholds, in the order of the checks.\<close>

definition threshold_events :: "fmath \<Rightarrow> (string \<Rightarrow> time) \<Rightarrow> string \<Rightarrow> MonitorUsage \<Rightarrow> ComponentConfig \<Rightarrow> ThresholdExceededEvent list" where
  "threshold_events F ck name usage config =
     (let event = (\<lambda>kind v t. \<lparr>ev_ComponentName = name, ev_ResourceType = kind, ev_CurrentValue = v, ev_ThresholdValue = t, ev_Timestamp = ck kind\<rparr>) in
      (if f_less (wc_MaxCPUPercent config) (mu_CPUPercent usage) then [event ''CPU'' (mu_CPUPercent usage) (wc_MaxCPUPercent config)] else []) @
      (if f_less (fm_of_int F (wc_MaxMemoryMB config)) (memoryMB F usage)
       then [event ''Memory'' (memoryMB F usage) (fm_of_int F (wc_MaxMemoryMB config))] else []) @
      (if wc_MaxFileDescriptors config < mu_FileDescriptors usage
       then [event ''FileDescriptors'' (fm_of_int F (mu_FileDescriptors usage)) (fm_of_int F (wc_MaxFileDescriptors config))] else []) @
      (if wc_MaxGoroutines config < mu_Goroutines usage
       then [event ''Goroutines'' (fm_of_int F (mu_Goroutines usage)) (fm_of_int F (wc_MaxGoroutines config))] else []))"

definition monitor_checkThresholds ::
    "fmath \<Rightarrow> (string \<Rightarrow> time) \<Rightarrow> string \<Rightarrow> MonitorUsage \<Rightarrow> 'c ResourceMonitor \<Rightarrow> 'c ResourceMonitor" where
  "monitor_checkThresholds F ck name usage m =
     (case map_of (wd_ComponentConfigs (mo_config m)) name of
        None \<Rightarrow> m
      | Some config \<Rightarrow>
          if \<not> wc_Enabled config then m
          else checkDegradationLevels F ck name usage (fold notifyThresholdExceeded (threshold_events F ck name usage config) m))"

definition checkResource ::
    "fmath \<Rightarrow> (string \<Rightarrow> string \<Rightarrow> time) \<Rightarrow> time \<Rightarrow> ('c \<Rightarrow> MonitorUsage) \<Rightarrow> string \<times> 'c \<Rightarrow> 'c ResourceMonitor \<Rightarrow> 'c ResourceMonitor" where
  "checkResource F ck now read = (\<lambda>(name, component) m.
     let usage = (read component)\<lparr>mu_LastUpdated := now\<rparr>;
         history = (case map_of (mo_usageHistory m) name of Some h \<Rightarrow> h | None \<Rightarrow> []);
         history1 = (if mo_historyMaxLen m \<le> length history then drop 1 history else history)
     in monitor_checkThresholds F (ck name) name usage (m\<lparr>mo_usageHistory := AList.update name (history1 @ [usage]) (mo_usageHistory m)\<rparr>))"

definition checkResources ::
    "fmath \<Rightarrow> (string \<Rightarrow> string \<Rightarrow> time) \<Rightarrow> time \<Rightarrow> ('c \<Rightarrow> MonitorUsage) \<Rightarrow> 'c ResourceMonitor \<Rightarrow> 'c ResourceMonitor" where
  "checkResources F ck now read m = fold (checkResource F ck now read) (mo_components m) m"

section \<open>What the checks promise\<close>

text \<open>The last \<open>n\<close> elements of a list.\<close>

definition last_n :: "nat \<Rightarrow> 'a list \<Rightarrow> 'a list" where
  "last_n n xs = drop (length xs - n) xs"

text \<open>The level of a component: the name of the last configured level that is met, or the empty name.\<close>

definition level_of :: "fmath \<Rightarrow> ComponentConfig \<Rightarrow> MonitorUsage \<Rightarrow> string" where
  "level_of F config usage = (case filter (level_met F usage) (wc_DegradationLevels config) of [] \<Rightarrow> [] | ls \<Rightarrow> dl_Name (last ls))"

text \<open>The level a component is at after a check that read \<open>usage\<close>, where it was at \<open>old\<close>.\<close>

definition next_level :: "fmath \<Rightarrow> Config \<Rightarrow> string \<Rightarrow> MonitorUsage \<Rightarrow> string option \<Rightarrow> string option" where
  "next_level F cfg name usage old =
     (case map_of (wd_ComponentConfigs cfg) name of
        Some config \<Rightarrow> if wc_Enabled config then (if level_of F config usage = [] \<and> old = None then None else Some (level_of F config usage)) else old
      | None \<Rightarrow> old)"

text \<open>The history after a check that read \<open>usage\<close>.\<close>

definition next_history :: "nat \<Rightarrow> MonitorUsage \<Rightarrow> MonitorUsage list option \<Rightarrow> MonitorUsage list" where
  "next_history n usage old = (let h = (case old of Some h \<Rightarrow> h | None \<Rightarrow> []) in (if n \<le> length h then drop 1 h else h) @ [usage])"

text \<open>The three maps of a monitor have the same components, and no history is longer than its limit.\<close>

definition monitor_ok :: "Config \<Rightarrow> 'c ResourceMonitor \<Rightarrow> bool" where
  "monitor_ok config m \<longleftrightarrow> mo_config m = config \<and> gm_wf (mo_components m) \<and> mo_historyMaxLen m = 20 \<and>
     dom (map_of (mo_usageHistory m)) = dom (map_of (mo_components m)) \<and> dom (map_of (mo_degradationState m)) = dom (map_of (mo_components m)) \<and>
     (\<forall>n h. map_of (mo_usageHistory m) n = Some h \<longrightarrow> length h \<le> mo_historyMaxLen m)"

inductive monitor_reachable :: "Config \<Rightarrow> 'c ResourceMonitor \<Rightarrow> bool" for config where
  "monitor_reachable config (NewResourceMonitor config)"
| "monitor_reachable config m \<Longrightarrow> monitor_reachable config (AddComponent name component m)"
| "monitor_reachable config m \<Longrightarrow> monitor_reachable config (RemoveComponent name m)"
| "monitor_reachable config m \<Longrightarrow> monitor_reachable config (AddThresholdHandler h m)"
| "monitor_reachable config m \<Longrightarrow> monitor_reachable config (monitor_Start m)"
| "monitor_reachable config m \<Longrightarrow> monitor_reachable config (monitor_Stop m)"
| "monitor_reachable config m \<Longrightarrow> 0 < mo_loops m \<Longrightarrow> monitor_reachable config (checkResources F ck now read m)"

text \<open>Rounds of checks at given times, with what each component then uses.\<close>

definition rounds :: "fmath \<Rightarrow> (string \<Rightarrow> string \<Rightarrow> time) \<Rightarrow> (time \<times> ('c \<Rightarrow> MonitorUsage)) list \<Rightarrow> 'c ResourceMonitor \<Rightarrow> 'c ResourceMonitor" where
  "rounds F ck rs m = fold (\<lambda>r. checkResources F ck (fst r) (snd r)) rs m"

definition reading :: "'c \<Rightarrow> time \<times> ('c \<Rightarrow> MonitorUsage) \<Rightarrow> MonitorUsage" where
  "reading c r = (snd r c)\<lparr>mu_LastUpdated := fst r\<rparr>"

text \<open>An example: two components, one of them busy, with the default configuration and floats that are integers.\<close>

definition ex_fmath :: fmath where
  "ex_fmath = \<lparr>fm_add = (+), fm_sub = (-), fm_mul = (*), fm_div = (div), fm_log = id, fm_log1p = id, fm_exp = id, fm_ceil = id,
     fm_of_int = of_int, fm_of_u64 = id, fm_to_int = uint, fm_to_u64 = id\<rparr>"

definition ex_usage :: "bool \<Rightarrow> MonitorUsage" where
  "ex_usage busy = \<lparr>mu_CPUPercent = (if busy then 0x3FE7000000000000 else 0), mu_MemoryBytes = 0, mu_FileDescriptors = 1, mu_Goroutines = 1, mu_LastUpdated = 0\<rparr>"

definition ex_monitor :: "bool ResourceMonitor" where
  "ex_monitor = monitor_Start (AddThresholdHandler 7 (AddComponent ''collector'' True (AddComponent ''sampler'' False (NewResourceMonitor watchdog_DefaultConfig))))"

section \<open>Lemmas\<close>

lemma last_n_snoc: "0 < n \<Longrightarrow> last_n n (last_n n xs @ [x]) = last_n n (xs @ [x])"
  by (cases "n \<le> length xs") (auto simp: last_n_def Suc_diff_le)

lemma history_step:
  assumes "0 < n" "length h \<le> n"
  shows "(if n \<le> length h then drop 1 h else h) @ [u] = last_n n (h @ [u])"
  using assms by (cases "length h = n") (auto simp: last_n_def)

lemma last_n_length: "length (last_n n xs) \<le> n"
  by (simp add: last_n_def)

lemma fold_last_met: "fold (\<lambda>level cur. if P level then f level else cur) ls c = (case filter P ls of [] \<Rightarrow> c | xs \<Rightarrow> f (last xs))"
  by (induction ls rule: rev_induct) (auto split: list.splits)

lemma notify_fields [simp]:
  "mo_config (notifyThresholdExceeded e m) = mo_config m" "mo_components (notifyThresholdExceeded e m) = mo_components m"
  "mo_usageHistory (notifyThresholdExceeded e m) = mo_usageHistory m" "mo_historyMaxLen (notifyThresholdExceeded e m) = mo_historyMaxLen m"
  "mo_degradationState (notifyThresholdExceeded e m) = mo_degradationState m" "mo_handlers (notifyThresholdExceeded e m) = mo_handlers m"
  by (simp_all add: notifyThresholdExceeded_def)

lemma notify_all_fields [simp]:
  "mo_config (fold notifyThresholdExceeded es m) = mo_config m" "mo_components (fold notifyThresholdExceeded es m) = mo_components m"
  "mo_usageHistory (fold notifyThresholdExceeded es m) = mo_usageHistory m" "mo_historyMaxLen (fold notifyThresholdExceeded es m) = mo_historyMaxLen m"
  "mo_degradationState (fold notifyThresholdExceeded es m) = mo_degradationState m" "mo_handlers (fold notifyThresholdExceeded es m) = mo_handlers m"
  by (induction es arbitrary: m) simp_all

lemma notified_all: "mo_notified (fold notifyThresholdExceeded es m) = mo_notified m @ concat (map (\<lambda>e. map (\<lambda>h. (h, e)) (mo_handlers m)) es)"
  by (induction es arbitrary: m) (simp_all add: notifyThresholdExceeded_def)

lemma degradation_fields [simp]:
  "mo_config (checkDegradationLevels F ck name usage m) = mo_config m" "mo_components (checkDegradationLevels F ck name usage m) = mo_components m"
  "mo_usageHistory (checkDegradationLevels F ck name usage m) = mo_usageHistory m"
  "mo_historyMaxLen (checkDegradationLevels F ck name usage m) = mo_historyMaxLen m" "mo_handlers (checkDegradationLevels F ck name usage m) = mo_handlers m"
  by (simp_all add: checkDegradationLevels_def Let_def split: option.split)

lemma degradation_state:
  "map_of (mo_degradationState (checkDegradationLevels F ck name usage m)) n =
     (if n = name then next_level F (mo_config m) name usage (map_of (mo_degradationState m) name) else map_of (mo_degradationState m) n)"
proof (cases "map_of (wd_ComponentConfigs (mo_config m)) name")
  case (Some config)
  have level: "fold (\<lambda>level cur. if level_met F usage level then dl_Name level else cur) (wc_DegradationLevels config) [] = level_of F config usage"
    by (simp add: fold_last_met level_of_def)
  show ?thesis
    by (auto simp: checkDegradationLevels_def Some Let_def level next_level_def gomap_simps split: option.split)
qed (simp add: checkDegradationLevels_def next_level_def)

lemma check_fields [simp]:
  "mo_config (monitor_checkThresholds F ck name usage m) = mo_config m" "mo_components (monitor_checkThresholds F ck name usage m) = mo_components m"
  "mo_usageHistory (monitor_checkThresholds F ck name usage m) = mo_usageHistory m"
  "mo_historyMaxLen (monitor_checkThresholds F ck name usage m) = mo_historyMaxLen m" "mo_handlers (monitor_checkThresholds F ck name usage m) = mo_handlers m"
  by (simp_all add: monitor_checkThresholds_def split: option.split)

lemma check_state:
  "map_of (mo_degradationState (monitor_checkThresholds F ck name usage m)) n =
     (if n = name then next_level F (mo_config m) name usage (map_of (mo_degradationState m) name) else map_of (mo_degradationState m) n)"
  by (auto simp: monitor_checkThresholds_def degradation_state next_level_def split: option.split)

lemma resource_fields [simp]:
  "mo_config (checkResource F ck now read nc m) = mo_config m" "mo_components (checkResource F ck now read nc m) = mo_components m"
  "mo_historyMaxLen (checkResource F ck now read nc m) = mo_historyMaxLen m"
  by (simp_all add: checkResource_def Let_def split_beta)

lemma resource_history:
  "map_of (mo_usageHistory (checkResource F ck now read (name, c) m)) n =
     (if n = name then Some (next_history (mo_historyMaxLen m) ((read c)\<lparr>mu_LastUpdated := now\<rparr>) (map_of (mo_usageHistory m) name))
      else map_of (mo_usageHistory m) n)"
  by (simp add: checkResource_def next_history_def Let_def gomap_simps)

lemma resource_state:
  "map_of (mo_degradationState (checkResource F ck now read (name, c) m)) n =
     (if n = name then next_level F (mo_config m) name ((read c)\<lparr>mu_LastUpdated := now\<rparr>) (map_of (mo_degradationState m) name)
      else map_of (mo_degradationState m) n)"
  by (simp add: checkResource_def Let_def check_state)

lemma resources_fields [simp]:
  "mo_config (fold (checkResource F ck now read) cs m) = mo_config m" "mo_components (fold (checkResource F ck now read) cs m) = mo_components m"
  "mo_historyMaxLen (fold (checkResource F ck now read) cs m) = mo_historyMaxLen m"
  by (induction cs arbitrary: m) simp_all

text \<open>Every component is checked once, in whatever order.\<close>

lemma resources_spec:
  assumes "distinct (map fst cs)"
  shows "map_of (mo_usageHistory (fold (checkResource F ck now read) cs m)) n =
      (case map_of cs n of
         Some c \<Rightarrow> Some (next_history (mo_historyMaxLen m) ((read c)\<lparr>mu_LastUpdated := now\<rparr>) (map_of (mo_usageHistory m) n))
       | None \<Rightarrow> map_of (mo_usageHistory m) n) \<and>
    map_of (mo_degradationState (fold (checkResource F ck now read) cs m)) n =
      (case map_of cs n of
         Some c \<Rightarrow> next_level F (mo_config m) n ((read c)\<lparr>mu_LastUpdated := now\<rparr>) (map_of (mo_degradationState m) n)
       | None \<Rightarrow> map_of (mo_degradationState m) n)"
  using assms
proof (induction cs arbitrary: m)
  case (Cons nc cs)
  obtain name c where nc: "nc = (name, c)" by force
  have "map_of cs name = None" using Cons.prems by (simp add: nc map_of_eq_None_iff)
  then show ?case
    using Cons.IH [of "checkResource F ck now read nc m"] Cons.prems
    by (cases "n = name") (simp_all add: nc resource_history resource_state split: option.split)
qed simp

lemma checkResources_fields [simp]:
  "mo_config (checkResources F ck now read m) = mo_config m" "mo_components (checkResources F ck now read m) = mo_components m"
  "mo_historyMaxLen (checkResources F ck now read m) = mo_historyMaxLen m"
  by (simp_all add: checkResources_def)

lemma next_history_last:
  assumes "0 < n" "length h \<le> n"
  shows "next_history n u (Some h) = last_n n (h @ [u])"
  using history_step [OF assms] by (simp add: next_history_def)

lemma checkResources_ok:
  assumes ok: "monitor_ok config m"
  shows "monitor_ok config (checkResources F ck now read m)"
proof -
  let ?m = "checkResources F ck now read m"
  have wf: "distinct (map fst (mo_components m))" using ok by (simp add: monitor_ok_def gm_wf_def)
  note spec = resources_spec [OF wf, of F ck now read m, folded checkResources_def]
  have same: "map_of (mo_usageHistory m) n = None \<longleftrightarrow> map_of (mo_components m) n = None"
    "map_of (mo_degradationState m) n = None \<longleftrightarrow> map_of (mo_components m) n = None" for n
    using ok unfolding monitor_ok_def by (metis domIff)+
  have "map_of (mo_usageHistory ?m) n = None \<longleftrightarrow> map_of (mo_components m) n = None" for n
    using spec [of n] same [of n] by (auto split: option.splits)
  moreover have "map_of (mo_degradationState ?m) n = None \<longleftrightarrow> map_of (mo_components m) n = None" for n
    using spec [of n] same [of n] by (auto simp: next_level_def split: option.splits)
  moreover have "length h \<le> 20" if h: "map_of (mo_usageHistory ?m) n = Some h" for n h
  proof (cases "map_of (mo_components m) n")
    case (Some c)
    then obtain old where old: "map_of (mo_usageHistory m) n = Some old" using same [of n] by auto
    then have "length old \<le> 20" using ok by (auto simp: monitor_ok_def)
    then show ?thesis using h spec [of n] Some old ok next_history_last [of 20 old] last_n_length [of 20] by (auto simp: monitor_ok_def)
  qed (use h spec [of n] ok in \<open>auto simp: monitor_ok_def\<close>)
  ultimately show ?thesis using ok by (auto simp: monitor_ok_def dom_def)
qed

lemma reachable_ok: "monitor_reachable config m \<Longrightarrow> monitor_ok config m"
proof (induction rule: monitor_reachable.induct)
  case (7 m F ck now read)
  then show ?case using checkResources_ok by blast
qed (auto simp: monitor_ok_def NewResourceMonitor_def AddComponent_def RemoveComponent_def AddThresholdHandler_def monitor_Start_def
  monitor_Stop_def gomap_simps split: if_splits)

lemma rounds_spec:
  assumes "monitor_ok cfg m" "map_of (mo_components m) name = Some c" "map_of (mo_usageHistory m) name = Some h"
  shows "monitor_ok cfg (rounds F ck rs m) \<and> map_of (mo_components (rounds F ck rs m)) name = Some c \<and>
    map_of (mo_usageHistory (rounds F ck rs m)) name = Some (last_n 20 (h @ map (reading c) rs)) \<and>
    (rs \<noteq> [] \<and> map_of (wd_ComponentConfigs cfg) name = Some config \<and> wc_Enabled config \<longrightarrow>
      map_of (mo_degradationState (rounds F ck rs m)) name = Some (level_of F config (reading c (last rs))))"
proof (induction rs rule: rev_induct)
  case Nil
  have "length h \<le> 20" using assms by (auto simp: monitor_ok_def)
  then show ?case using assms by (simp add: rounds_def last_n_def)
next
  case (snoc r rs)
  let ?m = "rounds F ck rs m"
  have ok: "monitor_ok cfg ?m" and c: "map_of (mo_components ?m) name = Some c"
    and hist: "map_of (mo_usageHistory ?m) name = Some (last_n 20 (h @ map (reading c) rs))" using snoc by blast+
  have step: "rounds F ck (rs @ [r]) m = checkResources F ck (fst r) (snd r) ?m" by (simp add: rounds_def)
  have wf: "distinct (map fst (mo_components ?m))" and max: "mo_historyMaxLen ?m = 20" and cfg: "mo_config ?m = cfg"
    using ok by (simp_all add: monitor_ok_def gm_wf_def)
  note spec = resources_spec [OF wf, of F ck "fst r" "snd r" ?m name, folded checkResources_def, unfolded c option.case max cfg hist, folded reading_def]
  have "next_history 20 (reading c r) (Some (last_n 20 (h @ map (reading c) rs))) = last_n 20 (h @ map (reading c) (rs @ [r]))"
    using next_history_last [of 20, OF _ last_n_length] last_n_snoc [of 20 "h @ map (reading c) rs"] by simp
  moreover have "map_of (mo_degradationState ?m) name \<noteq> None" using ok c unfolding monitor_ok_def by (metis domIff option.distinct(1))
  then have "next_level F cfg name (reading c r) (map_of (mo_degradationState ?m) name) = Some (level_of F config (reading c r))"
    if "map_of (wd_ComponentConfigs cfg) name = Some config" "wc_Enabled config" using that by (simp add: next_level_def)
  ultimately show ?case unfolding step using spec c checkResources_ok [OF ok] by (auto simp: c)
qed

text \<open>
  C16. After any number of rounds of checks, whatever else the monitor did before, the history of a component holds its last
  twenty readings in order, each with the time of its round, and its degradation level is the name of the last configured level
  that the latest reading meets, or the empty name if it meets none.
\<close>

theorem monitor_rounds:
  assumes "monitor_reachable cfg m" "map_of (mo_components m) name = Some c" "GetResourceHistory name m = Some h"
    and "map_of (wd_ComponentConfigs cfg) name = Some config" "wc_Enabled config" "rs \<noteq> []"
  shows "GetResourceHistory name (rounds F ck rs m) = Some (last_n 20 (h @ map (reading c) rs)) \<and>
    GetDegradationLevel name (rounds F ck rs m) = Some (level_of F config (reading c (last rs)))"
  using rounds_spec [OF reachable_ok [OF assms(1)] assms(2), of h F ck rs config] assms(3-)
  by (simp add: GetResourceHistory_def GetDegradationLevel_def)

theorem monitor_rounds_witness:
  "GetResourceHistory ''collector'' (rounds ex_fmath (\<lambda>_ _. 0) [(5, ex_usage)] ex_monitor) = Some [(ex_usage True)\<lparr>mu_LastUpdated := 5\<rparr>] \<and>
   GetDegradationLevel ''collector'' (rounds ex_fmath (\<lambda>_ _. 0) [(5, ex_usage)] ex_monitor) = Some ''critical''"
proof -
  have reach: "monitor_reachable watchdog_DefaultConfig ex_monitor" unfolding ex_monitor_def by (intro monitor_reachable.intros)
  have default: "map_of (wd_ComponentConfigs watchdog_DefaultConfig) ''collector'' \<noteq> None"
    "wc_Enabled (the (map_of (wd_ComponentConfigs watchdog_DefaultConfig) ''collector''))"
    "level_of ex_fmath (the (map_of (wd_ComponentConfigs watchdog_DefaultConfig) ''collector'')) (reading True (5, ex_usage)) = ''critical''"
    by code_simp+
  then obtain config where config: "map_of (wd_ComponentConfigs watchdog_DefaultConfig) ''collector'' = Some config" "wc_Enabled config"
    "level_of ex_fmath config (reading True (5, ex_usage)) = ''critical''" by auto
  have "map_of (mo_components ex_monitor) ''collector'' = Some True" "GetResourceHistory ''collector'' ex_monitor = Some []"
    by (simp_all add: ex_monitor_def NewResourceMonitor_def AddComponent_def AddThresholdHandler_def monitor_Start_def GetResourceHistory_def)
  from monitor_rounds [OF reach this config(1,2), of "[(5, ex_usage)]" ex_fmath "\<lambda>_ _. 0"] config(3)
  show ?thesis by (simp add: reading_def last_n_def)
qed

end
