(* ===== verification/Watchdog_Restart.thy ===== *)
theory Watchdog_Restart
  imports Watchdog_Monitor
begin

text \<open>
  The parts the watchdog is put together from: restarts with a backoff (\<^verbatim>\<open>watchdog/restart_manager.go\<close>),
  degradation levels (\<^verbatim>\<open>watchdog/degradation.go\<close>), diagnostic events
  (\<^verbatim>\<open>watchdog/diagnostics.go\<close>) and records of deadlocks (\<^verbatim>\<open>watchdog/deadlock.go\<close>).

  A component that can be restarted is an implementation of \<^verbatim>\<open>Restartable\<close>, a parameter: its three methods are
  functions on a state of the type \<open>'w\<close>. The stacks of the goroutines are what the Go runtime returns. The detector is
  modelled without its registration with a monitor, for which the monitor has no method.
\<close>

section \<open>Restarts\<close>

record 'w Restartable =
  re_IsRunning :: "'w \<Rightarrow> bool"
  re_Shutdown :: "'w \<Rightarrow> 'w \<times> string option"
  re_Start :: "'w \<Rightarrow> 'w \<times> string option"

record RestartManager =
  rm_config :: RestartConfig
  rm_restartAttempts :: int
  rm_lastRestartTime :: time
  rm_currentBackoff :: duration

datatype restart_error = RestartDisabled | MaxAttemptsReached int | BackoffInProgress duration | StartFailed string

definition NewRestartManager :: "RestartConfig \<Rightarrow> RestartManager" where
  "NewRestartManager config =
     \<lparr>rm_config = config, rm_restartAttempts = 0, rm_lastRestartTime = zero_time, rm_currentBackoff = rc_RestartBackoffInitial config\<rparr>"

definition next_backoff :: "fmath \<Rightarrow> RestartManager \<Rightarrow> duration" where
  "next_backoff F rm =
     (let b = fm_to_int F (fm_mul F (fm_of_int F (rm_currentBackoff rm)) (rc_RestartBackoffFactor (rm_config rm)))
      in if rc_RestartBackoffMax (rm_config rm) < b then rc_RestartBackoffMax (rm_config rm) else b)"

text \<open>The clock is read for the time elapsed and for the new time of restart. A failed shutdown is only logged.\<close>

definition AttemptRestart ::
    "fmath \<Rightarrow> 'w Restartable \<Rightarrow> time \<Rightarrow> time \<Rightarrow> RestartManager \<Rightarrow> 'w \<Rightarrow> RestartManager \<times> 'w \<times> bool \<times> restart_error option" where
  "AttemptRestart F c now now2 rm w =
     (if \<not> rc_Enabled (rm_config rm) then (rm, w, False, Some RestartDisabled)
      else if rc_MaxRestartAttempts (rm_config rm) \<le> rm_restartAttempts rm
        then (rm, w, False, Some (MaxAttemptsReached (rc_MaxRestartAttempts (rm_config rm))))
      else if re_IsRunning c w then (rm, w, True, None)
      else let timeElapsed = time_sub now (rm_lastRestartTime rm) in
        if rm_lastRestartTime rm \<noteq> zero_time \<and> timeElapsed < rm_currentBackoff rm
        then (rm, w, False, Some (BackoffInProgress (to_int64 (rm_currentBackoff rm - timeElapsed))))
        else case re_Start c (fst (re_Shutdown c w)) of
          (w1, Some err) \<Rightarrow>
            (rm\<lparr>rm_restartAttempts := to_int64 (rm_restartAttempts rm + 1), rm_lastRestartTime := now2, rm_currentBackoff := next_backoff F rm\<rparr>,
             w1, False, Some (StartFailed err))
        | (w1, None) \<Rightarrow>
            (rm\<lparr>rm_restartAttempts := 0, rm_lastRestartTime := now2, rm_currentBackoff := rc_RestartBackoffInitial (rm_config rm)\<rparr>, w1, True, None))"

definition GetRestartAttempts :: "RestartManager \<Rightarrow> int" where
  "GetRestartAttempts rm = rm_restartAttempts rm"

definition GetLastRestartTime :: "RestartManager \<Rightarrow> time" where
  "GetLastRestartTime rm = rm_lastRestartTime rm"

definition ResetRestartAttempts :: "RestartManager \<Rightarrow> RestartManager" where
  "ResetRestartAttempts rm = rm\<lparr>rm_restartAttempts := 0, rm_currentBackoff := rc_RestartBackoffInitial (rm_config rm)\<rparr>"

section \<open>Degradation\<close>

record DegradationController =
  dc_maxLevel :: int
  dc_levelActions :: "(int, string list) gomap"
  dc_levelDescriptions :: "(int, string) gomap"
  dc_componentLevels :: "(string, int) gomap"

datatype degradation_error = MaxLevelNotPositive | InvalidLevel int int

definition NewDegradationController :: "int \<Rightarrow> degradation_error + DegradationController" where
  "NewDegradationController maxLevel =
     (if maxLevel \<le> 0 then Inl MaxLevelNotPositive
      else Inr \<lparr>dc_maxLevel = maxLevel, dc_levelActions = [], dc_levelDescriptions = [], dc_componentLevels = []\<rparr>)"

definition SetLevelActions ::
    "int \<Rightarrow> string list \<Rightarrow> string \<Rightarrow> DegradationController \<Rightarrow> DegradationController \<times> degradation_error option" where
  "SetLevelActions level actions description dc =
     (if level \<le> 0 \<or> dc_maxLevel dc < level then (dc, Some (InvalidLevel level (dc_maxLevel dc)))
      else (dc\<lparr>dc_levelActions := AList.update level actions (dc_levelActions dc),
               dc_levelDescriptions := AList.update level description (dc_levelDescriptions dc)\<rparr>, None))"

definition SetComponentLevel :: "string \<Rightarrow> int \<Rightarrow> DegradationController \<Rightarrow> DegradationController \<times> degradation_error option" where
  "SetComponentLevel component level dc =
     (if level < 0 \<or> dc_maxLevel dc < level then (dc, Some (InvalidLevel level (dc_maxLevel dc)))
      else (dc\<lparr>dc_componentLevels := AList.update component level (dc_componentLevels dc)\<rparr>, None))"

definition GetComponentLevel :: "string \<Rightarrow> DegradationController \<Rightarrow> int" where
  "GetComponentLevel component dc = (case map_of (dc_componentLevels dc) component of None \<Rightarrow> 0 | Some level \<Rightarrow> level)"

definition GetLevelActions :: "int \<Rightarrow> DegradationController \<Rightarrow> degradation_error + string list" where
  "GetLevelActions level dc =
     (if level \<le> 0 \<or> dc_maxLevel dc < level then Inl (InvalidLevel level (dc_maxLevel dc))
      else Inr (case map_of (dc_levelActions dc) level of None \<Rightarrow> [] | Some actions \<Rightarrow> actions))"

definition GetLevelDescription :: "int \<Rightarrow> DegradationController \<Rightarrow> degradation_error + string" where
  "GetLevelDescription level dc =
     (if level \<le> 0 \<or> dc_maxLevel dc < level then Inl (InvalidLevel level (dc_maxLevel dc))
      else Inr (case map_of (dc_levelDescriptions dc) level of None \<Rightarrow> [] | Some description \<Rightarrow> description))"

definition GetMaxLevel :: "DegradationController \<Rightarrow> int" where
  "GetMaxLevel dc = dc_maxLevel dc"

definition GetComponentsAtLevel :: "int \<Rightarrow> DegradationController \<Rightarrow> degradation_error + string list" where
  "GetComponentsAtLevel level dc =
     (if level < 0 \<or> dc_maxLevel dc < level then Inl (InvalidLevel level (dc_maxLevel dc))
      else Inr (map fst (filter (\<lambda>cl. snd cl = level) (dc_componentLevels dc))))"

definition ResetComponent :: "string \<Rightarrow> DegradationController \<Rightarrow> DegradationController" where
  "ResetComponent component dc = dc\<lparr>dc_componentLevels := AList.update component 0 (dc_componentLevels dc)\<rparr>"

definition ResetAllComponents :: "DegradationController \<Rightarrow> DegradationController" where
  "ResetAllComponents dc = dc\<lparr>dc_componentLevels := map (\<lambda>cl. (fst cl, 0)) (dc_componentLevels dc)\<rparr>"

section \<open>Incidents and diagnostics\<close>

record TimestampedMeasurement =
  tm_Timestamp :: time
  tm_CPUPercent :: float64
  tm_MemoryMB :: float64
  tm_Goroutines :: int
  tm_FileHandles :: int
  tm_GCPercent :: float64

record WatchdogUsage =
  wu_CPUPercent :: float64
  wu_MemoryMB :: float64
  wu_Goroutines :: int
  wu_FileHandles :: int
  wu_GCPercent :: float64
  wu_Timestamp :: time
  wu_Measurements :: "TimestampedMeasurement list"

datatype IncidentType = IncidentResourceExceeded | IncidentDeadlockDetected | IncidentRestartFailed | IncidentCrash

fun IncidentType_text :: "IncidentType \<Rightarrow> string" where
  "IncidentType_text IncidentResourceExceeded = ''resource_exceeded''"
| "IncidentType_text IncidentDeadlockDetected = ''deadlock_detected''"
| "IncidentType_text IncidentRestartFailed = ''restart_failed''"
| "IncidentType_text IncidentCrash = ''crash''"

record Incident =
  in_ID :: string
  in_Timestamp :: time
  in_Type :: IncidentType
  in_Description :: string
  in_ResourceUsage :: WatchdogUsage
  in_Remediation :: string

datatype detail = DetailFloat float64 | DetailInt int | DetailText string

record DiagnosticEvent =
  de_ID :: string
  de_Type :: string
  de_ComponentName :: string
  de_Timestamp :: time
  de_Severity :: string
  de_Message :: string
  de_Details :: "(string, detail) gomap"

record DiagnosticsProvider =
  dp_events :: "DiagnosticEvent list"
  dp_maxEvents :: int
  dp_includeStackTraces :: bool

definition NewDiagnosticsProvider :: DiagnosticsProvider where
  "NewDiagnosticsProvider = \<lparr>dp_events = [], dp_maxEvents = 100, dp_includeStackTraces = True\<rparr>"

fun incidentSeverity :: "IncidentType \<Rightarrow> string" where
  "incidentSeverity IncidentResourceExceeded = ''warning''"
| "incidentSeverity IncidentDeadlockDetected = ''critical''"
| "incidentSeverity IncidentRestartFailed = ''critical''"
| "incidentSeverity IncidentCrash = ''critical''"

text \<open>Slicing off the front panics if the limit is negative.\<close>

definition trim_events :: "DiagnosticsProvider \<Rightarrow> DiagnosticsProvider outcome" where
  "trim_events d =
     (if dp_maxEvents d < int (length (dp_events d))
      then (if dp_maxEvents d < 0 then Panics
            else Returns (d\<lparr>dp_events := drop (nat (int (length (dp_events d)) - dp_maxEvents d)) (dp_events d)\<rparr>))
      else Returns d)"

definition diag_event :: "Incident \<Rightarrow> DiagnosticEvent" where
  "diag_event i =
     (let u = in_ResourceUsage i;
          details = [(''cpu_percent'', DetailFloat (wu_CPUPercent u)), (''memory_mb'', DetailFloat (wu_MemoryMB u)),
            (''goroutines'', DetailInt (wu_Goroutines u)), (''file_handles'', DetailInt (wu_FileHandles u)),
            (''gc_percent'', DetailFloat (wu_GCPercent u))]
      in \<lparr>de_ID = in_ID i, de_Type = IncidentType_text (in_Type i), de_ComponentName = [], de_Timestamp = in_Timestamp i,
          de_Severity = incidentSeverity (in_Type i), de_Message = in_Description i,
          de_Details = (if in_Remediation i \<noteq> [] then details @ [(''remediation'', DetailText (in_Remediation i))] else details)\<rparr>)"

definition EmitAgentDiagEvent :: "Incident \<Rightarrow> DiagnosticsProvider \<Rightarrow> DiagnosticsProvider outcome" where
  "EmitAgentDiagEvent i d = trim_events (d\<lparr>dp_events := dp_events d @ [diag_event i]\<rparr>)"

definition GetEvents :: "DiagnosticsProvider \<Rightarrow> DiagnosticEvent list" where
  "GetEvents d = dp_events d"

definition GetEventsByComponent :: "string \<Rightarrow> DiagnosticsProvider \<Rightarrow> DiagnosticEvent list" where
  "GetEventsByComponent name d = filter (\<lambda>e. de_ComponentName e = name) (dp_events d)"

definition GetEventsByType :: "string \<Rightarrow> DiagnosticsProvider \<Rightarrow> DiagnosticEvent list" where
  "GetEventsByType t d = filter (\<lambda>e. de_Type e = t) (dp_events d)"

text \<open>Making the empty slice panics if its capacity is negative.\<close>

definition ClearEvents :: "DiagnosticsProvider \<Rightarrow> DiagnosticsProvider outcome" where
  "ClearEvents d = (if dp_maxEvents d < 0 then Panics else Returns (d\<lparr>dp_events := []\<rparr>))"

definition SetMaxEvents :: "int \<Rightarrow> DiagnosticsProvider \<Rightarrow> DiagnosticsProvider outcome" where
  "SetMaxEvents maxEvents d = trim_events (d\<lparr>dp_maxEvents := maxEvents\<rparr>)"

definition SetIncludeStackTraces :: "bool \<Rightarrow> DiagnosticsProvider \<Rightarrow> DiagnosticsProvider" where
  "SetIncludeStackTraces b d = d\<lparr>dp_includeStackTraces := b\<rparr>"

section \<open>Records of deadlocks\<close>

record DeadlockInfo =
  di_ComponentName :: string
  di_DetectedAt :: time
  di_LastResponseTime :: duration
  di_GoroutineStacks :: string
  di_AdditionalInfo :: "(string, string) gomap"

record DeadlockDetector =
  dt_config :: Config
  dt_detectedDeadlocks :: "(string, DeadlockInfo) gomap"

definition NewDeadlockDetector :: "Config \<Rightarrow> DeadlockDetector" where
  "NewDeadlockDetector config = \<lparr>dt_config = config, dt_detectedDeadlocks = []\<rparr>"

text \<open>Go's conversion of an integer to a string: the UTF-8 bytes of the code point, or of U+FFFD if there is none.\<close>

definition rune_text :: "int \<Rightarrow> string" where
  "rune_text n =
     (let c = (if n < 0 \<or> 0x10FFFF < n \<or> (0xD800 \<le> n \<and> n \<le> 0xDFFF) then 0xFFFD else n)
      in map (\<lambda>b. char_of (nat b))
        (if c < 0x80 then [c]
         else if c < 0x800 then [0xC0 + c div 0x40, 0x80 + c mod 0x40]
         else if c < 0x10000 then [0xE0 + c div 0x1000, 0x80 + c div 0x40 mod 0x40, 0x80 + c mod 0x40]
         else [0xF0 + c div 0x40000, 0x80 + c div 0x1000 mod 0x40, 0x80 + c div 0x40 mod 0x40, 0x80 + c mod 0x40]))"

definition captureGoroutineStacks :: "string \<Rightarrow> string" where
  "captureGoroutineStacks stacks = take (2 ^ 20) stacks"

definition handleDeadlockDetected :: "time \<Rightarrow> string \<Rightarrow> string \<Rightarrow> ComponentMetrics \<Rightarrow> DeadlockDetector \<Rightarrow> DeadlockDetector" where
  "handleDeadlockDetected now stacks name metrics d =
     (if map_of (dt_detectedDeadlocks d) name \<noteq> None then d
      else d\<lparr>dt_detectedDeadlocks := AList.update name
        \<lparr>di_ComponentName = name, di_DetectedAt = now, di_LastResponseTime = mx_LastResponseTime metrics,
         di_GoroutineStacks = captureGoroutineStacks stacks,
         di_AdditionalInfo = [(''state'', mx_State metrics), (''health'', mx_HealthStatus metrics), (''goroutines'', rune_text (mx_GoroutineCount metrics))]\<rparr>
        (dt_detectedDeadlocks d)\<rparr>)"

definition GetDetectedDeadlocks :: "DeadlockDetector \<Rightarrow> (string, DeadlockInfo) gomap" where
  "GetDetectedDeadlocks d = dt_detectedDeadlocks d"

definition ClearDeadlock :: "string \<Rightarrow> DeadlockDetector \<Rightarrow> DeadlockDetector" where
  "ClearDeadlock name d = d\<lparr>dt_detectedDeadlocks := AList.delete name (dt_detectedDeadlocks d)\<rparr>"

definition HasDeadlock :: "string \<Rightarrow> DeadlockDetector \<Rightarrow> bool" where
  "HasDeadlock name d \<longleftrightarrow> map_of (dt_detectedDeadlocks d) name \<noteq> None"

section \<open>Specifications\<close>

text \<open>A component whose starts are logged with their success, and a manager that makes attempts at given times.\<close>

definition log_starts :: "'w Restartable \<Rightarrow> ('w \<times> bool list) Restartable" where
  "log_starts c =
     \<lparr>re_IsRunning = (\<lambda>w. re_IsRunning c (fst w)), re_Shutdown = (\<lambda>w. ((fst (re_Shutdown c (fst w)), snd w), snd (re_Shutdown c (fst w)))),
      re_Start = (\<lambda>w. ((fst (re_Start c (fst w)), snd w @ [snd (re_Start c (fst w)) = None]), snd (re_Start c (fst w))))\<rparr>"

fun restart_run :: "fmath \<Rightarrow> 'w Restartable \<Rightarrow> (time \<times> time) list \<Rightarrow> RestartManager \<times> 'w \<Rightarrow> RestartManager \<times> 'w" where
  "restart_run F c [] s = s"
| "restart_run F c (t # ts) s =
     restart_run F c ts (case AttemptRestart F c (fst t) (snd t) (fst s) (snd s) of (rm, w, _) \<Rightarrow> (rm, w))"

text \<open>The starts that failed since the last that succeeded.\<close>

definition failing :: "bool list \<Rightarrow> int" where
  "failing log = int (length (takeWhile Not (rev log)))"

definition restart_inv :: "RestartConfig \<Rightarrow> RestartManager \<times> 'w \<times> bool list \<Rightarrow> bool" where
  "restart_inv cfg s \<longleftrightarrow> rm_config (fst s) = cfg \<and> rm_restartAttempts (fst s) = failing (snd (snd s)) \<and> failing (snd (snd s)) \<le> max 0 (rc_MaxRestartAttempts cfg)"

text \<open>A component that never starts.\<close>

definition ex_broken :: "unit Restartable" where
  "ex_broken = \<lparr>re_IsRunning = (\<lambda>_. False), re_Shutdown = (\<lambda>w. (w, None)), re_Start = (\<lambda>w. (w, Some ''broken''))\<rparr>"

section \<open>Lemmas\<close>

lemma failing_snoc [simp]: "failing (log @ [ok]) = (if ok then 0 else failing log + 1)"
  by (simp add: failing_def)

lemma failing_nonneg [simp]: "0 \<le> failing log"
  by (simp add: failing_def)

lemma attempt_inv:
  assumes inv: "restart_inv cfg (rm, w)" and max: "in_int64 (rc_MaxRestartAttempts cfg)"
  shows "restart_inv cfg (case AttemptRestart F (log_starts c) now now2 rm w of (rm', w', _) \<Rightarrow> (rm', w'))"
proof -
  have "to_int64 (rm_restartAttempts rm + 1) = failing (snd w) + 1" if "rm_restartAttempts rm < rc_MaxRestartAttempts cfg"
    using inv max that failing_nonneg [of "snd w"]
    by (simp add: restart_inv_def) (rule to_int64_id, simp add: in_int64_def min_int64_def max_int64_def)
  then show ?thesis
    using inv by (auto simp: restart_inv_def AttemptRestart_def log_starts_def Let_def split_beta split: option.splits)
qed

lemma run_inv:
  assumes "in_int64 (rc_MaxRestartAttempts cfg)"
  shows "restart_inv cfg s \<Longrightarrow> restart_inv cfg (restart_run F (log_starts c) ts s)"
proof (induction ts arbitrary: s)
  case (Cons t ts)
  obtain rm w where s: "s = (rm, w)" by (cases s)
  show ?case using Cons.IH attempt_inv [OF _ assms, of rm w F c "fst t" "snd t"] Cons.prems by (simp add: s)
qed simp

text \<open>Levels stay within their range.\<close>

lemma level_range:
  assumes "list_all (\<lambda>cl. 0 \<le> snd cl \<and> snd cl \<le> dc_maxLevel dc) (dc_componentLevels dc)" "0 < dc_maxLevel dc"
  shows "0 \<le> GetComponentLevel c dc \<and> GetComponentLevel c dc \<le> dc_maxLevel dc"
    and "list_all (\<lambda>cl. 0 \<le> snd cl \<and> snd cl \<le> dc_maxLevel dc) (dc_componentLevels (fst (SetComponentLevel c l dc)))"
  using assms by (auto simp: GetComponentLevel_def SetComponentLevel_def list_all_iff split: option.split dest!: map_of_SomeD in_updateD)

lemma set_then_get: "SetComponentLevel c l dc = (dc', None) \<Longrightarrow> GetComponentLevel c' dc' = (if c' = c then l else GetComponentLevel c' dc)"
  by (auto simp: SetComponentLevel_def GetComponentLevel_def gomap_simps split: if_splits)

text \<open>The provider keeps its latest events, and no event belongs to a named component.\<close>

lemma emitted_events:
  assumes "0 \<le> dp_maxEvents d"
  shows "\<exists>d'. EmitAgentDiagEvent i d = Returns d' \<and> dp_events d' = last_n (nat (dp_maxEvents d)) (dp_events d @ [diag_event i])"
proof -
  have "nat (int (Suc (length (dp_events d))) - dp_maxEvents d) = Suc (length (dp_events d)) - nat (dp_maxEvents d)" using assms by arith
  then show ?thesis using assms by (auto simp: EmitAgentDiagEvent_def trim_events_def last_n_def not_less)
qed

lemma no_component_events: "list_all (\<lambda>e. de_ComponentName e = []) (dp_events d) \<Longrightarrow> n \<noteq> [] \<Longrightarrow> GetEventsByComponent n d = []"
  by (auto simp: GetEventsByComponent_def list_all_iff filter_empty_conv)

lemma negative_limit_panics: "n < 0 \<Longrightarrow> SetMaxEvents n d = Panics"
  by (simp add: SetMaxEvents_def trim_events_def)

text \<open>The first record of a deadlock is kept until it is cleared.\<close>

lemma first_deadlock_kept:
  "HasDeadlock n d \<Longrightarrow> handleDeadlockDetected now stacks n m d = d" "HasDeadlock n (handleDeadlockDetected now stacks n m d)" "\<not> HasDeadlock n (ClearDeadlock n d)"
  by (auto simp: HasDeadlock_def handleDeadlockDetected_def ClearDeadlock_def gomap_simps)

section \<open>Properties\<close>

text \<open>
  C37. Whatever a component does and whenever attempts are made, a manager makes at most \<^verbatim>\<open>MaxRestartAttempts\<close>
  starts that fail in a row. Once it has made that many it gives up: every further attempt is an error and does not touch the
  component, however long one waits and even if the component would start or already runs.
\<close>

theorem restarts_give_up:
  assumes "in_int64 (rc_MaxRestartAttempts cfg)" "rc_Enabled cfg"
    and "restart_run F (log_starts c) ts (NewRestartManager cfg, w, []) = (rm, w', log)"
  shows "failing log \<le> max 0 (rc_MaxRestartAttempts cfg) \<and>
    (failing log = max 0 (rc_MaxRestartAttempts cfg) \<longrightarrow>
      AttemptRestart F (log_starts c) now now2 rm (w', log) = (rm, (w', log), False, Some (MaxAttemptsReached (rc_MaxRestartAttempts cfg))))"
proof -
  have "restart_inv cfg (NewRestartManager cfg, w, [])" by (simp add: restart_inv_def NewRestartManager_def failing_def)
  from run_inv [OF assms(1) this, of F c ts] have "restart_inv cfg (rm, w', log)" using assms(3) by simp
  then show ?thesis using assms(2) by (auto simp: restart_inv_def AttemptRestart_def)
qed

theorem restarts_give_up_witness:
  "let cfg = wd_RestartPolicy watchdog_DefaultConfig\<lparr>rc_MaxRestartAttempts := 1\<rparr>;
       (rm, w', log) = restart_run ex_fmath (log_starts ex_broken) [(second, second)] (NewRestartManager cfg, (), [])
   in log = [False] \<and> AttemptRestart ex_fmath (log_starts ex_broken) (3600 * second) 0 rm (w', log) = (rm, (w', log), False, Some (MaxAttemptsReached 1))"
proof -
  let ?cfg = "wd_RestartPolicy watchdog_DefaultConfig\<lparr>rc_MaxRestartAttempts := 1\<rparr>"
  obtain rm w' log where run: "restart_run ex_fmath (log_starts ex_broken) [(second, second)] (NewRestartManager ?cfg, (), []) = (rm, w', log)"
    by (metis prod_cases3)
  have cfg: "rc_Enabled ?cfg" "rc_MaxRestartAttempts ?cfg = 1" by (simp_all add: watchdog_DefaultConfig_def)
  have log: "log = [False]" using run cfg by (auto simp: NewRestartManager_def AttemptRestart_def log_starts_def ex_broken_def zero_time_def Let_def)
  from restarts_give_up [OF _ cfg(1) run, of "3600 * second" 0] show ?thesis
    unfolding Let_def run by (simp add: log cfg failing_def in_int64_def min_int64_def max_int64_def)
qed

end
