(* ===== verification/Json_Text.thy ===== *)
theory Json_Text
  imports Go_Prelude
begin

text \<open>
  The part of \<^verbatim>\<open>encoding/json\<close> and \<^verbatim>\<open>strconv\<close> that the inventory store uses: printing and
  parsing of decimal integers, and JSON texts.

  \<^item> \<open>json\<close> is a JSON value; an object keeps its members in the order of the text. A number is its literal.
  \<^item> \<open>enc\<close> prints a value as \<^verbatim>\<open>json.Marshal\<close> does, with its escapes for the HTML characters;
    \<open>json_parse\<close> reads a text. \<open>pval\<close> takes fuel; twice the length of the text is
    enough, more changes nothing (\<open>pval_fuel\<close>).
  \<^item> \<open>json_value\<close> is what \<^verbatim>\<open>json.Unmarshal\<close> stores in an \<^verbatim>\<open>interface{}\<close>: an object becomes
    a map, held as its members sorted by key with the last of equal keys kept, as \<^verbatim>\<open>json.Marshal\<close> prints it, and a
    number becomes a float64. \<open>canon\<close> is the literal with which the float64 nearest to a literal is printed,
    \<open>None\<close> when the literal is out of range.
  \<^item> \<open>json_field\<close> finds the member that fills a struct field: names are compared without regard to case and the
    last one wins; \<^verbatim>\<open>null\<close> leaves the field as it is.

  Strings are bytes. Bytes from 128 on are copied: texts are valid UTF-8 without the separators U+2028 and U+2029.
  The limit of 10000 nested values is not modelled.
\<close>

section \<open>Integers\<close>

definition digit :: "nat \<Rightarrow> char" where
  "digit n = char_of (48 + n)"

fun nat_str :: "nat \<Rightarrow> string" where
  "nat_str n = (if n < 10 then [digit n] else nat_str (n div 10) @ [digit (n mod 10)])"

definition int_str :: "int \<Rightarrow> string" where
  "int_str i = (if i < 0 then CHR ''-'' # nat_str (nat (- i)) else nat_str (nat i))"

definition digit_val :: "char \<Rightarrow> nat option" where
  "digit_val c = (if 48 \<le> (of_char c :: nat) \<and> (of_char c :: nat) \<le> 57 then Some (of_char c - 48) else None)"

fun parse_digits :: "nat \<Rightarrow> string \<Rightarrow> nat option" where
  "parse_digits acc [] = Some acc"
| "parse_digits acc (c # cs) = (case digit_val c of None \<Rightarrow> None | Some d \<Rightarrow> parse_digits (10 * acc + d) cs)"

definition parse_nat :: "string \<Rightarrow> nat option" where
  "parse_nat s = (if s = [] then None else parse_digits 0 s)"

text \<open>\<^verbatim>\<open>strconv.ParseInt(s, 10, 64)\<close>.\<close>

definition parse_int :: "string \<Rightarrow> int option" where
  "parse_int s =
     (let i = (case s of
                 c # t \<Rightarrow> if c = CHR ''-'' then map_option (\<lambda>n. - int n) (parse_nat t)
                         else if c = CHR ''+'' then map_option int (parse_nat t) else map_option int (parse_nat s)
               | [] \<Rightarrow> None)
      in case i of Some n \<Rightarrow> if in_int64 n then Some n else None | None \<Rightarrow> None)"

section \<open>Values and their texts\<close>

datatype json = JNull | JBool bool | JNum string | JStr string | JArr "json list" | JObj "(string \<times> json) list"

definition backslash :: char where "backslash = CHR 0x5C"

definition quote :: char where "quote = CHR 0x22"

definition hex_digit :: "nat \<Rightarrow> char" where
  "hex_digit n = (if n < 10 then char_of (48 + n) else char_of (87 + n))"

text \<open>The escapes of a byte: the short ones, \<^verbatim>\<open>u00xx\<close> for other control characters and the HTML characters.\<close>

definition escape_char :: "char \<Rightarrow> string" where
  "escape_char c =
     (let n = (of_char c :: nat) in
      if c = quote \<or> c = backslash then [backslash, c]
      else if n = 8 then [backslash, CHR ''b'']
      else if n = 12 then [backslash, CHR ''f'']
      else if n = 10 then [backslash, CHR ''n'']
      else if n = 13 then [backslash, CHR ''r'']
      else if n = 9 then [backslash, CHR ''t'']
      else if n < 32 \<or> c = CHR ''<'' \<or> c = CHR ''>'' \<or> c = CHR ''&''
        then [backslash, CHR ''u'', CHR ''0'', CHR ''0'', hex_digit (n div 16), hex_digit (n mod 16)]
      else [c])"

definition enc_str :: "string \<Rightarrow> string" where
  "enc_str s = quote # concat (map escape_char s) @ [quote]"

fun join :: "string \<Rightarrow> string list \<Rightarrow> string" where
  "join sep [] = []"
| "join sep [x] = x"
| "join sep (x # y # xs) = x @ sep @ join sep (y # xs)"

fun enc :: "json \<Rightarrow> string" where
  "enc JNull = ''null''"
| "enc (JBool b) = (if b then ''true'' else ''false'')"
| "enc (JNum lit) = lit"
| "enc (JStr s) = enc_str s"
| "enc (JArr xs) = ''['' @ join '','' (map enc xs) @ '']''"
| "enc (JObj ms) = ''{'' @ join '','' (map (\<lambda>(k, v). enc_str k @ '':'' @ enc v) ms) @ ''}''"

section \<open>Parsing\<close>

definition is_ws :: "char \<Rightarrow> bool" where
  "is_ws c \<longleftrightarrow> c = CHR '' '' \<or> (of_char c :: nat) \<in> {9, 10, 13}"

definition skip :: "string \<Rightarrow> string" where
  "skip s = dropWhile is_ws s"

definition num_char :: "char \<Rightarrow> bool" where
  "num_char c \<longleftrightarrow> digit_val c \<noteq> None \<or> c \<in> {CHR ''-'', CHR ''+'', CHR ''.'', CHR ''e'', CHR ''E''}"

definition is_digit :: "char \<Rightarrow> bool" where
  "is_digit c \<longleftrightarrow> digit_val c \<noteq> None"

text \<open>The grammar of a number: sign, digits without a leading zero, fraction, exponent.\<close>

definition valid_exponent :: "string \<Rightarrow> bool" where
  "valid_exponent s \<longleftrightarrow> s = [] \<or> (hd s \<in> {CHR ''e'', CHR ''E''} \<and>
     (let t = (if tl s \<noteq> [] \<and> hd (tl s) \<in> {CHR ''+'', CHR ''-''} then tl (tl s) else tl s) in t \<noteq> [] \<and> list_all is_digit t))"

definition valid_fraction :: "string \<Rightarrow> bool" where
  "valid_fraction s \<longleftrightarrow>
     (if s \<noteq> [] \<and> hd s = CHR ''.'' then takeWhile is_digit (tl s) \<noteq> [] \<and> valid_exponent (dropWhile is_digit (tl s)) else valid_exponent s)"

definition valid_number :: "string \<Rightarrow> bool" where
  "valid_number s \<longleftrightarrow>
     (let t = (if s \<noteq> [] \<and> hd s = CHR ''-'' then tl s else s); ds = takeWhile is_digit t
      in ds \<noteq> [] \<and> (hd ds = CHR ''0'' \<longrightarrow> length ds = 1) \<and> valid_fraction (dropWhile is_digit t))"

definition hex_val :: "char \<Rightarrow> nat option" where
  "hex_val c =
     (let n = (of_char c :: nat) in
      if 48 \<le> n \<and> n \<le> 57 then Some (n - 48) else if 97 \<le> n \<and> n \<le> 102 then Some (n - 87)
      else if 65 \<le> n \<and> n \<le> 70 then Some (n - 55) else None)"

definition hex4 :: "char \<Rightarrow> char \<Rightarrow> char \<Rightarrow> char \<Rightarrow> nat option" where
  "hex4 a b c d =
     (case (hex_val a, hex_val b, hex_val c, hex_val d) of
        (Some w, Some x, Some y, Some z) \<Rightarrow> Some (((w * 16 + x) * 16 + y) * 16 + z)
      | _ \<Rightarrow> None)"

definition utf8 :: "nat \<Rightarrow> string" where
  "utf8 n =
     (if n < 128 then [char_of n]
      else if n < 2048 then [char_of (192 + n div 64), char_of (128 + n mod 64)]
      else if n < 65536 then [char_of (224 + n div 4096), char_of (128 + n div 64 mod 64), char_of (128 + n mod 64)]
      else [char_of (240 + n div 262144), char_of (128 + n div 4096 mod 64), char_of (128 + n div 64 mod 64), char_of (128 + n mod 64)])"

definition simple_escape :: "char \<Rightarrow> char option" where
  "simple_escape e =
     (if e = quote \<or> e = backslash \<or> e = CHR ''/'' then Some e
      else if e = CHR ''b'' then Some (char_of (8::nat)) else if e = CHR ''f'' then Some (char_of (12::nat))
      else if e = CHR ''n'' then Some (char_of (10::nat)) else if e = CHR ''r'' then Some (char_of (13::nat))
      else if e = CHR ''t'' then Some (char_of (9::nat)) else None)"

definition surrogate :: "nat \<Rightarrow> bool" where
  "surrogate n \<longleftrightarrow> 55296 \<le> n \<and> n < 57344"

text \<open>The second half of a surrogate pair, when one follows.\<close>

definition low_surrogate :: "string \<Rightarrow> nat option" where
  "low_surrogate s =
     (case s of b # u # w # x # y # z # _ \<Rightarrow>
        if b = backslash \<and> u = CHR ''u'' then
          (case hex4 w x y z of Some r \<Rightarrow> if 56320 \<le> r \<and> r < 57344 then Some r else None | None \<Rightarrow> None)
        else None
      | _ \<Rightarrow> None)"

definition prepend :: "string \<Rightarrow> (string \<times> string) option \<Rightarrow> (string \<times> string) option" where
  "prepend p r = map_option (\<lambda>(x, rest). (p @ x, rest)) r"

text \<open>What follows a backslash: the bytes it stands for and the rest.\<close>

definition pesc :: "string \<Rightarrow> (string \<times> string) option" where
  "pesc s =
     (case s of [] \<Rightarrow> None
      | e # t \<Rightarrow>
          if e = CHR ''u'' then
            (case t of
               a # b # x # y # u \<Rightarrow>
                 (case hex4 a b x y of
                    None \<Rightarrow> None
                  | Some r \<Rightarrow>
                      if \<not> surrogate r then Some (utf8 r, u)
                      else (case if r < 56320 then low_surrogate u else None of
                              Some r2 \<Rightarrow> Some (utf8 (65536 + (r - 55296) * 1024 + (r2 - 56320)), drop 6 u)
                            | None \<Rightarrow> Some (utf8 65533, u)))
             | _ \<Rightarrow> None)
          else map_option (\<lambda>c. ([c], t)) (simple_escape e))"

text \<open>The rest of a string after its opening quote.\<close>

function pstr :: "string \<Rightarrow> (string \<times> string) option" where
  "pstr [] = None"
| "pstr (c # t) =
     (if c = quote then Some ([], t)
      else if c = backslash then (case pesc t of None \<Rightarrow> None | Some (p, u) \<Rightarrow> prepend p (pstr u))
      else if (of_char c :: nat) < 32 then None
      else prepend [c] (pstr t))"
  by pat_completeness auto
termination
  by (relation "measure length") (auto simp: pesc_def split: list.splits if_splits option.splits)

definition strip :: "string \<Rightarrow> string \<Rightarrow> string option" where
  "strip p s = (if take (length p) s = p then Some (drop (length p) s) else None)"

definition literal :: "string \<Rightarrow> (json \<times> string) option" where
  "literal s =
     (case strip ''null'' s of Some r \<Rightarrow> Some (JNull, r) | None \<Rightarrow>
     (case strip ''true'' s of Some r \<Rightarrow> Some (JBool True, r) | None \<Rightarrow>
     (case strip ''false'' s of Some r \<Rightarrow> Some (JBool False, r) | None \<Rightarrow> None)))"

definition number :: "string \<Rightarrow> (json \<times> string) option" where
  "number s =
     (let lit = takeWhile num_char s in if valid_number lit then Some (JNum lit, dropWhile num_char s) else None)"

fun pval :: "nat \<Rightarrow> string \<Rightarrow> (json \<times> string) option"
and pelems :: "nat \<Rightarrow> string \<Rightarrow> (json list \<times> string) option"
and pmems :: "nat \<Rightarrow> string \<Rightarrow> ((string \<times> json) list \<times> string) option" where
  "pval 0 s = None"
| "pval (Suc n) s =
     (case skip s of [] \<Rightarrow> None
      | c # t \<Rightarrow>
          if c = CHR ''{'' then
            (if skip t \<noteq> [] \<and> hd (skip t) = CHR ''}'' then Some (JObj [], tl (skip t))
             else map_option (\<lambda>(ms, u). (JObj ms, u)) (pmems n t))
          else if c = CHR ''['' then
            (if skip t \<noteq> [] \<and> hd (skip t) = CHR '']'' then Some (JArr [], tl (skip t))
             else map_option (\<lambda>(xs, u). (JArr xs, u)) (pelems n t))
          else if c = quote then map_option (\<lambda>(x, u). (JStr x, u)) (pstr t)
          else if num_char c then number (c # t)
          else literal (c # t))"
| "pelems 0 s = None"
| "pelems (Suc n) s =
     (case pval n s of None \<Rightarrow> None
      | Some (v, u) \<Rightarrow>
          (case skip u of [] \<Rightarrow> None
           | c # t \<Rightarrow>
               if c = CHR '','' then map_option (\<lambda>(vs, w). (v # vs, w)) (pelems n t)
               else if c = CHR '']'' then Some ([v], t) else None))"
| "pmems 0 s = None"
| "pmems (Suc n) s =
     (case skip s of [] \<Rightarrow> None
      | q # t \<Rightarrow>
          if q \<noteq> quote then None
          else (case pstr t of None \<Rightarrow> None
                | Some (k, u) \<Rightarrow>
                    if skip u = [] \<or> hd (skip u) \<noteq> CHR '':'' then None
                    else (case pval n (tl (skip u)) of None \<Rightarrow> None
                          | Some (v, w) \<Rightarrow>
                              (case skip w of [] \<Rightarrow> None
                               | c # x \<Rightarrow>
                                   if c = CHR '','' then map_option (\<lambda>(ms, y). ((k, v) # ms, y)) (pmems n x)
                                   else if c = CHR ''}'' then Some ([(k, v)], x) else None))))"

definition json_parse :: "string \<Rightarrow> json option" where
  "json_parse s = (case pval (2 * length s) s of Some (v, r) \<Rightarrow> if skip r = [] then Some v else None | None \<Rightarrow> None)"

section \<open>Values in \<^verbatim>\<open>interface{}\<close>\<close>

text \<open>Insertion into a map held as its members sorted by key.\<close>

fun put :: "string \<Rightarrow> 'v \<Rightarrow> (string \<times> 'v) list \<Rightarrow> (string \<times> 'v) list" where
  "put k v [] = [(k, v)]"
| "put k v ((k', v') # m) = (if k < k' then (k, v) # (k', v') # m else if k = k' then (k, v) # m else (k', v') # put k v m)"

fun json_value :: "(string \<Rightarrow> string option) \<Rightarrow> json \<Rightarrow> json option"
and json_values :: "(string \<Rightarrow> string option) \<Rightarrow> json list \<Rightarrow> json list option"
and json_members :: "(string \<Rightarrow> string option) \<Rightarrow> (string \<times> json) list \<Rightarrow> (string \<times> json) list \<Rightarrow> (string \<times> json) list option" where
  "json_value canon JNull = Some JNull"
| "json_value canon (JBool b) = Some (JBool b)"
| "json_value canon (JNum lit) = map_option JNum (canon lit)"
| "json_value canon (JStr s) = Some (JStr s)"
| "json_value canon (JArr xs) = map_option JArr (json_values canon xs)"
| "json_value canon (JObj ms) = map_option JObj (json_members canon ms [])"
| "json_values canon [] = Some []"
| "json_values canon (x # xs) =
     (case (json_value canon x, json_values canon xs) of (Some v, Some vs) \<Rightarrow> Some (v # vs) | _ \<Rightarrow> None)"
| "json_members canon [] m = Some m"
| "json_members canon ((k, x) # ms) m = (case json_value canon x of Some v \<Rightarrow> json_members canon ms (put k v m) | None \<Rightarrow> None)"

definition json_field :: "string \<Rightarrow> (string \<times> json) list \<Rightarrow> json" where
  "json_field name ms =
     (case filter (\<lambda>(k, v). to_lower k = name \<and> v \<noteq> JNull) ms of [] \<Rightarrow> JNull | fs \<Rightarrow> snd (last fs))"

definition int_field :: "string \<Rightarrow> (string \<times> json) list \<Rightarrow> int option" where
  "int_field name ms = (case json_field name ms of JNull \<Rightarrow> Some 0 | JNum lit \<Rightarrow> parse_int lit | _ \<Rightarrow> None)"

definition str_field :: "string \<Rightarrow> (string \<times> json) list \<Rightarrow> string option" where
  "str_field name ms = (case json_field name ms of JNull \<Rightarrow> Some [] | JStr s \<Rightarrow> Some s | _ \<Rightarrow> None)"

definition bool_field :: "string \<Rightarrow> (string \<times> json) list \<Rightarrow> bool option" where
  "bool_field name ms = (case json_field name ms of JNull \<Rightarrow> Some False | JBool b \<Rightarrow> Some b | _ \<Rightarrow> None)"

text \<open>Values as \<^verbatim>\<open>json.Unmarshal\<close> makes them: literals as printed, members strictly sorted.\<close>

fun json_ok :: "(string \<Rightarrow> string option) \<Rightarrow> json \<Rightarrow> bool" where
  "json_ok canon (JNum lit) \<longleftrightarrow> canon lit = Some lit \<and> valid_number lit \<and> list_all num_char lit"
| "json_ok canon (JArr xs) \<longleftrightarrow> list_all (json_ok canon) xs"
| "json_ok canon (JObj ms) \<longleftrightarrow> sorted_wrt (<) (map fst ms) \<and> list_all (\<lambda>(k, v). json_ok canon v) ms"
| "json_ok canon _ \<longleftrightarrow> True"

text \<open>A value whose literals are numbers: what the printer and the parser need.\<close>

fun nums_ok :: "json \<Rightarrow> bool" where
  "nums_ok (JNum lit) \<longleftrightarrow> valid_number lit \<and> list_all num_char lit"
| "nums_ok (JArr xs) \<longleftrightarrow> list_all nums_ok xs"
| "nums_ok (JObj ms) \<longleftrightarrow> list_all (\<lambda>(k, v). nums_ok v) ms"
| "nums_ok _ \<longleftrightarrow> True"

text \<open>What may follow a number.\<close>

definition stops :: "string \<Rightarrow> bool" where
  "stops rest \<longleftrightarrow> rest = [] \<or> \<not> num_char (hd rest)"

section \<open>Lemmas on integers\<close>

declare nat_str.simps [simp del]

lemma digit_0: "digit 0 = CHR ''0''"
  by code_simp

lemma digit_val_digit [simp]: "n < 10 \<Longrightarrow> digit_val (digit n) = Some n"
  by (simp add: digit_val_def digit_def)

lemma is_digit_digit [simp]: "n < 10 \<Longrightarrow> is_digit (digit n)"
  by (simp add: is_digit_def)

lemma nat_str_not_Nil [simp]: "nat_str n \<noteq> []"
  by (subst nat_str.simps) simp

lemma nat_str_digits: "list_all is_digit (nat_str n)"
  by (induction n rule: nat_str.induct) (subst nat_str.simps, simp)

lemma parse_digits_append: "parse_digits acc (xs @ ys) = (case parse_digits acc xs of None \<Rightarrow> None | Some n \<Rightarrow> parse_digits n ys)"
  by (induction xs arbitrary: acc) (simp_all split: option.splits)

lemma parse_digits_nat_str: "parse_digits 0 (nat_str n) = Some n"
proof (induction n rule: nat_str.induct)
  case (1 n)
  then show ?case by (subst nat_str.simps) (simp add: parse_digits_append)
qed

lemma nat_str_hd: "hd (nat_str n) = CHR ''0'' \<longleftrightarrow> n = 0"
proof (induction n rule: nat_str.induct)
  case (1 n)
  have *: "digit n = CHR ''0'' \<longleftrightarrow> n = 0" if "n < 10"
    using digit_val_digit [OF that] by (auto simp: digit_val_def digit_0)
  show ?case
  proof (cases "n < 10")
    case True
    then show ?thesis by (subst nat_str.simps) (simp add: *)
  next
    case False
    then show ?thesis using "1.IH" by (subst nat_str.simps) (simp add: div_eq_0_iff)
  qed
qed

lemma digit_not_sign: "is_digit c \<Longrightarrow> c \<noteq> CHR ''-'' \<and> c \<noteq> CHR ''+''"
  by (auto simp: is_digit_def digit_val_def)

lemma parse_int_str: "in_int64 i \<Longrightarrow> parse_int (int_str i) = Some i"
proof -
  assume i: "in_int64 i"
  show ?thesis
  proof (cases "i < 0")
    case True
    then show ?thesis using i by (simp add: parse_int_def int_str_def parse_nat_def parse_digits_nat_str)
  next
    case False
    obtain c t where t: "nat_str (nat i) = c # t" by (cases "nat_str (nat i)") auto
    then have "is_digit c" using nat_str_digits [of "nat i"] by simp
    with False i t parse_digits_nat_str [of "nat i"] show ?thesis
      by (simp add: parse_int_def int_str_def parse_nat_def digit_not_sign)
  qed
qed

lemma valid_digits: "ds \<noteq> [] \<Longrightarrow> list_all is_digit ds \<Longrightarrow> (hd ds = CHR ''0'' \<longrightarrow> length ds = 1) \<Longrightarrow> hd ds \<noteq> CHR ''-'' \<Longrightarrow> valid_number ds"
proof -
  assume a: "ds \<noteq> []" "list_all is_digit ds" "hd ds = CHR ''0'' \<longrightarrow> length ds = 1" "hd ds \<noteq> CHR ''-''"
  have all: "takeWhile is_digit ds = ds" "dropWhile is_digit ds = []" using a(2) by (auto simp: list_all_iff takeWhile_eq_all_conv)
  from a show ?thesis by (simp add: all list_all_iff valid_number_def Let_def valid_fraction_def valid_exponent_def)
qed

lemma valid_minus: "valid_number ds \<Longrightarrow> list_all is_digit ds \<Longrightarrow> valid_number (CHR ''-'' # ds)"
  by (cases ds) (auto simp: valid_number_def Let_def digit_not_sign split: if_splits)

lemma nat_str_zero: "nat_str 0 = [CHR ''0'']"
  by (simp add: nat_str.simps digit_0)

lemma valid_nat_str: "valid_number (nat_str n)"
proof (rule valid_digits)
  have "is_digit (hd (nat_str n))" using nat_str_digits [of n] by (simp add: list_all_iff)
  then show "hd (nat_str n) \<noteq> CHR ''-''" by (simp add: digit_not_sign)
qed (auto simp: nat_str_digits nat_str_hd nat_str_zero)

lemma is_digit_num_char: "is_digit c \<Longrightarrow> num_char c"
  by (simp add: is_digit_def num_char_def)

lemma int_str_number: "nums_ok (JNum (int_str i))"
proof -
  have "list_all num_char (nat_str n)" for n
    using nat_str_digits [of n] by (simp add: list_all_iff is_digit_num_char)
  then show ?thesis
    by (simp add: int_str_def valid_nat_str valid_minus nat_str_digits) (simp add: num_char_def)
qed

section \<open>Lemmas on strings\<close>

lemma hex_val_digit: "n < 16 \<Longrightarrow> hex_val (hex_digit n) = Some n"
  by (simp add: hex_val_def hex_digit_def Let_def)

lemma hex4_low: "n < 256 \<Longrightarrow> hex4 CHR ''0'' CHR ''0'' (hex_digit (n div 16)) (hex_digit (n mod 16)) = Some n"
proof -
  assume "n < 256"
  then have "n div 16 < 16" "n mod 16 < 16" by (auto simp: less_mult_imp_div_less)
  then show ?thesis by (simp add: hex4_def hex_val_digit) (simp add: hex_val_def)
qed

lemma of_char_less: "(of_char c :: nat) < 256"
  using nat_of_char_less_256 [of c] by simp

lemma escape_u:
  assumes "(of_char c :: nat) < 128"
  shows "pstr ([backslash, CHR ''u'', CHR ''0'', CHR ''0'', hex_digit (of_char c div 16), hex_digit (of_char c mod 16)] @ u) = prepend [c] (pstr u)"
  using assms hex4_low [OF of_char_less, of c] by (simp add: pesc_def quote_def backslash_def surrogate_def utf8_def)

lemma escape_short:
  assumes "simple_escape e = Some c" "e \<noteq> CHR ''u''"
  shows "pstr (backslash # e # u) = prepend [c] (pstr u)"
  using assms by (simp add: pesc_def quote_def backslash_def)

lemma pstr_escape: "pstr (escape_char c @ u) = prepend [c] (pstr u)"
proof -
  let ?n = "of_char c :: nat"
  have c: "c = char_of ?n" by simp
  consider "c = quote \<or> c = backslash" | "?n \<in> {8, 9, 10, 12, 13}" "c \<noteq> quote" "c \<noteq> backslash"
    | "?n < 32 \<or> c = CHR ''<'' \<or> c = CHR ''>'' \<or> c = CHR ''&''" "?n \<notin> {8, 9, 10, 12, 13}" "c \<noteq> quote" "c \<noteq> backslash"
    | "32 \<le> ?n" "\<not> (c = CHR ''<'' \<or> c = CHR ''>'' \<or> c = CHR ''&'')" "c \<noteq> quote" "c \<noteq> backslash"
    by fastforce
  then show ?thesis
  proof cases
    case 1
    then have "simple_escape c = Some c" "c \<noteq> CHR ''u''" "escape_char c = [backslash, c]"
      by (auto simp: escape_char_def simple_escape_def quote_def backslash_def)
    then show ?thesis using escape_short [of c c u] by simp
  next
    case 2
    have c': "char_of n = c" if "?n = n" for n using that c by simp
    have "\<exists>e. escape_char c = [backslash, e] \<and> simple_escape e = Some c \<and> e \<noteq> CHR ''u''"
      using 2 by (auto simp: escape_char_def simple_escape_def Let_def quote_def backslash_def c')
    then show ?thesis using escape_short by auto
  next
    case 3
    have "?n < 128" using 3(1) by auto
    from escape_u [OF this] show ?thesis using 3 by (simp add: escape_char_def Let_def)
  next
    case 4
    then have "escape_char c = [c]" by (simp add: escape_char_def Let_def)
    with 4 show ?thesis by simp
  qed
qed

lemma pstr_enc: "pstr (concat (map escape_char s) @ quote # rest) = Some (s, rest)"
  by (induction s) (simp_all add: pstr_escape prepend_def)

section \<open>Lemmas on texts\<close>

lemma stops_Cons [simp]: "c \<in> {CHR '','', CHR '']'', CHR ''}''} \<Longrightarrow> stops (c # rest)"
  by (auto simp: stops_def num_char_def digit_val_def)

lemma skip_id: "s \<noteq> [] \<Longrightarrow> \<not> is_ws (hd s) \<Longrightarrow> skip (s @ t) = s @ t"
  by (cases s) (simp_all add: skip_def)

lemma skip_Cons [simp]: "\<not> is_ws c \<Longrightarrow> skip (c # t) = c # t"
  by (simp add: skip_def)

lemma punct_not_ws [simp]:
  "\<not> is_ws CHR '',''" "\<not> is_ws CHR '':''" "\<not> is_ws CHR ''[''" "\<not> is_ws CHR '']''" "\<not> is_ws CHR ''{''" "\<not> is_ws CHR ''}''"
  "\<not> is_ws quote"
  by (simp_all add: is_ws_def quote_def)

lemma num_char_not_ws: "num_char c \<Longrightarrow> \<not> is_ws c \<and> c \<noteq> CHR ''{'' \<and> c \<noteq> CHR ''['' \<and> c \<noteq> CHR '']'' \<and> c \<noteq> CHR ''}'' \<and> c \<noteq> quote"
  by (auto simp: num_char_def digit_val_def is_ws_def quote_def split: if_splits)

lemma valid_number_not_Nil: "valid_number lit \<Longrightarrow> lit \<noteq> []"
  by (auto simp: valid_number_def)

lemma enc_hd:
  assumes "nums_ok v"
  shows "enc v \<noteq> []" "\<not> is_ws (hd (enc v))" "hd (enc v) \<noteq> CHR '']''" "hd (enc v) \<noteq> CHR ''}''"
proof -
  have "enc v \<noteq> [] \<and> \<not> is_ws (hd (enc v)) \<and> hd (enc v) \<noteq> CHR '']'' \<and> hd (enc v) \<noteq> CHR ''}''"
  proof (cases v)
    case (JNum lit)
    with assms have "lit \<noteq> []" "num_char (hd lit)" by (auto simp: valid_number_not_Nil list_all_iff)
    with num_char_not_ws [OF this(2)] JNum show ?thesis by simp
  qed (simp_all add: enc_str_def is_ws_def quote_def)
  then show "enc v \<noteq> []" "\<not> is_ws (hd (enc v))" "hd (enc v) \<noteq> CHR '']''" "hd (enc v) \<noteq> CHR ''}''" by simp_all
qed

lemma number_enc:
  assumes "nums_ok (JNum lit)" "stops rest"
  shows "number (lit @ rest) = Some (JNum lit, rest)"
proof -
  have "takeWhile num_char (lit @ rest) = lit \<and> dropWhile num_char (lit @ rest) = rest"
    using assms by (cases rest) (auto simp: stops_def list_all_iff takeWhile_append2 dropWhile_append2)
  with assms(1) show ?thesis by (simp add: number_def)
qed

lemma literal_enc:
  "literal (''null'' @ rest) = Some (JNull, rest)" "literal (''true'' @ rest) = Some (JBool True, rest)"
  "literal (''false'' @ rest) = Some (JBool False, rest)"
  by (simp_all add: literal_def strip_def)

lemma pelems_enc:
  assumes "\<And>x n rest. x \<in> set xs \<Longrightarrow> stops rest \<Longrightarrow> length (enc x) \<le> n \<Longrightarrow> pval n (enc x @ rest) = Some (x, rest)"
    and "xs \<noteq> []" "Suc (length (join '','' (map enc xs))) \<le> n"
  shows "pelems n (join '','' (map enc xs) @ CHR '']'' # rest) = Some (xs, rest)"
  using assms
proof (induction xs arbitrary: n)
  case (Cons x xs)
  obtain m where n: "n = Suc m" using Cons.prems(3) by (cases n) auto
  show ?case
  proof (cases xs)
    case Nil
    have "pval m (enc x @ CHR '']'' # rest) = Some (x, CHR '']'' # rest)"
      using Cons.prems(1) [of x "CHR '']'' # rest" m] Cons.prems(3) by (simp add: n Nil)
    then show ?thesis by (simp add: n Nil)
  next
    case (Cons y ys)
    let ?t = "join '','' (map enc xs) @ CHR '']'' # rest"
    have "pval m (enc x @ CHR '','' # ?t) = Some (x, CHR '','' # ?t)"
      using Cons.prems(1) [of x "CHR '','' # ?t" m] Cons.prems(3) Cons by (simp add: n)
    moreover have "pelems m ?t = Some (xs, rest)"
      using Cons.IH [of m] Cons.prems(1,3) Cons by (simp add: n)
    ultimately show ?thesis using Cons by (simp add: n)
  qed
qed simp

lemma pmems_enc:
  assumes "\<And>x n rest. x \<in> snd ` set ms \<Longrightarrow> stops rest \<Longrightarrow> length (enc x) \<le> n \<Longrightarrow> pval n (enc x @ rest) = Some (x, rest)"
    and "ms \<noteq> []" "Suc (length (join '','' (map (\<lambda>(k, v). enc_str k @ '':'' @ enc v) ms))) \<le> n"
  shows "pmems n (join '','' (map (\<lambda>(k, v). enc_str k @ '':'' @ enc v) ms) @ CHR ''}'' # rest) = Some (ms, rest)"
  using assms
proof (induction ms arbitrary: n)
  case (Cons e ms)
  obtain k x where e: "e = (k, x)" by force
  obtain m where n: "n = Suc m" using Cons.prems(3) by (cases n) auto
  show ?case
  proof (cases ms)
    case Nil
    have "pval m (enc x @ CHR ''}'' # rest) = Some (x, CHR ''}'' # rest)"
      using Cons.prems(1) [of x "CHR ''}'' # rest" m] Cons.prems(3) by (simp add: n e Nil)
    then show ?thesis by (simp add: n e Nil enc_str_def pstr_enc)
  next
    case (Cons f fs)
    let ?t = "join '','' (map (\<lambda>(k, v). enc_str k @ '':'' @ enc v) ms) @ CHR ''}'' # rest"
    have "pval m (enc x @ CHR '','' # ?t) = Some (x, CHR '','' # ?t)"
      using Cons.prems(1) [of x "CHR '','' # ?t" m] Cons.prems(3) Cons by (simp add: n e)
    moreover have "pmems m ?t = Some (ms, rest)"
      using Cons.IH [of m] Cons.prems(1,3) Cons by (simp add: n e)
    ultimately show ?thesis using Cons by (simp add: n e enc_str_def pstr_enc)
  qed
qed simp

lemma join_hd: "nums_ok x \<Longrightarrow> hd (join '','' (map enc (x # xs)) @ r) = hd (enc x) \<and> join '','' (map enc (x # xs)) @ r \<noteq> []"
  using enc_hd(1) [of x] by (cases xs) auto

lemma pval_enc:
  assumes "nums_ok v" "stops rest" "length (enc v) \<le> n"
  shows "pval n (enc v @ rest) = Some (v, rest)"
  using assms
proof (induction v arbitrary: n rest rule: enc.induct)
  case (5 xs)
  then obtain m where n: "n = Suc m" by (cases n) auto
  show ?case
  proof (cases xs)
    case Nil
    then show ?thesis by (simp add: n)
  next
    case (Cons x ys)
    let ?t = "join '','' (map enc xs) @ CHR '']'' # rest"
    have x: "nums_ok x" using "5.prems"(1) Cons by simp
    have "skip ?t = ?t" "hd ?t \<noteq> CHR '']''" "?t \<noteq> []"
      using join_hd [OF x, of ys "CHR '']'' # rest"] enc_hd [OF x] skip_id [of ?t "[]"] Cons by auto
    moreover have "pelems m ?t = Some (xs, rest)"
      by (rule pelems_enc) (use 5 n Cons in \<open>auto simp: list_all_iff\<close>)
    ultimately show ?thesis by (simp add: n)
  qed
next
  case (6 ms)
  then obtain m where n: "n = Suc m" by (cases n) auto
  show ?case
  proof (cases ms)
    case Nil
    then show ?thesis by (simp add: n)
  next
    case (Cons e es)
    let ?t = "join '','' (map (\<lambda>(k, v). enc_str k @ '':'' @ enc v) ms) @ CHR ''}'' # rest"
    have "\<exists>u. ?t = quote # u" using Cons by (cases e; cases es) (auto simp: enc_str_def)
    then have "skip ?t = ?t" "hd ?t \<noteq> CHR ''}''" "?t \<noteq> []" by (auto simp: quote_def is_ws_def)
    moreover have "pmems m ?t = Some (ms, rest)"
    proof (rule pmems_enc)
      fix x n' rest'
      assume "x \<in> snd ` set ms" "stops rest'" "length (enc x) \<le> n'"
      then obtain k where "(k, x) \<in> set ms" by force
      then show "pval n' (enc x @ rest') = Some (x, rest')"
        using "6.IH" [OF _ refl] "6.prems"(1) \<open>stops rest'\<close> \<open>length (enc x) \<le> n'\<close> by (fastforce simp: list_all_iff)
    qed (use "6.prems"(3) n Cons in auto)
    ultimately show ?thesis by (simp add: n)
  qed
next
  case (3 lit)
  then obtain m where n: "n = Suc m" using enc_hd(1) [OF "3.prems"(1)] by (cases n) auto
  obtain c t where lit: "lit = c # t" "num_char c" using 3(1) valid_number_not_Nil [of lit] by (cases lit) auto
  have "number (c # t @ rest) = Some (JNum lit, rest)" using number_enc [OF 3(1,2)] lit by simp
  then show ?case using num_char_not_ws [OF lit(2)] by (simp add: n lit)
next
  case 1
  then obtain m where n: "n = Suc m" by (cases n) auto
  show ?case using literal_enc(1) [of rest] by (simp add: n quote_def num_char_def digit_val_def is_ws_def)
next
  case (2 b)
  then obtain m where n: "n = Suc m" by (cases n) (auto split: if_splits)
  show ?case using literal_enc(2,3) [of rest] by (cases b) (simp_all add: n quote_def num_char_def digit_val_def is_ws_def)
next
  case (4 x)
  then obtain m where n: "n = Suc m" by (cases n) (auto simp: enc_str_def)
  show ?case using pstr_enc [of x rest] by (simp add: n enc_str_def) (simp add: quote_def)
qed

lemma json_parse_enc: "nums_ok v \<Longrightarrow> json_parse (enc v) = Some v"
  using pval_enc [of v "[]" "2 * length (enc v)"] by (simp add: json_parse_def stops_def skip_def)

lemma put_last: "\<forall>k' \<in> fst ` set m. k' < k \<Longrightarrow> put k v m = m @ [(k, v)]"
proof (induction m)
  case (Cons e m)
  then show ?case by (cases e) auto
qed simp

lemma json_members_sorted:
  assumes "\<And>x. x \<in> snd ` set ms \<Longrightarrow> json_value canon x = Some x" "sorted_wrt (<) (map fst (m @ ms))"
  shows "json_members canon ms m = Some (m @ ms)"
  using assms
proof (induction ms arbitrary: m)
  case (Cons e ms)
  obtain k x where e: "e = (k, x)" by force
  have "put k x m = m @ [(k, x)]" by (rule put_last) (use Cons.prems(2) e in \<open>auto simp: sorted_wrt_append\<close>)
  then show ?case using Cons.IH [of "m @ [(k, x)]"] Cons.prems by (simp add: e)
qed simp

lemma json_values_id: "(\<And>x. x \<in> set xs \<Longrightarrow> json_value canon x = Some x) \<Longrightarrow> json_values canon xs = Some xs"
  by (induction xs) auto

lemma json_value_ok: "json_ok canon v \<Longrightarrow> json_value canon v = Some v"
proof (induction canon v rule: json_ok.induct)
  case (2 canon xs)
  then show ?case by (auto simp: list_all_iff intro!: json_values_id)
next
  case (3 canon ms)
  have "json_members canon ms [] = Some ([] @ ms)"
    by (rule json_members_sorted) (use 3 in \<open>auto simp: list_all_iff\<close>)
  then show ?case by simp
qed auto

lemma json_ok_nums: "json_ok canon v \<Longrightarrow> nums_ok v"
  by (induction canon v rule: json_ok.induct) (auto simp: list_all_iff)

section \<open>The fuel of the parser\<close>

lemma skip_length: "length (skip s) \<le> length s"
  by (simp add: skip_def length_dropWhile_le)

lemma pesc_length: "pesc s = Some (p, u) \<Longrightarrow> length u < length s"
  by (auto simp: pesc_def split: list.splits if_splits option.splits)

lemma pstr_length: "pstr s = Some (x, r) \<Longrightarrow> length r < length s"
proof (induction s arbitrary: x r rule: pstr.induct)
  case (2 c t)
  consider "r = t" | p u y where "pesc t = Some (p, u)" "c \<noteq> quote" "c = backslash" "pstr u = Some (y, r)"
    | y where "c \<noteq> quote" "c \<noteq> backslash" "\<not> (of_char c :: nat) < 32" "pstr t = Some (y, r)"
    using "2.prems" by (auto simp: prepend_def split: if_splits option.splits)
  then show ?case
  proof cases
    case (2 p u y)
    then show ?thesis using "2.IH"(1) pesc_length [of t p u] by fastforce
  next
    case (3 y)
    then show ?thesis using "2.IH"(2) by fastforce
  qed simp
qed simp

lemma number_length: "num_char c \<Longrightarrow> number (c # t) = Some (v, r) \<Longrightarrow> length r \<le> length t"
  using length_dropWhile_le [of num_char t] by (auto simp: number_def Let_def split: if_splits)

lemma strip_length: "strip p s = Some r \<Longrightarrow> p \<noteq> [] \<Longrightarrow> length r < length s"
  by (cases s) (auto simp: strip_def split: if_splits)

lemma literal_length: "literal s = Some (v, r) \<Longrightarrow> length r < length s"
  unfolding literal_def by (auto dest!: strip_length split: option.splits)

lemma skip_Cons_length: "skip s = c # t \<Longrightarrow> length t < length s"
  using skip_length [of s] by simp

lemma pelems_Suc_Some:
  assumes "pelems (Suc n) s = Some (vs, r)"
  obtains v u c t where "pval n s = Some (v, u)" "skip u = c # t" "r = t \<or> (\<exists>ws. pelems n t = Some (ws, r))"
  using assms by (auto split: option.splits list.splits if_splits)

lemma pmems_Suc_Some:
  assumes "pmems (Suc n) s = Some (ms, r)"
  obtains q t k u w v x c y where "skip s = q # t" "pstr t = Some (k, u)" "skip u = CHR '':'' # w" "pval n w = Some (v, x)" "skip x = c # y"
    "r = y \<or> (\<exists>ms'. pmems n y = Some (ms', r))"
proof -
  obtain q t k u where 1: "skip s = q # t" "pstr t = Some (k, u)" "skip u \<noteq> []" "hd (skip u) = CHR '':''"
    using assms by (auto split: option.splits list.splits if_splits)
  then obtain w where w: "skip u = CHR '':'' # w" by (cases "skip u") auto
  obtain v x c y where 2: "pval n w = Some (v, x)" "skip x = c # y" "r = y \<or> (\<exists>ms'. pmems n y = Some (ms', r))"
    using assms 1 w by (auto split: option.splits list.splits if_splits)
  show thesis by (rule that [OF 1(1,2) w 2])
qed

lemma parse_length:
  "pval n s = Some (v, r) \<Longrightarrow> length r < length s"
  "pelems n s = Some (vs, r) \<Longrightarrow> length r < length s"
  "pmems n s = Some (ms, r) \<Longrightarrow> length r < length s"
proof (induction n arbitrary: s v vs ms r)
  case (Suc n)
  { case 1
    obtain c t where s: "skip s = c # t" using 1 by (cases "skip s") auto
    have t: "length t < length s" using skip_length [of s] s by simp
    have tl: "length (tl (skip t)) \<le> length t" using skip_length [of t] by (cases "skip t") auto
    show ?case
      using 1 Suc.IH(2,3) [of t] t tl pstr_length [of t] number_length [of c t] literal_length [of "c # t"]
      by (fastforce simp: s split: if_splits)
  next
    case 2
    then obtain v u c t where "pval n s = Some (v, u)" "skip u = c # t" "r = t \<or> (\<exists>ws. pelems n t = Some (ws, r))"
      by (rule pelems_Suc_Some)
    then show ?case using Suc.IH(1) [of s v u] Suc.IH(2) [of t _ r] skip_Cons_length [of u c t] by fastforce
  next
    case 3
    then obtain q t k u w v x c y where "skip s = q # t" "pstr t = Some (k, u)" "skip u = CHR '':'' # w" "pval n w = Some (v, x)"
      "skip x = c # y" "r = y \<or> (\<exists>ms'. pmems n y = Some (ms', r))" by (rule pmems_Suc_Some)
    then show ?case
      using skip_Cons_length [of s q t] pstr_length [of t k u] skip_Cons_length [of u _ w] Suc.IH(1) [of w v x] skip_Cons_length [of x c y]
        Suc.IH(3) [of y _ r] by fastforce
  }
qed simp_all

lemma fuel_Suc: "2 * length s < m \<Longrightarrow> \<exists>m'. m = Suc m'"
  by (cases m) auto

lemma pval_fuel_step:
  assumes "skip s = c # t" "pelems n t = pelems m t" "pmems n t = pmems m t"
  shows "pval (Suc n) s = pval (Suc m) s"
  using assms by simp

lemma pelems_fuel_step:
  assumes "pval n s = pval m s" "\<And>v u c t. pval m s = Some (v, u) \<Longrightarrow> skip u = c # t \<Longrightarrow> pelems n t = pelems m t"
  shows "pelems (Suc n) s = pelems (Suc m) s"
proof (cases "pval m s")
  case (Some p)
  obtain v u where p: "p = (v, u)" by force
  show ?thesis using assms Some p by (cases "skip u") auto
qed (simp add: assms(1))

lemma pmems_fuel_step:
  assumes "\<And>w. length w < length s \<Longrightarrow> pval n w = pval m w" "\<And>t. length t < length s \<Longrightarrow> pmems n t = pmems m t"
  shows "pmems (Suc n) s = pmems (Suc m) s"
proof (cases "skip s")
  case (Cons q t)
  show ?thesis
  proof (cases "pstr t")
    case (Some p)
    obtain k u where p: "p = (k, u)" by force
    show ?thesis
    proof (cases "skip u")
      case u: (Cons d w)
      have w: "length w < length s"
        using skip_Cons_length [OF Cons] pstr_length [of t k u] Some p skip_Cons_length [OF u] by simp
      show ?thesis
      proof (cases "pval m w")
        case v: (Some r)
        obtain x y where r: "r = (x, y)" by force
        have "pmems n z = pmems m z" if "skip y = c # z" for c z
          using assms(2) [of z] skip_Cons_length [OF that] parse_length(1) [of m w x y] v r w by simp
        then show ?thesis using assms(1) [OF w] v r u Some p Cons by (cases "skip y") auto
      qed (use assms(1) [OF w] u Some p Cons in simp)
    qed (simp add: Cons Some p)
  qed (simp add: Cons)
qed simp

lemma pval_fuel:
  "2 * length s \<le> n \<Longrightarrow> 2 * length s \<le> m \<Longrightarrow> pval n s = pval m s"
  "2 * length s < n \<Longrightarrow> 2 * length s < m \<Longrightarrow> pelems n s = pelems m s"
  "2 * length s < n \<Longrightarrow> 2 * length s < m \<Longrightarrow> pmems n s = pmems m s"
proof (induction n arbitrary: m s)
  case 0
  { case 1
    then show ?case by (cases m) (simp_all add: skip_def)
  }
next
  case (Suc n)
  { case 1
    show ?case
    proof (cases "skip s")
      case Nil
      then show ?thesis by (cases m) simp_all
    next
      case (Cons c t)
      have t: "length t < length s" by (rule skip_Cons_length [OF Cons])
      then obtain m' where m: "m = Suc m'" using 1 by (cases m) auto
      show ?thesis unfolding m by (rule pval_fuel_step [OF Cons]) (rule Suc.IH; use 1 t m in simp)+
    qed
  next
    case 2
    then obtain m' where m: "m = Suc m'" using fuel_Suc by blast
    show ?case unfolding m
    proof (rule pelems_fuel_step)
      fix v u c t
      assume "pval m' s = Some (v, u)" "skip u = c # t"
      then have "length t < length s" using parse_length(1) skip_Cons_length less_trans by blast
      then show "pelems n t = pelems m' t" using 2 m by (intro Suc.IH) auto
    qed (rule Suc.IH; use 2 m in simp)
  next
    case 3
    then obtain m' where m: "m = Suc m'" using fuel_Suc by blast
    show ?case unfolding m by (rule pmems_fuel_step) (rule Suc.IH; use 3 m in simp)+
  }
qed simp_all

end
