(* ===== verification/Watchdog_Core.thy ===== *)
theory Watchdog_Core
  imports Watchdog_Restart Json_Text
begin

text \<open>
  The watchdog itself, \<^verbatim>\<open>watchdog/watchdog.go\<close>: registration of components, a round of monitoring, the handling
  of degradation, restarts and deadlocks, and stopping.

  The file uses fields and functions its package does not declare. They are parameters, the record \<open>settings\<close>: the
  fields of the configuration (\<^verbatim>\<open>DegradationEnabled\<close>, \<^verbatim>\<open>DegradationLevels\<close>,
  \<^verbatim>\<open>EventsEnabled\<close>, \<^verbatim>\<open>GoroutineThreshold\<close>),
  \<^verbatim>\<open>DefaultComponentConfig\<close>, and the breaker with one argument and a method \<^verbatim>\<open>State\<close>.
  So are the texts of floats and of errors. A component is the interfaces it implements, on a state of the type
  \<open>'w\<close> that all components share. The clock readings of a round are an argument indexed by component and purpose.
\<close>

section \<open>Data\<close>

datatype HealthStatus = HealthOK | HealthDegraded | HealthCritical | HealthUnknown | HealthOther string

record ComponentStatus =
  cs_Name :: string
  cs_Health :: HealthStatus
  cs_CircuitState :: circuit_state
  cs_ResourceUsage :: WatchdogUsage
  cs_LastRestart :: time
  cs_RestartCount :: int
  cs_Incidents :: "Incident list"
  cs_DegradationLevel :: int

text \<open>The interfaces a component implements: \<^verbatim>\<open>Monitorable\<close>, \<^verbatim>\<open>Restartable\<close> and
  \<^verbatim>\<open>Degradable\<close>.\<close>

record 'w component =
  co_Monitorable :: "(('w \<Rightarrow> WatchdogUsage) \<times> ('w \<Rightarrow> HealthStatus)) option"
  co_Restartable :: "'w Restartable option"
  co_SetDegradationLevel :: "(int \<Rightarrow> 'w \<Rightarrow> 'w \<times> bool) option"

record watched_config =
  kc_Name :: string
  kc_Thresholds :: ResourceThresholds
  kc_Restart :: RestartConfig

record 'b settings =
  se_DegradationEnabled :: bool
  se_DegradationLevels :: int
  se_EventsEnabled :: bool
  se_GoroutineThreshold :: int
  se_DefaultComponentConfig :: "string \<Rightarrow> watched_config"
  se_NewCircuitBreaker :: "string \<Rightarrow> 'b"
  se_RecordFailure :: "time \<Rightarrow> 'b \<Rightarrow> 'b"
  se_RecordSuccess :: "time \<Rightarrow> 'b \<Rightarrow> 'b"
  se_State :: "'b \<Rightarrow> circuit_state"
  se_fixed2 :: "float64 \<Rightarrow> string"
  se_error_text :: "restart_error \<Rightarrow> string"

record ('w, 'b) watchdogImpl =
  wg_config :: Config
  wg_components :: "(string, 'w component) gomap"
  wg_componentConfigs :: "(string, watched_config) gomap"
  wg_componentStatuses :: "(string, ComponentStatus) gomap"
  wg_circuitBreakers :: "(string, 'b) gomap"
  wg_restartManagers :: "(string, RestartManager) gomap"
  wg_degradationController :: "DegradationController option"
  wg_diagnostics :: "DiagnosticsProvider option"

datatype watchdog_error = InvalidConfig watchdog_config_error | ControllerFailed degradation_error
  | AlreadyRegistered string | NotMonitorable string | NotRegistered string

definition NewWatchdog :: "'b settings \<Rightarrow> Config \<Rightarrow> watchdog_error + ('w, 'b) watchdogImpl" where
  "NewWatchdog S config =
     (case watchdog_Validate config of
        Some e \<Rightarrow> Inl (InvalidConfig e)
      | None \<Rightarrow>
          let w = \<lparr>wg_config = config, wg_components = [], wg_componentConfigs = [], wg_componentStatuses = [], wg_circuitBreakers = [],
                   wg_restartManagers = [], wg_degradationController = None,
                   wg_diagnostics = (if se_EventsEnabled S then Some NewDiagnosticsProvider else None)\<rparr>
          in if se_DegradationEnabled S
             then (case NewDegradationController (se_DegradationLevels S) of
                     Inl e \<Rightarrow> Inl (ControllerFailed e)
                   | Inr dc \<Rightarrow> Inr (w\<lparr>wg_degradationController := Some dc\<rparr>))
             else Inr w)"

definition zero_watchdog_usage :: WatchdogUsage where
  "zero_watchdog_usage = \<lparr>wu_CPUPercent = 0, wu_MemoryMB = 0, wu_Goroutines = 0, wu_FileHandles = 0, wu_GCPercent = 0, wu_Timestamp = zero_time, wu_Measurements = []\<rparr>"

definition new_status :: "string \<Rightarrow> ComponentStatus" where
  "new_status name =
     \<lparr>cs_Name = name, cs_Health = HealthUnknown, cs_CircuitState = CircuitClosed, cs_ResourceUsage = zero_watchdog_usage,
      cs_LastRestart = zero_time, cs_RestartCount = 0, cs_Incidents = [], cs_DegradationLevel = 0\<rparr>"

section \<open>Registration\<close>

definition RegisterComponent ::
    "'b settings \<Rightarrow> string \<Rightarrow> 'w component \<Rightarrow> ('w, 'b) watchdogImpl \<Rightarrow> ('w, 'b) watchdogImpl \<times> watchdog_error option" where
  "RegisterComponent S name component w =
     (if map_of (wg_components w) name \<noteq> None then (w, Some (AlreadyRegistered name))
      else if co_Monitorable component = None then (w, Some (NotMonitorable name))
      else let config = (case map_of (wg_componentConfigs w) name of Some c \<Rightarrow> c | None \<Rightarrow> se_DefaultComponentConfig S name) in
        (w\<lparr>wg_componentConfigs := AList.update name config (wg_componentConfigs w),
           wg_circuitBreakers := AList.update name (se_NewCircuitBreaker S (kc_Name config)) (wg_circuitBreakers w),
           wg_restartManagers := (if co_Restartable component = None then wg_restartManagers w
                                  else AList.update name (NewRestartManager (kc_Restart config)) (wg_restartManagers w)),
           wg_components := AList.update name component (wg_components w),
           wg_componentStatuses := AList.update name (new_status name) (wg_componentStatuses w)\<rparr>, None))"

definition UnregisterComponent :: "string \<Rightarrow> ('w, 'b) watchdogImpl \<Rightarrow> ('w, 'b) watchdogImpl \<times> watchdog_error option" where
  "UnregisterComponent name w =
     (if map_of (wg_components w) name = None then (w, Some (NotRegistered name))
      else (w\<lparr>wg_components := AList.delete name (wg_components w), wg_componentConfigs := AList.delete name (wg_componentConfigs w),
              wg_componentStatuses := AList.delete name (wg_componentStatuses w), wg_circuitBreakers := AList.delete name (wg_circuitBreakers w),
              wg_restartManagers := AList.delete name (wg_restartManagers w)\<rparr>, None))"

definition GetComponentStatus :: "string \<Rightarrow> ('w, 'b) watchdogImpl \<Rightarrow> watchdog_error + ComponentStatus" where
  "GetComponentStatus name w = (case map_of (wg_componentStatuses w) name of None \<Rightarrow> Inl (NotRegistered name) | Some s \<Rightarrow> Inr s)"

definition GetAllComponentStatuses :: "('w, 'b) watchdogImpl \<Rightarrow> (string, ComponentStatus) gomap" where
  "GetAllComponentStatuses w = wg_componentStatuses w"

definition SetThresholds :: "string \<Rightarrow> ResourceThresholds \<Rightarrow> ('w, 'b) watchdogImpl \<Rightarrow> ('w, 'b) watchdogImpl \<times> watchdog_error option" where
  "SetThresholds name thresholds w =
     (case map_of (wg_componentConfigs w) name of
        None \<Rightarrow> (w, Some (NotRegistered name))
      | Some config \<Rightarrow> (w\<lparr>wg_componentConfigs := AList.update name (config\<lparr>kc_Thresholds := thresholds\<rparr>) (wg_componentConfigs w)\<rparr>, None))"

section \<open>Monitoring\<close>

definition exceeded :: "fmath \<Rightarrow> WatchdogUsage \<Rightarrow> ResourceThresholds \<Rightarrow> string option" where
  "exceeded F usage t =
     (if f_less (th_MaxCPUPercent t) (wu_CPUPercent usage) then Some ''CPU''
      else if f_less (fm_of_int F (th_MaxMemoryMB t)) (wu_MemoryMB usage) then Some ''Memory''
      else if th_MaxGoroutines t < wu_Goroutines usage then Some ''Goroutines''
      else if th_MaxFileHandles t < wu_FileHandles usage then Some ''FileHandles''
      else if f_less (th_MaxGCPercent t) (wu_GCPercent usage) then Some ''GC''
      else None)"

definition incident_values :: "fmath \<Rightarrow> string \<Rightarrow> WatchdogUsage \<Rightarrow> ResourceThresholds \<Rightarrow> float64 \<times> float64 \<times> string" where
  "incident_values F resource usage t =
     (if resource = ''CPU'' then (wu_CPUPercent usage, th_MaxCPUPercent t, ''%'')
      else if resource = ''Memory'' then (wu_MemoryMB usage, fm_of_int F (th_MaxMemoryMB t), ''MB'')
      else if resource = ''Goroutines'' then (fm_of_int F (wu_Goroutines usage), fm_of_int F (th_MaxGoroutines t), [])
      else if resource = ''FileHandles'' then (fm_of_int F (wu_FileHandles usage), fm_of_int F (th_MaxFileHandles t), [])
      else if resource = ''GC'' then (wu_GCPercent usage, th_MaxGCPercent t, ''%'')
      else (0, 0, []))"

text \<open>Emitting an event, if that is enabled.\<close>

definition emit :: "'b settings \<Rightarrow> Incident \<Rightarrow> ('w, 'b) watchdogImpl \<Rightarrow> ('w, 'b) watchdogImpl outcome" where
  "emit S incident w =
     (case wg_diagnostics w of
        None \<Rightarrow> Returns w
      | Some d \<Rightarrow> if se_EventsEnabled S then and_then (EmitAgentDiagEvent incident d) (\<lambda>d1. Returns (w\<lparr>wg_diagnostics := Some d1\<rparr>)) else Returns w)"

text \<open>\<^verbatim>\<open>Time.UnixNano\<close>, where times count from the year one.\<close>

definition unix_nano :: "time \<Rightarrow> int" where
  "unix_nano t = to_int64 (t - 62135596800 * second)"

definition createResourceIncident ::
    "'b settings \<Rightarrow> fmath \<Rightarrow> time \<Rightarrow> time \<Rightarrow> string \<Rightarrow> string \<Rightarrow> WatchdogUsage \<Rightarrow> ResourceThresholds \<Rightarrow> Incident" where
  "createResourceIncident S F now now2 name resource usage t =
     (case incident_values F resource usage t of (v, th, unit) \<Rightarrow>
        \<lparr>in_ID = name @ ''-'' @ resource @ ''-'' @ int_str (unix_nano now), in_Timestamp = now2, in_Type = IncidentResourceExceeded,
         in_Description = resource @ '' usage exceeded for component '' @ name @ '': '' @ se_fixed2 S v @ unit @ '' > '' @ se_fixed2 S th @ unit,
         in_ResourceUsage = usage,
         in_Remediation = ''Consider increasing '' @ resource @ '' threshold or optimizing '' @ resource @ '' usage in component '' @ name @ ''.''\<rparr>)"

definition handleDegradation :: "'b settings \<Rightarrow> (int \<Rightarrow> 'w \<Rightarrow> 'w \<times> bool) \<Rightarrow> 'w \<Rightarrow> ComponentStatus \<Rightarrow> 'w \<times> ComponentStatus" where
  "handleDegradation S setLevel world status =
     (let currentLevel = cs_DegradationLevel status;
          newLevel = (case cs_Health status of
                        HealthCritical \<Rightarrow> se_DegradationLevels S
                      | HealthDegraded \<Rightarrow> min (to_int64 (currentLevel + 1)) (se_DegradationLevels S)
                      | _ \<Rightarrow> currentLevel)
      in if newLevel = currentLevel then (world, status)
         else case setLevel newLevel world of
           (world1, ok) \<Rightarrow> (world1, if ok then status\<lparr>cs_DegradationLevel := newLevel\<rparr> else status))"

definition restart_incident :: "'b settings \<Rightarrow> time \<Rightarrow> time \<Rightarrow> string \<Rightarrow> restart_error option \<Rightarrow> Incident" where
  "restart_incident S now now2 name err =
     \<lparr>in_ID = name @ ''-restart-failure-'' @ int_str (unix_nano now), in_Timestamp = now2, in_Type = IncidentRestartFailed,
      in_Description = ''Failed to restart component '' @ name @ '': '' @ (case err of Some e \<Rightarrow> se_error_text S e | None \<Rightarrow> ''<nil>''),
      in_ResourceUsage = zero_watchdog_usage, in_Remediation = ''Check component implementation and logs for errors.''\<rparr>"

definition handleRestart ::
    "'b settings \<Rightarrow> fmath \<Rightarrow> (string \<Rightarrow> time) \<Rightarrow> string \<Rightarrow> 'w Restartable \<Rightarrow> RestartManager \<Rightarrow> ComponentStatus \<Rightarrow> ('w, 'b) watchdogImpl \<Rightarrow> 'w \<Rightarrow>
     (('w, 'b) watchdogImpl \<times> 'w \<times> ComponentStatus) outcome" where
  "handleRestart S F ck name restartable rm status w world =
     (case AttemptRestart F restartable (ck ''elapsed'') (ck ''restart'') rm world of
        (rm1, world1, success, err) \<Rightarrow>
          let w1 = w\<lparr>wg_restartManagers := AList.update name rm1 (wg_restartManagers w)\<rparr> in
          if success then Returns (w1, world1, status\<lparr>cs_LastRestart := ck ''restarted'', cs_RestartCount := to_int64 (cs_RestartCount status + 1)\<rparr>)
          else let incident = restart_incident S (ck ''failure id'') (ck ''failure'') name err in
               and_then (emit S incident w1) (\<lambda>w2. Returns (w2, world1, status\<lparr>cs_Incidents := cs_Incidents status @ [incident]\<rparr>)))"

definition trim_incidents :: "Incident list \<Rightarrow> Incident list" where
  "trim_incidents is = (if 10 < length is then drop (length is - 10) is else is)"

definition zero_watched_config :: watched_config where
  "zero_watched_config =
     \<lparr>kc_Name = [], kc_Thresholds = \<lparr>th_MaxCPUPercent = 0, th_MaxMemoryMB = 0, th_MaxGoroutines = 0, th_MaxFileHandles = 0, th_MaxGCPercent = 0\<rparr>,
      kc_Restart = \<lparr>rc_Enabled = False, rc_GracefulShutdownTimeout = 0, rc_MaxRestartAttempts = 0, rc_RestartBackoffInitial = 0,
        rc_RestartBackoffMax = 0, rc_RestartBackoffFactor = 0\<rparr>\<rparr>"

text \<open>The breaker of a component, if it has one, records a failure or a success.\<close>

definition record_result ::
    "'b settings \<Rightarrow> (time \<Rightarrow> 'b \<Rightarrow> 'b) \<Rightarrow> time \<Rightarrow> string \<Rightarrow> ('w, 'b) watchdogImpl \<Rightarrow> ComponentStatus \<Rightarrow> ('w, 'b) watchdogImpl \<times> ComponentStatus" where
  "record_result S result now name w status =
     (case map_of (wg_circuitBreakers w) name of
        None \<Rightarrow> (w, status)
      | Some b \<Rightarrow> (w\<lparr>wg_circuitBreakers := AList.update name (result now b) (wg_circuitBreakers w)\<rparr>, status\<lparr>cs_CircuitState := se_State S (result now b)\<rparr>))"

definition monitor_exceeded ::
    "'b settings \<Rightarrow> fmath \<Rightarrow> (string \<Rightarrow> time) \<Rightarrow> string \<Rightarrow> 'w component \<Rightarrow> watched_config \<Rightarrow> string \<Rightarrow> ComponentStatus \<Rightarrow> ('w, 'b) watchdogImpl \<Rightarrow> 'w \<Rightarrow>
     (('w, 'b) watchdogImpl \<times> 'w \<times> ComponentStatus) outcome" where
  "monitor_exceeded S F ck name component config resource status w world =
     (let incident = createResourceIncident S F (ck ''incident id'') (ck ''incident'') name resource (cs_ResourceUsage status) (kc_Thresholds config) in
      and_then (emit S incident w) (\<lambda>w1.
        let status1 = status\<lparr>cs_Incidents := trim_incidents (cs_Incidents status @ [incident])\<rparr>;
            (w2, status2) = record_result S (se_RecordFailure S) (ck ''breaker'') name w1 status1;
            (world1, status3) =
              (case co_SetDegradationLevel component of
                 Some setLevel \<Rightarrow> if se_DegradationEnabled S \<and> wg_degradationController w2 \<noteq> None then handleDegradation S setLevel world status2 else (world, status2)
               | None \<Rightarrow> (world, status2))
        in case (map_of (wg_restartManagers w2) name, co_Restartable component) of
             (Some rm, Some restartable) \<Rightarrow>
               if cs_CircuitState status3 = CircuitOpen \<and> rc_Enabled (kc_Restart config)
               then handleRestart S F ck name restartable rm status3 w2 world1 else Returns (w2, world1, status3)
           | _ \<Rightarrow> Returns (w2, world1, status3)))"

definition monitor_normal ::
    "'b settings \<Rightarrow> (string \<Rightarrow> time) \<Rightarrow> string \<Rightarrow> 'w component \<Rightarrow> ComponentStatus \<Rightarrow> ('w, 'b) watchdogImpl \<Rightarrow> 'w \<Rightarrow> ('w, 'b) watchdogImpl \<times> 'w \<times> ComponentStatus" where
  "monitor_normal S ck name component status w world =
     (let (w1, status1) = record_result S (se_RecordSuccess S) (ck ''breaker'') name w status in
      case co_SetDegradationLevel component of
        Some setLevel \<Rightarrow>
          if cs_CircuitState status1 = CircuitClosed \<and> se_DegradationEnabled S \<and> wg_degradationController w1 \<noteq> None \<and> 0 < cs_DegradationLevel status1
          then (case setLevel 0 world of (world1, ok) \<Rightarrow> (w1, world1, if ok then status1\<lparr>cs_DegradationLevel := 0\<rparr> else status1))
          else (w1, world, status1)
      | None \<Rightarrow> (w1, world, status1))"

text \<open>One turn of the loop over the components. Every component that is registered has a configuration and a status.\<close>

definition monitor_one ::
    "'b settings \<Rightarrow> fmath \<Rightarrow> (string \<Rightarrow> string \<Rightarrow> time) \<Rightarrow> string \<times> 'w component \<Rightarrow> ('w, 'b) watchdogImpl \<times> 'w \<Rightarrow> (('w, 'b) watchdogImpl \<times> 'w) outcome" where
  "monitor_one S F ck = (\<lambda>(name, component) (w, world).
     case co_Monitorable component of
       None \<Rightarrow> Returns (w, world)
     | Some (getUsage, getHealth) \<Rightarrow>
         let config = (case map_of (wg_componentConfigs w) name of Some c \<Rightarrow> c | None \<Rightarrow> zero_watched_config);
             old = (case map_of (wg_componentStatuses w) name of Some s \<Rightarrow> s | None \<Rightarrow> (new_status [])\<lparr>cs_Health := HealthOther []\<rparr>);
             status = old\<lparr>cs_ResourceUsage := getUsage world, cs_Health := getHealth world\<rparr>
         in and_then
              (case exceeded F (getUsage world) (kc_Thresholds config) of
                 Some resource \<Rightarrow> monitor_exceeded S F (ck name) name component config resource status w world
               | None \<Rightarrow> Returns (monitor_normal S (ck name) name component status w world))
              (\<lambda>(w1, world1, status1). Returns (w1\<lparr>wg_componentStatuses := AList.update name status1 (wg_componentStatuses w1)\<rparr>, world1)))"

fun monitor_all ::
    "'b settings \<Rightarrow> fmath \<Rightarrow> (string \<Rightarrow> string \<Rightarrow> time) \<Rightarrow> (string, 'w component) gomap \<Rightarrow> ('w, 'b) watchdogImpl \<times> 'w \<Rightarrow> (('w, 'b) watchdogImpl \<times> 'w) outcome" where
  "monitor_all S F ck [] s = Returns s"
| "monitor_all S F ck (nc # ncs) s = and_then (monitor_one S F ck nc s) (monitor_all S F ck ncs)"

definition monitorComponents ::
    "'b settings \<Rightarrow> fmath \<Rightarrow> (string \<Rightarrow> string \<Rightarrow> time) \<Rightarrow> ('w, 'b) watchdogImpl \<times> 'w \<Rightarrow> (('w, 'b) watchdogImpl \<times> 'w) outcome" where
  "monitorComponents S F ck s = monitor_all S F ck (wg_components (fst s)) s"

section \<open>Deadlocks\<close>

record deadlock_report =
  dr_ComponentName :: string
  dr_Description :: string
  dr_Remediation :: string

definition handle_deadlock :: "'b settings \<Rightarrow> (string \<Rightarrow> time) \<Rightarrow> deadlock_report \<Rightarrow> ('w, 'b) watchdogImpl \<Rightarrow> ('w, 'b) watchdogImpl outcome" where
  "handle_deadlock S ck deadlock w =
     (let name = dr_ComponentName deadlock in
      case map_of (wg_componentStatuses w) name of
        None \<Rightarrow> Returns w
      | Some status \<Rightarrow>
          let incident = \<lparr>in_ID = name @ ''-deadlock-'' @ int_str (unix_nano (ck ''deadlock id'')), in_Timestamp = ck ''deadlock'', in_Type = IncidentDeadlockDetected,
                in_Description = ''Deadlock detected in component '' @ name @ '': '' @ dr_Description deadlock,
                in_ResourceUsage = zero_watchdog_usage, in_Remediation = dr_Remediation deadlock\<rparr>;
              (w1, status1) = record_result S (se_RecordFailure S) (ck ''breaker'') name w (status\<lparr>cs_Incidents := cs_Incidents status @ [incident]\<rparr>)
          in and_then (emit S incident w1)
               (\<lambda>w2. Returns (w2\<lparr>wg_componentStatuses := AList.update name status1 (wg_componentStatuses w2)\<rparr>)))"

fun handle_deadlocks :: "'b settings \<Rightarrow> (string \<Rightarrow> string \<Rightarrow> time) \<Rightarrow> deadlock_report list \<Rightarrow> ('w, 'b) watchdogImpl \<Rightarrow> ('w, 'b) watchdogImpl outcome" where
  "handle_deadlocks S ck [] w = Returns w"
| "handle_deadlocks S ck (d # ds) w = and_then (handle_deadlock S (ck (dr_ComponentName d)) d w) (handle_deadlocks S ck ds)"

text \<open>The number of goroutines is what the monitor returns, the reports what the detector returns, if there is one.\<close>

definition detectDeadlocks ::
    "'b settings \<Rightarrow> (string \<Rightarrow> string \<Rightarrow> time) \<Rightarrow> deadlock_report list option \<Rightarrow> int \<Rightarrow> ('w, 'b) watchdogImpl \<Rightarrow> ('w, 'b) watchdogImpl outcome" where
  "detectDeadlocks S ck deadlockDetector goroutines w =
     (case deadlockDetector of
        None \<Rightarrow> Returns w
      | Some deadlocks \<Rightarrow> if goroutines < se_GoroutineThreshold S then Returns w else handle_deadlocks S ck deadlocks w)"

section \<open>Starting and stopping\<close>

text \<open>The mutex, the monitoring loop and a caller of \<^verbatim>\<open>Stop\<close>. The loop waits for a tick or the end of its
  context, then takes the mutex for a round; \<^verbatim>\<open>Stop\<close> holds the mutex until the loop has ended.\<close>

datatype loop_pc = Ticking | Locking | Monitoring | Ended

datatype stop_pc = StopCalled | StopWaiting | Stopped

record lifecycle =
  lc_mutex_free :: bool
  lc_loop :: loop_pc
  lc_stop :: stop_pc
  lc_cancelled :: bool

inductive lifecycle_step :: "lifecycle \<Rightarrow> lifecycle \<Rightarrow> bool" where
  tick: "lc_loop s = Ticking \<Longrightarrow> lifecycle_step s (s\<lparr>lc_loop := Locking\<rparr>)"
| lock: "lc_loop s = Locking \<Longrightarrow> lc_mutex_free s \<Longrightarrow> lifecycle_step s (s\<lparr>lc_loop := Monitoring, lc_mutex_free := False\<rparr>)"
| unlock: "lc_loop s = Monitoring \<Longrightarrow> lifecycle_step s (s\<lparr>lc_loop := Ticking, lc_mutex_free := True\<rparr>)"
| exit_loop: "lc_loop s = Ticking \<Longrightarrow> lc_cancelled s \<Longrightarrow> lifecycle_step s (s\<lparr>lc_loop := Ended\<rparr>)"
| stop: "lc_stop s = StopCalled \<Longrightarrow> lc_mutex_free s \<Longrightarrow> lifecycle_step s (s\<lparr>lc_stop := StopWaiting, lc_mutex_free := False, lc_cancelled := True\<rparr>)"
| stopped: "lc_stop s = StopWaiting \<Longrightarrow> lc_loop s = Ended \<Longrightarrow> lifecycle_step s (s\<lparr>lc_stop := Stopped, lc_mutex_free := True\<rparr>)"

inductive_cases lifecycle_stepE: "lifecycle_step s s'"

text \<open>A running watchdog when \<^verbatim>\<open>Stop\<close> is called.\<close>

definition stop_called :: lifecycle where
  "stop_called = \<lparr>lc_mutex_free = True, lc_loop = Ticking, lc_stop = StopCalled, lc_cancelled = False\<rparr>"

section \<open>Specifications\<close>

text \<open>The maps of a watchdog have the same components; a component has a restart manager if it can be restarted.\<close>

definition watchdog_ok :: "('w, 'b) watchdogImpl \<Rightarrow> bool" where
  "watchdog_ok w \<longleftrightarrow>
     (\<forall>n. (map_of (wg_componentConfigs w) n = None \<longleftrightarrow> map_of (wg_components w) n = None) \<and>
          (map_of (wg_componentStatuses w) n = None \<longleftrightarrow> map_of (wg_components w) n = None) \<and>
          (map_of (wg_circuitBreakers w) n = None \<longleftrightarrow> map_of (wg_components w) n = None) \<and>
          (map_of (wg_restartManagers w) n = None \<longleftrightarrow> (case map_of (wg_components w) n of None \<Rightarrow> True | Some c \<Rightarrow> co_Restartable c = None))) \<and>
     (\<forall>n c. map_of (wg_components w) n = Some c \<longrightarrow> co_Monitorable c \<noteq> None) \<and>
     (\<forall>d. wg_diagnostics w = Some d \<longrightarrow> dp_maxEvents d = 100 \<and> length (dp_events d) \<le> 100)"

inductive watchdog_reachable :: "'b settings \<Rightarrow> ('w, 'b) watchdogImpl \<Rightarrow> bool" for S where
  "NewWatchdog S config = Inr w \<Longrightarrow> watchdog_reachable S w"
| "watchdog_reachable S w \<Longrightarrow> RegisterComponent S name component w = (w', e) \<Longrightarrow> watchdog_reachable S w'"
| "watchdog_reachable S w \<Longrightarrow> UnregisterComponent name w = (w', e) \<Longrightarrow> watchdog_reachable S w'"
| "watchdog_reachable S w \<Longrightarrow> SetThresholds name t w = (w', e) \<Longrightarrow> watchdog_reachable S w'"
| "watchdog_reachable S w \<Longrightarrow> monitorComponents S F ck (w, world) = Returns (w', world') \<Longrightarrow> watchdog_reachable S w'"
| "watchdog_reachable S w \<Longrightarrow> detectDeadlocks S ck detector g w = Returns w' \<Longrightarrow> watchdog_reachable S w'"

text \<open>What an operation on one component leaves alone.\<close>

definition keeps :: "('w, 'b) watchdogImpl \<Rightarrow> ('w, 'b) watchdogImpl \<Rightarrow> bool" where
  "keeps w w' \<longleftrightarrow> wg_components w' = wg_components w \<and> wg_componentConfigs w' = wg_componentConfigs w \<and>
     (\<forall>n. (map_of (wg_componentStatuses w') n = None \<longleftrightarrow> map_of (wg_componentStatuses w) n = None) \<and>
          (map_of (wg_circuitBreakers w') n = None \<longleftrightarrow> map_of (wg_circuitBreakers w) n = None) \<and>
          (map_of (wg_restartManagers w') n = None \<longleftrightarrow> map_of (wg_restartManagers w) n = None)) \<and>
     (\<forall>d. wg_diagnostics w' = Some d \<longrightarrow> dp_maxEvents d = 100 \<and> length (dp_events d) \<le> 100)"

text \<open>Rounds of monitoring at given times.\<close>

fun watch_rounds ::
    "'b settings \<Rightarrow> fmath \<Rightarrow> (string \<Rightarrow> string \<Rightarrow> time) list \<Rightarrow> ('w, 'b) watchdogImpl \<times> 'w \<Rightarrow> (('w, 'b) watchdogImpl \<times> 'w) outcome" where
  "watch_rounds S F [] s = Returns s"
| "watch_rounds S F (ck # cks) s = and_then (monitorComponents S F ck s) (watch_rounds S F cks)"

text \<open>The states of the components that calls to them lead to, where the one named is never told to shut down or to start.\<close>

inductive spared :: "string \<Rightarrow> (string, 'w component) gomap \<Rightarrow> 'w \<Rightarrow> 'w \<Rightarrow> bool" for name cs world where
  no_call: "spared name cs world world"
| set_level: "spared name cs world v \<Longrightarrow> (n, c) \<in> set cs \<Longrightarrow> co_SetDegradationLevel c = Some f \<Longrightarrow> spared name cs world (fst (f l v))"
| shutdown: "spared name cs world v \<Longrightarrow> (n, c) \<in> set cs \<Longrightarrow> n \<noteq> name \<Longrightarrow> co_Restartable c = Some r \<Longrightarrow> spared name cs world (fst (re_Shutdown r v))"
| start: "spared name cs world v \<Longrightarrow> (n, c) \<in> set cs \<Longrightarrow> n \<noteq> name \<Longrightarrow> co_Restartable c = Some r \<Longrightarrow> spared name cs world (fst (re_Start r v))"

text \<open>What two watchdogs hold of one component.\<close>

definition same_entries :: "string \<Rightarrow> ('w, 'b) watchdogImpl \<Rightarrow> ('w, 'b) watchdogImpl \<Rightarrow> bool" where
  "same_entries name w w' \<longleftrightarrow> map_of (wg_componentStatuses w') name = map_of (wg_componentStatuses w) name \<and>
     map_of (wg_circuitBreakers w') name = map_of (wg_circuitBreakers w) name \<and> map_of (wg_restartManagers w') name = map_of (wg_restartManagers w) name"

text \<open>What a round needs to know of the component: it is over a threshold in every state it can be found in, and its breaker stays open.\<close>

definition stays_over :: "fmath \<Rightarrow> 'b settings \<Rightarrow> string \<Rightarrow> 'w component \<Rightarrow> watched_config \<Rightarrow> ('w, 'b) watchdogImpl \<Rightarrow> 'w \<Rightarrow> bool" where
  "stays_over F S name c k w world \<longleftrightarrow>
     (\<exists>u h r. co_Monitorable c = Some (u, h) \<and> co_Restartable c = Some r \<and>
       (\<forall>v. spared name (wg_components w) world v \<longrightarrow> re_IsRunning r v \<and> exceeded F (u v) (kc_Thresholds k) \<noteq> None)) \<and>
     map_of (wg_componentConfigs w) name = Some k \<and> rc_Enabled (kc_Restart k) \<and>
     (\<forall>t b. se_State S b = CircuitOpen \<longrightarrow> se_State S (se_RecordFailure S t b) = CircuitOpen)"

text \<open>Its breaker is open, and its restart manager has attempts left.\<close>

definition open_and_enabled :: "'b settings \<Rightarrow> string \<Rightarrow> ('w, 'b) watchdogImpl \<Rightarrow> bool" where
  "open_and_enabled S name w \<longleftrightarrow>
     (\<exists>b. map_of (wg_circuitBreakers w) name = Some b \<and> se_State S b = CircuitOpen) \<and>
     (\<exists>rm. map_of (wg_restartManagers w) name = Some rm \<and> rc_Enabled (rm_config rm) \<and> rm_restartAttempts rm < rc_MaxRestartAttempts (rm_config rm))"

text \<open>A component with too many goroutines that runs and whose breaker is open; the breaker is that of the package.\<close>

definition ex_settings :: "CircuitBreaker settings" where
  "ex_settings =
     \<lparr>se_DegradationEnabled = True, se_DegradationLevels = 3, se_EventsEnabled = True, se_GoroutineThreshold = 100,
      se_DefaultComponentConfig = (\<lambda>n. \<lparr>kc_Name = n, kc_Thresholds = DefaultResourceThresholds, kc_Restart = wd_RestartPolicy watchdog_DefaultConfig\<rparr>),
      se_NewCircuitBreaker = (\<lambda>n. NewCircuitBreaker n (default_breaker\<lparr>FailureThreshold := 1\<rparr>) 0),
      se_RecordFailure = (\<lambda>t b. RecordFailure b t t), se_RecordSuccess = (\<lambda>t b. RecordSuccess b t), se_State = cb_state,
      se_fixed2 = (\<lambda>_. []), se_error_text = (\<lambda>_. [])\<rparr>"

definition ex_leaking :: "int component" where
  "ex_leaking =
     \<lparr>co_Monitorable = Some (\<lambda>_. zero_watchdog_usage\<lparr>wu_Goroutines := 5000\<rparr>, \<lambda>_. HealthDegraded),
      co_Restartable = Some \<lparr>re_IsRunning = (\<lambda>_. True), re_Shutdown = (\<lambda>v. (v, None)), re_Start = (\<lambda>v. (v, None))\<rparr>,
      co_SetDegradationLevel = Some (\<lambda>l v. (l, True))\<rparr>"

text \<open>Another that does not run and fails to start.\<close>

definition ex_failing :: "int component" where
  "ex_failing = ex_leaking
     \<lparr>co_Restartable := Some \<lparr>re_IsRunning = (\<lambda>_. False), re_Shutdown = (\<lambda>v. (v, None)), re_Start = (\<lambda>v. (v, Some ''broken''))\<rparr>,
      co_SetDegradationLevel := None\<rparr>"

definition ex_watchdog :: "(int, CircuitBreaker) watchdogImpl" where
  "ex_watchdog = fst (RegisterComponent ex_settings ''failing'' ex_failing
     (fst (RegisterComponent ex_settings ''leaking'' ex_leaking (case NewWatchdog ex_settings watchdog_DefaultConfig of Inr w \<Rightarrow> w))))"

section \<open>Lemmas\<close>

lemma dom_upd: "map_of m k = Some u \<Longrightarrow> map_of (AList.update k v m) n = None \<longleftrightarrow> map_of m n = None"
  by (simp add: gomap_simps)

lemma emit_keeps:
  assumes "watchdog_ok w"
  shows "\<exists>w'. emit S incident w = Returns w' \<and> keeps w w' \<and> wg_componentStatuses w' = wg_componentStatuses w \<and>
    wg_circuitBreakers w' = wg_circuitBreakers w \<and> wg_restartManagers w' = wg_restartManagers w \<and> wg_degradationController w' = wg_degradationController w"
proof (cases "wg_diagnostics w")
  case None
  then show ?thesis by (simp add: emit_def keeps_def)
next
  case (Some d)
  then have d: "dp_maxEvents d = 100" "length (dp_events d) \<le> 100" using assms by (simp_all add: watchdog_ok_def)
  obtain d' where d': "EmitAgentDiagEvent incident d = Returns d'" "dp_events d' = last_n 100 (dp_events d @ [diag_event incident])"
    using emitted_events [of d incident] d(1) by auto
  have "dp_maxEvents d' = 100" using d'(1) d(1) by (auto simp: EmitAgentDiagEvent_def trim_events_def split: if_splits)
  then show ?thesis using Some d d' last_n_length [of 100 "dp_events d @ [diag_event incident]"] by (simp add: emit_def keeps_def)
qed

lemma keeps_ok: "watchdog_ok w \<Longrightarrow> keeps w w' \<Longrightarrow> watchdog_ok w'"
  by (simp add: watchdog_ok_def keeps_def)

lemma keeps_trans: "keeps w w' \<Longrightarrow> keeps w' w'' \<Longrightarrow> keeps w w''"
  by (simp add: keeps_def)

lemma ok_keeps_refl: "watchdog_ok w \<Longrightarrow> keeps w w"
  by (simp add: watchdog_ok_def keeps_def)

lemma record_keeps:
  assumes "watchdog_ok w" "record_result S f now name w status = (w', status')"
  shows "keeps w w' \<and> wg_componentStatuses w' = wg_componentStatuses w \<and> wg_restartManagers w' = wg_restartManagers w"
proof (cases "map_of (wg_circuitBreakers w) name")
  case (Some b)
  then have "w' = w\<lparr>wg_circuitBreakers := AList.update name (f now b) (wg_circuitBreakers w)\<rparr>" using assms(2) by (simp add: record_result_def)
  then show ?thesis using assms(1) dom_upd [OF Some] by (simp add: keeps_def watchdog_ok_def)
qed (use assms ok_keeps_refl in \<open>auto simp: record_result_def\<close>)

lemma restart_keeps:
  assumes ok: "watchdog_ok w" and rm: "map_of (wg_restartManagers w) name = Some rm"
  shows "\<exists>w' world' status'. handleRestart S F ck name r rm status w world = Returns (w', world', status') \<and> keeps w w'"
proof -
  obtain rm1 world1 success err where a: "AttemptRestart F r (ck ''elapsed'') (ck ''restart'') rm world = (rm1, world1, success, err)"
    by (metis prod_cases4)
  let ?w = "w\<lparr>wg_restartManagers := AList.update name rm1 (wg_restartManagers w)\<rparr>"
  have keep: "keeps w ?w" using ok dom_upd [OF rm] by (simp add: keeps_def watchdog_ok_def)
  obtain w2 where "emit S (restart_incident S (ck ''failure id'') (ck ''failure'') name err) ?w = Returns w2" "keeps ?w w2"
    using emit_keeps [OF keeps_ok [OF ok keep]] by blast
  then show ?thesis using a keep keeps_trans [OF keep] by (cases success) (auto simp: handleRestart_def Let_def)
qed

lemma exceeded_keeps:
  assumes ok: "watchdog_ok w"
  shows "\<exists>w' world' status'. monitor_exceeded S F ck name c config resource status w world = Returns (w', world', status') \<and> keeps w w'"
proof -
  let ?i = "createResourceIncident S F (ck ''incident id'') (ck ''incident'') name resource (cs_ResourceUsage status) (kc_Thresholds config)"
  obtain w1 where w1: "emit S ?i w = Returns w1" "keeps w w1" using emit_keeps [OF ok] by blast
  let ?s1 = "status\<lparr>cs_Incidents := trim_incidents (cs_Incidents status @ [?i])\<rparr>"
  obtain w2 s2 where w2: "record_result S (se_RecordFailure S) (ck ''breaker'') name w1 ?s1 = (w2, s2)" by force
  have k1: "watchdog_ok w1" by (rule keeps_ok [OF ok w1(2)])
  have k2: "keeps w w2" using keeps_trans [OF w1(2)] record_keeps [OF k1 w2] by blast
  obtain world3 s3 where s3: "(case co_SetDegradationLevel c of
       Some setLevel \<Rightarrow> if se_DegradationEnabled S \<and> wg_degradationController w2 \<noteq> None then handleDegradation S setLevel world s2 else (world, s2)
     | None \<Rightarrow> (world, s2)) = (world3, s3)" by force
  show ?thesis
  proof (cases "map_of (wg_restartManagers w2) name")
    case (Some rm)
    have "\<exists>w' world' status'. handleRestart S F ck name r rm s3 w2 world3 = Returns (w', world', status') \<and> keeps w w'" for r
      using restart_keeps [OF keeps_ok [OF ok k2] Some] keeps_trans [OF k2] by blast
    then show ?thesis using Some k2 by (simp add: monitor_exceeded_def Let_def w1(1) w2 s3 split: option.split)
  qed (use k2 in \<open>simp add: monitor_exceeded_def Let_def w1(1) w2 s3\<close>)
qed

lemma normal_keeps:
  assumes ok: "watchdog_ok w"
  shows "keeps w (fst (monitor_normal S ck name c status w world))"
proof -
  obtain w1 s1 where w1: "record_result S (se_RecordSuccess S) (ck ''breaker'') name w status = (w1, s1)" by force
  then show ?thesis using record_keeps [OF ok w1] by (auto simp: monitor_normal_def Let_def split: option.split prod.split)
qed

lemma status_keeps: "keeps w w1 \<Longrightarrow> map_of (wg_componentStatuses w) name \<noteq> None \<Longrightarrow> keeps w (w1\<lparr>wg_componentStatuses := AList.update name st (wg_componentStatuses w1)\<rparr>)"
  by (auto simp: keeps_def gomap_simps)

lemma one_keeps:
  assumes ok: "watchdog_ok w" and name: "map_of (wg_components w) name \<noteq> None"
  shows "\<exists>w' world'. monitor_one S F ck (name, c) (w, world) = Returns (w', world') \<and> keeps w w'"
proof (cases "co_Monitorable c")
  case None
  then show ?thesis using ok_keeps_refl [OF ok] by (simp add: monitor_one_def)
next
  case (Some m)
  obtain u h where m: "m = (u, h)" by force
  have in_dom: "map_of (wg_componentStatuses w) name \<noteq> None" using ok name by (simp add: watchdog_ok_def)
  define config where "config = (case map_of (wg_componentConfigs w) name of Some c \<Rightarrow> c | None \<Rightarrow> zero_watched_config)"
  define status where "status = (case map_of (wg_componentStatuses w) name of Some s \<Rightarrow> s | None \<Rightarrow> (new_status [])\<lparr>cs_Health := HealthOther []\<rparr>)
    \<lparr>cs_ResourceUsage := u world, cs_Health := h world\<rparr>"
  have "\<exists>w1 world1 s1. (case exceeded F (u world) (kc_Thresholds config) of
      Some resource \<Rightarrow> monitor_exceeded S F (ck name) name c config resource status w world
    | None \<Rightarrow> Returns (monitor_normal S (ck name) name c status w world)) = Returns (w1, world1, s1) \<and> keeps w w1"
  proof (cases "exceeded F (u world) (kc_Thresholds config)")
    case None
    obtain w1 world1 s1 where "monitor_normal S (ck name) name c status w world = (w1, world1, s1)" by (metis prod_cases3)
    then show ?thesis using None normal_keeps [OF ok, of S "ck name" name c status world] by simp
  qed (use exceeded_keeps [OF ok] in simp)
  then obtain w1 world1 s1 where w1: "(case exceeded F (u world) (kc_Thresholds config) of
      Some resource \<Rightarrow> monitor_exceeded S F (ck name) name c config resource status w world
    | None \<Rightarrow> Returns (monitor_normal S (ck name) name c status w world)) = Returns (w1, world1, s1)" "keeps w w1" by blast
  then have "monitor_one S F ck (name, c) (w, world) = Returns (w1\<lparr>wg_componentStatuses := AList.update name s1 (wg_componentStatuses w1)\<rparr>, world1)"
    unfolding monitor_one_def Some m Let_def prod.case option.case config_def [symmetric] status_def [symmetric] by simp
  then show ?thesis using status_keeps [OF w1(2) in_dom] by blast
qed

lemma all_keeps:
  assumes "watchdog_ok w" "\<forall>n \<in> fst ` set cs. map_of (wg_components w) n \<noteq> None"
  shows "\<exists>w' world'. monitor_all S F ck cs (w, world) = Returns (w', world') \<and> keeps w w'"
  using assms
proof (induction cs arbitrary: w world)
  case Nil
  then show ?case using ok_keeps_refl by auto
next
  case (Cons nc cs)
  obtain name c where nc: "nc = (name, c)" by force
  obtain w1 world1 where w1: "monitor_one S F ck nc (w, world) = Returns (w1, world1)" "keeps w w1"
    using one_keeps [OF Cons.prems(1), of name S F ck c world] Cons.prems(2) nc by auto
  have "\<forall>n \<in> fst ` set cs. map_of (wg_components w1) n \<noteq> None" using w1(2) Cons.prems(2) by (simp add: keeps_def)
  then obtain w2 world2 where "monitor_all S F ck cs (w1, world1) = Returns (w2, world2)" "keeps w1 w2"
    using Cons.IH [OF keeps_ok [OF Cons.prems(1) w1(2)]] by blast
  then show ?case using w1 keeps_trans [OF w1(2)] by auto
qed

lemma monitor_keeps:
  assumes "watchdog_ok w"
  shows "\<exists>w' world'. monitorComponents S F ck (w, world) = Returns (w', world') \<and> keeps w w'"
proof -
  have "\<forall>n \<in> fst ` set (wg_components w). map_of (wg_components w) n \<noteq> None" by (simp add: map_of_eq_None_iff)
  from all_keeps [OF assms this] show ?thesis by (simp add: monitorComponents_def)
qed

lemma deadlock_keeps:
  assumes ok: "watchdog_ok w"
  shows "\<exists>w'. handle_deadlock S ck d w = Returns w' \<and> keeps w w'"
proof (cases "map_of (wg_componentStatuses w) (dr_ComponentName d)")
  case None
  then show ?thesis using ok_keeps_refl [OF ok] by (simp add: handle_deadlock_def)
next
  case (Some status)
  let ?name = "dr_ComponentName d"
  let ?i = "\<lparr>in_ID = ?name @ ''-deadlock-'' @ int_str (unix_nano (ck ''deadlock id'')), in_Timestamp = ck ''deadlock'', in_Type = IncidentDeadlockDetected,
    in_Description = ''Deadlock detected in component '' @ ?name @ '': '' @ dr_Description d, in_ResourceUsage = zero_watchdog_usage, in_Remediation = dr_Remediation d\<rparr>"
  obtain w1 s1 where w1: "record_result S (se_RecordFailure S) (ck ''breaker'') ?name w (status\<lparr>cs_Incidents := cs_Incidents status @ [?i]\<rparr>) = (w1, s1)" by force
  have k1: "keeps w w1" using record_keeps [OF ok w1] by blast
  obtain w2 where w2: "emit S ?i w1 = Returns w2" "keeps w1 w2" using emit_keeps [OF keeps_ok [OF ok k1]] by blast
  have "keeps w (w2\<lparr>wg_componentStatuses := AList.update ?name s1 (wg_componentStatuses w2)\<rparr>)"
    by (rule status_keeps [OF keeps_trans [OF k1 w2(2)]]) (use Some in simp)
  then show ?thesis using Some w1 w2(1) by (simp add: handle_deadlock_def Let_def)
qed

lemma deadlocks_keep: "watchdog_ok w \<Longrightarrow> \<exists>w'. handle_deadlocks S ck ds w = Returns w' \<and> keeps w w'"
proof (induction ds arbitrary: w)
  case Nil
  then show ?case using ok_keeps_refl by auto
next
  case (Cons d ds)
  obtain w1 where w1: "handle_deadlock S (ck (dr_ComponentName d)) d w = Returns w1" "keeps w w1" using deadlock_keeps [OF Cons.prems] by blast
  obtain w2 where "handle_deadlocks S ck ds w1 = Returns w2" "keeps w1 w2" using Cons.IH [OF keeps_ok [OF Cons.prems w1(2)]] by blast
  then show ?case using w1 keeps_trans [OF w1(2)] by auto
qed

lemma register_ok:
  assumes "watchdog_ok w" "RegisterComponent S name c w = (w', e)"
  shows "watchdog_ok w'"
proof (cases "map_of (wg_components w) name = None \<and> co_Monitorable c \<noteq> None")
  case True
  then have none: "map_of (wg_components w) name = None" and mon: "co_Monitorable c \<noteq> None" by auto
  have "map_of (wg_restartManagers w) name = None" using assms(1) none by (simp add: watchdog_ok_def)
  then show ?thesis
    using assms none mon by (cases "co_Restartable c") (auto simp: RegisterComponent_def watchdog_ok_def Let_def gomap_simps split: if_splits)
qed (use assms in \<open>auto simp: RegisterComponent_def split: if_splits\<close>)

lemma unregister_ok: "watchdog_ok w \<Longrightarrow> UnregisterComponent name w = (w', e) \<Longrightarrow> watchdog_ok w'"
  by (auto simp: UnregisterComponent_def watchdog_ok_def gomap_simps split: if_splits)

lemma thresholds_ok: "watchdog_ok w \<Longrightarrow> SetThresholds name t w = (w', e) \<Longrightarrow> watchdog_ok w'"
proof (cases "map_of (wg_componentConfigs w) name")
  case (Some c)
  assume "watchdog_ok w" and set: "SetThresholds name t w = (w', e)"
  moreover have "w' = w\<lparr>wg_componentConfigs := AList.update name (c\<lparr>kc_Thresholds := t\<rparr>) (wg_componentConfigs w)\<rparr>"
    using set Some by (simp add: SetThresholds_def)
  ultimately show ?thesis using dom_upd [OF Some] by (simp add: watchdog_ok_def)
qed (simp add: SetThresholds_def)

lemma new_ok: "NewWatchdog S config = Inr w \<Longrightarrow> watchdog_ok w"
  by (auto simp: NewWatchdog_def NewDiagnosticsProvider_def watchdog_ok_def Let_def split: option.splits if_splits sum.splits)

lemma watchdog_reachable_ok: "watchdog_reachable S w \<Longrightarrow> watchdog_ok w"
proof (induction rule: watchdog_reachable.induct)
  case (5 w F ck world w' world')
  then show ?case using monitor_keeps [OF 5(3), of S F ck world] keeps_ok by auto
next
  case (6 w ck detector g w')
  then show ?case using deadlocks_keep [OF 6(3), of S ck "the detector"] keeps_ok by (auto simp: detectDeadlocks_def split: if_splits option.splits)
qed (blast intro: new_ok register_ok unregister_ok thresholds_ok)+

section \<open>A component that runs\<close>

lemma and_then_Returns: "and_then x f = Returns y \<longleftrightarrow> (\<exists>z. x = Returns z \<and> f z = Returns y)"
  by (cases x) simp_all

lemma emit_entries: "emit S i w = Returns w' \<Longrightarrow> same_entries m w w'"
  by (cases "wg_diagnostics w") (auto simp: emit_def same_entries_def and_then_Returns split: if_splits)

lemma record_entries: "record_result S g t n w st = (w', st') \<Longrightarrow> m \<noteq> n \<Longrightarrow> same_entries m w w'"
  by (auto simp: record_result_def same_entries_def gomap_simps split: option.splits)

lemma same_entries_trans: "same_entries m w w' \<Longrightarrow> same_entries m w' w'' \<Longrightarrow> same_entries m w w''"
  by (simp add: same_entries_def)

lemma same_entries_refl [simp]: "same_entries m w w"
  by (simp add: same_entries_def)

text \<open>An attempt to restart another component calls only that one; an attempt to restart a component that runs calls none.\<close>

lemma attempt_spares:
  assumes "spared name cs world v" "(n, c) \<in> set cs" "co_Restartable c = Some r" "n = name \<longrightarrow> re_IsRunning r v"
  shows "spared name cs world (fst (snd (AttemptRestart F r t t' rm v)))"
proof (cases "re_IsRunning r v")
  case False
  then have "spared name cs world (fst (re_Start r (fst (re_Shutdown r v))))" using assms by (blast intro: spared.shutdown spared.start)
  then show ?thesis using assms(1) by (auto simp: AttemptRestart_def Let_def split_beta split: option.split)
qed (use assms(1) in \<open>simp add: AttemptRestart_def\<close>)

lemma degradation_spares:
  assumes "spared name cs world v" "(n, c) \<in> set cs" "co_SetDegradationLevel c = Some f"
  shows "spared name cs world (fst (handleDegradation S f v st))"
  using assms(1) spared.set_level [OF assms] by (simp add: handleDegradation_def Let_def split_beta)

lemma degradation_status:
  "cs_CircuitState (snd (handleDegradation S f v st)) = cs_CircuitState st" "cs_RestartCount (snd (handleDegradation S f v st)) = cs_RestartCount st"
  by (simp_all add: handleDegradation_def Let_def split_beta)

text \<open>The degradation step of a component that exceeds a threshold.\<close>

lemma level_step:
  assumes "spared name cs world v" "(n, c) \<in> set cs"
    and "(case co_SetDegradationLevel c of Some f \<Rightarrow> if P then handleDegradation S f v st else (v, st) | None \<Rightarrow> (v, st)) = (v', st')"
  shows "spared name cs world v' \<and> cs_CircuitState st' = cs_CircuitState st \<and> cs_RestartCount st' = cs_RestartCount st"
proof (cases "co_SetDegradationLevel c")
  case (Some f)
  then show ?thesis
    using assms(1,3) degradation_spares [OF assms(1,2) Some, of S st] degradation_status [of S f v st] by (cases P) (auto simp: prod_eq_iff)
qed (use assms in auto)

lemma exceeded_spares:
  assumes turn: "monitor_exceeded S F ck n c config resource st w v = Returns (w', v', st')"
    and sp: "spared name cs world v" "(n, c) \<in> set cs" "\<And>r v. n = name \<Longrightarrow> co_Restartable c = Some r \<Longrightarrow> spared name cs world v \<Longrightarrow> re_IsRunning r v"
  shows "spared name cs world v' \<and> (m \<noteq> n \<longrightarrow> same_entries m w w')"
proof -
  let ?i = "createResourceIncident S F (ck ''incident id'') (ck ''incident'') n resource (cs_ResourceUsage st) (kc_Thresholds config)"
  let ?s1 = "st\<lparr>cs_Incidents := trim_incidents (cs_Incidents st @ [?i])\<rparr>"
  obtain w1 where w1: "emit S ?i w = Returns w1" using turn by (auto simp: monitor_exceeded_def Let_def and_then_Returns)
  obtain w2 s2 where w2: "record_result S (se_RecordFailure S) (ck ''breaker'') n w1 ?s1 = (w2, s2)" by force
  obtain v3 s3 where s3: "(case co_SetDegradationLevel c of
       Some setLevel \<Rightarrow> if se_DegradationEnabled S \<and> wg_degradationController w2 \<noteq> None then handleDegradation S setLevel v s2 else (v, s2)
     | None \<Rightarrow> (v, s2)) = (v3, s3)" by force
  have v3: "spared name cs world v3" using level_step [OF sp(1,2) s3] by blast
  have same: "m \<noteq> n \<longrightarrow> same_entries m w w2" using same_entries_trans [OF emit_entries [OF w1] record_entries [OF w2]] by blast
  have restart: "spared name cs world v4 \<and> (m \<noteq> n \<longrightarrow> same_entries m w w4)"
    if r: "co_Restartable c = Some r" and hr: "handleRestart S F ck n r rm s3 w2 v3 = Returns (w4, v4, s4)" for r rm w4 v4 s4
  proof -
    obtain rm1 u ok err where a: "AttemptRestart F r (ck ''elapsed'') (ck ''restart'') rm v3 = (rm1, u, ok, err)" by (metis prod_cases4)
    let ?w3 = "w2\<lparr>wg_restartManagers := AList.update n rm1 (wg_restartManagers w2)\<rparr>"
    have "spared name cs world u" using attempt_spares [OF v3 sp(2) r, of F "ck ''elapsed''" "ck ''restart''" rm] sp(3) [OF _ r v3] a by simp
    moreover have "m \<noteq> n \<longrightarrow> same_entries m w2 ?w3" by (simp add: same_entries_def gomap_simps)
    moreover have "v4 = u \<and> same_entries m ?w3 w4"
      using hr emit_entries by (cases ok) (auto simp: handleRestart_def a Let_def and_then_Returns)
    ultimately show ?thesis using same same_entries_trans by blast
  qed
  show ?thesis
    using turn v3 same restart by (auto simp: monitor_exceeded_def Let_def w1 w2 s3 split: option.splits if_splits)
qed

lemma normal_spares:
  assumes "spared name cs world v" "(n, c) \<in> set cs" "monitor_normal S ck n c st w v = (w', v', st')"
  shows "spared name cs world v' \<and> (m \<noteq> n \<longrightarrow> same_entries m w w')"
proof -
  obtain w1 s1 where w1: "record_result S (se_RecordSuccess S) (ck ''breaker'') n w st = (w1, s1)" by force
  have "spared name cs world v'" "w' = w1"
    using assms(1,3) spared.set_level [OF assms(1,2), of _ 0] by (auto simp: monitor_normal_def Let_def w1 split_beta split: option.splits if_splits)
  then show ?thesis using record_entries [OF w1] by blast
qed

lemma one_spares:
  assumes turn: "monitor_one S F ck (n, c) (w, v) = Returns (w', v')" and sp: "spared name cs world v" "(n, c) \<in> set cs"
    and runs: "\<And>r v. n = name \<Longrightarrow> co_Restartable c = Some r \<Longrightarrow> spared name cs world v \<Longrightarrow> re_IsRunning r v"
  shows "spared name cs world v' \<and> (m \<noteq> n \<longrightarrow> same_entries m w w')"
proof (cases "co_Monitorable c")
  case (Some uh)
  obtain u h where uh: "uh = (u, h)" by force
  define config where "config = (case map_of (wg_componentConfigs w) n of Some c \<Rightarrow> c | None \<Rightarrow> zero_watched_config)"
  define status where "status = (case map_of (wg_componentStatuses w) n of Some s \<Rightarrow> s | None \<Rightarrow> (new_status [])\<lparr>cs_Health := HealthOther []\<rparr>)
    \<lparr>cs_ResourceUsage := u v, cs_Health := h v\<rparr>"
  obtain w1 st1 where w1: "(case exceeded F (u v) (kc_Thresholds config) of
      Some resource \<Rightarrow> monitor_exceeded S F (ck n) n c config resource status w v
    | None \<Rightarrow> Returns (monitor_normal S (ck n) n c status w v)) = Returns (w1, v', st1)"
      "w' = w1\<lparr>wg_componentStatuses := AList.update n st1 (wg_componentStatuses w1)\<rparr>"
    using turn unfolding monitor_one_def Some uh Let_def prod.case option.case config_def [symmetric] status_def [symmetric] and_then_Returns by auto
  have "spared name cs world v' \<and> (m \<noteq> n \<longrightarrow> same_entries m w w1)"
  proof (cases "exceeded F (u v) (kc_Thresholds config)")
    case None
    then show ?thesis using w1(1) by (intro normal_spares [OF sp, of S "ck n" status w]) simp
  next
    case (Some resource)
    then show ?thesis using w1(1) runs by (intro exceeded_spares [OF _ sp, of S F "ck n" config resource status w]) simp_all
  qed
  then show ?thesis by (simp add: w1(2) same_entries_def gomap_simps)
qed (use turn sp in \<open>auto simp: monitor_one_def\<close>)

lemma all_spares:
  assumes "watchdog_ok w" "set ncs \<subseteq> set (wg_components w)" "name \<notin> fst ` set ncs" "spared name (wg_components w) world v"
  shows "\<exists>w' v'. monitor_all S F ck ncs (w, v) = Returns (w', v') \<and> keeps w w' \<and> same_entries name w w' \<and> spared name (wg_components w) world v'"
  using assms
proof (induction ncs arbitrary: w v)
  case Nil
  then show ?case using ok_keeps_refl by auto
next
  case (Cons nc ncs)
  obtain n c where nc: "nc = (n, c)" by force
  have mem: "(n, c) \<in> set (wg_components w)" "n \<noteq> name" using Cons.prems(2,3) nc by auto
  have "map_of (wg_components w) n \<noteq> None" using mem(1) weak_map_of_SomeI by fastforce
  from one_keeps [OF Cons.prems(1) this, of S F ck c v]
  obtain w1 v1 where w1: "monitor_one S F ck nc (w, v) = Returns (w1, v1)" "keeps w w1" using nc by blast
  have sp: "spared name (wg_components w) world v1 \<and> same_entries name w w1"
    using one_spares [OF w1(1) [unfolded nc] Cons.prems(4) mem(1), of name] mem(2) by blast
  have cs: "wg_components w1 = wg_components w" using w1(2) by (simp add: keeps_def)
  obtain w2 v2 where "monitor_all S F ck ncs (w1, v1) = Returns (w2, v2)" "keeps w1 w2" "same_entries name w1 w2" "spared name (wg_components w) world v2"
    using Cons.IH [OF keeps_ok [OF Cons.prems(1) w1(2)], of v1] Cons.prems(2,3) sp cs by auto
  then show ?case using w1 sp keeps_trans [OF w1(2)] same_entries_trans by (metis and_then.simps(1) monitor_all.simps(2))
qed

lemma monitor_all_append: "monitor_all S F ck (xs @ ys) s = and_then (monitor_all S F ck xs s) (monitor_all S F ck ys)"
proof (induction xs arbitrary: s)
  case (Cons x xs)
  then show ?case by (cases "monitor_one S F ck x s") simp_all
qed simp

text \<open>A turn of the component that runs, over a threshold and with its breaker open.\<close>

lemma own_turn:
  assumes comp: "co_Monitorable c = Some (u, h)" "co_Restartable c = Some r"
    and sp: "spared name cs world v" "(name, c) \<in> set cs" and running: "\<And>v. spared name cs world v \<Longrightarrow> re_IsRunning r v"
    and config: "map_of (wg_componentConfigs w) name = Some k" "rc_Enabled (kc_Restart k)"
    and over: "exceeded F (u v) (kc_Thresholds k) = Some resource"
    and breaker: "map_of (wg_circuitBreakers w) name = Some b" "se_State S (se_RecordFailure S (ck name ''breaker'') b) = CircuitOpen"
    and rm: "map_of (wg_restartManagers w) name = Some rm" "rc_Enabled (rm_config rm)" "rm_restartAttempts rm < rc_MaxRestartAttempts (rm_config rm)"
    and status: "map_of (wg_componentStatuses w) name = Some st"
    and turn: "monitor_one S F ck (name, c) (w, v) = Returns (w', v')"
  shows "open_and_enabled S name w' \<and> (\<exists>st'. map_of (wg_componentStatuses w') name = Some st' \<and> cs_RestartCount st' = to_int64 (cs_RestartCount st + 1))"
proof -
  let ?st = "st\<lparr>cs_ResourceUsage := u v, cs_Health := h v\<rparr>" and ?ck = "ck name"
  let ?i = "createResourceIncident S F (?ck ''incident id'') (?ck ''incident'') name resource (u v) (kc_Thresholds k)"
  let ?b = "se_RecordFailure S (?ck ''breaker'') b"
  obtain w3 s3 where ex: "monitor_exceeded S F ?ck name c k resource ?st w v = Returns (w3, v', s3)"
      and w': "w' = w3\<lparr>wg_componentStatuses := AList.update name s3 (wg_componentStatuses w3)\<rparr>"
    using turn by (auto simp: monitor_one_def comp(1) config(1) status over Let_def and_then_Returns)
  obtain w1 where w1: "emit S ?i w = Returns w1" using ex by (auto simp: monitor_exceeded_def Let_def and_then_Returns)
  have same: "map_of (wg_circuitBreakers w1) name = Some b" "map_of (wg_restartManagers w1) name = Some rm"
    using emit_entries [OF w1, of name] breaker(1) rm(1) by (simp_all add: same_entries_def)
  let ?s1 = "?st\<lparr>cs_Incidents := trim_incidents (cs_Incidents st @ [?i])\<rparr>"
  let ?w2 = "w1\<lparr>wg_circuitBreakers := AList.update name ?b (wg_circuitBreakers w1)\<rparr>" and ?s2 = "?s1\<lparr>cs_CircuitState := CircuitOpen\<rparr>"
  have rec: "record_result S (se_RecordFailure S) (?ck ''breaker'') name w1 ?s1 = (?w2, ?s2)" using breaker(2) same(1) by (simp add: record_result_def)
  obtain v1 s where deg: "(case co_SetDegradationLevel c of
       Some setLevel \<Rightarrow> if se_DegradationEnabled S \<and> wg_degradationController ?w2 \<noteq> None then handleDegradation S setLevel v ?s2 else (v, ?s2)
     | None \<Rightarrow> (v, ?s2)) = (v1, s)" by force
  from level_step [OF sp deg] have v1: "spared name cs world v1" "cs_CircuitState s = CircuitOpen" "cs_RestartCount s = cs_RestartCount st" by simp_all
  have "AttemptRestart F r (?ck ''elapsed'') (?ck ''restart'') rm v1 = (rm, v1, True, None)" using rm(2,3) running [OF v1(1)] by (simp add: AttemptRestart_def)
  then have "handleRestart S F ?ck name r rm s ?w2 v1 = Returns (?w2\<lparr>wg_restartManagers := AList.update name rm (wg_restartManagers w1)\<rparr>, v1,
      s\<lparr>cs_LastRestart := ?ck ''restarted'', cs_RestartCount := to_int64 (cs_RestartCount st + 1)\<rparr>)"
    by (simp add: handleRestart_def Let_def v1(3))
  then have "w3 = ?w2\<lparr>wg_restartManagers := AList.update name rm (wg_restartManagers w1)\<rparr>" "cs_RestartCount s3 = to_int64 (cs_RestartCount st + 1)"
    using ex v1(2) config(2) same(2) rec deg by (auto simp: monitor_exceeded_def Let_def w1 comp(2))
  then show ?thesis using breaker(2) rm(2,3) by (auto simp: w' open_and_enabled_def gomap_simps)
qed

lemma running_round:
  assumes ok: "watchdog_ok w" "gm_wf (wg_components w)" and comp: "map_of (wg_components w) name = Some c"
    and over: "stays_over F S name c k w world" and enabled: "open_and_enabled S name w"
    and sp: "spared name (wg_components w) world v" and status: "map_of (wg_componentStatuses w) name = Some st"
  shows "\<exists>w' v' st'. monitorComponents S F ck (w, v) = Returns (w', v') \<and> keeps w w' \<and> spared name (wg_components w) world v' \<and>
    open_and_enabled S name w' \<and> map_of (wg_componentStatuses w') name = Some st' \<and> cs_RestartCount st' = to_int64 (cs_RestartCount st + 1)"
proof -
  let ?cs = "wg_components w"
  obtain xs ys where cs: "?cs = xs @ (name, c) # ys" using map_of_SomeD [OF comp] by (meson split_list)
  have others: "name \<notin> fst ` set xs" "name \<notin> fst ` set ys" "set xs \<subseteq> set ?cs" "set ys \<subseteq> set ?cs" "(name, c) \<in> set ?cs"
    using ok(2) by (auto simp: cs gm_wf_def)
  obtain w1 v1 where w1: "monitor_all S F ck xs (w, v) = Returns (w1, v1)" "keeps w w1" "same_entries name w w1" "spared name ?cs world v1"
    using all_spares [OF ok(1) others(3,1) sp] by blast
  have ok1: "watchdog_ok w1" "wg_components w1 = ?cs" "wg_componentConfigs w1 = wg_componentConfigs w" using keeps_ok [OF ok(1) w1(2)] w1(2) by (simp_all add: keeps_def)
  obtain u h r where c: "co_Monitorable c = Some (u, h)" "co_Restartable c = Some r"
      "\<And>v. spared name ?cs world v \<Longrightarrow> re_IsRunning r v" "\<And>v. spared name ?cs world v \<Longrightarrow> exceeded F (u v) (kc_Thresholds k) \<noteq> None"
      and k: "map_of (wg_componentConfigs w1) name = Some k" "rc_Enabled (kc_Restart k)"
      and open_again: "\<And>t b. se_State S b = CircuitOpen \<Longrightarrow> se_State S (se_RecordFailure S t b) = CircuitOpen"
    using over ok1(3) unfolding stays_over_def by auto
  obtain resource where resource: "exceeded F (u v1) (kc_Thresholds k) = Some resource" using c(4) [OF w1(4)] by auto
  obtain b rm where b: "map_of (wg_circuitBreakers w1) name = Some b" "se_State S b = CircuitOpen"
      and rm: "map_of (wg_restartManagers w1) name = Some rm" "rc_Enabled (rm_config rm)" "rm_restartAttempts rm < rc_MaxRestartAttempts (rm_config rm)"
    using enabled w1(3) by (auto simp: open_and_enabled_def same_entries_def)
  have st: "map_of (wg_componentStatuses w1) name = Some st" using status w1(3) by (simp add: same_entries_def)
  obtain w2 v2 where w2: "monitor_one S F ck (name, c) (w1, v1) = Returns (w2, v2)" "keeps w1 w2"
    using one_keeps [OF ok1(1), of name S F ck c v1] comp ok1(2) by auto
  have sp2: "spared name ?cs world v2" using one_spares [OF w2(1) w1(4) others(5)] c(2,3) by auto
  from own_turn [OF c(1,2) w1(4) others(5) c(3) k resource b(1) open_again [OF b(2)] rm st w2(1)]
  obtain st2 where st2: "open_and_enabled S name w2" "map_of (wg_componentStatuses w2) name = Some st2" "cs_RestartCount st2 = to_int64 (cs_RestartCount st + 1)"
    by blast
  have cs2: "wg_components w2 = ?cs" using w2(2) ok1(2) by (simp add: keeps_def)
  from all_spares [OF keeps_ok [OF ok1(1) w2(2)], unfolded cs2, OF others(4,2) sp2]
  obtain w3 v3 where w3: "monitor_all S F ck ys (w2, v2) = Returns (w3, v3)" "keeps w2 w3" "same_entries name w2 w3" "spared name ?cs world v3" by blast
  have "monitorComponents S F ck (w, v) = Returns (w3, v3)" by (simp add: monitorComponents_def cs monitor_all_append w1(1) w2(1) w3(1))
  moreover have "keeps w w3" using keeps_trans [OF keeps_trans [OF w1(2) w2(2)] w3(2)] .
  moreover have "open_and_enabled S name w3 \<and> map_of (wg_componentStatuses w3) name = Some st2" using st2(1,2) w3(3) by (simp add: open_and_enabled_def same_entries_def)
  ultimately show ?thesis using w3(4) st2(3) by blast
qed

lemma running_rounds:
  assumes "watchdog_ok w" "gm_wf (wg_components w)" "map_of (wg_components w) name = Some c" "stays_over F S name c k w world" "open_and_enabled S name w"
    and "spared name (wg_components w) world v" "map_of (wg_componentStatuses w) name = Some st" "0 \<le> cs_RestartCount st" "cs_RestartCount st + int (length cks) \<le> max_int64"
  shows "\<exists>w' v' st'. watch_rounds S F cks (w, v) = Returns (w', v') \<and> spared name (wg_components w) world v' \<and>
    map_of (wg_componentStatuses w') name = Some st' \<and> cs_RestartCount st' = cs_RestartCount st + int (length cks)"
  using assms
proof (induction cks arbitrary: w v st)
  case (Cons ck cks)
  obtain w1 v1 st1 where w1: "monitorComponents S F ck (w, v) = Returns (w1, v1)" "keeps w w1" "spared name (wg_components w) world v1" "open_and_enabled S name w1"
      "map_of (wg_componentStatuses w1) name = Some st1" "cs_RestartCount st1 = to_int64 (cs_RestartCount st + 1)"
    using running_round [OF Cons.prems(1-7)] by blast
  have same: "wg_components w1 = wg_components w" "wg_componentConfigs w1 = wg_componentConfigs w" using w1(2) by (simp_all add: keeps_def)
  have count: "cs_RestartCount st1 = cs_RestartCount st + 1"
    unfolding w1(6) by (rule to_int64_id) (use Cons.prems(8,9) in \<open>simp add: in_int64_def min_int64_def\<close>)
  have "stays_over F S name c k w1 world" using Cons.prems(4) by (simp add: stays_over_def same)
  from Cons.IH [OF keeps_ok [OF Cons.prems(1) w1(2)], unfolded same, OF Cons.prems(2,3) this w1(4,3,5)]
  show ?case using w1(1) count Cons.prems(8,9) by auto
qed auto

section \<open>Properties\<close>

text \<open>
  C38. In every state a watchdog can reach, its components have a configuration, a status and a breaker each, exactly those that
  can be restarted have a restart manager, and at most a hundred events are kept; so a round of monitoring returns, whatever
  the components do.
\<close>

theorem watchdog_invariant:
  assumes "watchdog_reachable S w"
  shows "watchdog_ok w \<and> (\<exists>w' world'. monitorComponents S F ck (w, world) = Returns (w', world'))"
  using watchdog_reachable_ok [OF assms] monitor_keeps [of w S F ck world] by auto

text \<open>
  C39. A component that runs is not restarted. Take any component that can be monitored and restarted, among any others, degradable or not.
  Its restarts are enabled and have attempts left, its breaker is open, and in every state of the components that calls other than its own
  \<^verbatim>\<open>Shutdown\<close> and \<^verbatim>\<open>Start\<close> lead to, it runs and exceeds a threshold. Then rounds of monitoring return,
  neither its \<^verbatim>\<open>Shutdown\<close> nor its \<^verbatim>\<open>Start\<close> is called, and its count of restarts grows by one each round.
  The hypothesis on the breaker, that a failure does not close it, holds of the one of the package.
\<close>

theorem running_component_not_restarted:
  assumes "watchdog_ok w" "gm_wf (wg_components w)" "map_of (wg_components w) name = Some c" "stays_over F S name c k w world" "open_and_enabled S name w"
    and "map_of (wg_componentStatuses w) name = Some st" "0 \<le> cs_RestartCount st" "cs_RestartCount st + int (length cks) \<le> max_int64"
  shows "\<exists>w' world' st'. watch_rounds S F cks (w, world) = Returns (w', world') \<and> spared name (wg_components w) world world' \<and>
    map_of (wg_componentStatuses w') name = Some st' \<and> cs_RestartCount st' = cs_RestartCount st + int (length cks)"
  using running_rounds [OF assms(1-5) spared.no_call assms(6-)] .

text \<open>
  C40. Stopping the watchdog can block for ever. \<^verbatim>\<open>Stop\<close> holds the mutex while it waits for the monitoring loop,
  and a loop whose ticker has fired waits for the mutex: from a running watchdog a state is reached in which neither can take
  a step.
\<close>

theorem watchdog_stop_blocks:
  "\<exists>s. lifecycle_step\<^sup>*\<^sup>* stop_called s \<and> lc_stop s = StopWaiting \<and> (\<forall>s'. \<not> lifecycle_step s s')"
proof -
  let ?s1 = "stop_called\<lparr>lc_loop := Locking\<rparr>"
  let ?s2 = "?s1\<lparr>lc_stop := StopWaiting, lc_mutex_free := False, lc_cancelled := True\<rparr>"
  have "lifecycle_step stop_called ?s1" by (rule lifecycle_step.tick) (simp add: stop_called_def)
  moreover have "lifecycle_step ?s1 ?s2" by (rule lifecycle_step.stop) (simp_all add: stop_called_def)
  ultimately have "lifecycle_step\<^sup>*\<^sup>* stop_called ?s2" by (meson rtranclp.rtrancl_into_rtrancl rtranclp.rtrancl_refl)
  moreover have "\<not> lifecycle_step ?s2 s'" for s' by (auto simp: stop_called_def elim: lifecycle_stepE)
  ultimately show ?thesis by (intro exI [of _ ?s2]) simp
qed

section \<open>Witnesses\<close>

lemma ex_new: "NewWatchdog ex_settings watchdog_DefaultConfig = Inr \<lparr>wg_config = watchdog_DefaultConfig, wg_components = [], wg_componentConfigs = [],
    wg_componentStatuses = [], wg_circuitBreakers = [], wg_restartManagers = [],
    wg_degradationController = Some \<lparr>dc_maxLevel = 3, dc_levelActions = [], dc_levelDescriptions = [], dc_componentLevels = []\<rparr>, wg_diagnostics = Some NewDiagnosticsProvider\<rparr>"
  by (simp add: NewWatchdog_def watchdog_DefaultConfig_valid ex_settings_def NewDegradationController_def)

lemma ex_watchdog_fields:
  "watchdog_reachable ex_settings ex_watchdog" "wg_components ex_watchdog = [(''leaking'', ex_leaking), (''failing'', ex_failing)]"
  "map_of (wg_componentConfigs ex_watchdog) ''leaking'' = Some (se_DefaultComponentConfig ex_settings ''leaking'')"
  "map_of (wg_restartManagers ex_watchdog) ''leaking'' = Some (NewRestartManager (wd_RestartPolicy watchdog_DefaultConfig))"
  "map_of (wg_componentStatuses ex_watchdog) ''leaking'' = Some (new_status ''leaking'')"
proof -
  have register: "watchdog_reachable ex_settings (fst (RegisterComponent ex_settings n c w))" if "watchdog_reachable ex_settings w" for n and c :: "int component" and w
    using watchdog_reachable.intros(2) [OF that] by (metis surjective_pairing)
  show "watchdog_reachable ex_settings ex_watchdog"
    unfolding ex_watchdog_def ex_new sum.case by (intro register watchdog_reachable.intros(1) [OF ex_new])
qed (simp_all add: ex_watchdog_def ex_new RegisterComponent_def ex_leaking_def ex_failing_def Let_def, simp_all add: ex_settings_def)

theorem watchdog_invariant_witness:
  "\<exists>w' world'. monitorComponents ex_settings ex_fmath (\<lambda>_ _. 0) (ex_watchdog, 0) = Returns (w', world')"
  using watchdog_invariant [OF ex_watchdog_fields(1), of ex_fmath "\<lambda>_ _. 0" 0] by blast

text \<open>The example after the breaker has opened: three rounds count three restarts of the component that runs.\<close>

theorem running_component_not_restarted_witness:
  "let w = ex_watchdog\<lparr>wg_circuitBreakers := map (\<lambda>n. (n, (NewCircuitBreaker n default_breaker 0)\<lparr>cb_state := CircuitOpen\<rparr>)) [''leaking'', ''failing'']\<rparr>
   in \<exists>w' world' st'. watch_rounds ex_settings ex_fmath (replicate 3 (\<lambda>_ _. 0)) (w, 0) = Returns (w', world') \<and>
        map_of (wg_componentStatuses w') ''leaking'' = Some st' \<and> cs_RestartCount st' = 3"
proof -
  let ?w = "ex_watchdog\<lparr>wg_circuitBreakers := map (\<lambda>n. (n, (NewCircuitBreaker n default_breaker 0)\<lparr>cb_state := CircuitOpen\<rparr>)) [''leaking'', ''failing'']\<rparr>"
  let ?k = "se_DefaultComponentConfig ex_settings ''leaking''"
  have ok: "watchdog_ok ?w" using watchdog_reachable_ok [OF ex_watchdog_fields(1)] ex_watchdog_fields(2) by (simp add: watchdog_ok_def)
  have wf: "gm_wf (wg_components ?w)" "map_of (wg_components ?w) ''leaking'' = Some ex_leaking" using ex_watchdog_fields(2) by (simp_all add: gm_wf_def)
  have breaker: "se_State ex_settings (se_RecordFailure ex_settings t b) = CircuitOpen" if "se_State ex_settings b = CircuitOpen" for t b
    using that by (simp add: ex_settings_def RecordFailure_def)
  have cfg: "rc_Enabled (wd_RestartPolicy watchdog_DefaultConfig)" "rc_MaxRestartAttempts (wd_RestartPolicy watchdog_DefaultConfig) = 5"
    by (simp_all add: watchdog_DefaultConfig_def)
  have k: "kc_Thresholds ?k = DefaultResourceThresholds" "rc_Enabled (kc_Restart ?k)" using cfg by (simp_all add: ex_settings_def)
  have over: "exceeded ex_fmath (zero_watchdog_usage\<lparr>wu_Goroutines := 5000\<rparr>) DefaultResourceThresholds \<noteq> None" by code_simp
  have "stays_over ex_fmath ex_settings ''leaking'' ex_leaking ?k ?w 0"
    unfolding stays_over_def using ex_watchdog_fields(3) k over breaker by (simp add: ex_leaking_def)
  moreover have "open_and_enabled ex_settings ''leaking'' ?w"
    using ex_watchdog_fields(4) cfg by (simp add: open_and_enabled_def NewRestartManager_def) (simp add: ex_settings_def)
  ultimately show ?thesis
    using running_component_not_restarted [OF ok wf, of ex_fmath ex_settings ?k 0 "new_status ''leaking''" "replicate 3 (\<lambda>_ _. 0)"] ex_watchdog_fields(5)
    by (auto simp: Let_def new_status_def max_int64_def)
qed

end
