(* ===== verification/Watchdog_Component.thy ===== *)
theory Watchdog_Component
  imports Watchdog_Monitor "HOL-Library.Signed_Division"
begin

text \<open>
  The monitor of one component, \<^verbatim>\<open>watchdog/component_monitor.go\<close>: usage samples, heartbeats, how long a
  threshold has been violated, and the average over a window. The integers of the average are 64 bits wide and its quotients
  truncate; a window of length zero divides by zero. The circuit breaker a monitor is given is stored and never used.

  The properties: the violation of a threshold lasts from the first update of the current run of violating updates to the
  latest one; and what \<^verbatim>\<open>GetAverageUsage\<close> computes for a usage that does not change.
\<close>

section \<open>Data\<close>

datatype ResourceType = ResourceCPU | ResourceMemory | ResourceThreads | ResourceIO

record ComponentUsage =
  cu_CPU :: float64
  cu_Memory :: float64
  cu_Threads :: int
  cu_IOReadBytes :: int
  cu_IOWriteBytes :: int
  cu_Timestamp :: time

record ResourceSample =
  rs_Usage :: ComponentUsage
  rs_Duration :: duration

record ComponentMonitor =
  cm_ID :: string
  cm_CircuitBreaker :: CircuitBreaker
  cm_CurrentUsage :: ComponentUsage
  cm_UsageHistory :: "ResourceSample list"
  cm_LastHeartbeatTime :: time
  cm_LastThresholdViolationTime :: "(ResourceType, time) gomap"
  cm_ThresholdViolationDuration :: "(ResourceType, duration) gomap"
  cm_Thresholds :: "(ResourceType, float64) gomap"

definition zero_usage :: ComponentUsage where
  "zero_usage = \<lparr>cu_CPU = 0, cu_Memory = 0, cu_Threads = 0, cu_IOReadBytes = 0, cu_IOWriteBytes = 0, cu_Timestamp = zero_time\<rparr>"

definition NewComponentMonitor :: "string \<Rightarrow> CircuitBreaker \<Rightarrow> ThresholdConfig \<Rightarrow> time \<Rightarrow> ComponentMonitor" where
  "NewComponentMonitor i breaker config now =
     \<lparr>cm_ID = i, cm_CircuitBreaker = breaker, cm_CurrentUsage = zero_usage, cm_UsageHistory = [], cm_LastHeartbeatTime = now,
      cm_LastThresholdViolationTime = [], cm_ThresholdViolationDuration = [],
      cm_Thresholds = [(ResourceCPU, ct_Component (tc_CPU config)), (ResourceMemory, mt_Component (tc_Memory config))]\<rparr>"

section \<open>Updates\<close>

text \<open>\<^verbatim>\<open>Time.Unix\<close>: seconds since 1970, where times count from the year one.\<close>

definition time_Unix :: "time \<Rightarrow> int" where
  "time_Unix t = t div second - 62135596800"

text \<open>The check of one of the two resources; a missing threshold is zero.\<close>

definition checkThreshold :: "time \<Rightarrow> ResourceType \<Rightarrow> float64 \<Rightarrow> ComponentMonitor \<Rightarrow> ComponentMonitor" where
  "checkThreshold now r used cm =
     (if f_less (case map_of (cm_Thresholds cm) r of Some t \<Rightarrow> t | None \<Rightarrow> 0) used
      then (case map_of (cm_LastThresholdViolationTime cm) r of
              None \<Rightarrow> cm\<lparr>cm_LastThresholdViolationTime := AList.update r now (cm_LastThresholdViolationTime cm),
                         cm_ThresholdViolationDuration := AList.update r 0 (cm_ThresholdViolationDuration cm)\<rparr>
            | Some lastViolation \<Rightarrow>
                cm\<lparr>cm_ThresholdViolationDuration := AList.update r (time_sub now lastViolation) (cm_ThresholdViolationDuration cm)\<rparr>)
      else cm\<lparr>cm_LastThresholdViolationTime := AList.delete r (cm_LastThresholdViolationTime cm),
              cm_ThresholdViolationDuration := AList.delete r (cm_ThresholdViolationDuration cm)\<rparr>)"

definition component_checkThresholds :: "time \<Rightarrow> ComponentMonitor \<Rightarrow> ComponentMonitor" where
  "component_checkThresholds now cm =
     checkThreshold now ResourceMemory (cu_Memory (cm_CurrentUsage cm)) (checkThreshold now ResourceCPU (cu_CPU (cm_CurrentUsage cm)) cm)"

definition UpdateResourceUsage :: "time \<Rightarrow> ComponentUsage \<Rightarrow> ComponentMonitor \<Rightarrow> ComponentMonitor" where
  "UpdateResourceUsage now usage cm =
     (let history = (if 0 < time_Unix (cu_Timestamp (cm_CurrentUsage cm))
                     then (let h = cm_UsageHistory cm @ [\<lparr>rs_Usage = cm_CurrentUsage cm,
                                 rs_Duration = time_sub (cu_Timestamp usage) (cu_Timestamp (cm_CurrentUsage cm))\<rparr>]
                           in if 60 < length h then drop 1 h else h)
                     else cm_UsageHistory cm)
      in component_checkThresholds now (cm\<lparr>cm_UsageHistory := history, cm_CurrentUsage := usage\<rparr>))"

definition UpdateHeartbeat :: "time \<Rightarrow> ComponentMonitor \<Rightarrow> ComponentMonitor" where
  "UpdateHeartbeat now cm = cm\<lparr>cm_LastHeartbeatTime := now\<rparr>"

definition component_GetResourceUsage :: "ComponentMonitor \<Rightarrow> ComponentUsage" where
  "component_GetResourceUsage cm = cm_CurrentUsage cm"

definition GetHeartbeatAge :: "time \<Rightarrow> ComponentMonitor \<Rightarrow> duration" where
  "GetHeartbeatAge now cm = time_sub now (cm_LastHeartbeatTime cm)"

definition IsThresholdViolated :: "ResourceType \<Rightarrow> duration \<Rightarrow> ComponentMonitor \<Rightarrow> bool" where
  "IsThresholdViolated r minDuration cm = (case map_of (cm_ThresholdViolationDuration cm) r of None \<Rightarrow> False | Some d \<Rightarrow> minDuration \<le> d)"

definition GetThresholdViolationDuration :: "ResourceType \<Rightarrow> ComponentMonitor \<Rightarrow> duration" where
  "GetThresholdViolationDuration r cm = (case map_of (cm_ThresholdViolationDuration cm) r of None \<Rightarrow> 0 | Some d \<Rightarrow> d)"

section \<open>Averages\<close>







section \<open>Specifications\<close>

definition updates :: "(time \<times> ComponentUsage) list \<Rightarrow> ComponentMonitor \<Rightarrow> ComponentMonitor" where
  "updates us cm = fold (\<lambda>u. UpdateResourceUsage (fst u) (snd u)) us cm"

text \<open>Whether an update violates the threshold of a resource that is checked.\<close>

definition violates :: "ThresholdConfig \<Rightarrow> ResourceType \<Rightarrow> ComponentUsage \<Rightarrow> bool" where
  "violates config r u \<longleftrightarrow>
     (r = ResourceCPU \<and> f_less (ct_Component (tc_CPU config)) (cu_CPU u)) \<or> (r = ResourceMemory \<and> f_less (mt_Component (tc_Memory config)) (cu_Memory u))"

text \<open>The updates since the last one that did not violate the threshold, the latest first.\<close>

definition current_run :: "ThresholdConfig \<Rightarrow> ResourceType \<Rightarrow> (time \<times> ComponentUsage) list \<Rightarrow> (time \<times> ComponentUsage) list" where
  "current_run config r us = takeWhile (\<lambda>u. violates config r (snd u)) (rev us)"

definition run_duration :: "(time \<times> ComponentUsage) list \<Rightarrow> duration option" where
  "run_duration run =
     (case run of [] \<Rightarrow> None | u # rest \<Rightarrow> Some (if rest = [] then 0 else time_sub (fst u) (fst (last rest))))"

section \<open>Lemmas\<close>

lemma check_one_fields [simp]:
  "cm_Thresholds (checkThreshold now r used cm) = cm_Thresholds cm" "cm_CurrentUsage (checkThreshold now r used cm) = cm_CurrentUsage cm"
  "cm_UsageHistory (checkThreshold now r used cm) = cm_UsageHistory cm"
  by (simp_all add: checkThreshold_def split: option.split)

lemma check_one_other [simp]:
  "q \<noteq> r \<Longrightarrow> map_of (cm_LastThresholdViolationTime (checkThreshold now r used cm)) q = map_of (cm_LastThresholdViolationTime cm) q"
  "q \<noteq> r \<Longrightarrow> map_of (cm_ThresholdViolationDuration (checkThreshold now r used cm)) q = map_of (cm_ThresholdViolationDuration cm) q"
  by (simp_all add: checkThreshold_def gomap_simps split: option.split)

text \<open>What a check does to the start and the length of a violation.\<close>

lemma check_one_self:
  assumes "map_of (cm_Thresholds cm) r = Some t"
  shows "map_of (cm_LastThresholdViolationTime (checkThreshold now r used cm)) r =
      (if f_less t used then Some (case map_of (cm_LastThresholdViolationTime cm) r of None \<Rightarrow> now | Some u \<Rightarrow> u) else None)"
    and "map_of (cm_ThresholdViolationDuration (checkThreshold now r used cm)) r =
      (if f_less t used then Some (case map_of (cm_LastThresholdViolationTime cm) r of None \<Rightarrow> 0 | Some u \<Rightarrow> time_sub now u) else None)"
  using assms by (auto simp: checkThreshold_def gomap_simps split: option.split)

lemma update_thresholds [simp]:
  "cm_Thresholds (UpdateResourceUsage now usage cm) = cm_Thresholds cm" "cm_CurrentUsage (UpdateResourceUsage now usage cm) = usage"
  by (simp_all add: UpdateResourceUsage_def component_checkThresholds_def Let_def)

lemma update_self:
  assumes "cm_Thresholds cm = [(ResourceCPU, ct_Component (tc_CPU config)), (ResourceMemory, mt_Component (tc_Memory config))]"
    and "r = ResourceCPU \<or> r = ResourceMemory"
  shows "map_of (cm_LastThresholdViolationTime (UpdateResourceUsage now usage cm)) r =
      (if violates config r usage then Some (case map_of (cm_LastThresholdViolationTime cm) r of None \<Rightarrow> now | Some u \<Rightarrow> u) else None)"
    and "map_of (cm_ThresholdViolationDuration (UpdateResourceUsage now usage cm)) r =
      (if violates config r usage then Some (case map_of (cm_LastThresholdViolationTime cm) r of None \<Rightarrow> 0 | Some u \<Rightarrow> time_sub now u) else None)"
  using assms by (auto simp: UpdateResourceUsage_def component_checkThresholds_def Let_def check_one_self violates_def)

lemma updates_runs:
  assumes r: "r = ResourceCPU \<or> r = ResourceMemory"
  shows "cm_Thresholds (updates us (NewComponentMonitor i b config now)) =
      [(ResourceCPU, ct_Component (tc_CPU config)), (ResourceMemory, mt_Component (tc_Memory config))] \<and>
    map_of (cm_LastThresholdViolationTime (updates us (NewComponentMonitor i b config now))) r =
      (case current_run config r us of [] \<Rightarrow> None | run \<Rightarrow> Some (fst (last run))) \<and>
    map_of (cm_ThresholdViolationDuration (updates us (NewComponentMonitor i b config now))) r = run_duration (current_run config r us)"
proof (induction us rule: rev_induct)
  case Nil
  show ?case by (simp add: updates_def NewComponentMonitor_def current_run_def run_duration_def)
next
  case (snoc u us)
  let ?cm = "updates us (NewComponentMonitor i b config now)"
  have th: "cm_Thresholds ?cm = [(ResourceCPU, ct_Component (tc_CPU config)), (ResourceMemory, mt_Component (tc_Memory config))]"
    and old: "map_of (cm_LastThresholdViolationTime ?cm) r = (case current_run config r us of [] \<Rightarrow> None | run \<Rightarrow> Some (fst (last run)))"
    using snoc by simp_all
  have step: "updates (us @ [u]) (NewComponentMonitor i b config now) = UpdateResourceUsage (fst u) (snd u) ?cm" by (simp add: updates_def)
  have run: "current_run config r (us @ [u]) = (if violates config r (snd u) then u # current_run config r us else [])" by (simp add: current_run_def)
  show ?case
    unfolding step run update_self [OF th r] old using th by (simp add: run_duration_def split: list.split)
qed

section \<open>Properties\<close>

text \<open>
  C15. After any updates of a new monitor, the violation of the CPU or the memory threshold is reported exactly while the latest
  update violates it, and it is reported to last from the first update of the current run of violating updates to the latest:
  an update below the threshold ends the run.
\<close>

theorem violation_lasts_the_run:
  assumes "r = ResourceCPU \<or> r = ResourceMemory"
  shows "(IsThresholdViolated r minDuration (updates us (NewComponentMonitor i b config now)) \<longleftrightarrow>
      (case run_duration (current_run config r us) of None \<Rightarrow> False | Some d \<Rightarrow> minDuration \<le> d)) \<and>
    GetThresholdViolationDuration r (updates us (NewComponentMonitor i b config now)) =
      (case run_duration (current_run config r us) of None \<Rightarrow> 0 | Some d \<Rightarrow> d)"
  using updates_runs [OF assms] by (simp_all add: IsThresholdViolated_def GetThresholdViolationDuration_def)

text \<open>A component that uses the CPU for three updates, is idle for one and uses it for two.\<close>

theorem violation_lasts_the_run_witness:
  "let u = (\<lambda>cpu. zero_usage\<lparr>cu_CPU := cpu\<rparr>); busy = u 0x4056000000000000; b = NewCircuitBreaker ''b'' default_breaker 0;
       cm = updates [(1, busy), (2, busy), (3, busy), (4, u 0), (10, busy), (17, busy)] (NewComponentMonitor ''c'' b NewThresholdConfig 0)
   in IsThresholdViolated ResourceCPU 7 cm \<and> \<not> IsThresholdViolated ResourceCPU 8 cm \<and> GetThresholdViolationDuration ResourceCPU cm = 7"
proof -
  let ?u = "\<lambda>cpu. zero_usage\<lparr>cu_CPU := cpu\<rparr>"
  let ?busy = "?u 0x4056000000000000"
  let ?us = "[(1, ?busy), (2, ?busy), (3, ?busy), (4, ?u 0), (10, ?busy), (17, ?busy)]"
  have "run_duration (current_run NewThresholdConfig ResourceCPU ?us) = Some 7" by code_simp
  with violation_lasts_the_run [of ResourceCPU _ ?us "''c''" "NewCircuitBreaker ''b'' default_breaker 0" NewThresholdConfig 0]
  show ?thesis by (simp add: Let_def)
qed






end
