(* ===== verification/Export_Pipeline.thy ===== *)
theory Export_Pipeline
  imports Complex_Main Circuit_Interface "HOL-Library.Multiset"
begin

text \<open>
  The OTLP export pipeline of \<^verbatim>\<open>export/\<close>: its configuration and validation
  (\<^verbatim>\<open>config.go\<close>), its circuit breaker (\<^verbatim>\<open>circuit_breaker.go\<close>), batches and the
  batch processor (\<^verbatim>\<open>batch.go\<close>), the retry loop (\<^verbatim>\<open>backoff.go\<close>) and the exporter
  that composes them (\<^verbatim>\<open>exporter.go\<close>).

  A batch is passed to the processor function without the mutex, so other goroutines can come between: \<open>batch_step\<close>
  interleaves callers, the ticker goroutine and a shutdown. The function itself is a parameter (\<open>processor\<close>, the error it
  returns as an option). A retried function is a
  state transformer \<open>fn\<close> with an optional error; \<open>cancelled k\<close> says whether the context
  is done while the retrier waits after attempt \<open>k\<close>. The multiplier is the exact value of its
  float64. The subscribers of the breaker are the goroutines it starts, recorded in
  \<open>notified_export\<close>.
\<close>

section \<open>Configuration\<close>

type_synonym ProtocolType = string

definition ProtocolGRPC :: ProtocolType where
  "ProtocolGRPC = ''grpc''"

definition ProtocolHTTP :: ProtocolType where
  "ProtocolHTTP = ''http''"

record BatchConfig =
  bc_Size :: int
  bc_Timeout :: duration

record RetryConfig =
  rc_Enabled :: bool
  rc_MaxAttempts :: int
  rc_InitialInterval :: duration
  rc_MaxInterval :: duration
  rc_Multiplier :: rat

record CircuitConfig =
  cc_Enabled :: bool
  cc_FailureThreshold :: int
  cc_ResetTimeout :: duration
  cc_HalfOpenSuccessThreshold :: int

record TLSConfig =
  tls_Enabled :: bool
  tls_CertFile :: string
  tls_KeyFile :: string
  tls_CAFile :: string
  tls_InsecureSkipVerify :: bool

record AuthConfig =
  auth_Type :: string
  auth_Username :: string
  auth_Password :: string
  auth_Token :: string

record ExportConfig =
  ec_Enabled :: bool
  ec_Endpoints :: "string list"
  ec_Protocol :: ProtocolType
  ec_Headers :: "(string, string) gomap"
  ec_Compression :: string
  ec_TLS :: TLSConfig
  ec_Auth :: AuthConfig
  ec_Batch :: BatchConfig
  ec_Retry :: RetryConfig
  ec_CircuitBreaker :: CircuitConfig

definition DefaultConfig_export :: ExportConfig where
  "DefaultConfig_export =
     \<lparr>ec_Enabled = True, ec_Endpoints = [''localhost:4317''], ec_Protocol = ProtocolGRPC,
      ec_Headers = [], ec_Compression = ''none'',
      ec_TLS = \<lparr>tls_Enabled = False, tls_CertFile = [], tls_KeyFile = [], tls_CAFile = [],
        tls_InsecureSkipVerify = False\<rparr>,
      ec_Auth = \<lparr>auth_Type = ''none'', auth_Username = [], auth_Password = [], auth_Token = []\<rparr>,
      ec_Batch = \<lparr>bc_Size = 1000, bc_Timeout = second\<rparr>,
      ec_Retry = \<lparr>rc_Enabled = True, rc_MaxAttempts = 5, rc_InitialInterval = second,
        rc_MaxInterval = 30 * second, rc_Multiplier = 3 / 2\<rparr>,
      ec_CircuitBreaker = \<lparr>cc_Enabled = True, cc_FailureThreshold = 5, cc_ResetTimeout = 60 * second,
        cc_HalfOpenSuccessThreshold = 2\<rparr>\<rparr>"

datatype config_error = NoEndpoint | BadProtocol | BadBatchSize | BadBatchTimeout | BadMaxAttempts |
  BadInitialInterval | BadMaxInterval | BadMultiplier | BadFailureThreshold | BadResetTimeout |
  BadSuccessThreshold

definition Validate_export :: "ExportConfig \<Rightarrow> config_error option" where
  "Validate_export c =
     (if \<not> ec_Enabled c then None
      else if ec_Endpoints c = [] then Some NoEndpoint
      else if ec_Protocol c \<noteq> ProtocolGRPC \<and> ec_Protocol c \<noteq> ProtocolHTTP then Some BadProtocol
      else if bc_Size (ec_Batch c) \<le> 0 then Some BadBatchSize
      else if bc_Timeout (ec_Batch c) \<le> 0 then Some BadBatchTimeout
      else if rc_Enabled (ec_Retry c) \<and> rc_MaxAttempts (ec_Retry c) \<le> 0 then Some BadMaxAttempts
      else if rc_Enabled (ec_Retry c) \<and> rc_InitialInterval (ec_Retry c) \<le> 0 then Some BadInitialInterval
      else if rc_Enabled (ec_Retry c) \<and> rc_MaxInterval (ec_Retry c) \<le> 0 then Some BadMaxInterval
      else if rc_Enabled (ec_Retry c) \<and> rc_Multiplier (ec_Retry c) \<le> 1 then Some BadMultiplier
      else if cc_Enabled (ec_CircuitBreaker c) \<and> cc_FailureThreshold (ec_CircuitBreaker c) \<le> 0
        then Some BadFailureThreshold
      else if cc_Enabled (ec_CircuitBreaker c) \<and> cc_ResetTimeout (ec_CircuitBreaker c) \<le> 0
        then Some BadResetTimeout
      else if cc_Enabled (ec_CircuitBreaker c) \<and> cc_HalfOpenSuccessThreshold (ec_CircuitBreaker c) \<le> 0
        then Some BadSuccessThreshold
      else None)"

section \<open>The circuit breaker\<close>

record CircuitBreaker_export =
  xcb_state :: circuit_state
  xcb_config :: CircuitConfig
  xcb_failures :: int
  xcb_successesInHalfOpen :: int
  xcb_lastStateChangeTime :: time
  xcb_openUntil :: time
  stateChangeSubscribers :: "nat list"
  notified_export :: "(nat \<times> circuit_state) list"

definition NewCircuitBreaker_export :: "CircuitConfig \<Rightarrow> time \<Rightarrow> CircuitBreaker_export" where
  "NewCircuitBreaker_export config now =
     \<lparr>xcb_state = CircuitClosed, xcb_config = config, xcb_failures = 0, xcb_successesInHalfOpen = 0,
      xcb_lastStateChangeTime = now, xcb_openUntil = zero_time, stateChangeSubscribers = [],
      notified_export = []\<rparr>"

definition OnStateChange :: "CircuitBreaker_export \<Rightarrow> nat \<Rightarrow> CircuitBreaker_export" where
  "OnStateChange cb fn = cb\<lparr>stateChangeSubscribers := stateChangeSubscribers cb @ [fn]\<rparr>"

definition notifySubscribers :: "CircuitBreaker_export \<Rightarrow> CircuitBreaker_export" where
  "notifySubscribers cb =
     (let state = xcb_state cb in
      cb\<lparr>notified_export := notified_export cb @ map (\<lambda>fn. (fn, state)) (stateChangeSubscribers cb)\<rparr>)"

definition toOpen_export :: "CircuitBreaker_export \<Rightarrow> time \<Rightarrow> time \<Rightarrow> CircuitBreaker_export" where
  "toOpen_export cb now now2 =
     (if xcb_state cb \<noteq> CircuitOpen then
        notifySubscribers (cb\<lparr>xcb_state := CircuitOpen,
          xcb_openUntil := now + cc_ResetTimeout (xcb_config cb), xcb_lastStateChangeTime := now2\<rparr>)
      else cb)"

definition toHalfOpen_export :: "CircuitBreaker_export \<Rightarrow> time \<Rightarrow> CircuitBreaker_export" where
  "toHalfOpen_export cb now =
     (if xcb_state cb \<noteq> CircuitHalfOpen then
        notifySubscribers (cb\<lparr>xcb_state := CircuitHalfOpen, xcb_successesInHalfOpen := 0,
          xcb_lastStateChangeTime := now\<rparr>)
      else cb)"

definition toClosed_export :: "CircuitBreaker_export \<Rightarrow> time \<Rightarrow> CircuitBreaker_export" where
  "toClosed_export cb now =
     (if xcb_state cb \<noteq> CircuitClosed then
        notifySubscribers (cb\<lparr>xcb_state := CircuitClosed, xcb_failures := 0,
          xcb_successesInHalfOpen := 0, xcb_lastStateChangeTime := now\<rparr>)
      else cb)"

definition AllowRequest :: "CircuitBreaker_export \<Rightarrow> time \<Rightarrow> time \<Rightarrow> CircuitBreaker_export \<times> bool" where
  "AllowRequest cb now now2 =
     (if \<not> cc_Enabled (xcb_config cb) then (cb, True)
      else case xcb_state cb of
             CircuitClosed \<Rightarrow> (cb, True)
           | CircuitOpen \<Rightarrow>
               if xcb_openUntil cb < now then (toHalfOpen_export cb now2, True) else (cb, False)
           | CircuitHalfOpen \<Rightarrow> (cb, xcb_successesInHalfOpen cb = 0))"

definition RecordSuccess_export :: "CircuitBreaker_export \<Rightarrow> time \<Rightarrow> CircuitBreaker_export" where
  "RecordSuccess_export cb now =
     (if \<not> cc_Enabled (xcb_config cb) then cb
      else case xcb_state cb of
             CircuitClosed \<Rightarrow> cb\<lparr>xcb_failures := 0\<rparr>
           | CircuitHalfOpen \<Rightarrow>
               (let cb1 = cb\<lparr>xcb_successesInHalfOpen := to_int64 (xcb_successesInHalfOpen cb + 1)\<rparr> in
                if cc_HalfOpenSuccessThreshold (xcb_config cb) \<le> xcb_successesInHalfOpen cb1
                then toClosed_export cb1 now else cb1)
           | CircuitOpen \<Rightarrow> cb)"

definition RecordFailure_export :: "CircuitBreaker_export \<Rightarrow> time \<Rightarrow> time \<Rightarrow> CircuitBreaker_export" where
  "RecordFailure_export cb now now2 =
     (if \<not> cc_Enabled (xcb_config cb) then cb
      else case xcb_state cb of
             CircuitClosed \<Rightarrow>
               (let cb1 = cb\<lparr>xcb_failures := to_int64 (xcb_failures cb + 1)\<rparr> in
                if cc_FailureThreshold (xcb_config cb) \<le> xcb_failures cb1
                then toOpen_export cb1 now now2 else cb1)
           | CircuitHalfOpen \<Rightarrow> toOpen_export cb now now2
           | CircuitOpen \<Rightarrow> cb)"

definition Reset_export :: "CircuitBreaker_export \<Rightarrow> time \<Rightarrow> CircuitBreaker_export" where
  "Reset_export cb now = toClosed_export cb now"

section \<open>Batches\<close>

record 'i Batch =
  Items :: "'i list"
  Size :: int
  MaxSize :: int
  CreatedAt :: time

definition NewBatch :: "int \<Rightarrow> time \<Rightarrow> 'i Batch" where
  "NewBatch maxSize now = \<lparr>Items = [], Size = 0, MaxSize = maxSize, CreatedAt = now\<rparr>"

definition Batch_IsFull :: "'i Batch \<Rightarrow> bool" where
  "Batch_IsFull b \<longleftrightarrow> MaxSize b \<le> Size b"

definition Batch_IsEmpty :: "'i Batch \<Rightarrow> bool" where
  "Batch_IsEmpty b \<longleftrightarrow> Size b = 0"

definition Batch_Add :: "'i Batch \<Rightarrow> 'i \<Rightarrow> 'i Batch \<times> bool" where
  "Batch_Add b item =
     (let b1 = b\<lparr>Items := Items b @ [item], Size := to_int64 (Size b + 1)\<rparr> in (b1, MaxSize b1 \<le> Size b1))"

definition Batch_Clear :: "'i Batch \<Rightarrow> time \<Rightarrow> 'i Batch" where
  "Batch_Clear b now = b\<lparr>Items := [], Size := 0, CreatedAt := now\<rparr>"

record 'i BatchProcessor =
  bp_config :: BatchConfig
  currentBatch :: "'i Batch"
  done_closed :: bool

text \<open>\<open>None\<close> is the panic of \<^verbatim>\<open>make\<close> in \<^verbatim>\<open>NewBatch\<close> on a negative capacity, or of
  \<^verbatim>\<open>time.NewTicker\<close> on an interval that is not positive.\<close>

definition NewBatchProcessor :: "BatchConfig \<Rightarrow> time \<Rightarrow> 'i BatchProcessor option" where
  "NewBatchProcessor config now =
     (if bc_Size config < 0 \<or> bc_Timeout config \<le> 0 then None
      else Some \<lparr>bp_config = config, currentBatch = NewBatch (bc_Size config) now, done_closed = False\<rparr>)"

text \<open>\<^verbatim>\<open>Add\<close> and \<^verbatim>\<open>Flush\<close> up to where they unlock the mutex. A batch in the result is one they have
  taken out and then, without the mutex, call the processor function with; other goroutines can run before that call. The
  result of the call is their own.\<close>

definition BatchProcessor_Add :: "'i BatchProcessor \<Rightarrow> 'i \<Rightarrow> time \<Rightarrow> 'i BatchProcessor \<times> 'i Batch option" where
  "BatchProcessor_Add bp item now =
     (let (b1, isFull) = Batch_Add (currentBatch bp) item in
      if isFull then (bp\<lparr>currentBatch := NewBatch (bc_Size (bp_config bp)) now\<rparr>, Some b1)
      else (bp\<lparr>currentBatch := b1\<rparr>, None))"

definition Flush :: "'i BatchProcessor \<Rightarrow> time \<Rightarrow> 'i BatchProcessor \<times> 'i Batch option" where
  "Flush bp now =
     (if Batch_IsEmpty (currentBatch bp) then (bp, None)
      else let batch = currentBatch bp in
           (bp\<lparr>currentBatch := NewBatch (bc_Size (bp_config bp)) now\<rparr>, Some batch))"

definition call_processor :: "('i Batch \<Rightarrow> 'e option) \<Rightarrow> 'i Batch option \<Rightarrow> 'e option" where
  "call_processor processor b = (case b of None \<Rightarrow> None | Some batch \<Rightarrow> processor batch)"

text \<open>The processor with the goroutines that use it: callers of \<^verbatim>\<open>Add\<close>, the ticker goroutine
  (\<^verbatim>\<open>processBatchesByTime\<close>) and a caller of \<^verbatim>\<open>Shutdown\<close>. \<open>calls\<close> are the batches that some goroutine
  has taken out and not yet called the processor function with, \<open>ticker_call\<close> that of the ticker goroutine, and \<open>handed\<close> the batches the
  function was called with, in the order of the calls. \<open>taken\<close> are all batches taken out and \<open>added\<close> all items added, in the order of
  the mutex.\<close>

datatype shutdown_pc = NotCalled | WaitingForTicker | Flushed

record 'i batch_system =
  sys_bp :: "'i BatchProcessor"
  calls :: "'i Batch list"
  ticker_call :: "'i Batch option"
  ticker_ended :: bool
  shutdown :: shutdown_pc
  handed :: "'i Batch list"
  taken :: "'i Batch list"
  added :: "'i list"

definition batch_start :: "'i BatchProcessor \<Rightarrow> 'i batch_system" where
  "batch_start bp = \<lparr>sys_bp = bp, calls = [], ticker_call = None, ticker_ended = False, shutdown = NotCalled, handed = [],
     taken = [], added = []\<rparr>"

definition batch_of :: "'i Batch option \<Rightarrow> 'i Batch list" where
  "batch_of b = (case b of None \<Rightarrow> [] | Some batch \<Rightarrow> [batch])"

text \<open>Closing the channel \<^verbatim>\<open>done\<close> a second time panics; \<^verbatim>\<open>Shutdown\<close> flushes after the ticker goroutine
  has ended, which finishes the call it is in.\<close>

inductive batch_step :: "'i batch_system \<Rightarrow> 'i batch_system \<Rightarrow> bool" where
  add: "BatchProcessor_Add (sys_bp s) item now = (bp, b) \<Longrightarrow>
    batch_step s (s\<lparr>sys_bp := bp, calls := calls s @ batch_of b, taken := taken s @ batch_of b, added := added s @ [item]\<rparr>)"
| tick: "\<not> ticker_ended s \<Longrightarrow> ticker_call s = None \<Longrightarrow> Flush (sys_bp s) now = (bp, b) \<Longrightarrow>
    batch_step s (s\<lparr>sys_bp := bp, ticker_call := b, taken := taken s @ batch_of b\<rparr>)"
| call: "calls s = xs @ batch # ys \<Longrightarrow> batch_step s (s\<lparr>calls := xs @ ys, handed := handed s @ [batch]\<rparr>)"
| ticker_calls: "ticker_call s = Some batch \<Longrightarrow> batch_step s (s\<lparr>ticker_call := None, handed := handed s @ [batch]\<rparr>)"
| close: "shutdown s = NotCalled \<Longrightarrow> \<not> done_closed (sys_bp s) \<Longrightarrow>
    batch_step s (s\<lparr>sys_bp := (sys_bp s)\<lparr>done_closed := True\<rparr>, shutdown := WaitingForTicker\<rparr>)"
| ticker_ends: "\<not> ticker_ended s \<Longrightarrow> ticker_call s = None \<Longrightarrow> done_closed (sys_bp s) \<Longrightarrow> batch_step s (s\<lparr>ticker_ended := True\<rparr>)"
| last_flush: "shutdown s = WaitingForTicker \<Longrightarrow> ticker_ended s \<Longrightarrow> Flush (sys_bp s) now = (bp, b) \<Longrightarrow>
    batch_step s (s\<lparr>sys_bp := bp, calls := calls s @ batch_of b, taken := taken s @ batch_of b, shutdown := Flushed\<rparr>)"

text \<open>\<^verbatim>\<open>Shutdown\<close> when no other goroutine uses the processor.\<close>

definition BatchProcessor_Shutdown ::
    "('i Batch \<Rightarrow> 'e option) \<Rightarrow> 'i BatchProcessor \<Rightarrow> time \<Rightarrow> ('i BatchProcessor \<times> 'e option) option" where
  "BatchProcessor_Shutdown processor bp now =
     (if done_closed bp then None
      else case Flush (bp\<lparr>done_closed := True\<rparr>) now of (bp1, b) \<Rightarrow> Some (bp1, call_processor processor b))"

definition bp_inv :: "'i BatchProcessor \<Rightarrow> bool" where
  "bp_inv bp \<longleftrightarrow> Size (currentBatch bp) = int (length (Items (currentBatch bp))) \<and>
     MaxSize (currentBatch bp) = bc_Size (bp_config bp) \<and>
     int (length (Items (currentBatch bp))) < max 1 (bc_Size (bp_config bp))"

definition batch_ok :: "BatchConfig \<Rightarrow> 'i Batch \<Rightarrow> bool" where
  "batch_ok config b \<longleftrightarrow> Items b \<noteq> [] \<and> Size b = int (length (Items b)) \<and> int (length (Items b)) \<le> max 1 (bc_Size config)"

definition batches_ok :: "BatchConfig \<Rightarrow> 'i batch_system \<Rightarrow> bool" where
  "batches_ok config s \<longleftrightarrow> bp_inv (sys_bp s) \<and> bp_config (sys_bp s) = config \<and> list_all (batch_ok config) (taken s) \<and>
     concat (map Items (taken s)) @ Items (currentBatch (sys_bp s)) = added s \<and>
     mset (taken s) = mset (handed s) + mset (calls s) + mset (batch_of (ticker_call s))"

text \<open>Two batches of one item each, handed over in the other order.\<close>

definition ex_batches :: "nat batch_system" where
  "ex_batches =
     (let config = \<lparr>bc_Size = 1, bc_Timeout = second\<rparr>; b = (\<lambda>n. \<lparr>Items = [n], Size = 1, MaxSize = 1, CreatedAt = 0\<rparr>)
      in \<lparr>sys_bp = \<lparr>bp_config = config, currentBatch = NewBatch 1 0, done_closed = False\<rparr>, calls = [], ticker_call = None,
          ticker_ended = False, shutdown = NotCalled, handed = [b 2, b 1], taken = [b 1, b 2], added = [1, 2]\<rparr>)"

section \<open>Retries\<close>

function retry_loop ::
    "('w \<Rightarrow> 'w \<times> 'e option) \<Rightarrow> (int \<Rightarrow> 'e option) \<Rightarrow> int \<Rightarrow> int \<Rightarrow> 'w \<Rightarrow> 'e option \<Rightarrow> 'w \<times> 'e option" where
  "retry_loop fn cancelled maxAttempts att w err =
     (if att \<le> maxAttempts then
        (case fn w of
           (w1, None) \<Rightarrow> (w1, None)
         | (w1, Some e) \<Rightarrow>
             (if maxAttempts \<le> att then (w1, Some e)
              else case cancelled att of
                     Some ctxErr \<Rightarrow> (w1, Some ctxErr)
                   | None \<Rightarrow> retry_loop fn cancelled maxAttempts (att + 1) w1 (Some e)))
      else (w, err))"
  by pat_completeness auto
termination
  by (relation "measure (\<lambda>(fn, c, m, a, w, e). nat (m + 1 - a))") auto

declare retry_loop.simps [simp del]

text \<open>\<open>retried fn w k w' r\<close>: \<open>k\<close> calls of \<open>fn\<close> from \<open>w\<close>, all but the last
  failing, end in \<open>w'\<close>, and the last one returns \<open>r\<close>.\<close>

inductive retried :: "('w \<Rightarrow> 'w \<times> 'e option) \<Rightarrow> 'w \<Rightarrow> nat \<Rightarrow> 'w \<Rightarrow> 'e option \<Rightarrow> bool" for fn where
  one_call: "fn w = (w', r) \<Longrightarrow> retried fn w 1 w' r"
| more_calls: "fn w = (w1, Some e) \<Longrightarrow> retried fn w1 k w' r \<Longrightarrow> retried fn w (Suc k) w' r"

definition Do :: "RetryConfig \<Rightarrow> ('w \<Rightarrow> 'w \<times> 'e option) \<Rightarrow> (int \<Rightarrow> 'e option) \<Rightarrow> 'w \<Rightarrow> 'w \<times> 'e option" where
  "Do config fn cancelled w =
     (if \<not> rc_Enabled config then fn w
      else retry_loop fn cancelled (rc_MaxAttempts config) 1 w None)"

definition DoWithFallback ::
    "RetryConfig \<Rightarrow> ('w \<Rightarrow> 'w \<times> 'e option) \<Rightarrow> ('e \<Rightarrow> 'w \<Rightarrow> 'w \<times> 'e option) \<Rightarrow> (int \<Rightarrow> 'e option) \<Rightarrow> 'w \<Rightarrow> 'w \<times> 'e option" where
  "DoWithFallback config fn fallback cancelled w =
     (case Do config fn cancelled w of
        (w1, Some err) \<Rightarrow> fallback err w1
      | (w1, None) \<Rightarrow> (w1, None))"

section \<open>The exporter\<close>

datatype ExporterState = ExporterRunning | ExporterShuttingDown | ExporterStopped

datatype 'e export_error = ErrNotRunning | ErrBreakerOpen | ErrProcessor 'e

record ('i, 'e) BaseExporter =
  ex_config :: ExportConfig
  circuitBreaker :: CircuitBreaker_export
  batchProcessor :: "'i BatchProcessor"
  ex_state :: ExporterState
  lastExportTime :: time
  lastExportError :: "'e export_error option"
  totalExports :: int
  totalErrors :: int

definition NewBaseExporter :: "ExportConfig \<Rightarrow> time \<Rightarrow> time \<Rightarrow> ('i, 'e) BaseExporter option" where
  "NewBaseExporter config now now2 =
     map_option (\<lambda>bp. \<lparr>ex_config = config,
       circuitBreaker = NewCircuitBreaker_export (ec_CircuitBreaker config) now,
       batchProcessor = bp, ex_state = ExporterRunning,
       lastExportTime = zero_time, lastExportError = None, totalExports = 0, totalErrors = 0\<rparr>)
     (NewBatchProcessor (ec_Batch config) now2)"

definition recordSuccess :: "('i, 'e) BaseExporter \<Rightarrow> time \<Rightarrow> ('i, 'e) BaseExporter" where
  "recordSuccess e now = e\<lparr>lastExportTime := now, totalExports := to_int64 (totalExports e + 1)\<rparr>"

definition recordError :: "('i, 'e) BaseExporter \<Rightarrow> 'e export_error \<Rightarrow> ('i, 'e) BaseExporter" where
  "recordError e err = e\<lparr>lastExportError := Some err, totalErrors := to_int64 (totalErrors e + 1)\<rparr>"

text \<open>\<open>clk\<close> holds the clock readings of the breaker, \<open>t_add\<close> that of a fresh batch and
  \<open>t_rec\<close> that of \<^verbatim>\<open>recordSuccess\<close>.\<close>

text \<open>An export as its goroutine runs it, with no other goroutine between the steps.\<close>

definition Export :: "('i Batch \<Rightarrow> 'e option) \<Rightarrow> ('i, 'e) BaseExporter \<Rightarrow> 'i \<Rightarrow> attempt_input \<Rightarrow> time \<Rightarrow> time \<Rightarrow>
    ('i, 'e) BaseExporter \<times> 'e export_error option" where
  "Export processor e data clk t_add t_rec =
     (if ex_state e \<noteq> ExporterRunning then (e, Some ErrNotRunning)
      else case AllowRequest (circuitBreaker e) (at_check clk) (at_half_open clk) of
             (cb1, False) \<Rightarrow> (recordError (e\<lparr>circuitBreaker := cb1\<rparr>) ErrBreakerOpen, Some ErrBreakerOpen)
           | (cb1, True) \<Rightarrow>
               (case BatchProcessor_Add (batchProcessor e) data t_add of
                  (bp1, b) \<Rightarrow>
                    (case call_processor processor b of
                       Some err \<Rightarrow>
                         (recordError (e\<lparr>batchProcessor := bp1,
                            circuitBreaker := RecordFailure_export cb1 (at_open1 clk) (at_open2 clk)\<rparr>)
                            (ErrProcessor err), Some (ErrProcessor err))
                     | None \<Rightarrow>
                         (recordSuccess (e\<lparr>batchProcessor := bp1,
                            circuitBreaker := RecordSuccess_export cb1 (at_close clk)\<rparr>) t_rec, None))))"

definition Exporter_Shutdown :: "('i Batch \<Rightarrow> 'e option) \<Rightarrow> ('i, 'e) BaseExporter \<Rightarrow> time \<Rightarrow>
    (('i, 'e) BaseExporter \<times> 'e option) option" where
  "Exporter_Shutdown processor e now =
     (let e1 = (if ex_state e = ExporterRunning then e\<lparr>ex_state := ExporterShuttingDown\<rparr> else e)
      in map_option (\<lambda>(bp1, err). (e1\<lparr>batchProcessor := bp1, ex_state := ExporterStopped\<rparr>, err))
           (BatchProcessor_Shutdown processor (batchProcessor e1) now))"

record 'e ExporterStatus =
  es_State :: ExporterState
  es_LastExportTime :: time
  es_LastExportError :: "'e export_error option"
  es_TotalExports :: int
  es_TotalErrors :: int
  es_CircuitState :: circuit_state

definition Exporter_Status :: "('i, 'e) BaseExporter \<Rightarrow> 'e ExporterStatus" where
  "Exporter_Status e =
     \<lparr>es_State = ex_state e, es_LastExportTime = lastExportTime e, es_LastExportError = lastExportError e,
      es_TotalExports = totalExports e, es_TotalErrors = totalErrors e,
      es_CircuitState = xcb_state (circuitBreaker e)\<rparr>"

text \<open>What callers and the ticker goroutine do to a running exporter, in the order they get the batch
  processor's mutex, one export at a time. Each event carries what the processor function answers at that moment; the
  error of a flush by the ticker is printed only.\<close>

datatype ('i, 'e) exporter_event =
    EvExport "'i Batch \<Rightarrow> 'e option" 'i attempt_input time time
  | EvFlush time

fun exporter_run :: "('i, 'e) BaseExporter \<Rightarrow> ('i, 'e) exporter_event list \<Rightarrow> ('i, 'e) BaseExporter" where
  "exporter_run e [] = e"
| "exporter_run e (EvExport processor data clk t_add t_rec # evs) =
     exporter_run (fst (Export processor e data clk t_add t_rec)) evs"
| "exporter_run e (EvFlush now # evs) =
     exporter_run (e\<lparr>batchProcessor := fst (Flush (batchProcessor e) now)\<rparr>) evs"

text \<open>The breaker of an exporter whose batches hold at least two items: at most one failure in a row
  is counted, and only directly after a batch was handed over.\<close>

definition exporter_closed_inv :: "('i, 'e) BaseExporter \<Rightarrow> bool" where
  "exporter_closed_inv e \<longleftrightarrow> bp_inv (batchProcessor e) \<and> xcb_state (circuitBreaker e) = CircuitClosed \<and>
     xcb_failures (circuitBreaker e) \<in> {0, 1} \<and>
     (xcb_failures (circuitBreaker e) = 1 \<longrightarrow>
        cc_Enabled (xcb_config (circuitBreaker e)) \<and> Items (currentBatch (batchProcessor e)) = [])"

section \<open>Lemmas\<close>

lemmas xcb_op_defs = AllowRequest_def RecordSuccess_export_def RecordFailure_export_def Reset_export_def
  toOpen_export_def toHalfOpen_export_def toClosed_export_def notifySubscribers_def Let_def

interpretation xp: circuit_breaker AllowRequest RecordSuccess_export RecordFailure_export
    "\<lambda>cb. cc_Enabled (xcb_config cb)" xcb_state xcb_failures xcb_successesInHalfOpen xcb_openUntil
    "\<lambda>cb. cc_FailureThreshold (xcb_config cb)" "\<lambda>cb. cc_HalfOpenSuccessThreshold (xcb_config cb)"
    "\<lambda>cb. cc_ResetTimeout (xcb_config cb)"
  by unfold_locales (auto simp: xcb_op_defs split: circuit_state.splits)

lemma NewBatchProcessor_SomeD:
  assumes "NewBatchProcessor config now = Some bp"
  shows "bp_inv bp" "bp_config bp = config" "Items (currentBatch bp) = []" "\<not> done_closed bp"
  using assms by (auto simp: bp_inv_def NewBatchProcessor_def NewBatch_def split: if_splits)

lemma size_no_wrap:
  assumes "bp_inv bp" "bc_Size (bp_config bp) \<le> max_int64"
  shows "to_int64 (Size (currentBatch bp) + 1) = int (Suc (length (Items (currentBatch bp))))"
  using assms
  by (subst to_int64_id) (auto simp: bp_inv_def in_int64_def min_int64_def max_int64_def)

lemma bp_op_config:
  "bp_config (fst (BatchProcessor_Add bp item now)) = bp_config bp"
  "bp_config (fst (Flush bp now)) = bp_config bp"
  by (simp_all add: BatchProcessor_Add_def Batch_Add_def Flush_def Let_def)

lemma BatchProcessor_Add_inv:
  assumes "bp_inv bp" "bc_Size (bp_config bp) \<le> max_int64"
  shows "bp_inv (fst (BatchProcessor_Add bp item now))"
  using assms size_no_wrap [OF assms]
  by (auto simp: BatchProcessor_Add_def Batch_Add_def bp_inv_def NewBatch_def Let_def)

lemma BatchProcessor_Add_batch:
  assumes "BatchProcessor_Add bp item now = (bp', b)" "bp_inv bp" "bc_Size (bp_config bp) \<le> max_int64"
  shows "list_all (batch_ok (bp_config bp)) (batch_of b)"
    "concat (map Items (batch_of b)) @ Items (currentBatch bp') = Items (currentBatch bp) @ [item]"
  using assms size_no_wrap [OF assms(2,3)]
  by (auto simp: BatchProcessor_Add_def Batch_Add_def NewBatch_def batch_of_def batch_ok_def bp_inv_def Let_def split: if_splits)

lemma Flush_inv: "bp_inv bp \<Longrightarrow> bp_inv (fst (Flush bp now))"
  by (auto simp: Flush_def Batch_IsEmpty_def bp_inv_def NewBatch_def Let_def)

lemma Flush_batch:
  assumes "Flush bp now = (bp', b)" "bp_inv bp"
  shows "list_all (batch_ok (bp_config bp)) (batch_of b)"
    "concat (map Items (batch_of b)) @ Items (currentBatch bp') = Items (currentBatch bp)" "Items (currentBatch bp') = []"
  using assms
  by (auto simp: Flush_def Batch_IsEmpty_def NewBatch_def batch_of_def batch_ok_def bp_inv_def Let_def split: if_splits)

lemma batch_step_ok:
  assumes "batch_step s s'" "batches_ok config s" "bc_Size config \<le> max_int64"
  shows "batches_ok config s'"
  using assms
proof (induction rule: batch_step.induct)
  case (add s item now bp b)
  then have inv: "bp_inv (sys_bp s)" "bp_config (sys_bp s) = config" "bc_Size (bp_config (sys_bp s)) \<le> max_int64"
    by (simp_all add: batches_ok_def)
  show ?case
    using add BatchProcessor_Add_inv [OF inv(1,3), of item now] BatchProcessor_Add_batch [OF add(1) inv(1,3)]
      bp_op_config(1) [of "sys_bp s" item now]
    by (auto simp: batches_ok_def)
next
  case (tick s now bp b)
  then have inv: "bp_inv (sys_bp s)" by (simp add: batches_ok_def)
  show ?case
    using tick Flush_inv [OF inv, of now] Flush_batch [OF tick(3) inv] bp_op_config(2) [of "sys_bp s" now]
    by (auto simp: batches_ok_def batch_of_def)
next
  case (last_flush s now bp b)
  then have inv: "bp_inv (sys_bp s)" by (simp add: batches_ok_def)
  show ?case
    using last_flush Flush_inv [OF inv, of now] Flush_batch [OF last_flush(3) inv] bp_op_config(2) [of "sys_bp s" now]
    by (auto simp: batches_ok_def)
qed (auto simp: batches_ok_def bp_inv_def batch_of_def)

lemma batch_reachable_ok:
  assumes "batch_step\<^sup>*\<^sup>* (batch_start bp0) s" "NewBatchProcessor config now = Some bp0" "bc_Size config \<le> max_int64"
  shows "batches_ok config s"
  using assms(1)
proof (induction rule: rtranclp_induct)
  case base
  then show ?case using NewBatchProcessor_SomeD [OF assms(2)] by (simp add: batches_ok_def batch_start_def batch_of_def)
next
  case (step s s')
  then show ?case using batch_step_ok assms(3) by blast
qed

lemma mset_concat_perm: "mset xs = mset ys \<Longrightarrow> mset (concat (map f xs)) = mset (concat (map f ys))"
  by (metis mset_concat mset_map sum_mset_sum_list)

lemma Batch_Add_fail_fresh:
  assumes "BatchProcessor_Add bp item now = (bp1, b)" "call_processor p b = Some err"
  shows "Items (currentBatch bp1) = []"
  using assms by (auto simp: BatchProcessor_Add_def NewBatch_def call_processor_def Let_def split: prod.splits if_splits)

lemma Batch_Add_fresh_ok:
  assumes "bp_inv bp" "Items (currentBatch bp) = []" "2 \<le> bc_Size (bp_config bp)"
  shows "snd (BatchProcessor_Add bp item now) = None"
  using assms by (simp add: BatchProcessor_Add_def Batch_Add_def bp_inv_def to_int64_def Let_def)

lemma xcb_op_config:
  "xcb_config (fst (AllowRequest cb t u)) = xcb_config cb"
  "xcb_config (RecordSuccess_export cb t) = xcb_config cb"
  "xcb_config (RecordFailure_export cb t u) = xcb_config cb"
  by (simp_all add: xcb_op_defs split: circuit_state.split)

lemma Export_config:
  "bp_config (batchProcessor (fst (Export p e data clk t1 t2))) = bp_config (batchProcessor e)"
  "xcb_config (circuitBreaker (fst (Export p e data clk t1 t2))) = xcb_config (circuitBreaker e)"
  using bp_op_config(1) [of "batchProcessor e" data t1]
    xcb_op_config(1) [of "circuitBreaker e" "at_check clk" "at_half_open clk"]
  by (auto simp: Export_def recordError_def recordSuccess_def xcb_op_config(2,3) split: prod.splits option.splits bool.splits)

lemma Export_closed_inv:
  assumes inv: "exporter_closed_inv e" and size: "2 \<le> bc_Size (bp_config (batchProcessor e))"
    "bc_Size (bp_config (batchProcessor e)) \<le> max_int64"
    and thr: "2 \<le> cc_FailureThreshold (xcb_config (circuitBreaker e))"
  shows "exporter_closed_inv (fst (Export p e data clk t1 t2))"
proof -
  obtain bp1 b where add: "BatchProcessor_Add (batchProcessor e) data t1 = (bp1, b)"
    by (cases "BatchProcessor_Add (batchProcessor e) data t1")
  have inv1: "bp_inv bp1" using BatchProcessor_Add_inv [of "batchProcessor e" data t1] inv size add
    by (simp add: exporter_closed_inv_def)
  have ok: "call_processor p b = None" if "xcb_failures (circuitBreaker e) = 1"
    using Batch_Add_fresh_ok [of "batchProcessor e" data t1] inv size add that
    by (simp add: exporter_closed_inv_def call_processor_def)
  show ?thesis
    using inv inv1 ok thr add Batch_Add_fail_fresh [OF add, of p]
    by (cases "call_processor p b") (auto simp: exporter_closed_inv_def Export_def recordError_def recordSuccess_def xcb_op_defs
        to_int64_def)
qed

lemma Flush_closed_inv:
  assumes "exporter_closed_inv e"
  shows "exporter_closed_inv (e\<lparr>batchProcessor := fst (Flush (batchProcessor e) now)\<rparr>)"
  using assms Flush_inv [of "batchProcessor e" now]
  by (auto simp: exporter_closed_inv_def Flush_def NewBatch_def Let_def)

lemma exporter_run_closed:
  assumes "exporter_closed_inv e" "2 \<le> bc_Size (bp_config (batchProcessor e))"
    "bc_Size (bp_config (batchProcessor e)) \<le> max_int64"
    "2 \<le> cc_FailureThreshold (xcb_config (circuitBreaker e))"
  shows "exporter_closed_inv (exporter_run e evs)"
  using assms
  by (induction e evs rule: exporter_run.induct)
    (simp_all add: Export_closed_inv Export_config Flush_closed_inv bp_op_config)

section \<open>Properties\<close>

text \<open>
  C8. The batch processor loses and duplicates nothing, whatever callers, the ticker and a shutdown do and however they
  interleave: the batches taken out, in order, followed by the batch in progress hold exactly the items added, in the order in
  which they were added; each batch taken out has either been handed to the processor function once or is the argument of a call
  still to come; no batch is empty or over the configured size, and the batch in progress is below it. A flush leaves none in
  progress, so when no call is outstanding after it, every item has been handed over once.
\<close>

theorem batch_processor_conservation:
  assumes "bc_Size config \<le> max_int64" "NewBatchProcessor config now = Some bp0" "batch_step\<^sup>*\<^sup>* (batch_start bp0) s"
  shows "concat (map Items (taken s)) @ Items (currentBatch (sys_bp s)) = added s \<and>
    mset (taken s) = mset (handed s) + mset (calls s) + mset (batch_of (ticker_call s)) \<and>
    (\<forall>b \<in> set (taken s). Items b \<noteq> [] \<and> int (length (Items b)) \<le> max 1 (bc_Size config)) \<and>
    int (length (Items (currentBatch (sys_bp s)))) < max 1 (bc_Size config) \<and>
    Items (currentBatch (fst (Flush (sys_bp s) t))) = [] \<and>
    (Items (currentBatch (sys_bp s)) = [] \<and> calls s = [] \<and> ticker_call s = None \<longrightarrow>
       mset (concat (map Items (handed s))) = mset (added s))"
proof -
  have ok: "batches_ok config s" by (rule batch_reachable_ok [OF assms(3,2,1)])
  then have inv: "bp_inv (sys_bp s)" "bp_config (sys_bp s) = config" and mset: "mset (taken s) = mset (handed s) + mset (calls s) + mset (batch_of (ticker_call s))"
    and items: "concat (map Items (taken s)) @ Items (currentBatch (sys_bp s)) = added s"
    by (simp_all add: batches_ok_def)
  have "mset (concat (map Items (handed s))) = mset (added s)"
    if "Items (currentBatch (sys_bp s)) = []" "calls s = []" "ticker_call s = None"
    using mset_concat_perm [of "taken s" "handed s" Items] mset items that by (simp add: batch_of_def)
  moreover have "Items (currentBatch (fst (Flush (sys_bp s) t))) = []"
    using Flush_batch(3) [OF _ inv(1)] by (metis prod.collapse)
  ultimately show ?thesis
    using ok inv items by (auto simp: batches_ok_def bp_inv_def list_all_iff batch_ok_def)
qed

text \<open>
  The order of the calls is not that of the batches: two batches of one item each, where the goroutine that took the second one
  calls first.
\<close>

lemma batches_out_of_order:
  "\<exists>bp0. NewBatchProcessor \<lparr>bc_Size = 1, bc_Timeout = second\<rparr> 0 = Some bp0 \<and> batch_step\<^sup>*\<^sup>* (batch_start bp0) ex_batches"
proof -
  define b :: "nat \<Rightarrow> nat Batch" where "b n = \<lparr>Items = [n], Size = 1, MaxSize = 1, CreatedAt = 0\<rparr>" for n
  define bp0 :: "nat BatchProcessor" where
    "bp0 = \<lparr>bp_config = \<lparr>bc_Size = 1, bc_Timeout = second\<rparr>, currentBatch = NewBatch 1 0, done_closed = False\<rparr>"
  have new: "NewBatchProcessor \<lparr>bc_Size = 1, bc_Timeout = second\<rparr> 0 = Some bp0" by (simp add: NewBatchProcessor_def bp0_def second_def)
  have add: "BatchProcessor_Add bp0 n 0 = (bp0, Some (b n))" for n
    by (simp add: BatchProcessor_Add_def Batch_Add_def bp0_def NewBatch_def b_def to_int64_def Let_def)
  let ?s0 = "batch_start bp0"
  let ?s1 = "?s0\<lparr>calls := [b 1], taken := [b 1], added := [1]\<rparr>"
  let ?s2 = "?s1\<lparr>calls := [b 1, b 2], taken := [b 1, b 2], added := [1, 2]\<rparr>"
  let ?s3 = "?s2\<lparr>calls := [b 1], handed := [b 2]\<rparr>"
  let ?s4 = "?s3\<lparr>calls := [], handed := [b 2, b 1]\<rparr>"
  have "batch_step ?s0 ?s1" using batch_step.add [of ?s0 1 0 bp0 "Some (b 1)"] add by (simp add: batch_start_def batch_of_def)
  moreover have "batch_step ?s1 ?s2" using batch_step.add [of ?s1 2 0 bp0 "Some (b 2)"] add by (simp add: batch_start_def batch_of_def)
  moreover have "batch_step ?s2 ?s3" using batch_step.call [of ?s2 "[b 1]" "b 2" "[]"] by (simp add: batch_start_def)
  moreover have "batch_step ?s3 ?s4" using batch_step.call [of ?s3 "[]" "b 1" "[]"] by (simp add: batch_start_def)
  ultimately have "batch_step\<^sup>*\<^sup>* ?s0 ?s4" by (meson rtranclp.rtrancl_into_rtrancl rtranclp.rtrancl_refl)
  moreover have "?s4 = ex_batches" by (simp add: ex_batches_def batch_start_def bp0_def b_def Let_def)
  ultimately show ?thesis using new by auto
qed

theorem batch_processor_conservation_witness:
  "concat (map Items (taken ex_batches)) @ Items (currentBatch (sys_bp ex_batches)) = [1, 2] \<and>
   mset (concat (map Items (handed ex_batches))) = mset [1, 2] \<and> concat (map Items (handed ex_batches)) = [2, 1]"
proof -
  obtain bp0 where bp0: "NewBatchProcessor \<lparr>bc_Size = 1, bc_Timeout = second\<rparr> 0 = Some bp0" "batch_step\<^sup>*\<^sup>* (batch_start bp0) ex_batches"
    using batches_out_of_order by blast
  show ?thesis
    using batch_processor_conservation [OF _ bp0, of 0]
    by (simp add: max_int64_def) (simp add: ex_batches_def NewBatch_def Let_def)
qed

lemma retry_loop_spec:
  assumes "att \<le> m"
  shows "\<exists>k r. retried fn w k (fst (retry_loop fn cancelled m att w err)) r \<and> int k \<le> m - att + 1 \<and>
    (\<forall>j. att \<le> j \<and> j < att + int k - 1 \<longrightarrow> cancelled j = None) \<and>
    (case snd (retry_loop fn cancelled m att w err) of
       None \<Rightarrow> r = None
     | Some e \<Rightarrow> r \<noteq> None \<and> (if int k < m - att + 1 then cancelled (att + int k - 1) = Some e else r = Some e))"
  using assms
proof (induction fn cancelled m att w err rule: retry_loop.induct)
  case (1 fn cancelled m att w err)
  obtain w1 r where fn: "fn w = (w1, r)" by (cases "fn w")
  consider "r = None \<or> m \<le> att \<or> cancelled att \<noteq> None" | e where "r = Some e" "\<not> m \<le> att" "cancelled att = None"
    by (cases r) auto
  then show ?case
  proof cases
    case 1
    then show ?thesis
      using fn "1.prems" one_call [of fn w w1 r, OF fn]
      by (intro exI [of _ 1] exI [of _ r])
        (auto simp: retry_loop.simps [of fn cancelled m att] split: option.splits)
  next
    case 2
    have le: "att + 1 \<le> m" using 2 by simp
    let ?res = "retry_loop fn cancelled m (att + 1) w1 (Some e)"
    have eq: "retry_loop fn cancelled m att w err = ?res"
      using fn 2 "1.prems" by (simp add: retry_loop.simps [of fn cancelled m att])
    from "1.IH" [OF "1.prems" fn [symmetric] 2 le] obtain k r' where k: "retried fn w1 k (fst ?res) r'"
      "int k \<le> m - (att + 1) + 1" "\<forall>j. att + 1 \<le> j \<and> j < att + 1 + int k - 1 \<longrightarrow> cancelled j = None"
      "case snd ?res of None \<Rightarrow> r' = None
       | Some e' \<Rightarrow> r' \<noteq> None \<and> (if int k < m - (att + 1) + 1 then cancelled (att + 1 + int k - 1) = Some e' else r' = Some e')"
      by blast
    have "cancelled j = None" if "att \<le> j" "j < att + int (Suc k) - 1" for j
      using k(3) 2(3) that by (cases "j = att") auto
    with fn 2 k show ?thesis
      unfolding eq
      by (intro exI [of _ "Suc k"] exI [of _ r'])
        (auto intro: more_calls simp: algebra_simps split: option.splits)
  qed
qed

text \<open>
  C20. The calls a retrier makes. If it is disabled it calls the function once, if it is enabled with no attempts it succeeds
  without a call. Otherwise there are \<open>k\<close> calls, at most the configured number, all but the last failing; the context was not
  cancelled in any of the waits between them. It reports success exactly when the last call succeeded. If that call failed
  and attempts are left, the context was cancelled in the wait after it, and its error is the result; with all attempts used, the
  result is the error of the last call.
\<close>

theorem Do_spec:
  "if \<not> rc_Enabled config then Do config fn cancelled w = fn w
   else if rc_MaxAttempts config \<le> 0 then Do config fn cancelled w = (w, None)
   else \<exists>k r. retried fn w k (fst (Do config fn cancelled w)) r \<and> int k \<le> rc_MaxAttempts config \<and>
     (\<forall>j. 1 \<le> j \<and> j < int k \<longrightarrow> cancelled j = None) \<and>
     (case snd (Do config fn cancelled w) of
        None \<Rightarrow> r = None
      | Some e \<Rightarrow> r \<noteq> None \<and> (if int k < rc_MaxAttempts config then cancelled (int k) = Some e else r = Some e))"
proof -
  consider "\<not> rc_Enabled config" | "rc_Enabled config" "rc_MaxAttempts config \<le> 0" | "rc_Enabled config" "1 \<le> rc_MaxAttempts config"
    by linarith
  then show ?thesis
  proof cases
    case 3
    have eqs: "\<And>m :: int. m - 1 + 1 = m" "\<And>k. 1 + int k - 1 = int k" by simp_all
    have loop: "Do config fn cancelled w = retry_loop fn cancelled (rc_MaxAttempts config) 1 w None" using 3(1) by (simp add: Do_def)
    have "\<not> rc_MaxAttempts config \<le> 0" using 3(2) by simp
    then show ?thesis
      using retry_loop_spec [OF 3(2), of fn w cancelled None] 3(1) unfolding eqs loop by (simp only: not_True_eq_False if_False)
  qed (simp_all add: Do_def retry_loop.simps)
qed

text \<open>The context is cancelled while the default retrier waits after the second failure: there were two calls.\<close>

theorem Do_spec_witness:
  "let fn = (\<lambda>n::nat. (Suc n, Some ''down'')); cancelled = (\<lambda>j. if j = 2 then Some ''cancelled'' else None);
       result = Do (ec_Retry DefaultConfig_export) fn cancelled 0
   in result = (2, Some ''cancelled'') \<and> (\<exists>r. retried fn 0 2 2 r \<and> r \<noteq> None)"
proof -
  let ?fn = "\<lambda>n::nat. (Suc n, Some ''down'')" and ?c = "\<lambda>j::int. if j = 2 then Some ''cancelled'' else None"
  have run: "Do (ec_Retry DefaultConfig_export) ?fn ?c 0 = (2, Some ''cancelled'')"
    by (simp add: Do_def DefaultConfig_export_def retry_loop.simps)
  have cfg: "rc_Enabled (ec_Retry DefaultConfig_export)" "rc_MaxAttempts (ec_Retry DefaultConfig_export) = 5"
    by (simp_all add: DefaultConfig_export_def)
  obtain k r where k: "retried ?fn 0 k 2 r" "k \<le> 5" "\<forall>j. 1 \<le> j \<and> j < int k \<longrightarrow> ?c j = None" "r \<noteq> None"
    "if k < 5 then ?c (int k) = Some ''cancelled'' else r = Some ''cancelled''"
    using Do_spec [of "ec_Retry DefaultConfig_export" ?fn ?c 0] cfg by (auto simp: run)
  have "\<not> 2 < int k" using k(3) [rule_format, of 2] by auto
  then have "k = 2" using k(2,5) by (auto split: if_splits)
  then show ?thesis using k(1,4) by (auto simp: run Let_def)
qed

text \<open>
  The exporter's breaker is inert when a batch holds two items or more: an export that only
  enqueues its item counts as a success and clears the failures, so that with a failure threshold of
  two or more the breaker stays closed through every sequence of exports, made one at a time, and
  ticker flushes, even when every batch handed over is refused.
\<close>

lemma exporter_breaker_inert:
  assumes "2 \<le> bc_Size (ec_Batch config)" "bc_Size (ec_Batch config) \<le> max_int64"
    "2 \<le> cc_FailureThreshold (ec_CircuitBreaker config)" "NewBaseExporter config now now2 = Some e"
  shows "es_CircuitState (Exporter_Status (exporter_run e evs)) = CircuitClosed"
proof -
  obtain bp where "NewBatchProcessor (ec_Batch config) now2 = Some bp" and e: "batchProcessor e = bp"
    "circuitBreaker e = NewCircuitBreaker_export (ec_CircuitBreaker config) now"
    using assms(4) by (auto simp: NewBaseExporter_def)
  note bp = NewBatchProcessor_SomeD [OF this(1)]
  have "exporter_closed_inv (exporter_run e evs)"
    using assms e bp
    by (intro exporter_run_closed) (simp_all add: exporter_closed_inv_def NewCircuitBreaker_export_def)
  then show ?thesis by (simp add: Exporter_Status_def exporter_closed_inv_def)
qed

end
