(* ===== verification/Collector_Config.thy ===== *)
theory Collector_Config
  imports Float64
begin

text \<open>
  The configuration of collectors, \<^verbatim>\<open>collector/config.go\<close>: its two records, the defaults and
  \<^verbatim>\<open>Validate\<close>.
\<close>

record ScannerConfig =
  sc_Enabled :: bool
  sc_ScanInterval :: duration
  sc_MaxProcesses :: int
  sc_ExcludePatterns :: "string list"
  sc_IncludePatterns :: "string list"
  sc_ProcFSPath :: string
  sc_RefreshCPUStats :: bool
  sc_EventBatchSize :: int
  sc_EventChannelSize :: int
  sc_RetryInterval :: duration
  sc_AdaptiveSampling :: bool
  sc_MaxScanTime :: duration

record CollectorConfig =
  cc_CollectorType :: string
  cc_CollectionInterval :: duration
  cc_MaxCPUUsage :: float64
  cc_ProcessScanner :: ScannerConfig

definition millisecond :: duration where
  "millisecond = 1000000"

definition collector_DefaultConfig :: CollectorConfig where
  "collector_DefaultConfig =
     \<lparr>cc_CollectorType = ''process_scanner'', cc_CollectionInterval = second * 15, cc_MaxCPUUsage = 0x3FE8000000000000,
      cc_ProcessScanner =
        \<lparr>sc_Enabled = True, sc_ScanInterval = second * 10, sc_MaxProcesses = 3000, sc_ExcludePatterns = [],
         sc_IncludePatterns = [], sc_ProcFSPath = ''/proc'', sc_RefreshCPUStats = True, sc_EventBatchSize = 100,
         sc_EventChannelSize = 1000, sc_RetryInterval = second * 5, sc_AdaptiveSampling = True,
         sc_MaxScanTime = millisecond * 200\<rparr>\<rparr>"

datatype collector_config_error = EmptyCollectorType | ShortCollectionInterval | MaxCPUUsageRange | ShortScanInterval
  | MaxProcessesNotPositive | EventBatchSizeNotPositive | EventChannelSizeNotPositive | ShortRetryInterval | ShortMaxScanTime

definition f_five :: float64 where
  "f_five = 0x4014000000000000"

definition collector_Validate :: "CollectorConfig \<Rightarrow> collector_config_error option" where
  "collector_Validate c =
     (let s = cc_ProcessScanner c in
      if cc_CollectorType c = [] then Some EmptyCollectorType
      else if cc_CollectionInterval c < second then Some ShortCollectionInterval
      else if f_le (cc_MaxCPUUsage c) 0 \<or> f_less f_five (cc_MaxCPUUsage c) then Some MaxCPUUsageRange
      else if sc_Enabled s then
        (if sc_ScanInterval s < second then Some ShortScanInterval
         else if sc_MaxProcesses s \<le> 0 then Some MaxProcessesNotPositive
         else if sc_EventBatchSize s \<le> 0 then Some EventBatchSizeNotPositive
         else if sc_EventChannelSize s \<le> 0 then Some EventChannelSizeNotPositive
         else if sc_RetryInterval s < second then Some ShortRetryInterval
         else if sc_MaxScanTime s < millisecond * 10 then Some ShortMaxScanTime
         else None)
      else None)"

lemma collector_Validate_scanner:
  assumes "collector_Validate c = None" "sc_Enabled (cc_ProcessScanner c)"
  shows "0 < sc_ScanInterval (cc_ProcessScanner c) \<and> 0 < sc_EventChannelSize (cc_ProcessScanner c)"
  using assms by (auto simp: collector_Validate_def Let_def second_def split: if_splits)

end
