(* ===== verification/Process_Scanner.thy ===== *)
theory Process_Scanner
  imports Collector_Config "HOL-Library.Multiset"
begin

text \<open>
  The process collector of \<^verbatim>\<open>collector/\<close>: snapshots of processes and their differences
  (\<^verbatim>\<open>process_info.go\<close>), the registry of consumers (\<^verbatim>\<open>consumer.go\<close>), its metrics
  (\<^verbatim>\<open>metrics.go\<close>) and the scanner (\<^verbatim>\<open>process_scanner.go\<close>), which compares each scan
  with its cache and sends the differences as events.

  Parameters of the model: \<open>range_order\<close> is the order in which Go ranges over a map, any
  permutation of its entries; \<open>sent\<close> says whether the event channel takes an event within the
  100 ms the scanner waits; \<open>matches\<close> and \<open>compile\<close> are the regular expressions;
  \<open>handle\<close> is what a consumer answers. CPU shares are floats, of which the code subtracts
  two and compares two for equality: a share that is not a number differs from itself. A nil map of labels reads like an empty one, so both are \<open>[]\<close>.
\<close>

section \<open>Snapshots of processes\<close>

record ScanProcess =
  sp_PID :: int
  sp_PPID :: int
  sp_Name :: string
  sp_Executable :: string
  sp_Command :: string
  sp_User :: string
  sp_CPU :: float64
  sp_RSS :: int
  sp_VMS :: int
  sp_FDs :: int
  sp_Threads :: int
  sp_StartTime :: time
  sp_State :: string
  sp_LastUpdated :: time
  sp_IOReadBytes :: int
  sp_IOWriteBytes :: int
  sp_Labels :: "(string, string) gomap"

record DeltaProcessInfo =
  dp_PID :: int
  dp_DeltaTime :: duration
  dp_CPU :: float64
  dp_RSS :: int
  dp_IOReadBytes :: int
  dp_IOWriteBytes :: int

datatype delta_error = NilProcess | DifferentProcesses | InvalidTimeDelta duration

text \<open>\<open>fsub\<close> is the subtraction of float64 values.\<close>

definition CalculateDelta ::
    "(float64 \<Rightarrow> float64 \<Rightarrow> float64) \<Rightarrow> ScanProcess option \<Rightarrow> ScanProcess option \<Rightarrow> delta_error + DeltaProcessInfo" where
  "CalculateDelta fsub current previous =
     (case (current, previous) of
        (Some c, Some p) \<Rightarrow>
          (if sp_PID c \<noteq> sp_PID p then Inl DifferentProcesses
           else let deltaTime = time_sub (sp_LastUpdated c) (sp_LastUpdated p) in
                if deltaTime \<le> 0 then Inl (InvalidTimeDelta deltaTime)
                else Inr \<lparr>dp_PID = sp_PID c, dp_DeltaTime = deltaTime, dp_CPU = fsub (sp_CPU c) (sp_CPU p),
                       dp_RSS = to_int64 (sp_RSS c - sp_RSS p),
                       dp_IOReadBytes = to_int64 (sp_IOReadBytes c - sp_IOReadBytes p),
                       dp_IOWriteBytes = to_int64 (sp_IOWriteBytes c - sp_IOWriteBytes p)\<rparr>)
      | _ \<Rightarrow> Inl NilProcess)"

text \<open>The loop that copies the labels inserts them one by one.\<close>

definition copy_labels :: "(string, string) gomap \<Rightarrow> (string, string) gomap" where
  "copy_labels m = fold (\<lambda>(k, v) acc. AList.update k v acc) m []"

definition Clone :: "ScanProcess \<Rightarrow> ScanProcess" where
  "Clone p =
     \<lparr>sp_PID = sp_PID p, sp_PPID = sp_PPID p, sp_Name = sp_Name p, sp_Executable = sp_Executable p,
      sp_Command = sp_Command p, sp_User = sp_User p, sp_CPU = sp_CPU p, sp_RSS = sp_RSS p, sp_VMS = sp_VMS p,
      sp_FDs = sp_FDs p, sp_Threads = sp_Threads p, sp_StartTime = sp_StartTime p, sp_State = sp_State p,
      sp_LastUpdated = sp_LastUpdated p, sp_IOReadBytes = sp_IOReadBytes p, sp_IOWriteBytes = sp_IOWriteBytes p,
      sp_Labels = copy_labels (sp_Labels p)\<rparr>"

definition labels_equal :: "(string, string) gomap \<Rightarrow> (string, string) gomap \<Rightarrow> bool" where
  "labels_equal m n \<longleftrightarrow> length m = length n \<and> list_all (\<lambda>(k, v). map_of n k = Some v) m"

definition Equal :: "ScanProcess \<Rightarrow> ScanProcess \<Rightarrow> bool" where
  "Equal p q \<longleftrightarrow>
     \<not> (sp_PID p \<noteq> sp_PID q \<or> sp_PPID p \<noteq> sp_PPID q \<or> sp_Name p \<noteq> sp_Name q \<or>
        sp_Executable p \<noteq> sp_Executable q \<or> sp_Command p \<noteq> sp_Command q \<or> sp_User p \<noteq> sp_User q \<or>
        \<not> f_eq (sp_CPU p) (sp_CPU q) \<or> sp_RSS p \<noteq> sp_RSS q \<or> sp_VMS p \<noteq> sp_VMS q \<or> sp_FDs p \<noteq> sp_FDs q \<or>
        sp_Threads p \<noteq> sp_Threads q \<or> sp_State p \<noteq> sp_State q \<or> sp_IOReadBytes p \<noteq> sp_IOReadBytes q \<or>
        sp_IOWriteBytes p \<noteq> sp_IOWriteBytes q \<or> sp_StartTime p \<noteq> sp_StartTime q) \<and>
     labels_equal (sp_Labels p) (sp_Labels q)"

section \<open>Consumers\<close>

datatype ProcessEventType = ProcessCreated | ProcessUpdated | ProcessTerminated

record ProcessEvent =
  ev_Type :: ProcessEventType
  ev_Process :: "ScanProcess"
  ev_Timestamp :: time

type_synonym 'c ConsumerRegistry = "(string, 'c) gomap"

datatype registry_error = EmptyName | NilConsumer | AlreadyRegistered string | NotFound string

definition Register :: "'c ConsumerRegistry \<Rightarrow> string \<Rightarrow> 'c option \<Rightarrow> 'c ConsumerRegistry \<times> registry_error option" where
  "Register r name consumer =
     (if name = [] then (r, Some EmptyName)
      else case consumer of
             None \<Rightarrow> (r, Some NilConsumer)
           | Some c \<Rightarrow>
               if map_of r name \<noteq> None then (r, Some (AlreadyRegistered name))
               else (AList.update name c r, None))"

definition Unregister :: "'c ConsumerRegistry \<Rightarrow> string \<Rightarrow> 'c ConsumerRegistry \<times> registry_error option" where
  "Unregister r name =
     (if name = [] then (r, Some EmptyName)
      else if map_of r name = None then (r, Some (NotFound name))
      else (AList.delete name r, None))"

definition GetConsumer :: "'c ConsumerRegistry \<Rightarrow> string \<Rightarrow> 'c option" where
  "GetConsumer r name = map_of r name"

definition GetConsumerNames :: "'c ConsumerRegistry \<Rightarrow> string list" where
  "GetConsumerNames r = map fst r"

definition NotifyAll ::
    "('c \<Rightarrow> ProcessEvent \<Rightarrow> 'e option) \<Rightarrow> 'c ConsumerRegistry \<Rightarrow> ProcessEvent \<Rightarrow> (string \<times> 'e) list" where
  "NotifyAll handle r event =
     concat (map (\<lambda>(name, consumer). case handle consumer event of None \<Rightarrow> [] | Some err \<Rightarrow> [(name, err)]) r)"

definition ConsumerCount :: "'c ConsumerRegistry \<Rightarrow> int" where
  "ConsumerCount r = int (length r)"

section \<open>Metrics\<close>

record MetricsTracker =
  gauges :: "(string, float64) gomap"
  counters :: "(string, int) gomap"
  timers :: "(string, duration) gomap"
  mt_startTime :: time

definition NewMetricsTracker :: "time \<Rightarrow> MetricsTracker" where
  "NewMetricsTracker now = \<lparr>gauges = [], counters = [], timers = [], mt_startTime = now\<rparr>"

definition SetGauge :: "MetricsTracker \<Rightarrow> string \<Rightarrow> float64 \<Rightarrow> MetricsTracker" where
  "SetGauge m name v = m\<lparr>gauges := AList.update name v (gauges m)\<rparr>"

definition GetCounter :: "MetricsTracker \<Rightarrow> string \<Rightarrow> int" where
  "GetCounter m name = (case map_of (counters m) name of None \<Rightarrow> 0 | Some v \<Rightarrow> v)"

definition IncrementCounter :: "MetricsTracker \<Rightarrow> string \<Rightarrow> int \<Rightarrow> MetricsTracker" where
  "IncrementCounter m name v =
     m\<lparr>counters := AList.update name (to_int64 (GetCounter m name + v)) (counters m)\<rparr>"

definition RecordDuration :: "MetricsTracker \<Rightarrow> string \<Rightarrow> duration \<Rightarrow> MetricsTracker" where
  "RecordDuration m name d = m\<lparr>timers := AList.update name d (timers m)\<rparr>"

definition Reset_metrics :: "MetricsTracker \<Rightarrow> time \<Rightarrow> MetricsTracker" where
  "Reset_metrics m now = \<lparr>gauges = [], counters = [], timers = [], mt_startTime = now\<rparr>"

definition MetricScanDuration :: string where "MetricScanDuration = ''scan_duration_ms''"
definition MetricProcessCount :: string where "MetricProcessCount = ''process_count''"
definition MetricProcessCreated :: string where "MetricProcessCreated = ''process_created_total''"
definition MetricProcessUpdated :: string where "MetricProcessUpdated = ''process_updated_total''"
definition MetricProcessTerminated :: string where "MetricProcessTerminated = ''process_terminated_total''"
definition MetricCPUUsage :: string where "MetricCPUUsage = ''cpu_usage_percent''"
definition MetricMemoryUsage :: string where "MetricMemoryUsage = ''memory_usage_bytes''"
definition MetricScanErrors :: string where "MetricScanErrors = ''scan_errors_total''"
definition MetricLimitBreaches :: string where "MetricLimitBreaches = ''limit_breaches_total''"
definition MetricAdaptiveRateChanges :: string where "MetricAdaptiveRateChanges = ''adaptive_rate_changes_total''"
definition MetricEventQueueSize :: string where "MetricEventQueueSize = ''event_queue_size''"
definition MetricConsumerCount :: string where "MetricConsumerCount = ''consumer_count''"
definition MetricNotificationErrors :: string where "MetricNotificationErrors = ''notification_errors_total''"

section \<open>The scanner\<close>

datatype scan_status = StatusInitialized | StatusRunning | StatusPaused | StatusStopped | StatusError

text \<open>\<open>queued\<close> are the events the channel has taken, in order; \<open>loops\<close> counts the pairs of
  goroutines started; \<open>ctx\<close> is \<open>None\<close> before \<^verbatim>\<open>Init\<close> and then says whether the
  context has been cancelled.\<close>

record ('re, 'c) ProcessScanner =
  sc_config :: ScannerConfig
  platform_ready :: bool
  processCache :: "(int, ScanProcess) gomap"
  sc_metrics :: "MetricsTracker"
  sc_registry :: "'c ConsumerRegistry"
  excludeRegexps :: "'re list"
  includeRegexps :: "'re list"
  ctx_cancelled :: "bool option"
  ticker_interval :: "duration option"
  ticker_running :: bool
  lastScanTime :: time
  scan_state :: scan_status
  queued :: "ProcessEvent list"
  loops :: nat

text \<open>\<open>Panics\<close>: \<^verbatim>\<open>make\<close> of a channel with a negative size.\<close>

definition NewProcessScanner :: "ScannerConfig \<Rightarrow> time \<Rightarrow> ('re, 'c) ProcessScanner outcome" where
  "NewProcessScanner config now =
     (if sc_EventChannelSize config < 0 then Panics else Returns
     \<lparr>sc_config = config, platform_ready = False, processCache = [], sc_metrics = NewMetricsTracker now,
      sc_registry = [], excludeRegexps = [], includeRegexps = [], ctx_cancelled = None, ticker_interval = None,
      ticker_running = False, lastScanTime = zero_time, scan_state = StatusInitialized, queued = [], loops = 0\<rparr>)"

datatype 'e scan_error = AlreadyInitialized | PlatformError 'e | InvalidPattern string | AlreadyRunning |
  InvalidState scan_status | NotRunning

text \<open>\<open>ticker_interval\<close> is \<open>None\<close> while the scanner has no ticker; \<^verbatim>\<open>Stop\<close> stops it but keeps it.
  The patterns are compiled in turn; the first that does not compile ends \<^verbatim>\<open>Init\<close>.\<close>

fun compile_all :: "(string \<Rightarrow> 're option) \<Rightarrow> string list \<Rightarrow> 're list \<Rightarrow> 're list \<times> string option" where
  "compile_all compile [] acc = (acc, None)"
| "compile_all compile (pat # pats) acc =
     (case compile pat of None \<Rightarrow> (acc, Some pat) | Some re \<Rightarrow> compile_all compile pats (acc @ [re]))"

definition Init :: "(string \<Rightarrow> 're option) \<Rightarrow> ('re, 'c) ProcessScanner \<Rightarrow> 'e option \<Rightarrow>
    ('re, 'c) ProcessScanner \<times> 'e scan_error option" where
  "Init compile p platformErr =
     (if scan_state p \<noteq> StatusInitialized then (p, Some AlreadyInitialized)
      else let p1 = p\<lparr>ctx_cancelled := Some False\<rparr> in
           case platformErr of
             Some e \<Rightarrow> (p1\<lparr>platform_ready := False\<rparr>, Some (PlatformError e))
           | None \<Rightarrow>
               (let (ex, bad) = compile_all compile (sc_ExcludePatterns (sc_config p)) [];
                    p2 = p1\<lparr>platform_ready := True, excludeRegexps := ex\<rparr>
                in case bad of
                     Some pat \<Rightarrow> (p2, Some (InvalidPattern pat))
                   | None \<Rightarrow>
                       (let (inc, bad2) = compile_all compile (sc_IncludePatterns (sc_config p)) [];
                            p3 = p2\<lparr>includeRegexps := inc\<rparr>
                        in (p3, map_option InvalidPattern bad2))))"

text \<open>\<open>Panics\<close>: \<^verbatim>\<open>time.NewTicker\<close> on an interval that is not positive.\<close>

definition Start :: "('re, 'c) ProcessScanner \<Rightarrow> (('re, 'c) ProcessScanner \<times> 'e scan_error option) outcome" where
  "Start p =
     (if scan_state p = StatusRunning then Returns (p, Some AlreadyRunning)
      else if scan_state p \<noteq> StatusInitialized \<and> scan_state p \<noteq> StatusStopped \<and> scan_state p \<noteq> StatusPaused
      then Returns (p, Some (InvalidState (scan_state p)))
      else if sc_ScanInterval (sc_config p) \<le> 0 then Panics
      else Returns (p\<lparr>ticker_interval := Some (sc_ScanInterval (sc_config p)), ticker_running := True,
             loops := Suc (loops p), scan_state := StatusRunning\<rparr>, None))"

definition Stop :: "('re, 'c) ProcessScanner \<Rightarrow> ('re, 'c) ProcessScanner \<times> 'e scan_error option" where
  "Stop p =
     (if scan_state p \<noteq> StatusRunning then (p, Some NotRunning)
      else (p\<lparr>ticker_running := False, ctx_cancelled := map_option (\<lambda>_. True) (ctx_cancelled p),
              scan_state := StatusStopped\<rparr>, None))"

definition Shutdown_scanner :: "('re, 'c) ProcessScanner \<Rightarrow> 'e option \<Rightarrow>
    ('re, 'c) ProcessScanner \<times> 'e scan_error option" where
  "Shutdown_scanner p platformErr =
     (let (p1, err) = Stop p in
      if err \<noteq> None \<and> scan_state p1 \<noteq> StatusStopped then (p1, err)
      else case (if platform_ready p1 then platformErr else None) of
             Some e \<Rightarrow> (p1, Some (PlatformError e))
           | None \<Rightarrow> (p1\<lparr>processCache := []\<rparr>, None))"

text \<open>The check of one process against the compiled patterns.\<close>

definition keep_process :: "('re \<Rightarrow> string \<Rightarrow> bool) \<Rightarrow> ('re, 'c) ProcessScanner \<Rightarrow> ScanProcess \<Rightarrow> bool" where
  "keep_process matches p proc \<longleftrightarrow>
     \<not> list_ex (\<lambda>re. matches re (sp_Command proc) \<or> matches re (sp_Name proc)) (excludeRegexps p) \<and>
     (includeRegexps p = [] \<or>
      list_ex (\<lambda>re. matches re (sp_Command proc) \<or> matches re (sp_Name proc)) (includeRegexps p))"

definition filterProcesses ::
    "('re \<Rightarrow> string \<Rightarrow> bool) \<Rightarrow> ('re, 'c) ProcessScanner \<Rightarrow> ScanProcess list \<Rightarrow> ScanProcess list" where
  "filterProcesses matches p processes =
     (if includeRegexps p = [] \<and> excludeRegexps p = [] then processes
      else filter (keep_process matches p) processes)"

definition queueEvent ::
    "(ProcessEvent \<Rightarrow> bool) \<Rightarrow> ProcessEvent \<Rightarrow> ('re, 'c) ProcessScanner \<Rightarrow> ('re, 'c) ProcessScanner" where
  "queueEvent sent event p =
     (if sent event then p\<lparr>queued := queued p @ [event]\<rparr>
      else p\<lparr>sc_metrics := IncrementCounter (sc_metrics p) MetricNotificationErrors 1\<rparr>)"

text \<open>The bodies of the two loops of \<^verbatim>\<open>processNewScan\<close>; the counters are those of created, updated
  and terminated processes. \<open>now\<close> gives the clock reading for an event of a process.\<close>

definition check_terminated ::
    "(ProcessEvent \<Rightarrow> bool) \<Rightarrow> (int \<Rightarrow> time) \<Rightarrow> (int, ScanProcess) gomap \<Rightarrow> int \<times> ScanProcess \<Rightarrow>
     ('re, 'c) ProcessScanner \<times> int \<times> int \<times> int \<Rightarrow> ('re, 'c) ProcessScanner \<times> int \<times> int \<times> int" where
  "check_terminated sent now newMap entry st =
     (case (entry, st) of ((pid, cached), (p, created, updated, terminated)) \<Rightarrow>
        if map_of newMap pid \<noteq> None then (p, created, updated, terminated)
        else (queueEvent sent \<lparr>ev_Type = ProcessTerminated, ev_Process = Clone cached, ev_Timestamp = now pid\<rparr>
                (p\<lparr>processCache := AList.delete pid (processCache p)\<rparr>),
              created, updated, terminated + 1))"

definition check_changed ::
    "(ProcessEvent \<Rightarrow> bool) \<Rightarrow> (int \<Rightarrow> time) \<Rightarrow> int \<times> ScanProcess \<Rightarrow>
     ('re, 'c) ProcessScanner \<times> int \<times> int \<times> int \<Rightarrow> ('re, 'c) ProcessScanner \<times> int \<times> int \<times> int" where
  "check_changed sent now entry st =
     (case (entry, st) of ((pid, newProc), (p, created, updated, terminated)) \<Rightarrow>
        case map_of (processCache p) pid of
          None \<Rightarrow>
            (queueEvent sent \<lparr>ev_Type = ProcessCreated, ev_Process = Clone newProc, ev_Timestamp = now pid\<rparr>
               (p\<lparr>processCache := AList.update pid (Clone newProc) (processCache p)\<rparr>),
             created + 1, updated, terminated)
        | Some cached \<Rightarrow>
            if \<not> Equal cached newProc then
              (queueEvent sent \<lparr>ev_Type = ProcessUpdated, ev_Process = Clone newProc, ev_Timestamp = now pid\<rparr>
                 (p\<lparr>processCache := AList.update pid (Clone newProc) (processCache p)\<rparr>),
               created, updated + 1, terminated)
            else (p, created, updated, terminated))"

definition new_process_map :: "ScanProcess list \<Rightarrow> (int, ScanProcess) gomap" where
  "new_process_map ps = fold (\<lambda>proc m. AList.update (sp_PID proc) proc m) ps []"

definition processNewScan ::
    "(ProcessEvent \<Rightarrow> bool) \<Rightarrow> (int \<Rightarrow> time) \<Rightarrow>
     ((int, ScanProcess) gomap \<Rightarrow> (int, ScanProcess) gomap) \<Rightarrow>
     ('re, 'c) ProcessScanner \<Rightarrow> ScanProcess list \<Rightarrow>
     ('re, 'c) ProcessScanner \<times> int \<times> int \<times> int \<times> int" where
  "processNewScan sent now range_order p newProcesses =
     (let newMap = new_process_map newProcesses;
          st1 = fold (check_terminated sent now newMap) (range_order (processCache p)) (p, 0, 0, 0);
          (p2, created, updated, terminated) = fold (check_changed sent now) (range_order newMap) st1
      in (p2, int (length (processCache p2)), created, updated, terminated))"

text \<open>The environment of a scan: \<open>ratio_high\<close> and \<open>ratio_low\<close> are the comparisons of the CPU
  ratio with 1.2 and 0.5, and \<open>scaled_up\<close> and \<open>scaled_down\<close> the intervals the float64 arithmetic
  yields; \<open>over_limit\<close> compares the scanner's own CPU share with its limit.\<close>

record 'e scan_env =
  scan_result :: "'e + ScanProcess list"
  cpu_times_fail :: bool
  self_cpu :: float64
  self_mem :: float64
  over_limit :: bool
  ratio_high :: bool
  ratio_low :: bool
  scaled_up :: duration
  scaled_down :: duration
  scan_took :: duration
  channel_len :: int
  end_time :: time

text \<open>\<open>Panics\<close>: \<^verbatim>\<open>Ticker.Reset\<close> with an interval that is not positive.\<close>

definition adjustScanInterval ::
    "'e scan_env \<Rightarrow> ('re, 'c) ProcessScanner \<Rightarrow> ('re, 'c) ProcessScanner outcome" where
  "adjustScanInterval env p =
     (if \<not> sc_AdaptiveSampling (sc_config p) \<or> ticker_interval p = None then Returns p
      else let current = sc_ScanInterval (sc_config p);
               p1 = p\<lparr>sc_metrics := IncrementCounter (sc_metrics p) MetricAdaptiveRateChanges 1\<rparr>;
               set_to = (\<lambda>d. if d \<le> 0 then Panics
                         else Returns (p1\<lparr>ticker_interval := Some d, ticker_running := True,
                                sc_config := (sc_config p)\<lparr>sc_ScanInterval := d\<rparr>\<rparr>))
           in if ratio_high env then
                (let new = (if 60 * second < scaled_up env then 60 * second else scaled_up env) in
                 if new \<noteq> current then set_to new else Returns p)
              else if ratio_low env \<and> 10 * second < current then
                (let new = (if scaled_down env < 10 * second then 10 * second else scaled_down env) in
                 if new \<noteq> current then set_to new else Returns p)
              else Returns p)"

definition performScan ::
    "('re \<Rightarrow> string \<Rightarrow> bool) \<Rightarrow> (ProcessEvent \<Rightarrow> bool) \<Rightarrow> (int \<Rightarrow> time) \<Rightarrow>
     ((int, ScanProcess) gomap \<Rightarrow> (int, ScanProcess) gomap) \<Rightarrow> (int \<Rightarrow> float64) \<Rightarrow> 'e scan_env \<Rightarrow>
     ('re, 'c) ProcessScanner \<Rightarrow> ('re, 'c) ProcessScanner outcome" where
  "performScan matches sent now range_order to_float env p =
     (case scan_result env of
        Inl _ \<Rightarrow> Returns (p\<lparr>sc_metrics := IncrementCounter (sc_metrics p) MetricScanErrors 1\<rparr>)
      | Inr ps \<Rightarrow>
          (let filtered = filterProcesses matches p ps;
               p1 = (if sc_RefreshCPUStats (sc_config p) \<and> cpu_times_fail env
                     then p\<lparr>sc_metrics := IncrementCounter (sc_metrics p) MetricScanErrors 1\<rparr> else p);
               (p2, count, created, updated, terminated) = processNewScan sent now range_order p1 filtered;
               m1 = SetGauge (sc_metrics p2) MetricProcessCount (to_float count);
               m2 = IncrementCounter m1 MetricProcessCreated created;
               m3 = IncrementCounter m2 MetricProcessUpdated updated;
               m4 = IncrementCounter m3 MetricProcessTerminated terminated;
               m5 = SetGauge (SetGauge m4 MetricCPUUsage (self_cpu env)) MetricMemoryUsage (self_mem env);
               p3 = p2\<lparr>sc_metrics := (if over_limit env then IncrementCounter m5 MetricLimitBreaches 1 else m5)\<rparr>
           in and_then (if over_limit env \<and> sc_AdaptiveSampling (sc_config p3)
                        then adjustScanInterval env p3 else Returns p3)
                (\<lambda>p4. Returns (p4\<lparr>sc_metrics :=
                   SetGauge (SetGauge (RecordDuration (sc_metrics p4) MetricScanDuration (scan_took env))
                     MetricEventQueueSize (to_float (channel_len env)))
                     MetricConsumerCount (to_float (ConsumerCount (sc_registry p4))),
                   lastScanTime := end_time env\<rparr>))))"

definition GetCachedProcess :: "('re, 'c) ProcessScanner \<Rightarrow> int \<Rightarrow> ScanProcess option" where
  "GetCachedProcess p pid = map_option Clone (map_of (processCache p) pid)"

definition GetCachedProcesses :: "('re, 'c) ProcessScanner \<Rightarrow> ScanProcess list" where
  "GetCachedProcesses p = map (\<lambda>(_, proc). Clone proc) (processCache p)"

section \<open>What a consumer can rebuild\<close>

text \<open>A consumer that keeps the processes it has been told of.\<close>

fun replay :: "ProcessEvent list \<Rightarrow> (int \<rightharpoonup> ScanProcess) \<Rightarrow> (int \<rightharpoonup> ScanProcess)" where
  "replay [] m = m"
| "replay (e # es) m =
     replay es (case ev_Type e of
                  ProcessTerminated \<Rightarrow> m(sp_PID (ev_Process e) := None)
                | _ \<Rightarrow> m(sp_PID (ev_Process e) \<mapsto> ev_Process e))"

text \<open>The cache is a map, and files each process under its PID.\<close>

definition cache_inv :: "('re, 'c) ProcessScanner \<Rightarrow> bool" where
  "cache_inv p \<longleftrightarrow> gm_wf (processCache p) \<and> (\<forall>(pid, proc) \<in> set (processCache p). sp_PID proc = pid)"

text \<open>What the cache holds for a process after a scan: the old snapshot when nothing but the time of
  its last update has changed.\<close>

definition scanned :: "(int, ScanProcess) gomap \<Rightarrow> (int, ScanProcess) gomap \<Rightarrow> int \<Rightarrow> ScanProcess option" where
  "scanned newMap cache pid =
     (case map_of newMap pid of
        None \<Rightarrow> None
      | Some new \<Rightarrow>
          (case map_of cache pid of
             Some old \<Rightarrow> if Equal old new then Some old else Some (Clone new)
           | None \<Rightarrow> Some (Clone new)))"

text \<open>The events a scanner has sent since \<open>p\<close> turn the cache of \<open>p\<close> into its present one.\<close>

definition tracks :: "('re, 'c) ProcessScanner \<Rightarrow> ('re, 'c) ProcessScanner \<Rightarrow> bool" where
  "tracks p p' \<longleftrightarrow> (\<exists>es. queued p' = queued p @ es \<and> replay es (map_of (processCache p)) = map_of (processCache p'))"

definition changed_entry :: "(int, ScanProcess) gomap \<Rightarrow> int \<times> ScanProcess \<Rightarrow> bool" where
  "changed_entry cache entry \<longleftrightarrow> (case map_of cache (fst entry) of None \<Rightarrow> False | Some old \<Rightarrow> \<not> Equal old (snd entry))"

text \<open>A concrete process and scanner.\<close>

definition example_proc :: "int \<Rightarrow> float64 \<Rightarrow> ScanProcess" where
  "example_proc pid cpu =
     \<lparr>sp_PID = pid, sp_PPID = 1, sp_Name = ''sh'', sp_Executable = ''/bin/sh'', sp_Command = ''sh'', sp_User = ''root'',
      sp_CPU = cpu, sp_RSS = 4096, sp_VMS = 8192, sp_FDs = 3, sp_Threads = 1, sp_StartTime = 7, sp_State = ''S'',
      sp_LastUpdated = 9, sp_IOReadBytes = 0, sp_IOWriteBytes = 0, sp_Labels = []\<rparr>"

definition example_scanner :: "(string, unit) ProcessScanner" where
  "example_scanner =
     (case NewProcessScanner (cc_ProcessScanner collector_DefaultConfig) 0 of
        Returns p \<Rightarrow> p\<lparr>processCache := [(10, example_proc 10 5), (11, example_proc 11 6)]\<rparr>)"

section \<open>Lemmas\<close>

lemma replay_append: "replay (es @ fs) m = replay fs (replay es m)"
  by (induction es arbitrary: m) auto

lemma Clone_PID [simp]: "sp_PID (Clone p) = sp_PID p"
  by (simp add: Clone_def)

lemma queueEvent_cache [simp]: "processCache (queueEvent sent e p) = processCache p"
  by (simp add: queueEvent_def)

lemma tracks_refl: "tracks p p"
  by (auto simp: tracks_def intro: exI [of _ "[]"])

lemma tracks_trans: "tracks p q \<Longrightarrow> tracks q r \<Longrightarrow> tracks p r"
  unfolding tracks_def by (metis append.assoc replay_append)

lemma gm_wf_entry: "gm_wf m \<Longrightarrow> (k, v) \<in> set m \<Longrightarrow> map_of m k = Some v"
  by (simp add: gm_wf_def)

subsection \<open>One step of each loop\<close>

lemma check_terminated_tracks:
  assumes "\<And>e. sent e" "sp_PID (snd entry) = fst entry"
  shows "tracks p (fst (check_terminated sent now newMap entry (p, cs)))"
  using assms
  by (auto simp: check_terminated_def queueEvent_def tracks_def gomap_simps split: prod.split
      intro: exI [of _ "[]"])

lemma check_changed_tracks:
  assumes "\<And>e. sent e" "sp_PID (snd entry) = fst entry"
  shows "tracks p (fst (check_changed sent now entry (p, cs)))"
  using assms
  by (auto simp: check_changed_def queueEvent_def tracks_def gomap_simps split: prod.split option.split
      intro: exI [of _ "[]"])

subsection \<open>The loops\<close>

lemma terminated_loop:
  assumes "distinct (map fst es)" "gm_wf (processCache p)"
  shows "\<exists>p'. fold (check_terminated sent now newMap) es (p, c, u, t) =
      (p', c, u, t + int (length (filter (\<lambda>e. map_of newMap (fst e) = None) es))) \<and> gm_wf (processCache p') \<and>
    (\<forall>pid. map_of (processCache p') pid =
       (if pid \<in> fst ` set es \<and> map_of newMap pid = None then None else map_of (processCache p) pid)) \<and>
    ((\<forall>e. sent e) \<and> (\<forall>e \<in> set es. sp_PID (snd e) = fst e) \<longrightarrow> tracks p p')"
  using assms
proof (induction es arbitrary: p t)
  case Nil
  then show ?case by (simp add: tracks_refl)
next
  case (Cons e es)
  define p1 where "p1 = fst (check_terminated sent now newMap e (p, c, u, t))"
  let ?t = "t + (if map_of newMap (fst e) = None then 1 else 0)"
  have step: "check_terminated sent now newMap e (p, c, u, t) = (p1, c, u, ?t)"
    by (cases e) (simp add: p1_def check_terminated_def)
  have p1: "processCache p1 = (if map_of newMap (fst e) = None then AList.delete (fst e) (processCache p) else processCache p)"
    by (cases e) (simp add: p1_def check_terminated_def)
  have wf1: "gm_wf (processCache p1)" using Cons.prems(2) by (simp add: p1)
  have cache1: "map_of (processCache p1) pid =
      (if pid = fst e \<and> map_of newMap pid = None then None else map_of (processCache p) pid)" for pid
    by (auto simp: p1 gomap_simps)
  have tr: "(\<forall>e. sent e) \<Longrightarrow> sp_PID (snd e) = fst e \<Longrightarrow> tracks p p1"
    unfolding p1_def by (rule check_terminated_tracks) auto
  from Cons.IH [OF _ wf1, of ?t] Cons.prems(1) obtain p' where p':
    "fold (check_terminated sent now newMap) es (p1, c, u, ?t) =
      (p', c, u, ?t + int (length (filter (\<lambda>e. map_of newMap (fst e) = None) es)))"
    "gm_wf (processCache p')"
    "\<forall>pid. map_of (processCache p') pid =
       (if pid \<in> fst ` set es \<and> map_of newMap pid = None then None else map_of (processCache p1) pid)"
    "(\<forall>e. sent e) \<and> (\<forall>e \<in> set es. sp_PID (snd e) = fst e) \<longrightarrow> tracks p1 p'"
    by auto
  show ?case
  proof (intro exI [of _ p'] conjI)
    show "fold (check_terminated sent now newMap) (e # es) (p, c, u, t) =
        (p', c, u, t + int (length (filter (\<lambda>e. map_of newMap (fst e) = None) (e # es))))"
      using p'(1) by (simp add: step)
    show "\<forall>pid. map_of (processCache p') pid =
       (if pid \<in> fst ` set (e # es) \<and> map_of newMap pid = None then None else map_of (processCache p) pid)"
      using p'(3) cache1 by auto
    show "(\<forall>e. sent e) \<and> (\<forall>e \<in> set (e # es). sp_PID (snd e) = fst e) \<longrightarrow> tracks p p'"
      using p'(4) tr by (auto intro: tracks_trans)
  qed (rule p'(2))
qed

lemma changed_loop:
  assumes "distinct (map fst es)" "gm_wf (processCache p)"
  shows "\<exists>p'. fold (check_changed sent now) es (p, c, u, t) =
      (p', c + int (length (filter (\<lambda>e. map_of (processCache p) (fst e) = None) es)),
           u + int (length (filter (changed_entry (processCache p)) es)), t) \<and>
    gm_wf (processCache p') \<and>
    (\<forall>pid. map_of (processCache p') pid =
       (if pid \<in> fst ` set es then scanned es (processCache p) pid else map_of (processCache p) pid)) \<and>
    ((\<forall>e. sent e) \<and> (\<forall>e \<in> set es. sp_PID (snd e) = fst e) \<longrightarrow> tracks p p')"
  using assms
proof (induction es arbitrary: p c u)
  case Nil
  then show ?case by (simp add: tracks_refl)
next
  case (Cons e es)
  define p1 where "p1 = fst (check_changed sent now e (p, c, u, t))"
  let ?c = "c + (if map_of (processCache p) (fst e) = None then 1 else 0)"
  let ?u = "u + (if changed_entry (processCache p) e then 1 else 0)"
  have step: "check_changed sent now e (p, c, u, t) = (p1, ?c, ?u, t)"
    by (cases e) (simp add: p1_def check_changed_def changed_entry_def split: option.split)
  have wf1: "gm_wf (processCache p1)" and cache1: "\<And>pid. map_of (processCache p1) pid =
      (if pid = fst e then scanned [e] (processCache p) pid else map_of (processCache p) pid)"
    using Cons.prems(2) by (cases e; simp add: p1_def check_changed_def scanned_def gomap_simps split: option.split)+
  have tr: "(\<forall>e. sent e) \<Longrightarrow> sp_PID (snd e) = fst e \<Longrightarrow> tracks p p1"
    unfolding p1_def by (rule check_changed_tracks) auto
  have e: "fst e \<notin> fst ` set es" "distinct (map fst es)" using Cons.prems(1) by auto
  have same: "map_of (processCache p1) pid = map_of (processCache p) pid" if "pid \<in> fst ` set es" for pid
  proof -
    have "pid \<noteq> fst e" using that e(1) by blast
    then show ?thesis by (simp add: cache1)
  qed
  from Cons.IH [OF e(2) wf1, of ?c ?u] obtain p' where p':
    "fold (check_changed sent now) es (p1, ?c, ?u, t) =
      (p', ?c + int (length (filter (\<lambda>e. map_of (processCache p1) (fst e) = None) es)),
           ?u + int (length (filter (changed_entry (processCache p1)) es)), t)"
    "gm_wf (processCache p')"
    "\<forall>pid. map_of (processCache p') pid =
       (if pid \<in> fst ` set es then scanned es (processCache p1) pid else map_of (processCache p1) pid)"
    "(\<forall>e. sent e) \<and> (\<forall>e \<in> set es. sp_PID (snd e) = fst e) \<longrightarrow> tracks p1 p'"
    by auto
  have filters: "filter (\<lambda>e. map_of (processCache p1) (fst e) = None) es = filter (\<lambda>e. map_of (processCache p) (fst e) = None) es"
    "filter (changed_entry (processCache p1)) es = filter (changed_entry (processCache p)) es"
    by (rule filter_cong [OF refl], simp add: same changed_entry_def)+
  show ?case
  proof (intro exI [of _ p'] conjI)
    show "fold (check_changed sent now) (e # es) (p, c, u, t) =
        (p', c + int (length (filter (\<lambda>e. map_of (processCache p) (fst e) = None) (e # es))),
           u + int (length (filter (changed_entry (processCache p)) (e # es))), t)"
      using p'(1) unfolding filters by (simp add: step)
    have "map_of (processCache p') pid =
       (if pid \<in> fst ` set (e # es) then scanned (e # es) (processCache p) pid else map_of (processCache p) pid)" for pid
    proof (cases "pid = fst e")
      case True
      then show ?thesis using p'(3) e(1) cache1 [of pid] by (cases e) (simp add: scanned_def)
    next
      case False
      then show ?thesis
        using p'(3) same [of pid] cache1 [of pid] by (cases e) (simp add: scanned_def cong: option.case_cong)
    qed
    then show "\<forall>pid. map_of (processCache p') pid =
       (if pid \<in> fst ` set (e # es) then scanned (e # es) (processCache p) pid else map_of (processCache p) pid)"
      by blast
    show "(\<forall>e. sent e) \<and> (\<forall>e \<in> set (e # es). sp_PID (snd e) = fst e) \<longrightarrow> tracks p p'"
      using p'(4) tr by (auto intro: tracks_trans)
  qed (rule p'(2))
qed

lemma new_process_map_correct:
  "gm_wf (new_process_map ps)" "(pid, proc) \<in> set (new_process_map ps) \<Longrightarrow> sp_PID proc = pid \<and> proc \<in> set ps"
  "fst ` set (new_process_map ps) = sp_PID ` set ps"
proof -
  have "gm_wf m \<Longrightarrow> gm_wf (fold (\<lambda>proc m. AList.update (sp_PID proc) proc m) ps m)" for m
    by (induction ps arbitrary: m) auto
  then show "gm_wf (new_process_map ps)" by (simp add: new_process_map_def)
  have dom: "dom (map_of (fold (\<lambda>proc m. AList.update (sp_PID proc) proc m) ps m)) = sp_PID ` set ps \<union> dom (map_of m)" for m
    by (induction ps arbitrary: m) (auto simp: gomap_simps)
  from dom [of "[]"] show "fst ` set (new_process_map ps) = sp_PID ` set ps"
    by (simp add: new_process_map_def dom_map_of_conv_image_fst)
  have "map_of (fold (\<lambda>proc m. AList.update (sp_PID proc) proc m) qs m) pid = Some proc \<Longrightarrow>
      \<forall>k v. map_of m k = Some v \<longrightarrow> sp_PID v = k \<and> v \<in> set ps \<Longrightarrow> set qs \<subseteq> set ps \<Longrightarrow> sp_PID proc = pid \<and> proc \<in> set ps"
    for m qs
  proof (induction qs arbitrary: m)
    case (Cons q qs)
    from Cons.prems show ?case by (intro Cons.IH [of "AList.update (sp_PID q) q m"]) (auto simp: gomap_simps)
  qed simp
  from this [of ps "[]"] show "(pid, proc) \<in> set (new_process_map ps) \<Longrightarrow> sp_PID proc = pid \<and> proc \<in> set ps"
    using gm_wf_entry [OF \<open>gm_wf (new_process_map ps)\<close>] by (simp add: new_process_map_def)
qed

lemma permuted_map:
  assumes "mset (r m) = mset m" "gm_wf m"
  shows "distinct (map fst (r m))" "set (r m) = set m" "map_of (r m) = map_of m" "gm_wf (r m)"
proof -
  have "mset (map fst (r m)) = mset (map fst m)" using assms(1) by simp
  then show d: "distinct (map fst (r m))" using assms(2) by (metis gm_wf_def mset_eq_imp_distinct_iff)
  show st: "set (r m) = set m" using assms(1) by (rule mset_eq_setD)
  show "gm_wf (r m)" using d by (simp add: gm_wf_def)
  show "map_of (r m) = map_of m" by (rule map_of_inject_set [THEN iffD2]) (use d st assms(2) in \<open>simp_all add: gm_wf_def\<close>)
qed

lemma filter_card:
  assumes "distinct (map fst es)"
  shows "int (length (filter (\<lambda>e. P (fst e)) es)) = int (card {k \<in> fst ` set es. P k})"
proof -
  have "length (filter (\<lambda>e. P (fst e)) es) = length (filter P (map fst es))" by (simp add: filter_map o_def)
  also have "\<dots> = card (set (filter P (map fst es)))"
    using distinct_card [OF distinct_filter [OF assms, of P]] by simp
  also have "set (filter P (map fst es)) = {k \<in> fst ` set es. P k}" by auto
  finally show ?thesis by simp
qed

lemma scan_loops:
  assumes inv: "cache_inv p" and ord: "\<And>m. mset (range_order m) = mset m"
    and run: "processNewScan sent now range_order p ps = (p', n, c, u, t)"
  shows "gm_wf (processCache p') \<and> (\<forall>pid. map_of (processCache p') pid = scanned (new_process_map ps) (processCache p) pid) \<and>
    n = int (length (processCache p')) \<and> u = int (length (filter (changed_entry (processCache p)) (new_process_map ps))) \<and>
    c = int (card (sp_PID ` set ps - fst ` set (processCache p))) \<and>
    t = int (card (fst ` set (processCache p) - sp_PID ` set ps)) \<and>
    ((\<forall>e. sent e) \<longrightarrow> tracks p p')"
proof -
  let ?new = "new_process_map ps"
  have wf: "gm_wf (processCache p)" using inv by (simp add: cache_inv_def)
  note new = new_process_map_correct [where ps = ps]
  note o1 = permuted_map [where r = range_order, OF ord wf] and o2 = permuted_map [where r = range_order, OF ord new(1)]
  have at_pid: "\<forall>e \<in> set (range_order (processCache p)). sp_PID (snd e) = fst e" "\<forall>e \<in> set (range_order ?new). sp_PID (snd e) = fst e"
    using inv new(2) by (auto simp: o1 o2 cache_inv_def)
  from terminated_loop [OF o1(1) wf, of sent now ?new 0 0 0] obtain p1 t1 where p1:
    "fold (check_terminated sent now ?new) (range_order (processCache p)) (p, 0, 0, 0) = (p1, 0, 0, t1)"
    "t1 = int (length (filter (\<lambda>e. map_of ?new (fst e) = None) (range_order (processCache p))))"
    "gm_wf (processCache p1)"
    "\<forall>pid. map_of (processCache p1) pid =
       (if pid \<in> fst ` set (processCache p) \<and> map_of ?new pid = None then None else map_of (processCache p) pid)"
    "(\<forall>e. sent e) \<longrightarrow> tracks p p1"
    using at_pid(1) by (auto simp: o1)
  from changed_loop [OF o2(1) p1(3), of sent now 0 0 t1] obtain p2 c2 u2 where p2:
    "fold (check_changed sent now) (range_order ?new) (p1, 0, 0, t1) = (p2, c2, u2, t1)"
    "c2 = int (length (filter (\<lambda>e. map_of (processCache p1) (fst e) = None) (range_order ?new)))"
    "u2 = int (length (filter (changed_entry (processCache p1)) (range_order ?new)))"
    "gm_wf (processCache p2)"
    "\<forall>pid. map_of (processCache p2) pid =
       (if pid \<in> fst ` set ?new then scanned (range_order ?new) (processCache p1) pid else map_of (processCache p1) pid)"
    "(\<forall>e. sent e) \<longrightarrow> tracks p1 p2"
    using at_pid(2) by (auto simp: o2)
  have res: "p' = p2" "n = int (length (processCache p2))" "c = c2" "u = u2" "t = t1"
    using run p1(1) p2(1) by (auto simp: processNewScan_def Let_def)
  have none: "map_of m k = None \<longleftrightarrow> k \<notin> fst ` set m" for m :: "(int, ScanProcess) gomap" and k
    by (rule map_of_eq_None_iff)
  have keep: "map_of (processCache p1) pid = map_of (processCache p) pid" if "pid \<in> fst ` set ?new" for pid
    using p1(4) that none [of ?new pid] by auto
  have cache: "map_of (processCache p2) pid = scanned ?new (processCache p) pid" for pid
  proof (cases "pid \<in> fst ` set ?new")
    case True
    then show ?thesis using p2(5) keep [OF True] by (simp add: scanned_def o2 cong: option.case_cong)
  next
    case False
    then show ?thesis
      using p2(5) p1(4) none [of ?new pid] none [of "processCache p" pid] by (auto simp: scanned_def)
  qed
  have "{k \<in> fst ` set (range_order (processCache p)). map_of ?new k = None} = fst ` set (processCache p) - sp_PID ` set ps"
    using none [of ?new] by (auto simp: o1 new(3))
  then have "t1 = int (card (fst ` set (processCache p) - sp_PID ` set ps))"
    using p1(2) filter_card [OF o1(1), of "\<lambda>k. map_of ?new k = None"] by simp
  moreover have "{k \<in> fst ` set (range_order ?new). map_of (processCache p1) k = None} = sp_PID ` set ps - fst ` set (processCache p)"
  proof -
    have "{k \<in> fst ` set (range_order ?new). map_of (processCache p1) k = None} =
        {k \<in> sp_PID ` set ps. map_of (processCache p) k = None}"
      using keep unfolding o2 new(3) by auto
    then show ?thesis unfolding none by blast
  qed
  then have "c2 = int (card (sp_PID ` set ps - fst ` set (processCache p)))"
    using p2(2) filter_card [OF o2(1), of "\<lambda>k. map_of (processCache p1) k = None"] by simp
  moreover have "u2 = int (length (filter (changed_entry (processCache p)) ?new))"
  proof -
    have "filter (changed_entry (processCache p1)) (range_order ?new) = filter (changed_entry (processCache p)) (range_order ?new)"
      using keep by (intro filter_cong refl) (simp add: changed_entry_def o2)
    moreover have "mset (filter (changed_entry (processCache p)) (range_order ?new)) = mset (filter (changed_entry (processCache p)) ?new)"
      using ord by simp
    ultimately show ?thesis using p2(3) by (metis mset_eq_length)
  qed
  ultimately show ?thesis
    using res cache p2(4,6) p1(5) by (auto intro: tracks_trans)
qed

lemma scan_cache_inv:
  assumes inv: "cache_inv p" and wf: "gm_wf (processCache p')"
    and cache: "\<forall>pid. map_of (processCache p') pid = scanned (new_process_map ps) (processCache p) pid"
  shows "cache_inv p'" "length (processCache p') = card (sp_PID ` set ps)"
proof -
  note new = new_process_map_correct [where ps = ps]
  have old: "sp_PID old = pid" if "map_of (processCache p) pid = Some old" for pid old
    using inv map_of_SomeD [OF that] by (auto simp: cache_inv_def)
  have at: "sp_PID proc = pid" if "map_of (processCache p') pid = Some proc" for pid proc
    using that cache new(2) old
    by (auto simp: scanned_def split: option.splits if_splits dest!: map_of_SomeD)
  show "cache_inv p'"
    using wf at gm_wf_entry [OF wf] by (auto simp: cache_inv_def)
  have "dom (map_of (processCache p')) = dom (map_of (new_process_map ps))"
    using cache by (auto simp: scanned_def dom_def split: option.splits if_splits)
  then have "fst ` set (processCache p') = sp_PID ` set ps"
    by (simp add: dom_map_of_conv_image_fst new(3))
  then show "length (processCache p') = card (sp_PID ` set ps)"
    using wf distinct_card [of "map fst (processCache p')"] by (simp add: gm_wf_def)
qed

lemma example_scanner_inv: "cache_inv example_scanner"
  by (simp add: cache_inv_def example_scanner_def example_proc_def NewProcessScanner_def collector_DefaultConfig_def gm_wf_def)

lemma adjustScanInterval_keeps:
  assumes "adjustScanInterval env p = Returns p'"
  shows "processCache p' = processCache p \<and> queued p' = queued p"
  using assms by (auto simp: adjustScanInterval_def Let_def split: if_splits)

section \<open>Properties\<close>

text \<open>
  C11. A scan turns the cache into the list of processes it is given: the cache afterwards holds exactly
  the processes of the list, each under its PID, with the new snapshot of every process that is new or
  has changed and the old one of every process that is the same but for the time of its last update
  (a process whose CPU share is not a number counts as changed in every scan).
  The four numbers returned are those of the processes cached, created, changed and gone, in whatever
  order Go ranges over its maps and whether or not the event channel takes the events.
\<close>

theorem processNewScan_correct:
  assumes "cache_inv p" "\<And>m. mset (range_order m) = mset m"
    "processNewScan sent now range_order p ps = (p', n, c, u, t)"
  shows "cache_inv p' \<and>
    (\<forall>pid. map_of (processCache p') pid = scanned (new_process_map ps) (processCache p) pid) \<and>
    n = int (card (sp_PID ` set ps)) \<and>
    c = int (card (sp_PID ` set ps - fst ` set (processCache p))) \<and>
    u = int (length (filter (changed_entry (processCache p)) (new_process_map ps))) \<and>
    t = int (card (fst ` set (processCache p) - sp_PID ` set ps))"
  using scan_loops [OF assms] scan_cache_inv [OF assms(1), of p' ps] by simp

theorem processNewScan_correct_witness:
  "case processNewScan (\<lambda>_. True) (\<lambda>_. 20) rev example_scanner [example_proc 11 9, example_proc 12 1] of (p', n, c, u, t) \<Rightarrow>
     cache_inv p' \<and> n = 2 \<and> c = 1 \<and> u = 1 \<and> t = 1"
proof -
  obtain p' n c u t where run: "processNewScan (\<lambda>_. True) (\<lambda>_. 20) rev example_scanner
      [example_proc 11 9, example_proc 12 1] = (p', n, c, u, t)"
    by (cases "processNewScan (\<lambda>_. True) (\<lambda>_. 20) rev example_scanner [example_proc 11 9, example_proc 12 1]")
  have "mset (rev m) = mset m" for m :: "(int \<times> ScanProcess) list" by simp
  moreover have differ: "\<not> f_eq 6 9" by code_simp
  ultimately show ?thesis using processNewScan_correct [OF example_scanner_inv _ run] run
    by (simp add: example_scanner_def example_proc_def NewProcessScanner_def collector_DefaultConfig_def new_process_map_def
        changed_entry_def Equal_def differ)
qed

text \<open>
  C21. The events of a scan are a complete account of it: when the event channel takes them all, a consumer
  that applies the events sent by a scan to the processes it knew before has exactly the cache
  afterwards. A scan that fails sends nothing and leaves the cache alone.
\<close>

theorem performScan_events_replay:
  assumes "cache_inv p" "\<And>m. mset (range_order m) = mset m" "\<And>e. sent e"
    "performScan matches sent now range_order to_float env p = Returns p'"
  shows "cache_inv p' \<and>
    (\<exists>es. queued p' = queued p @ es \<and> replay es (map_of (processCache p)) = map_of (processCache p'))"
proof (cases "scan_result env")
  case (Inl e)
  with assms(1,4) show ?thesis by (auto simp: performScan_def cache_inv_def intro: exI [of _ "[]"])
next
  case (Inr ps)
  define p1 where "p1 = (if sc_RefreshCPUStats (sc_config p) \<and> cpu_times_fail env
    then p\<lparr>sc_metrics := IncrementCounter (sc_metrics p) MetricScanErrors 1\<rparr> else p)"
  have p1: "cache_inv p1" "processCache p1 = processCache p" "queued p1 = queued p"
    using assms(1) by (simp_all add: p1_def cache_inv_def)
  obtain p2 n c u t where scan:
    "processNewScan sent now range_order p1 (filterProcesses matches p ps) = (p2, n, c, u, t)"
    by (cases "processNewScan sent now range_order p1 (filterProcesses matches p ps)")
  note loops = scan_loops [OF p1(1) assms(2) scan]
  have p2: "cache_inv p2" "tracks p1 p2"
    using loops scan_cache_inv(1) [OF p1(1)] assms(3) by blast+
  have "processCache p' = processCache p2" "queued p' = queued p2"
    using assms(4) Inr scan
    by (auto simp: performScan_def Let_def p1_def [symmetric] split: if_splits outcome.splits
        dest!: adjustScanInterval_keeps elim!: and_then.elims)
  with p2 p1 show ?thesis by (simp add: tracks_def cache_inv_def)
qed

theorem performScan_events_replay_witness:
  "\<exists>p' es. performScan (\<lambda>re s. False) (\<lambda>_. True) (\<lambda>_. 20) rev word_of_int
      \<lparr>scan_result = Inr [example_proc 11 9, example_proc 12 1] :: string + ScanProcess list, cpu_times_fail = False,
       self_cpu = 0, self_mem = 4096, over_limit = False, ratio_high = False, ratio_low = False, scaled_up = 0,
       scaled_down = 0, scan_took = 5, channel_len = 0, end_time = 30\<rparr> example_scanner = Returns p' \<and>
     cache_inv p' \<and> queued p' = queued example_scanner @ es \<and>
     replay es (map_of (processCache example_scanner)) = map_of (processCache p')"
proof -
  let ?env = "\<lparr>scan_result = Inr [example_proc 11 9, example_proc 12 1] :: string + ScanProcess list, cpu_times_fail = False,
       self_cpu = 0, self_mem = 4096, over_limit = False, ratio_high = False, ratio_low = False, scaled_up = 0,
       scaled_down = 0, scan_took = 5, channel_len = 0, end_time = 30\<rparr>"
  obtain p' where run: "performScan (\<lambda>re s. False) (\<lambda>_. True) (\<lambda>_. 20) rev word_of_int ?env example_scanner = Returns p'"
    by (cases "performScan (\<lambda>re s. False) (\<lambda>_. True) (\<lambda>_. 20) rev word_of_int ?env example_scanner")
      (auto simp: performScan_def Let_def split: prod.splits)
  have "mset (rev m) = mset m" for m :: "(int \<times> ScanProcess) list" by simp
  from performScan_events_replay [OF example_scanner_inv this _ run] run show ?thesis by blast
qed

text \<open>
  A scanner that has been stopped can be started again but does not scan: it reports that it is
  running, while the context its loops wait on stays cancelled, since \<^verbatim>\<open>Start\<close> does not make a new one
  and \<^verbatim>\<open>Init\<close> refuses to run again.
\<close>

lemma restarted_scanner_cancelled:
  assumes "scan_state p = StatusRunning" "ctx_cancelled p = Some b" "0 < sc_ScanInterval (sc_config p)"
  shows "\<exists>p1 p2. Stop p = (p1, None :: 'e scan_error option) \<and> Start p1 = Returns (p2, None :: 'e scan_error option) \<and>
    scan_state p2 = StatusRunning \<and> ctx_cancelled p2 = Some True \<and>
    Init compile p2 platformErr = (p2, Some AlreadyInitialized)"
  using assms by (simp add: Stop_def Start_def Init_def)

text \<open>
  When the CPU ratio is high and the interval the arithmetic asks for is a minute or more, the
  interval becomes exactly one minute, whatever it was: a scanner configured with a longer interval
  is then sped up, not slowed down.
\<close>

lemma adjust_caps_interval:
  assumes "sc_AdaptiveSampling (sc_config p)" "ticker_interval p \<noteq> None" "ratio_high env" "60 * second \<le> scaled_up env"
  shows "\<exists>p'. adjustScanInterval env p = Returns p' \<and> sc_ScanInterval (sc_config p') = 60 * second"
  using assms by (cases "sc_ScanInterval (sc_config p) = 60 * second") (auto simp: adjustScanInterval_def Let_def second_def)

text \<open>
  A validated configuration gives a scanner that starts: if \<^verbatim>\<open>Validate\<close> accepts the configuration, the scanner is enabled,
  its patterns compile and the platform collector is there, then \<^verbatim>\<open>NewProcessScanner\<close>,
  \<^verbatim>\<open>Init\<close> and \<^verbatim>\<open>Start\<close> return without panic or error, and the scanner
  runs with the configured interval, a live context and every pattern compiled.
\<close>

lemma validated_scanner_starts:
  assumes "collector_Validate c = None" "sc_Enabled (cc_ProcessScanner c)"
    "\<forall>pat \<in> set (sc_ExcludePatterns (cc_ProcessScanner c)) \<union> set (sc_IncludePatterns (cc_ProcessScanner c)). compile pat \<noteq> None"
  shows "\<exists>p p1 p2. NewProcessScanner (cc_ProcessScanner c) now = Returns p \<and> Init compile p None = (p1, None :: 'e scan_error option)
    \<and> Start p1 = Returns (p2, None :: 'e scan_error option) \<and> scan_state p2 = StatusRunning \<and> ctx_cancelled p2 = Some False
    \<and> ticker_interval p2 = Some (sc_ScanInterval (cc_ProcessScanner c))
    \<and> map Some (excludeRegexps p2) = map compile (sc_ExcludePatterns (cc_ProcessScanner c))
    \<and> map Some (includeRegexps p2) = map compile (sc_IncludePatterns (cc_ProcessScanner c))"
proof -
  note pos = collector_Validate_scanner [OF assms(1,2)]
  have ok: "compile_all compile pats acc = (acc @ map (\<lambda>pat. the (compile pat)) pats, None)"
    if "\<forall>pat \<in> set pats. compile pat \<noteq> None" for pats acc
    using that by (induction pats arbitrary: acc) auto
  have some: "map (Some \<circ> (\<lambda>pat. the (compile pat))) pats = map compile pats" if "\<forall>pat \<in> set pats. compile pat \<noteq> None" for pats
    using that by (induction pats) auto
  from pos assms(3) show ?thesis
    by (auto simp: NewProcessScanner_def Init_def Start_def ok some Let_def)
qed

end
