(* ===== verification/Array_Heap.thy ===== *)
theory Array_Heap
  imports Main "HOL-Library.Multiset"
begin

text \<open>
  Binary heaps in an array, as \<^verbatim>\<open>container/heap\<close> and the sort of
  \<^verbatim>\<open>sampler/heap.go\<close> lay them out: the children of index \<open>i\<close> are \<open>2 * i + 1\<close>
  and \<open>2 * i + 2\<close>. The locale \<open>heap_order\<close> is the contract of the order the heap is
  built on; it is interpreted for the min-heap and for the sort's max-heap of the processes. Its
  lemmas say what one step of a sift keeps and what a finished sift has established.
\<close>

section \<open>Definitions\<close>

definition par :: "nat \<Rightarrow> nat" where
  "par k = (k - 1) div 2"

definition swap_at :: "'a list \<Rightarrow> nat \<Rightarrow> nat \<Rightarrow> 'a list" where
  "swap_at xs i j = xs[i := xs ! j, j := xs ! i]"

text \<open>The first \<open>n\<close> elements are in heap order below every index from \<open>m\<close> on.\<close>

definition heap_above :: "('a \<Rightarrow> 'a \<Rightarrow> bool) \<Rightarrow> nat \<Rightarrow> nat \<Rightarrow> 'a list \<Rightarrow> bool" where
  "heap_above R n m a \<longleftrightarrow> (\<forall>k. 0 < k \<and> k < n \<and> m \<le> par k \<longrightarrow> R (a ! par k) (a ! k))"

text \<open>The same, except that the element at \<open>i\<close> may be too large for its children.\<close>

definition down_ok :: "('a \<Rightarrow> 'a \<Rightarrow> bool) \<Rightarrow> nat \<Rightarrow> nat \<Rightarrow> nat \<Rightarrow> 'a list \<Rightarrow> bool" where
  "down_ok R n m i a \<longleftrightarrow>
     (\<forall>k. 0 < k \<and> k < n \<and> m \<le> par k \<and> par k \<noteq> i \<longrightarrow> R (a ! par k) (a ! k)) \<and>
     (\<forall>k. 0 < k \<and> k < n \<and> par k = i \<and> 0 < i \<and> m \<le> par i \<longrightarrow> R (a ! par i) (a ! k))"

text \<open>The first \<open>n\<close> elements are in heap order, except that the element at \<open>j\<close> may be too
  small for its parent.\<close>

definition up_ok :: "('a \<Rightarrow> 'a \<Rightarrow> bool) \<Rightarrow> nat \<Rightarrow> nat \<Rightarrow> 'a list \<Rightarrow> bool" where
  "up_ok R n j a \<longleftrightarrow>
     (\<forall>k. 0 < k \<and> k < n \<and> k \<noteq> j \<longrightarrow> R (a ! par k) (a ! k)) \<and>
     (\<forall>k. 0 < k \<and> k < n \<and> par k = j \<and> 0 < j \<longrightarrow> R (a ! par j) (a ! k))"

section \<open>Indices and swaps\<close>

lemma par_less [simp]: "0 < k \<Longrightarrow> par k < k"
  by (simp add: par_def)

lemma par_0 [simp]: "par 0 = 0"
  by (simp add: par_def)

lemma par_eq_iff: "0 < k \<Longrightarrow> par k = i \<longleftrightarrow> k = 2 * i + 1 \<or> k = 2 * i + 2"
  by (auto simp: par_def)

lemma length_swap_at [simp]: "length (swap_at xs i j) = length xs"
  by (simp add: swap_at_def)

lemma swap_at_nth: "i < length xs \<Longrightarrow> j < length xs \<Longrightarrow> k < length xs \<Longrightarrow>
    swap_at xs i j ! k = (if k = i then xs ! j else if k = j then xs ! i else xs ! k)"
  by (auto simp: swap_at_def nth_list_update)

lemma mset_swap_at [simp]: "i < length xs \<Longrightarrow> j < length xs \<Longrightarrow> mset (swap_at xs i j) = mset xs"
  by (simp add: swap_at_def mset_swap)

lemma heap_above_cong: "(\<And>k. k < n \<Longrightarrow> a ! k = b ! k) \<Longrightarrow> heap_above R n m a = heap_above R n m b"
  unfolding heap_above_def using par_less by (metis less_trans)

lemma down_ok_cong: "(\<And>k. k < n \<Longrightarrow> a ! k = b ! k) \<Longrightarrow> down_ok R n m i a \<Longrightarrow> down_ok R n m i b"
  unfolding down_ok_def using par_less by (metis less_trans)

lemma up_ok_cong: "(\<And>k. k < n \<Longrightarrow> a ! k = b ! k) \<Longrightarrow> up_ok R n j a \<Longrightarrow> up_ok R n j b"
  unfolding up_ok_def using par_less by (metis less_trans)

section \<open>The order and the sifts\<close>

locale heap_order =
  fixes R :: "'a \<Rightarrow> 'a \<Rightarrow> bool"
  assumes R_trans: "R x y \<Longrightarrow> R y z \<Longrightarrow> R x z"
    and R_total: "R x y \<or> R y x"
begin

lemma R_refl: "R x x"
  using R_total [of x x] by simp

lemma heap_root:
  assumes "heap_above R n 0 a" "k < n"
  shows "R (a ! 0) (a ! k)"
  using assms(2)
proof (induction k rule: less_induct)
  case (less k)
  show ?case
  proof (cases "k = 0")
    case True
    then show ?thesis by (simp add: R_refl)
  next
    case False
    then have "R (a ! 0) (a ! par k)" "R (a ! par k) (a ! k)"
      using less assms(1) by (auto simp: heap_above_def intro: less_trans [OF par_less])
    then show ?thesis by (rule R_trans)
  qed
qed

lemma down_step:
  assumes ok: "down_ok R n m i a" and n: "n \<le> length a" and j: "0 < j" "j < n" "par j = i" and m: "m \<le> i"
    and less: "R (a ! j) (a ! i)" and least: "\<And>c. 0 < c \<Longrightarrow> c < n \<Longrightarrow> par c = i \<Longrightarrow> R (a ! j) (a ! c)"
  shows "down_ok R n m j (swap_at a i j)"
proof -
  have ij: "i < j" "i < length a" "j < length a" using j n par_less [of j] by auto
  have ok1: "\<And>k. 0 < k \<Longrightarrow> k < n \<Longrightarrow> m \<le> par k \<Longrightarrow> par k \<noteq> i \<Longrightarrow> R (a ! par k) (a ! k)"
    and ok2: "\<And>k. 0 < k \<Longrightarrow> k < n \<Longrightarrow> par k = i \<Longrightarrow> 0 < i \<Longrightarrow> m \<le> par i \<Longrightarrow> R (a ! par i) (a ! k)"
    using ok by (auto simp: down_ok_def)
  have nth: "swap_at a i j ! k = (if k = i then a ! j else if k = j then a ! i else a ! k)" if "k < n" for k
    using that ij n by (simp add: swap_at_nth)
  have par_n: "par k < n" if "0 < k" "k < n" for k using that par_less [of k] by linarith
  show ?thesis
    unfolding down_ok_def
  proof (intro conjI allI impI; elim conjE)
    fix k assume k: "0 < k" "k < n" "m \<le> par k" "par k \<noteq> j"
    then show "R (swap_at a i j ! par k) (swap_at a i j ! k)"
      using ok1 [of k] ok2 [of j] least [of k] less ij j nth [of k] nth [of "par k"] par_n [of k]
      by (cases "par k = i"; cases "k = i") (auto simp: R_refl)
  next
    fix k assume k: "0 < k" "k < n" "par k = j" "0 < j" "m \<le> par j"
    then show "R (swap_at a i j ! par j) (swap_at a i j ! k)"
      using ok1 [of k] ij j m nth [of k] nth [of i] par_less [of k] by auto
  qed
qed

lemma down_done:
  assumes "down_ok R n m i a" "\<And>c. 0 < c \<Longrightarrow> c < n \<Longrightarrow> par c = i \<Longrightarrow> R (a ! i) (a ! c)"
  shows "heap_above R n m a"
  using assms by (auto simp: down_ok_def heap_above_def)

lemma up_step:
  assumes ok: "up_ok R n j a" and n: "n \<le> length a" and j: "0 < j" "j < n" and less: "R (a ! j) (a ! par j)"
  shows "up_ok R n (par j) (swap_at a (par j) j)"
proof -
  have ij: "par j < j" "par j < length a" "j < length a" using j n par_less [OF j(1)] by linarith+
  have ok1: "\<And>k. 0 < k \<Longrightarrow> k < n \<Longrightarrow> k \<noteq> j \<Longrightarrow> R (a ! par k) (a ! k)"
    and ok2: "\<And>k. 0 < k \<Longrightarrow> k < n \<Longrightarrow> par k = j \<Longrightarrow> R (a ! par j) (a ! k)"
    using ok j by (auto simp: up_ok_def)
  have nth: "swap_at a (par j) j ! k = (if k = par j then a ! j else if k = j then a ! par j else a ! k)"
    if "k < n" for k
    using that ij n by (simp add: swap_at_nth)
  have par_n: "par k < n" if "0 < k" "k < n" for k using that par_less [of k] by linarith
  show ?thesis
    unfolding up_ok_def
  proof (intro conjI allI impI; elim conjE)
    fix k assume k: "0 < k" "k < n" "k \<noteq> par j"
    then show "R (swap_at a (par j) j ! par k) (swap_at a (par j) j ! k)"
      using ok1 [of k] ok2 [of k] less ij j nth [of k] nth [of "par k"] par_n [of k] R_trans [of "a ! j" "a ! par j" "a ! k"]
      by (cases "k = j"; cases "par k = par j"; cases "par k = j") auto
  next
    fix k assume k: "0 < k" "k < n" "par k = par j" "0 < par j"
    have pp: "par (par j) < par j" "par j < j" "par (par j) < n" using par_less [OF k(4)] par_less [OF j(1)] j by linarith+
    have up: "R (a ! par (par j)) (a ! par j)" using ok1 [of "par j"] k(4) pp j by simp
    show "R (swap_at a (par j) j ! par (par j)) (swap_at a (par j) j ! k)"
    proof (cases "k = j")
      case True
      then show ?thesis using up pp nth [OF pp(3)] nth [OF j(2)] by simp
    next
      case False
      then have "R (a ! par j) (a ! k)" using ok1 [of k] k by simp
      then have "R (a ! par (par j)) (a ! k)" using up R_trans by blast
      moreover have "k \<noteq> par j" using k par_less [OF k(4)] by auto
      ultimately show ?thesis using False pp nth [OF pp(3)] nth [OF k(2)] by simp
    qed
  qed
qed

lemma up_done:
  assumes "up_ok R n j a" "j = 0 \<or> R (a ! par j) (a ! j)"
  shows "heap_above R n 0 a"
  using assms by (auto simp: up_ok_def heap_above_def)

lemma heap_up_ok:
  assumes "heap_above R n 0 a"
  shows "up_ok R n j a"
proof -
  have "R (a ! par j) (a ! k)" if k: "0 < k" "k < n" "par k = j" "0 < j" for k
  proof -
    have "R (a ! par j) (a ! j)" "R (a ! j) (a ! k)"
      using assms k par_less [OF k(1)] by (auto simp: heap_above_def)
    then show ?thesis by (rule R_trans)
  qed
  with assms show ?thesis by (auto simp: up_ok_def heap_above_def)
qed

text \<open>A heap with the element at \<open>i\<close> replaced can be repaired: downwards when the new element is
  not too small for its parent, upwards when it is not too large for its children.\<close>

lemma replace_down_ok:
  assumes "heap_above R n 0 a" "i < n" "n \<le> length a" "i = 0 \<or> R (a ! par i) x"
  shows "down_ok R n 0 i (a[i := x])"
  unfolding down_ok_def
proof (intro conjI allI impI; elim conjE)
  fix k assume k: "0 < k" "k < n" "par k \<noteq> i"
  with assms show "R (a[i := x] ! par k) (a[i := x] ! k)"
    by (cases "k = i") (auto simp: heap_above_def)
next
  fix k assume k: "0 < k" "k < n" "par k = i" "0 < i"
  then have "R (a ! par i) (a ! i)" "R (a ! i) (a ! k)" "k \<noteq> i" "par i \<noteq> i"
    using assms par_less [of i] par_less [of k] by (auto simp: heap_above_def simp del: par_less)
  then show "R (a[i := x] ! par i) (a[i := x] ! k)" by (auto intro: R_trans)
qed

lemma replace_up_ok:
  assumes "heap_above R n 0 a" "i < n" "n \<le> length a" "\<And>c. 0 < c \<Longrightarrow> c < n \<Longrightarrow> par c = i \<Longrightarrow> R x (a ! c)"
  shows "up_ok R n i (a[i := x])"
  unfolding up_ok_def
proof (intro conjI allI impI; elim conjE)
  fix k assume k: "0 < k" "k < n" "k \<noteq> i"
  with assms show "R (a[i := x] ! par k) (a[i := x] ! k)"
    by (cases "par k = i") (auto simp: heap_above_def)
next
  fix k assume k: "0 < k" "k < n" "par k = i" "0 < i"
  then have "R (a ! par i) (a ! i)" "R (a ! i) (a ! k)" "k \<noteq> i" "par i \<noteq> i"
    using assms par_less [of i] par_less [of k] by (auto simp: heap_above_def simp del: par_less)
  then show "R (a[i := x] ! par i) (a[i := x] ! k)" by (auto intro: R_trans)
qed

end

end
