(* ===== verification/Process_Heap.thy ===== *)
theory Process_Heap
  imports Go_Prelude Array_Heap
begin

text \<open>
  The bounded min-heap of processes of \<^verbatim>\<open>sampler/heap.go\<close>, with the functions of
  \<^verbatim>\<open>container/heap\<close> it calls and the sort it brings along.

  A process is a value and the heap owns its copy; scores have any type with a comparison, which need not be an order, as that of
  float64 with its not-a-numbers is none. The mutex is part of the state: \<^verbatim>\<open>Len\<close> takes a read lock, so it blocks
  forever in a goroutine that holds the write lock. What runs between \<^verbatim>\<open>Lock\<close> and \<^verbatim>\<open>Unlock\<close>
  is a definition of its own (\<open>Update_body\<close>, \<open>Remove_body\<close>); the code runs it only with the lock held.

  The property is about the operations as the code runs them: the heap of the sampler never fills. The lemmas on the bodies
  without the lock, for scores of a linear order, say what the algorithm of \<^verbatim>\<open>container/heap\<close> would do without
  the call of \<^verbatim>\<open>Len\<close>.
\<close>

section \<open>State\<close>

record 'f ProcessInfo =
  PID :: int
  ProcName :: string
  Command :: string
  CPU :: 'f
  RSS :: int
  StartTime :: time
  Score :: 'f

record 'f ProcessHeap =
  processes :: "'f ProcessInfo list"
  pidMap :: "(int, nat) gomap"
  heap_mutex :: rwmutex
  maxSize :: int

text \<open>\<open>Panics\<close>: \<^verbatim>\<open>make\<close> with a negative capacity.\<close>

definition NewProcessHeap :: "int \<Rightarrow> 'f ProcessHeap outcome" where
  "NewProcessHeap cap =
     (if cap < 0 then Panics
      else Returns \<lparr>processes = [], pidMap = [], heap_mutex = Unlocked, maxSize = cap\<rparr>)"

section \<open>The interface \<^verbatim>\<open>container/heap\<close> calls\<close>

definition Len :: "'f ProcessHeap \<Rightarrow> nat outcome" where
  "Len h = (case heap_mutex h of WriteLocked \<Rightarrow> Blocks | Unlocked \<Rightarrow> Returns (length (processes h)))"

definition Less :: "('f::ord) ProcessHeap \<Rightarrow> nat \<Rightarrow> nat \<Rightarrow> bool" where
  "Less h i j \<longleftrightarrow> Score (processes h ! i) < Score (processes h ! j)"

definition Swap :: "'f ProcessHeap \<Rightarrow> nat \<Rightarrow> nat \<Rightarrow> 'f ProcessHeap" where
  "Swap h i j =
     (let ps = swap_at (processes h) i j in
      h\<lparr>processes := ps,
        pidMap := AList.update (PID (ps ! j)) j (AList.update (PID (ps ! i)) i (pidMap h))\<rparr>)"

definition Push :: "'f ProcessHeap \<Rightarrow> 'f ProcessInfo \<Rightarrow> 'f ProcessHeap" where
  "Push h process =
     (let ps = processes h @ [process] in
      h\<lparr>processes := ps, pidMap := AList.update (PID process) (length ps - 1) (pidMap h)\<rparr>)"

definition Pop :: "'f ProcessHeap \<Rightarrow> 'f ProcessHeap \<times> 'f ProcessInfo" where
  "Pop h =
     (let old = processes h; n = length old; process = old ! (n - 1) in
      (h\<lparr>processes := take (n - 1) old, pidMap := AList.delete (PID process) (pidMap h)\<rparr>, process))"

section \<open>\<^verbatim>\<open>container/heap\<close>\<close>

function up :: "('f::ord) ProcessHeap \<Rightarrow> nat \<Rightarrow> 'f ProcessHeap" where
  "up h j = (let i = par j in if i = j \<or> \<not> Less h j i then h else up (Swap h i j) i)"
  by pat_completeness auto
termination
  by (relation "measure snd") (auto simp: par_def)

function down_loop :: "('f::ord) ProcessHeap \<Rightarrow> nat \<Rightarrow> nat \<Rightarrow> 'f ProcessHeap \<times> nat" where
  "down_loop h i n =
     (let j1 = 2 * i + 1 in
      if n \<le> j1 then (h, i)
      else let j = (if j1 + 1 < n \<and> Less h (j1 + 1) j1 then j1 + 1 else j1) in
           if \<not> Less h j i then (h, i) else down_loop (Swap h i j) j n)"
  by pat_completeness auto
termination
  by (relation "measure (\<lambda>(h, i, n). n - i)") auto

declare up.simps [simp del] down_loop.simps [simp del]

definition down :: "('f::ord) ProcessHeap \<Rightarrow> nat \<Rightarrow> nat \<Rightarrow> 'f ProcessHeap \<times> bool" where
  "down h i0 n = (let (h1, i) = down_loop h i0 n in (h1, i0 < i))"

definition heap_Push :: "('f::ord) ProcessHeap \<Rightarrow> 'f ProcessInfo \<Rightarrow> 'f ProcessHeap outcome" where
  "heap_Push h x = (let h1 = Push h x in and_then (Len h1) (\<lambda>l. Returns (up h1 (l - 1))))"

definition heap_Pop :: "('f::ord) ProcessHeap \<Rightarrow> ('f ProcessHeap \<times> 'f ProcessInfo) outcome" where
  "heap_Pop h =
     and_then (Len h) (\<lambda>l. if l = 0 then Panics
       else let n = l - 1 in Returns (Pop (fst (down (Swap h 0 n) 0 n))))"

definition heap_Remove :: "('f::ord) ProcessHeap \<Rightarrow> nat \<Rightarrow> ('f ProcessHeap \<times> 'f ProcessInfo) outcome" where
  "heap_Remove h i =
     and_then (Len h) (\<lambda>l. if l \<le> i then Panics
       else let n = l - 1 in
            if n \<noteq> i then
              let (h1, moved) = down (Swap h i n) i n in
              Returns (Pop (if moved then h1 else up h1 i))
            else Returns (Pop h))"

definition heap_Fix :: "('f::ord) ProcessHeap \<Rightarrow> nat \<Rightarrow> 'f ProcessHeap outcome" where
  "heap_Fix h i =
     and_then (Len h) (\<lambda>n. if n \<le> i \<and> 0 < i then Panics
       else let (h1, moved) = down h i n in Returns (if moved then h1 else up h1 i))"

section \<open>The operations of the sampler\<close>

definition with_lock :: "'f ProcessHeap \<Rightarrow> ('f ProcessHeap \<Rightarrow> ('f ProcessHeap \<times> 'r) outcome) \<Rightarrow>
    ('f ProcessHeap \<times> 'r) outcome" where
  "with_lock h body =
     (case heap_mutex h of
        WriteLocked \<Rightarrow> Blocks
      | Unlocked \<Rightarrow>
          and_then (body (h\<lparr>heap_mutex := WriteLocked\<rparr>)) (\<lambda>(h1, r). Returns (h1\<lparr>heap_mutex := Unlocked\<rparr>, r)))"

definition Contains :: "'f ProcessHeap \<Rightarrow> int \<Rightarrow> bool outcome" where
  "Contains h pid =
     (case heap_mutex h of WriteLocked \<Rightarrow> Blocks | Unlocked \<Rightarrow> Returns (map_of (pidMap h) pid \<noteq> None))"

definition Update_body ::
    "('f::ord) ProcessInfo \<Rightarrow> 'f ProcessHeap \<Rightarrow> ('f ProcessHeap \<times> bool) outcome" where
  "Update_body process h =
     (case map_of (pidMap h) (PID process) of
        None \<Rightarrow>
          (if int (length (processes h)) < maxSize h
           then and_then (heap_Push h process) (\<lambda>h1. Returns (h1, True))
           else if 0 < length (processes h) \<and> Score (processes h ! 0) < Score process
           then and_then (heap_Pop h) (\<lambda>(h1, _).
                  and_then (heap_Push h1 process) (\<lambda>h2. Returns (h2, True)))
           else Returns (h, False))
      | Some idx \<Rightarrow>
          (if length (processes h) \<le> idx then Panics
           else let p = (processes h ! idx)\<lparr>Score := Score process, CPU := CPU process, RSS := RSS process,
                      Command := Command process, ProcName := ProcName process\<rparr>
                in and_then (heap_Fix (h\<lparr>processes := (processes h)[idx := p]\<rparr>) idx) (\<lambda>h1. Returns (h1, True))))"

definition Update :: "('f::ord) ProcessHeap \<Rightarrow> 'f ProcessInfo \<Rightarrow> ('f ProcessHeap \<times> bool) outcome" where
  "Update h process = with_lock h (Update_body process)"

definition Remove_body :: "int \<Rightarrow> ('f::ord) ProcessHeap \<Rightarrow> ('f ProcessHeap \<times> bool) outcome" where
  "Remove_body pid h =
     (case map_of (pidMap h) pid of
        None \<Rightarrow> Returns (h, False)
      | Some idx \<Rightarrow> and_then (heap_Remove h idx) (\<lambda>(h1, _). Returns (h1, True)))"

definition Remove :: "('f::ord) ProcessHeap \<Rightarrow> int \<Rightarrow> ('f ProcessHeap \<times> bool) outcome" where
  "Remove h pid = with_lock h (Remove_body pid)"

section \<open>The sort\<close>

definition sort_Less :: "('f::ord) ProcessInfo list \<Rightarrow> nat \<Rightarrow> nat \<Rightarrow> bool" where
  "sort_Less ps i j \<longleftrightarrow> Score (ps ! j) < Score (ps ! i)"

function heapify :: "('f::ord) ProcessInfo list \<Rightarrow> nat \<Rightarrow> nat \<Rightarrow> 'f ProcessInfo list" where
  "heapify ps n i =
     (let left = 2 * i + 1; right = 2 * i + 2;
          largest1 = (if left < n \<and> sort_Less ps left i then left else i);
          largest = (if right < n \<and> sort_Less ps right largest1 then right else largest1)
      in if largest \<noteq> i then heapify (swap_at ps i largest) n largest else ps)"
  by pat_completeness auto
termination
  by (relation "measure (\<lambda>(ps, n, i). n - i)") (auto simp: Let_def split: if_splits)

declare heapify.simps [simp del]

fun build_loop :: "('f::ord) ProcessInfo list \<Rightarrow> nat \<Rightarrow> nat \<Rightarrow> 'f ProcessInfo list" where
  "build_loop ps n 0 = ps"
| "build_loop ps n (Suc i) = build_loop (heapify ps n i) n i"

fun extract_loop :: "('f::ord) ProcessInfo list \<Rightarrow> nat \<Rightarrow> 'f ProcessInfo list" where
  "extract_loop ps 0 = ps"
| "extract_loop ps (Suc i) = extract_loop (heapify (swap_at ps 0 i) i 0) i"

definition Sort :: "('f::ord) ProcessInfo list \<Rightarrow> 'f ProcessInfo list" where
  "Sort ps = (let n = length ps in extract_loop (build_loop ps n (n div 2)) n)"

definition TopN :: "('f::ord) ProcessHeap \<Rightarrow> int \<Rightarrow> 'f ProcessInfo list outcome" where
  "TopN h n =
     (case heap_mutex h of
        WriteLocked \<Rightarrow> Blocks
      | Unlocked \<Rightarrow>
          (let ps = Sort (processes h);
               m = (if int (length ps) < n then int (length ps) else n)
           in if m < 0 then Panics else Returns (take (nat m) ps)))"

section \<open>Invariant\<close>

definition score_le :: "('f::linorder) ProcessInfo \<Rightarrow> 'f ProcessInfo \<Rightarrow> bool" where
  "score_le p q \<longleftrightarrow> Score p \<le> Score q"

definition score_ge :: "('f::linorder) ProcessInfo \<Rightarrow> 'f ProcessInfo \<Rightarrow> bool" where
  "score_ge p q \<longleftrightarrow> Score q \<le> Score p"

definition pid_inv :: "'f ProcessHeap \<Rightarrow> bool" where
  "pid_inv h \<longleftrightarrow> (\<forall>pid i. map_of (pidMap h) pid = Some i \<longleftrightarrow> i < length (processes h) \<and> PID (processes h ! i) = pid)"

definition heap_inv :: "('f::linorder) ProcessHeap \<Rightarrow> bool" where
  "heap_inv h \<longleftrightarrow> heap_above score_le (length (processes h)) 0 (processes h) \<and> pid_inv h"

text \<open>A sequence of updates, as the sampler makes them in one scan.\<close>

fun updates :: "('f::linorder) ProcessInfo list \<Rightarrow> 'f ProcessHeap \<Rightarrow> 'f ProcessHeap outcome" where
  "updates [] h = Returns h"
| "updates (p # ps) h = and_then (Update_body p h) (\<lambda>(h1, _). updates ps h1)"

text \<open>A sequence of calls of the operations with their mutex.\<close>

datatype 'f heap_call = CallUpdate "'f ProcessInfo" | CallRemove int

fun heap_run :: "('f::ord) heap_call list \<Rightarrow> 'f ProcessHeap \<Rightarrow> 'f ProcessHeap outcome" where
  "heap_run [] h = Returns h"
| "heap_run (CallUpdate p # calls) h = and_then (Update h p) (\<lambda>(h1, _). heap_run calls h1)"
| "heap_run (CallRemove pid # calls) h = and_then (Remove h pid) (\<lambda>(h1, _). heap_run calls h1)"

text \<open>What a sift keeps: the processes as a multiset, the bound, the lock and the index map.\<close>

definition kept :: "'f ProcessHeap \<Rightarrow> 'f ProcessHeap \<Rightarrow> bool" where
  "kept h h' \<longleftrightarrow> mset (processes h') = mset (processes h) \<and> maxSize h' = maxSize h \<and>
     heap_mutex h' = heap_mutex h \<and> (pid_inv h \<longrightarrow> pid_inv h')"

text \<open>One step of \<open>down_loop\<close>: which child it looks at.\<close>

definition least_child :: "('f::linorder) ProcessHeap \<Rightarrow> nat \<Rightarrow> nat \<Rightarrow> nat" where
  "least_child h i n = (if 2 * i + 2 < n \<and> Less h (2 * i + 2) (2 * i + 1) then 2 * i + 2 else 2 * i + 1)"

text \<open>Concrete processes and a heap that tracks two of them.\<close>

definition example_process :: "int \<Rightarrow> int \<Rightarrow> int ProcessInfo" where
  "example_process pid score =
     \<lparr>PID = pid, ProcName = ''nginx'', Command = ''nginx -g'', CPU = 1, RSS = 4096, StartTime = 0, Score = score\<rparr>"

definition example_heap :: "int ProcessHeap" where
  "example_heap =
     \<lparr>processes = [example_process 10 5, example_process 11 7], pidMap = [(10, 0), (11, 1)],
      heap_mutex = Unlocked, maxSize = 2\<rparr>"

text \<open>The child that \<open>heapify\<close> swaps with, or the index itself.\<close>

definition largest_of :: "('f::linorder) ProcessInfo list \<Rightarrow> nat \<Rightarrow> nat \<Rightarrow> nat" where
  "largest_of ps n i =
     (let l = (if 2 * i + 1 < n \<and> sort_Less ps (2 * i + 1) i then 2 * i + 1 else i) in
      if 2 * i + 2 < n \<and> sort_Less ps (2 * i + 2) l then 2 * i + 2 else l)"

section \<open>Lemmas\<close>

interpretation le_heap: heap_order score_le
  by unfold_locales (auto simp: score_le_def)

interpretation ge_heap: heap_order score_ge
  by unfold_locales (auto simp: score_ge_def)

lemma kept_refl: "kept h h"
  by (simp add: kept_def)

lemma kept_trans: "kept h1 h2 \<Longrightarrow> kept h2 h3 \<Longrightarrow> kept h1 h3"
  by (auto simp: kept_def)

lemma kept_length: "kept h h' \<Longrightarrow> length (processes h') = length (processes h)"
  by (auto simp: kept_def dest: mset_eq_length)

lemma pid_inv_inj:
  assumes "pid_inv h" "i < length (processes h)" "j < length (processes h)"
    "PID (processes h ! i) = PID (processes h ! j)"
  shows "i = j"
proof -
  have "map_of (pidMap h) (PID (processes h ! k)) = Some k" if "k < length (processes h)" for k
    using that iffD2 [OF assms(1) [unfolded pid_inv_def, rule_format]] by simp
  from this [OF assms(2)] this [OF assms(3)] have "Some i = Some j"
    unfolding assms(4) by (rule trans [OF sym])
  then show ?thesis by simp
qed

lemma Swap_fields [simp]:
  "processes (Swap h i j) = swap_at (processes h) i j"
  "maxSize (Swap h i j) = maxSize h" "heap_mutex (Swap h i j) = heap_mutex h"
  by (simp_all add: Swap_def Let_def)

lemma Swap_pid_inv:
  assumes inv: "pid_inv h" and ij: "i < length (processes h)" "j < length (processes h)"
  shows "pid_inv (Swap h i j)"
proof -
  let ?ps = "processes h"
  have nth: "swap_at ?ps i j ! k = (if k = i then ?ps ! j else if k = j then ?ps ! i else ?ps ! k)"
    if "k < length ?ps" for k
    using that ij by (simp add: swap_at_nth)
  have "map_of (pidMap (Swap h i j)) = (map_of (pidMap h))(PID (?ps ! j) \<mapsto> i, PID (?ps ! i) \<mapsto> j)"
    using nth [of i] nth [of j] ij by (auto simp: Swap_def Let_def gomap_simps)
  moreover have "map_of (pidMap h) pid = Some k \<longleftrightarrow> k < length ?ps \<and> PID (?ps ! k) = pid" for pid k
    using inv by (simp add: pid_inv_def)
  ultimately show ?thesis
    using pid_inv_inj [OF inv] ij nth
    by (auto simp: pid_inv_def split: if_splits)
qed

lemma Swap_kept: "i < length (processes h) \<Longrightarrow> j < length (processes h) \<Longrightarrow> kept h (Swap h i j)"
  by (simp add: kept_def Swap_pid_inv)

lemma up_correct:
  assumes "up_ok score_le n j (processes h)" "j < n" "n \<le> length (processes h)"
  shows "kept h (up h j) \<and> heap_above score_le n 0 (processes (up h j)) \<and>
    (\<forall>k \<ge> n. k < length (processes h) \<longrightarrow> processes (up h j) ! k = processes h ! k)"
  using assms
proof (induction h j rule: up.induct)
  case (1 h j)
  show ?case
  proof (cases "par j = j \<or> \<not> Less h j (par j)")
    case True
    then have "j = 0 \<or> score_le (processes h ! par j) (processes h ! j)"
      using par_less [of j] by (auto simp: Less_def score_le_def)
    then have "heap_above score_le n 0 (processes h)" by (rule le_heap.up_done [OF "1.prems"(1)])
    moreover have "up h j = h" using True by (subst up.simps) (simp add: Let_def)
    ultimately show ?thesis by (simp add: kept_refl)
  next
    case False
    have j0: "0 < j" using False by (cases j) auto
    then have j: "par j < n" "par j < length (processes h)" "j < length (processes h)"
      using "1.prems"(2,3) par_less [OF j0] by linarith+
    have less: "score_le (processes h ! j) (processes h ! par j)"
      using False by (auto simp: Less_def score_le_def)
    have ok: "up_ok score_le n (par j) (processes (Swap h (par j) j))"
      unfolding Swap_fields by (rule le_heap.up_step [OF "1.prems"(1,3) j0 "1.prems"(2) less])
    have "up h j = up (Swap h (par j) j) (par j)"
      using False by (subst up.simps) (simp add: Let_def)
    moreover have "kept (Swap h (par j) j) (up (Swap h (par j) j) (par j)) \<and>
        heap_above score_le n 0 (processes (up (Swap h (par j) j) (par j))) \<and>
        (\<forall>k \<ge> n. k < length (processes h) \<longrightarrow>
           processes (up (Swap h (par j) j) (par j)) ! k = processes (Swap h (par j) j) ! k)"
      using "1.IH" [OF refl False] ok j(1) "1.prems"(3) by simp
    moreover have "processes (Swap h (par j) j) ! k = processes h ! k" if "n \<le> k" "k < length (processes h)" for k
      using that j "1.prems"(2) by (simp add: swap_at_nth)
    ultimately show ?thesis
      using Swap_kept [OF j(2,3)] by (auto intro: kept_trans)
  qed
qed

lemma down_loop_unfold:
  "down_loop h i n =
     (if n \<le> 2 * i + 1 \<or> \<not> Less h (least_child h i n) i then (h, i)
      else down_loop (Swap h i (least_child h i n)) (least_child h i n) n)"
  by (subst down_loop.simps) (simp add: least_child_def Let_def)

lemma least_child:
  assumes "2 * i + 1 < n"
  shows "0 < least_child h i n" "least_child h i n < n" "par (least_child h i n) = i" "i < least_child h i n"
  using assms by (simp_all add: least_child_def par_def)

lemma least_child_le:
  assumes "2 * i + 1 < n" "0 < c" "c < n" "par c = i"
  shows "score_le (processes h ! least_child h i n) (processes h ! c)"
proof -
  have "c = 2 * i + 1 \<or> c = 2 * i + 2" using assms(2,4) by (simp add: par_eq_iff)
  then show ?thesis
    using assms(1,3) by (elim disjE) (auto simp: least_child_def Less_def score_le_def)
qed

lemma down_loop_correct:
  assumes "down_ok score_le n m i (processes h)" "n \<le> length (processes h)" "m \<le> i" "i < length (processes h)"
  shows "kept h (fst (down_loop h i n)) \<and> heap_above score_le n m (processes (fst (down_loop h i n))) \<and>
    (\<forall>k \<ge> n. k < length (processes h) \<longrightarrow> k \<noteq> i \<longrightarrow> processes (fst (down_loop h i n)) ! k = processes h ! k) \<and>
    i \<le> snd (down_loop h i n)"
  using assms
proof (induction h i n rule: down_loop.induct)
  case (1 h i n)
  let ?j = "least_child h i n"
  show ?case
  proof (cases "n \<le> 2 * i + 1 \<or> \<not> Less h ?j i")
    case True
    have "score_le (processes h ! i) (processes h ! c)" if c: "0 < c" "c < n" "par c = i" for c
    proof -
      have n: "2 * i + 1 < n" using c by (auto simp: par_eq_iff)
      then have "score_le (processes h ! i) (processes h ! ?j)"
        using True by (auto simp: Less_def score_le_def)
      then show ?thesis using least_child_le [OF n c] by (rule le_heap.R_trans)
    qed
    then have "heap_above score_le n m (processes h)" by (rule le_heap.down_done [OF "1.prems"(1)])
    moreover have "down_loop h i n = (h, i)" using True by (subst down_loop_unfold) simp
    ultimately show ?thesis by (simp add: kept_refl)
  next
    case False
    then have n: "2 * i + 1 < n" by simp
    note j = least_child [where h = h, OF n]
    have less: "score_le (processes h ! ?j) (processes h ! i)"
      using False by (auto simp: Less_def score_le_def)
    have ok: "down_ok score_le n m ?j (processes (Swap h i ?j))"
      unfolding Swap_fields by (rule le_heap.down_step [OF "1.prems"(1,2) j(1-3) "1.prems"(3) less least_child_le [OF n]])
    have eq: "down_loop h i n = down_loop (Swap h i ?j) ?j n"
      using False by (subst down_loop_unfold) simp
    have "?j = (if 2 * i + 1 + 1 < n \<and> Less h (2 * i + 1 + 1) (2 * i + 1) then 2 * i + 1 + 1 else 2 * i + 1)"
      by (simp add: least_child_def)
    note IH = "1.IH" [OF refl _ this]
    have "kept (Swap h i ?j) (fst (down_loop h i n)) \<and> heap_above score_le n m (processes (fst (down_loop h i n))) \<and>
      (\<forall>k \<ge> n. k < length (processes h) \<longrightarrow> k \<noteq> ?j \<longrightarrow>
         processes (fst (down_loop h i n)) ! k = processes (Swap h i ?j) ! k) \<and> ?j \<le> snd (down_loop h i n)"
      unfolding eq using IH False ok j "1.prems" by simp
    moreover have "kept h (Swap h i ?j)"
      using j "1.prems" by (intro Swap_kept) simp_all
    moreover have "processes (Swap h i ?j) ! k = processes h ! k" if "n \<le> k" "k < length (processes h)" "k \<noteq> i" for k
      using that j "1.prems" by (simp add: swap_at_nth)
    ultimately show ?thesis using j by (auto intro: kept_trans)
  qed
qed

lemma down_loop_stop:
  assumes "\<And>c. 0 < c \<Longrightarrow> c < n \<Longrightarrow> par c = i \<Longrightarrow> score_le (processes h ! i) (processes h ! c)"
  shows "down_loop h i n = (h, i)"
proof (cases "n \<le> 2 * i + 1")
  case True
  then show ?thesis by (subst down_loop_unfold) simp
next
  case False
  then have "score_le (processes h ! i) (processes h ! least_child h i n)"
    using least_child [of i n h] by (intro assms) auto
  then show ?thesis by (subst down_loop_unfold) (auto simp: Less_def score_le_def)
qed

text \<open>Both sifts together repair a heap in which one element was replaced.\<close>

lemma sift_correct:
  assumes heap: "heap_above score_le n 0 a" and i: "i < n" "n \<le> length a" "n \<le> length (processes h)"
    and eq: "\<And>k. k < n \<Longrightarrow> a[i := x] ! k = processes h ! k"
    and h2: "h2 = (let (h1, moved) = down h i n in if moved then h1 else up h1 i)"
  shows "kept h h2 \<and> heap_above score_le n 0 (processes h2) \<and>
    (\<forall>k \<ge> n. k < length (processes h) \<longrightarrow> processes h2 ! k = processes h ! k)"
proof (cases "i = 0 \<or> score_le (a ! par i) x")
  case True
  obtain h1 j where dl: "down_loop h i n = (h1, j)" by (cases "down_loop h i n")
  have "down_ok score_le n 0 i (processes h)"
    using le_heap.replace_down_ok [OF heap i(1,2) True] by (rule down_ok_cong [rotated]) (rule eq)
  then have d: "kept h h1" "heap_above score_le n 0 (processes h1)"
    "\<forall>k \<ge> n. k < length (processes h) \<longrightarrow> processes h1 ! k = processes h ! k"
    using down_loop_correct [of n 0 i h] i dl by auto
  have "n \<le> length (processes h1)" using kept_length [OF d(1)] i by simp
  note u = up_correct [OF le_heap.heap_up_ok [OF d(2)] i(1) this]
  have "h2 = h1 \<or> h2 = up h1 i" by (simp add: h2 down_def dl)
  then show ?thesis
  proof
    assume "h2 = up h1 i"
    then show ?thesis using d u kept_length [OF d(1)] by (auto intro: kept_trans)
  qed (use d in simp)
next
  case False
  have "score_le x (a ! c)" if c: "0 < c" "c < n" "par c = i" for c
  proof -
    have "score_le (a ! par i) (a ! i)" "score_le (a ! i) (a ! c)"
      using heap c i False by (auto simp: heap_above_def)
    with False show ?thesis by (auto simp: score_le_def)
  qed
  then have up: "up_ok score_le n i (processes h)"
    using le_heap.replace_up_ok [OF heap i(1,2)] up_ok_cong [OF eq] by blast
  have "score_le (processes h ! i) (processes h ! c)" if c: "0 < c" "c < n" "par c = i" for c
    using \<open>\<And>c. 0 < c \<Longrightarrow> c < n \<Longrightarrow> par c = i \<Longrightarrow> score_le x (a ! c)\<close> [OF c] eq [OF i(1)] eq [OF c(2)] i
      par_less [OF c(1)] c(3) by auto
  then have "down_loop h i n = (h, i)" by (rule down_loop_stop)
  then have "h2 = up h i" by (simp add: h2 down_def)
  with up_correct [OF up i(1,3)] show ?thesis by simp
qed

lemma Pop_correct:
  assumes inv: "pid_inv h" and ne: "processes h \<noteq> []"
    and heap: "heap_above score_le (length (processes h) - 1) 0 (processes h)"
  shows "heap_inv (fst (Pop h))" "mset (processes h) = add_mset (snd (Pop h)) (mset (processes (fst (Pop h))))"
    "snd (Pop h) = last (processes h)" "maxSize (fst (Pop h)) = maxSize h" "heap_mutex (fst (Pop h)) = heap_mutex h"
proof -
  let ?ps = "processes h"
  let ?n = "length ?ps - 1"
  have ps: "processes (fst (Pop h)) = take ?n ?ps" and last: "snd (Pop h) = ?ps ! ?n"
    by (simp_all add: Pop_def Let_def)
  have split: "?ps = take ?n ?ps @ [?ps ! ?n]"
    using ne by (metis append_butlast_last_id butlast_conv_take last_conv_nth)
  show "mset ?ps = add_mset (snd (Pop h)) (mset (processes (fst (Pop h))))"
    unfolding ps last by (subst split) simp
  show "snd (Pop h) = last ?ps" using ne by (simp add: last last_conv_nth)
  show "maxSize (fst (Pop h)) = maxSize h" "heap_mutex (fst (Pop h)) = heap_mutex h"
    by (simp_all add: Pop_def Let_def)
  have "heap_above score_le ?n 0 (take ?n ?ps)"
    using heap by (subst heap_above_cong [where b = ?ps]) auto
  moreover have "map_of (pidMap (fst (Pop h))) pid = Some i \<longleftrightarrow> i < ?n \<and> PID (take ?n ?ps ! i) = pid" for pid i
  proof -
    have n: "?n < length ?ps" using ne by simp
    have "map_of (pidMap h) pid = Some i \<longleftrightarrow> i < length ?ps \<and> PID (?ps ! i) = pid"
      using inv by (simp add: pid_inv_def)
    then show ?thesis
      using pid_inv_inj [OF inv n, of i] n
      by (cases i ?n rule: linorder_cases) (auto simp: Pop_def Let_def gomap_simps)
  qed
  ultimately show "heap_inv (fst (Pop h))"
    using ne by (simp add: heap_inv_def pid_inv_def ps min_absorb2)
qed

lemma Push_pid_inv:
  assumes "pid_inv h" "map_of (pidMap h) (PID x) = None"
  shows "pid_inv (Push h x)"
proof -
  have old: "map_of (pidMap h) pid = Some i \<longleftrightarrow> i < length (processes h) \<and> PID (processes h ! i) = pid" for pid i
    using assms(1) by (simp add: pid_inv_def)
  have "PID (processes h ! i) \<noteq> PID x" if "i < length (processes h)" for i
    using old [of "PID x" i] assms(2) that by auto
  with old show ?thesis
    by (auto simp: pid_inv_def Push_def Let_def gomap_simps nth_append less_Suc_eq)
qed

lemma heap_Push_correct:
  assumes "heap_inv h" "heap_mutex h = Unlocked" "map_of (pidMap h) (PID x) = None"
  obtains h' where "heap_Push h x = Returns h'" "heap_inv h'" "mset (processes h') = add_mset x (mset (processes h))"
    "maxSize h' = maxSize h" "heap_mutex h' = Unlocked"
proof -
  let ?n = "length (processes h)"
  let ?h1 = "Push h x"
  have h1: "processes ?h1 = processes h @ [x]" "heap_mutex ?h1 = Unlocked" "maxSize ?h1 = maxSize h"
    using assms(2) by (simp_all add: Push_def Let_def)
  have "heap_above score_le ?n 0 (processes ?h1)"
    using assms(1) by (subst heap_above_cong [where b = "processes h"]) (auto simp: h1 heap_inv_def nth_append)
  then have "up_ok score_le (Suc ?n) ?n (processes ?h1)"
    by (auto simp: up_ok_def heap_above_def less_Suc_eq le_heap.R_refl dest: par_less)
  then have up: "kept ?h1 (up ?h1 ?n)" "heap_above score_le (Suc ?n) 0 (processes (up ?h1 ?n))"
    using up_correct [of "Suc ?n" ?n ?h1] by (simp_all add: h1)
  show thesis
  proof
    show "heap_Push h x = Returns (up ?h1 ?n)"
      by (simp add: heap_Push_def Len_def h1)
    show "heap_inv (up ?h1 ?n)"
      using up Push_pid_inv [OF _ assms(3)] assms(1) kept_length [OF up(1)]
      by (simp add: heap_inv_def kept_def h1)
  qed (use up h1 in \<open>simp_all add: kept_def\<close>)
qed

lemma heap_Pop_correct:
  assumes inv: "heap_inv h" and "heap_mutex h = Unlocked" and ne: "processes h \<noteq> []"
  obtains h' where "heap_Pop h = Returns (h', processes h ! 0)" "heap_inv h'"
    "mset (processes h) = add_mset (processes h ! 0) (mset (processes h'))"
    "maxSize h' = maxSize h" "heap_mutex h' = Unlocked"
proof -
  let ?n = "length (processes h) - 1"
  let ?h1 = "Swap h 0 ?n"
  let ?h2 = "fst (down_loop ?h1 0 ?n)"
  have n: "?n < length (processes h)" "0 < length (processes h)" using ne by simp_all
  have "down_ok score_le ?n 0 0 (processes ?h1)"
  proof (cases "?n = 0")
    case False
    have "heap_above score_le ?n 0 (processes h)" using inv by (auto simp: heap_inv_def heap_above_def)
    then have "down_ok score_le ?n 0 0 ((processes h)[0 := processes h ! ?n])"
      using False by (intro le_heap.replace_down_ok) auto
    then show ?thesis by (rule down_ok_cong [rotated]) (use n in \<open>simp add: swap_at_nth nth_list_update\<close>)
  qed (simp add: down_ok_def)
  then have d: "kept ?h1 ?h2" "heap_above score_le ?n 0 (processes ?h2)"
    "\<forall>k \<ge> ?n. k < length (processes h) \<longrightarrow> k \<noteq> 0 \<longrightarrow> processes ?h2 ! k = processes ?h1 ! k"
    using down_loop_correct [of ?n 0 0 ?h1] n by auto
  have k: "kept h ?h2" using Swap_kept [OF n(2,1)] d(1) by (rule kept_trans)
  then have len: "length (processes ?h2) = length (processes h)" by (rule kept_length)
  have "processes ?h2 ! ?n = processes h ! 0"
  proof (cases "?n = 0")
    case True
    then show ?thesis using down_loop_stop [of 0 0 ?h1] n by (simp add: swap_at_nth)
  next
    case False
    then show ?thesis using d(3) n by (simp add: swap_at_nth)
  qed
  then have last: "last (processes ?h2) = processes h ! 0"
    using len ne by (metis last_conv_nth length_0_conv)
  have "pid_inv ?h2" "processes ?h2 \<noteq> []" using k inv len ne by (auto simp: kept_def heap_inv_def)
  moreover have "heap_above score_le (length (processes ?h2) - 1) 0 (processes ?h2)" using d(2) by (simp only: len)
  ultimately have pop: "heap_inv (fst (Pop ?h2))"
    "mset (processes ?h2) = add_mset (snd (Pop ?h2)) (mset (processes (fst (Pop ?h2))))"
    "snd (Pop ?h2) = last (processes ?h2)" "maxSize (fst (Pop ?h2)) = maxSize ?h2"
    "heap_mutex (fst (Pop ?h2)) = heap_mutex ?h2"
    using Pop_correct [of ?h2] by blast+
  have ret: "heap_Pop h = Returns (Pop ?h2)"
    using assms(2) n by (simp add: heap_Pop_def Len_def down_def Let_def case_prod_beta)
  show thesis
    by (rule that [of "fst (Pop ?h2)"]) (use ret pop last k assms(2) in \<open>simp_all add: kept_def prod_eq_iff\<close>)
qed

lemma heap_Fix_correct:
  assumes "heap_above score_le (length a) 0 a" "i < length a" "processes h = a[i := x]" "heap_mutex h = Unlocked"
  obtains h' where "heap_Fix h i = Returns h'" "kept h h'" "heap_above score_le (length a) 0 (processes h')"
proof -
  let ?h' = "let (h1, moved) = down h i (length a) in if moved then h1 else up h1 i"
  have "kept h ?h' \<and> heap_above score_le (length a) 0 (processes ?h')"
    using sift_correct [OF assms(1,2), of h x ?h'] assms(3) by simp
  moreover have "heap_Fix h i = Returns ?h'"
    using assms(2-4) by (simp add: heap_Fix_def Len_def case_prod_beta)
  ultimately show thesis using that by blast
qed

lemma heap_Remove_correct:
  assumes inv: "heap_inv h" and "heap_mutex h = Unlocked" and i: "i < length (processes h)"
  obtains h' where "heap_Remove h i = Returns (h', processes h ! i)" "heap_inv h'"
    "mset (processes h) = add_mset (processes h ! i) (mset (processes h'))"
    "maxSize h' = maxSize h" "heap_mutex h' = Unlocked"
proof -
  let ?n = "length (processes h) - 1"
  define h2 where "h2 = (if ?n = i then h
    else let (h1, moved) = down (Swap h i ?n) i ?n in if moved then h1 else up h1 i)"
  have n: "?n < length (processes h)" using i by simp
  have heap: "heap_above score_le ?n 0 (processes h)" using inv by (auto simp: heap_inv_def heap_above_def)
  have h2: "kept h h2" "heap_above score_le ?n 0 (processes h2)" "processes h2 ! ?n = processes h ! i"
  proof -
    have "kept (Swap h i ?n) h2 \<and> heap_above score_le ?n 0 (processes h2) \<and>
        (\<forall>k \<ge> ?n. k < length (processes (Swap h i ?n)) \<longrightarrow> processes h2 ! k = processes (Swap h i ?n) ! k)"
      if "?n \<noteq> i"
      using that i n
      by (intro sift_correct [OF heap, of i _ "processes h ! ?n"])
        (auto simp: h2_def swap_at_nth nth_list_update)
    then have "kept h h2 \<and> heap_above score_le ?n 0 (processes h2) \<and> processes h2 ! ?n = processes h ! i"
      using i n heap Swap_kept [OF i n] by (cases "?n = i") (auto simp: h2_def kept_refl swap_at_nth intro: kept_trans)
    then show "kept h h2" "heap_above score_le ?n 0 (processes h2)" "processes h2 ! ?n = processes h ! i"
      by simp_all
  qed
  have len: "length (processes h2) = length (processes h)" by (rule kept_length [OF h2(1)])
  then have ne: "processes h2 \<noteq> []" using i by auto
  have last: "last (processes h2) = processes h ! i"
    using h2(3) len ne by (simp add: last_conv_nth)
  have "pid_inv h2" using h2(1) inv by (simp add: kept_def heap_inv_def)
  note pop = Pop_correct [OF this ne h2(2) [folded len]]
  have ret: "heap_Remove h i = Returns (Pop h2)"
    using assms(2) i by (simp add: heap_Remove_def Len_def h2_def Let_def case_prod_beta)
  show thesis
    by (rule that [of "fst (Pop h2)"]) (use ret pop last h2(1) assms(2) in \<open>simp_all add: kept_def prod_eq_iff\<close>)
qed

subsection \<open>Updates\<close>

lemma pid_inv_None: "pid_inv h \<Longrightarrow> map_of (pidMap h) pid = None \<longleftrightarrow> pid \<notin> PID ` set (processes h)"
  unfolding pid_inv_def not_Some_eq [symmetric] by (auto simp: in_set_conv_nth simp del: not_Some_eq dest: nth_mem)

lemma refresh_pid_inv:
  assumes "pid_inv h" "idx < length (processes h)" "PID p = PID (processes h ! idx)"
  shows "pid_inv (h\<lparr>processes := (processes h)[idx := p]\<rparr>)"
  using assms by (auto simp: pid_inv_def nth_list_update)

lemma Update_body_new:
  assumes "heap_inv h" "heap_mutex h = Unlocked" "PID p \<notin> PID ` set (processes h)"
  obtains h' b E where "Update_body p h = Returns (h', b)" "heap_inv h'" "heap_mutex h' = Unlocked"
    "maxSize h' = maxSize h" "mset (processes h') + E = add_mset p (mset (processes h))"
    "size E = (if int (length (processes h)) < maxSize h then 0 else 1)"
    "\<forall>d \<in># E. \<forall>r \<in> set (processes h'). Score d \<le> Score r"
proof -
  have new: "map_of (pidMap h) (PID p) = None"
    using assms(1,3) pid_inv_None by (auto simp: heap_inv_def)
  have root: "Score (processes h ! 0) \<le> Score r" if r: "r \<in> set (processes h)" for r
  proof -
    obtain k where "k < length (processes h)" "r = processes h ! k" using r by (auto simp: in_set_conv_nth)
    then show ?thesis
      using le_heap.heap_root [of "length (processes h)" "processes h" k] assms(1)
      by (simp add: heap_inv_def score_le_def)
  qed
  consider "int (length (processes h)) < maxSize h"
    | "maxSize h \<le> int (length (processes h))" "processes h \<noteq> []" "Score (processes h ! 0) < Score p"
    | "maxSize h \<le> int (length (processes h))" "processes h = [] \<or> Score p \<le> Score (processes h ! 0)"
    by fastforce
  then show thesis
  proof cases
    case 1
    obtain h' where "heap_Push h p = Returns h'" "heap_inv h'" "mset (processes h') = add_mset p (mset (processes h))"
      "maxSize h' = maxSize h" "heap_mutex h' = Unlocked"
      by (rule heap_Push_correct [OF assms(1,2) new])
    with 1 new show thesis by (intro that [of h' True "{#}"]) (simp_all add: Update_body_def)
  next
    case 2
    obtain h1 where h1: "heap_Pop h = Returns (h1, processes h ! 0)" "heap_inv h1"
      "mset (processes h) = add_mset (processes h ! 0) (mset (processes h1))"
      "maxSize h1 = maxSize h" "heap_mutex h1 = Unlocked"
      by (rule heap_Pop_correct [OF assms(1,2) 2(2)])
    have "set (processes h1) \<subseteq> set (processes h)" by (metis h1(3) set_mset_mset set_mset_add_mset_insert subset_insertI)
    moreover from this have "map_of (pidMap h1) (PID p) = None"
      using h1(2) assms(3) by (subst pid_inv_None) (auto simp: heap_inv_def)
    then obtain h' where h': "heap_Push h1 p = Returns h'" "heap_inv h'"
      "mset (processes h') = add_mset p (mset (processes h1))" "maxSize h' = maxSize h1" "heap_mutex h' = Unlocked"
      by (rule heap_Push_correct [OF h1(2,5)])
    moreover have "set (processes h') = insert p (set (processes h1))"
      using h'(3) by (metis set_mset_mset set_mset_add_mset_insert)
    ultimately show thesis
      using 2 h1 new root by (intro that [of h' True "{#processes h ! 0#}"]) (auto simp: Update_body_def less_imp_le)
  next
    case 3
    with assms new root show thesis
      by (intro that [of h False "{#p#}"]) (auto simp: Update_body_def intro: order_trans)
  qed
qed

text \<open>Invariant of a sequence of updates with processes not seen before; \<open>D\<close> are the processes
  dropped so far.\<close>

lemma dropped_step:
  fixes ps :: "('f::linorder) ProcessInfo list"
  assumes eq: "add_mset q (mset qs) = add_mset p (mset ps)" and q: "\<forall>r \<in> set qs. Score q \<le> Score r"
    and D: "\<forall>d \<in># D. \<forall>r \<in> set ps. Score d \<le> Score r"
  shows "\<forall>d \<in># add_mset q D. \<forall>r \<in> set qs. Score d \<le> Score r"
proof -
  have "Score d \<le> Score r" if d: "d \<in># D" and r: "r \<in> set qs" for d r
  proof (cases "r \<in> set ps")
    case False
    have sets: "insert q (set qs) = insert p (set ps)"
      using arg_cong [OF eq, of set_mset] by simp
    with False r have "r = p" by blast
    have "q \<in> set ps"
    proof (rule ccontr)
      assume "q \<notin> set ps"
      with sets have "q = p" by blast
      with eq have "mset qs = mset ps" by simp
      then have "set qs = set ps" by (rule mset_eq_setD)
      with False r show False by simp
    qed
    with D d have "Score d \<le> Score q" by blast
    also have "\<dots> \<le> Score r" using q r by blast
    finally show ?thesis .
  qed (use D d in blast)
  with q show ?thesis by auto
qed

lemma disjoint_insert_mono: "A \<subseteq> insert x B \<Longrightarrow> x \<notin> C \<Longrightarrow> C \<inter> B = {} \<Longrightarrow> C \<inter> A = {}"
  by blast

lemma updates_new:
  assumes "heap_inv h" "heap_mutex h = Unlocked" "int (length (processes h)) \<le> maxSize h"
    "distinct (map PID ps)" "PID ` set ps \<inter> PID ` set (processes h) = {}"
    "\<forall>d \<in># D. \<forall>r \<in> set (processes h). Score d \<le> Score r" "D \<noteq> {#} \<longrightarrow> int (length (processes h)) = maxSize h"
  shows "\<exists>h' D'. updates ps h = Returns h' \<and> heap_inv h' \<and>
    mset (processes h) + D + mset ps = mset (processes h') + D' \<and>
    (\<forall>d \<in># D'. \<forall>r \<in> set (processes h'). Score d \<le> Score r) \<and>
    int (length (processes h')) = min (maxSize h) (int (length (processes h) + length ps))"
  using assms
proof (induction ps arbitrary: h D)
  case Nil
  then show ?case by (intro exI [of _ h] exI [of _ D]) simp
next
  case (Cons p ps)
  have "PID p \<notin> PID ` set (processes h)" using Cons.prems(5) by auto
  then obtain h1 b E where h1: "Update_body p h = Returns (h1, b)" "heap_inv h1" "heap_mutex h1 = Unlocked"
    "maxSize h1 = maxSize h" "mset (processes h1) + E = add_mset p (mset (processes h))"
    "size E = (if int (length (processes h)) < maxSize h then 0 else 1)"
    "\<forall>d \<in># E. \<forall>r \<in> set (processes h1). Score d \<le> Score r"
    by (rule Update_body_new [OF Cons.prems(1,2)])
  have size: "length (processes h1) + size E = Suc (length (processes h))"
    using arg_cong [OF h1(5), of size] by simp
  have sub: "set (processes h1) \<subseteq> insert p (set (processes h))"
    using arg_cong [OF h1(5), of set_mset] by auto
  have dropped: "\<forall>d \<in># D + E. \<forall>r \<in> set (processes h1). Score d \<le> Score r"
  proof (cases "E = {#}")
    case True
    then have "D = {#}" using h1(6) Cons.prems(7) by (auto split: if_splits)
    with True show ?thesis by simp
  next
    case False
    then have "size E = 1" using h1(6) by (simp split: if_splits)
    then obtain q where "E = {#q#}" using size_1_singleton_mset by blast
    then show ?thesis using dropped_step [of q "processes h1" p "processes h" D] h1(5,7) Cons.prems(6) by auto
  qed
  have full: "D + E \<noteq> {#} \<longrightarrow> int (length (processes h1)) = maxSize h1"
    "int (length (processes h1)) \<le> maxSize h1"
    using size h1(4,6) Cons.prems(3,7) by (auto split: if_splits)
  have "\<exists>h' D'. updates ps h1 = Returns h' \<and> heap_inv h' \<and>
    mset (processes h1) + (D + E) + mset ps = mset (processes h') + D' \<and>
    (\<forall>d \<in># D'. \<forall>r \<in> set (processes h'). Score d \<le> Score r) \<and>
    int (length (processes h')) = min (maxSize h1) (int (length (processes h1) + length ps))"
  proof (rule Cons.IH [OF h1(2,3) full(2)])
    show "PID ` set ps \<inter> PID ` set (processes h1) = {}" 

    proof (rule disjoint_insert_mono)
      show "PID ` set (processes h1) \<subseteq> insert (PID p) (PID ` set (processes h))"
        using image_mono [OF sub, of PID] by simp
      show "PID p \<notin> PID ` set ps" "PID ` set ps \<inter> PID ` set (processes h) = {}"
        using Cons.prems(4,5) by simp_all
    qed
  qed (use Cons.prems(4) dropped full(1) in simp_all)
  moreover have "mset (processes h1) + (D + E) + mset ps = mset (processes h) + D + mset (p # ps)"
    using arg_cong [OF h1(5), of "\<lambda>M. M + D + mset ps"] by (simp add: ac_simps)
  moreover have "min (maxSize h1) (int (length (processes h1) + length ps)) =
      min (maxSize h) (int (length (processes h) + length (p # ps)))"
    using size h1(4,6) Cons.prems(3) by (auto simp: min_def split: if_splits)
  ultimately show ?case using h1(1) by simp
qed

lemma Update_body_tracked:
  assumes "heap_inv h" "heap_mutex h = Unlocked" "idx < length (processes h)" "PID (processes h ! idx) = PID p"
  obtains h' q where "Update_body p h = Returns (h', True)" "heap_inv h'" "heap_mutex h' = Unlocked"
    "maxSize h' = maxSize h" "mset (processes h') = mset ((processes h)[idx := q])" "PID q = PID p"
    "Score q = Score p" "CPU q = CPU p" "RSS q = RSS p"
proof -
  define q where "q = (processes h ! idx)\<lparr>Score := Score p, CPU := CPU p, RSS := RSS p,
    Command := Command p, ProcName := ProcName p\<rparr>"
  let ?h1 = "h\<lparr>processes := (processes h)[idx := q]\<rparr>"
  have at: "map_of (pidMap h) (PID p) = Some idx" using assms by (auto simp: heap_inv_def pid_inv_def)
  have heap: "heap_above score_le (length (processes h)) 0 (processes h)"
    using assms(1) by (simp add: heap_inv_def)
  obtain h' where h': "heap_Fix ?h1 idx = Returns h'" "kept ?h1 h'"
    "heap_above score_le (length (processes h)) 0 (processes h')"
    by (rule heap_Fix_correct [OF heap assms(3), of ?h1 q]) (use assms(2) in auto)
  have "pid_inv ?h1" using assms by (intro refresh_pid_inv) (auto simp: heap_inv_def q_def)
  with h' have "heap_inv h'" using kept_length [OF h'(2)] by (simp add: heap_inv_def kept_def)
  with h' at assms show thesis
    by (intro that [of h' q]) (simp_all add: Update_body_def q_def kept_def)
qed

subsection \<open>The sort\<close>

lemma heapify_unfold:
  "heapify ps n i =
     (if largest_of ps n i \<noteq> i then heapify (swap_at ps i (largest_of ps n i)) n (largest_of ps n i) else ps)"
  by (subst heapify.simps) (auto simp: largest_of_def Let_def)

lemma largest_of_child:
  assumes "largest_of ps n i \<noteq> i"
  shows "0 < largest_of ps n i" "largest_of ps n i < n" "par (largest_of ps n i) = i"
    "score_ge (ps ! largest_of ps n i) (ps ! i)"
  using assms
  by (auto simp: largest_of_def sort_Less_def score_ge_def par_def Let_def split: if_splits)

lemma largest_of_ge:
  assumes "0 < c" "c < n" "par c = i"
  shows "score_ge (ps ! largest_of ps n i) (ps ! c)"
proof -
  have "c = 2 * i + 1 \<or> c = 2 * i + 2" using assms by (simp add: par_eq_iff)
  then show ?thesis
    using assms(2) by (elim disjE) (auto simp: largest_of_def sort_Less_def score_ge_def Let_def)
qed

lemma heapify_correct:
  assumes "down_ok score_ge n m i ps" "n \<le> length ps" "m \<le> i" "i < length ps"
  shows "heap_above score_ge n m (heapify ps n i) \<and> mset (heapify ps n i) = mset ps \<and>
    (\<forall>k \<ge> n. k < length ps \<longrightarrow> k \<noteq> i \<longrightarrow> heapify ps n i ! k = ps ! k)"
  using assms
proof (induction ps n i rule: heapify.induct)
  case (1 ps n i)
  let ?j = "largest_of ps n i"
  show ?case
  proof (cases "?j = i")
    case True
    then have "heapify ps n i = ps" by (subst heapify_unfold) simp
    with largest_of_ge [of _ n i ps] True "1.prems"(1) show ?thesis
      by (auto intro: ge_heap.down_done)
  next
    case False
    note j = largest_of_child [OF False]
    have eq: "heapify ps n i = heapify (swap_at ps i ?j) n ?j" using False by (subst heapify_unfold) simp
    have "down_ok score_ge n m ?j (swap_at ps i ?j)"
      by (rule ge_heap.down_step [OF "1.prems"(1,2) j(1-3) "1.prems"(3) j(4) largest_of_ge])
    moreover have "i < ?j" using par_less [OF j(1)] j(3) by simp
    moreover have "?j < length ps" using j(2) "1.prems"(2) by simp
    ultimately show ?thesis
      using "1.IH" [of "2 * i + 1" "2 * i + 2"] False "1.prems" unfolding eq
      by (auto simp: largest_of_def Let_def swap_at_nth)
  qed
qed

lemma build_loop_correct:
  assumes "heap_above score_ge (length ps) k ps" "k \<le> length ps"
  shows "heap_above score_ge (length ps) 0 (build_loop ps (length ps) k) \<and> mset (build_loop ps (length ps) k) = mset ps"
  using assms
proof (induction k arbitrary: ps)
  case (Suc i)
  have "down_ok score_ge (length ps) i i ps"
    using Suc.prems(1) by (auto simp: down_ok_def heap_above_def Suc_le_eq dest: par_less)
  then have h: "heap_above score_ge (length ps) i (heapify ps (length ps) i)" "mset (heapify ps (length ps) i) = mset ps"
    using heapify_correct [of "length ps" i i ps] Suc.prems(2) by auto
  from h(2) have "length (heapify ps (length ps) i) = length ps" by (rule mset_eq_length)
  with Suc.IH [of "heapify ps (length ps) i"] h Suc.prems(2) show ?case by simp
qed simp

lemma mset_take_eq:
  assumes "mset xs = mset ys" "\<And>k. n \<le> k \<Longrightarrow> k < length ys \<Longrightarrow> xs ! k = ys ! k"
  shows "drop n xs = drop n ys" "mset (take n xs) = mset (take n ys)"
proof -
  have "length xs = length ys" using assms(1) by (rule mset_eq_length)
  then show d: "drop n xs = drop n ys" using assms(2) by (intro nth_equalityI) auto
  have "mset (take n xs) + mset (drop n xs) = mset (take n ys) + mset (drop n ys)"
    using assms(1) by (simp flip: mset_append)
  with d show "mset (take n xs) = mset (take n ys)" by simp
qed

lemma heap_head_max:
  assumes "heap_above score_ge n 0 ps" "n \<le> length ps" "x \<in> set (take n ps)"
  shows "Score x \<le> Score (ps ! 0)"
proof -
  obtain k where "k < n" "x = ps ! k" using assms(2,3) by (auto simp: in_set_conv_nth)
  then show ?thesis using ge_heap.heap_root [OF assms(1), of k] by (simp add: score_ge_def)
qed

text \<open>One round of the extraction: the greatest element of the heap goes to its end.\<close>

lemma extract_step:
  assumes heap: "heap_above score_ge (Suc i) 0 ps" and i: "Suc i \<le> length ps"
    and ps2: "ps2 = heapify (swap_at ps 0 i) i 0"
  shows "heap_above score_ge i 0 ps2" "mset ps2 = mset ps" "drop i ps2 = ps ! 0 # drop (Suc i) ps"
    "set (take i ps2) \<subseteq> set (take (Suc i) ps)"
proof -
  let ?ps1 = "swap_at ps 0 i"
  have ne: "ps \<noteq> []" using i by auto
  have nth: "?ps1 ! k = (if k = 0 then ps ! i else if k = i then ps ! 0 else ps ! k)" if "k < length ps" for k
    using that i ne by (simp add: swap_at_nth)
  have "down_ok score_ge i 0 0 ?ps1"
  proof (cases "i = 0")
    case False
    have "heap_above score_ge i 0 ps" using heap by (auto simp: heap_above_def)
    then have "down_ok score_ge i 0 0 (ps[0 := ps ! i])"
      using False i by (intro ge_heap.replace_down_ok) auto
    then show ?thesis by (rule down_ok_cong [rotated]) (use i ne in \<open>auto simp: nth nth_list_update\<close>)
  qed (simp add: down_ok_def)
  then have h: "heap_above score_ge i 0 ps2" "mset ps2 = mset ?ps1"
    "\<forall>k \<ge> i. k < length ps \<longrightarrow> k \<noteq> 0 \<longrightarrow> ps2 ! k = ?ps1 ! k"
    using heapify_correct [of i 0 0 ?ps1] i ne ps2 by auto
  have stay: "ps2 ! k = ?ps1 ! k" if "i \<le> k" "k < length ?ps1" for k
  proof (cases "k = 0")
    case True
    then have "ps2 = ?ps1" using that by (subst ps2, subst heapify_unfold) (simp add: largest_of_def)
    then show ?thesis by simp
  qed (use h(3) that in simp)
  note t = mset_take_eq [OF h(2) stay]
  show "heap_above score_ge i 0 ps2" by (rule h(1))
  show "mset ps2 = mset ps" using h(2) i ne by simp
  have "drop i ?ps1 = ?ps1 ! i # drop (Suc i) ?ps1" using i by (intro Cons_nth_drop_Suc [symmetric]) simp
  moreover have "drop (Suc i) ?ps1 = drop (Suc i) ps" using i by (intro nth_equalityI) (auto simp: nth)
  moreover have "?ps1 ! i = ps ! 0" using i by (simp add: nth)
  ultimately show "drop i ps2 = ps ! 0 # drop (Suc i) ps" using t(1) by simp
  have "set (take i ps2) = set (take i ?ps1)" using t(2) by (rule mset_eq_setD)
  also have "\<dots> \<subseteq> set (take (Suc i) ps)"
  proof
    fix x assume "x \<in> set (take i ?ps1)"
    then obtain k where "k < i" "x = ?ps1 ! k" using i by (auto simp: in_set_conv_nth)
    then show "x \<in> set (take (Suc i) ps)"
      using i by (auto simp: nth in_set_conv_nth intro: exI [of _ i] exI [of _ k])
  qed
  finally show "set (take i ps2) \<subseteq> set (take (Suc i) ps)" .
qed

lemma extract_loop_correct:
  assumes "heap_above score_ge n 0 ps" "n \<le> length ps" "sorted (map Score (drop n ps))"
    "\<forall>x \<in> set (take n ps). \<forall>y \<in> set (drop n ps). Score x \<le> Score y"
  shows "sorted (map Score (extract_loop ps n)) \<and> mset (extract_loop ps n) = mset ps"
  using assms
proof (induction n arbitrary: ps)
  case (Suc i)
  let ?ps2 = "heapify (swap_at ps 0 i) i 0"
  note e = extract_step [OF Suc.prems(1,2) refl]
  have max: "Score x \<le> Score (ps ! 0)" if "x \<in> set (take i ?ps2)" for x
    using that e(4) by (intro heap_head_max [OF Suc.prems(1,2)]) auto
  have zero: "ps ! 0 \<in> set (take (Suc i) ps)" using Suc.prems(2) by (cases ps) auto
  have "sorted (map Score (extract_loop ?ps2 i)) \<and> mset (extract_loop ?ps2 i) = mset ?ps2"
  proof (rule Suc.IH [OF e(1)])
    show "i \<le> length ?ps2" using mset_eq_length [OF e(2)] Suc.prems(2) by simp
    show "sorted (map Score (drop i ?ps2))" unfolding e(3) using Suc.prems(3,4) zero by auto
    show "\<forall>x \<in> set (take i ?ps2). \<forall>y \<in> set (drop i ?ps2). Score x \<le> Score y"
      unfolding e(3) using max e(4) Suc.prems(4) by auto
  qed
  with e(2) show ?case by simp
qed simp

lemma Sort_correct: "sorted (map Score (Sort ps)) \<and> mset (Sort ps) = mset ps"
proof -
  let ?n = "length ps"
  let ?b = "build_loop ps ?n (?n div 2)"
  have "heap_above score_ge ?n (?n div 2) ps" by (auto simp: heap_above_def par_def)
  then have b: "heap_above score_ge ?n 0 ?b" "mset ?b = mset ps"
    using build_loop_correct [of ps "?n div 2"] by auto
  have "length ?b = ?n" using b(2) by (rule mset_eq_length)
  with extract_loop_correct [of ?n ?b] b show ?thesis by (simp add: Sort_def Let_def)
qed

lemma example_heap_inv: "heap_inv example_heap"
  by (auto simp: heap_inv_def pid_inv_def heap_above_def score_le_def example_heap_def example_process_def
      less_Suc_eq numeral_2_eq_2 par_def nth_Cons')

lemma pid_inv_lookup:
  assumes "pid_inv h" "pid \<in> PID ` set (processes h)"
  obtains i where "map_of (pidMap h) pid = Some i" "i < length (processes h)"
  using assms by (auto simp: pid_inv_def in_set_conv_nth)

section \<open>Properties\<close>

text \<open>
  The update algorithm tracks the top scores: run on a fresh heap without the mutex held, any
  sequence of updates with distinct processes returns, keeps the heap order and the index map
  consistent, keeps as many processes as the bound allows, and every process it has dropped scores
  no more than every process it keeps.
\<close>

lemma updates_track_top:
  fixes ps :: "('f::linorder) ProcessInfo list"
  assumes "NewProcessHeap n = Returns h" "distinct (map PID ps)"
  shows "\<exists>h' dropped. updates ps h = Returns h' \<and> heap_inv h' \<and> mset ps = mset (processes h') + dropped \<and>
    (\<forall>d \<in># dropped. \<forall>r \<in> set (processes h'). Score d \<le> Score r) \<and>
    int (length (processes h')) = min n (int (length ps))"
proof -
  have "processes h = []" "pidMap h = []" "heap_mutex h = Unlocked" "maxSize h = n" "0 \<le> n"
    using assms(1) by (auto simp: NewProcessHeap_def split: if_splits)
  then show ?thesis
    using updates_new [of h ps "{#}"] assms(2) by (simp add: heap_inv_def pid_inv_def heap_above_def)
qed

text \<open>
  Updating a tracked process refreshes its figures in place, keeping the heap order, the index map
  and every other process, and removing one removes exactly it.
\<close>

lemma tracked_update_remove:
  fixes h :: "('f::linorder) ProcessHeap"
  assumes "heap_inv h" "heap_mutex h = Unlocked" "idx < length (processes h)" "PID (processes h ! idx) = PID p"
  shows "(\<exists>h' q. Update_body p h = Returns (h', True) \<and> heap_inv h' \<and> PID q = PID p \<and> Score q = Score p \<and>
      mset (processes h') = mset ((processes h)[idx := q])) \<and>
    (\<exists>h'. Remove_body (PID p) h = Returns (h', True) \<and> heap_inv h' \<and>
      mset (processes h) = add_mset (processes h ! idx) (mset (processes h')))"
proof
  show "\<exists>h' q. Update_body p h = Returns (h', True) \<and> heap_inv h' \<and> PID q = PID p \<and> Score q = Score p \<and>
      mset (processes h') = mset ((processes h)[idx := q])"
    by (rule Update_body_tracked [OF assms]) blast
  obtain h' where "heap_Remove h idx = Returns (h', processes h ! idx)" "heap_inv h'"
    "mset (processes h) = add_mset (processes h ! idx) (mset (processes h'))"
    by (rule heap_Remove_correct [OF assms(1-3)])
  moreover have "map_of (pidMap h) (PID p) = Some idx" using assms by (auto simp: heap_inv_def pid_inv_def)
  ultimately show "\<exists>h'. Remove_body (PID p) h = Returns (h', True) \<and> heap_inv h' \<and>
      mset (processes h) = add_mset (processes h ! idx) (mset (processes h'))"
    by (simp add: Remove_body_def)
qed

text \<open>
  As called by the sampler, with the mutex, no update ever changes the heap: an update that would add,
  replace or refresh a process blocks forever, because the functions of \<^verbatim>\<open>container/heap\<close> call
  \<^verbatim>\<open>Len\<close>, which waits for the lock the update holds. The same holds of every removal of a tracked
  process. What does return leaves the heap as it was.
\<close>

lemma locked_operations_block:
  fixes h :: "('f::ord) ProcessHeap"
  assumes "heap_mutex h = Unlocked" "pid_inv h"
  shows "Update h p =
      (if PID p \<in> PID ` set (processes h) \<or> int (length (processes h)) < maxSize h \<or>
          (processes h \<noteq> [] \<and> Score (processes h ! 0) < Score p)
       then Blocks else Returns (h, False)) \<and>
    Remove h pid = (if pid \<in> PID ` set (processes h) then Blocks else Returns (h, False))"
proof
  show "Update h p =
      (if PID p \<in> PID ` set (processes h) \<or> int (length (processes h)) < maxSize h \<or>
          (processes h \<noteq> [] \<and> Score (processes h ! 0) < Score p)
       then Blocks else Returns (h, False))"
  proof (cases "PID p \<in> PID ` set (processes h)")
    case True
    then obtain i where "map_of (pidMap h) (PID p) = Some i" "i < length (processes h)"
      by (rule pid_inv_lookup [OF assms(2)])
    with True assms(1) show ?thesis
      by (simp add: Update_def with_lock_def Update_body_def heap_Fix_def Len_def)
  next
    case False
    then have "map_of (pidMap h) (PID p) = None" using assms(2) by (simp add: pid_inv_None)
    with False assms(1) show ?thesis
      by (simp add: Update_def with_lock_def Update_body_def heap_Push_def heap_Pop_def Push_def Len_def Let_def)
  qed
  show "Remove h pid = (if pid \<in> PID ` set (processes h) then Blocks else Returns (h, False))"
  proof (cases "pid \<in> PID ` set (processes h)")
    case True
    then obtain i where "map_of (pidMap h) pid = Some i" "i < length (processes h)"
      by (rule pid_inv_lookup [OF assms(2)])
    with True assms(1) show ?thesis
      by (simp add: Remove_def with_lock_def Remove_body_def heap_Remove_def Len_def)
  next
    case False
    then have "map_of (pidMap h) pid = None" using assms(2) by (simp add: pid_inv_None)
    with False assms(1) show ?thesis by (simp add: Remove_def with_lock_def Remove_body_def)
  qed
qed

lemma heap_run_empty:
  assumes "heap_mutex h = Unlocked" "processes h = []" "pidMap h = []"
  shows "heap_run calls h = (if 0 < maxSize h \<and> (\<exists>p. CallUpdate p \<in> set calls) then Blocks else Returns h)"
proof (induction calls)
  case (Cons x calls)
  have inv: "pid_inv h" using assms by (simp add: pid_inv_def)
  note ops = locked_operations_block [OF assms(1) inv, unfolded assms(2), simplified]
  show ?case using ops Cons by (cases x) auto
qed simp

text \<open>
  C7. The heap of the sampler never fills. As the code runs them, with the mutex, an update that would add, replace or refresh a
  process blocks forever, because the functions of \<^verbatim>\<open>container/heap\<close> call \<^verbatim>\<open>Len\<close>, which waits for the lock
  the update holds; so does every removal of a tracked process, and what does return leaves the heap as it was. A new heap with room
  for a process therefore blocks at the first update, whatever was removed before, and until then \<^verbatim>\<open>TopN\<close> finds no process. Nothing is
  assumed of the comparison of scores.
\<close>

theorem heap_never_fills:
  fixes h h0 :: "('f::ord) ProcessHeap"
  assumes "heap_mutex h = Unlocked" "pid_inv h" "NewProcessHeap n = Returns h0"
  shows "Update h p =
      (if PID p \<in> PID ` set (processes h) \<or> int (length (processes h)) < maxSize h \<or>
          (processes h \<noteq> [] \<and> Score (processes h ! 0) < Score p)
       then Blocks else Returns (h, False)) \<and>
    Remove h pid = (if pid \<in> PID ` set (processes h) then Blocks else Returns (h, False)) \<and>
    heap_run calls h0 = (if 0 < n \<and> (\<exists>p. CallUpdate p \<in> set calls) then Blocks else Returns h0) \<and>
    TopN h0 k = (if k < 0 then Panics else Returns [])"
proof -
  have h0: "heap_mutex h0 = Unlocked" "processes h0 = []" "pidMap h0 = []" "maxSize h0 = n"
    using assms(3) by (auto simp: NewProcessHeap_def split: if_splits)
  show ?thesis
    using locked_operations_block [OF assms(1,2), of p pid] heap_run_empty [OF h0(1-3), of calls] h0(4)
    by (auto simp: TopN_def h0 Sort_def Let_def)
qed

theorem heap_never_fills_witness:
  "Update example_heap (example_process 12 6) = Blocks \<and> Remove example_heap 11 = Blocks \<and>
   heap_run [CallRemove 3, CallUpdate (example_process 12 6)] \<lparr>processes = [], pidMap = [], heap_mutex = Unlocked, maxSize = 2\<rparr> = Blocks"
  using heap_never_fills [of example_heap 2 "\<lparr>processes = [], pidMap = [], heap_mutex = Unlocked, maxSize = 2\<rparr>" "example_process 12 6" 11
      "[CallRemove 3, CallUpdate (example_process 12 6)]" 1] example_heap_inv
  by (simp add: heap_inv_def NewProcessHeap_def) (simp add: example_heap_def example_process_def)

text \<open>
  \<^verbatim>\<open>TopN\<close> returns the processes in ascending order of their scores, so what it returns are
  the \<open>n\<close> lowest: nothing it leaves out scores less than anything it returns.
\<close>

lemma TopN_lowest:
  assumes "heap_mutex h = Unlocked" "0 \<le> n"
  shows "\<exists>ps rest. TopN h n = Returns ps \<and> mset (processes h) = mset ps + rest \<and>
    int (length ps) = min n (int (length (processes h))) \<and> sorted (map Score ps) \<and>
    (\<forall>p \<in> set ps. \<forall>q \<in># rest. Score p \<le> Score q)"
proof -
  let ?s = "Sort (processes h)"
  let ?m = "nat (min n (int (length (processes h))))"
  have s: "sorted (map Score ?s)" "mset ?s = mset (processes h)" using Sort_correct by auto
  have len: "length ?s = length (processes h)" using s(2) by (rule mset_eq_length)
  have "TopN h n = Returns (take ?m ?s)"
    using assms len by (simp add: TopN_def Let_def min_def)
  moreover have "mset (processes h) = mset (take ?m ?s) + mset (drop ?m ?s)"
    using s(2) by (simp flip: mset_append)
  moreover have "int (length (take ?m ?s)) = min n (int (length (processes h)))"
    using assms(2) len by (auto simp: min_def)
  moreover have "sorted (map Score (take ?m ?s) @ map Score (drop ?m ?s))"
    using s(1) by (simp flip: map_append)
  then have "sorted (map Score (take ?m ?s))" "\<forall>p \<in> set (take ?m ?s). \<forall>q \<in># mset (drop ?m ?s). Score p \<le> Score q"
    unfolding sorted_append by auto
  ultimately show ?thesis by blast
qed

end
