(* ===== verification/Topn_Sampler.thy ===== *)
theory Topn_Sampler
  imports Process_Heap Complex_Main
begin

text \<open>
  The Top-N sampler of \<^verbatim>\<open>sampler/topn.go\<close>, its configuration (\<^verbatim>\<open>sampler/config.go\<close>) and the
  metrics tracker of \<^verbatim>\<open>sampler/metrics.go\<close>, on top of the heap of \<open>Process_Heap\<close>.

  Shares, scores and rates are elements of a linearly ordered field: the rounding of float64 is not
  modelled. The list order of \<open>pidHistory\<close> stands for the order in which Go ranges over it. The source reads
  \<^verbatim>\<open>s.config.MaxSamplerCPU\<close>, a field \<^verbatim>\<open>TopNConfig\<close> does not have; the limit is the argument
  \<open>maxCPU\<close>.
\<close>

section \<open>Configuration\<close>

record 'f TopNConfig =
  tn_MaxProcesses :: int
  tn_CPUWeight :: 'f
  tn_RSSWeight :: 'f
  tn_MinScore :: 'f
  tn_StabilityFactor :: 'f
  tn_ChurnHandlingEnabled :: bool
  tn_ChurnThreshold :: int

record 'f SamplerConfig =
  sm_SamplerType :: string
  sm_SampleInterval :: duration
  sm_MaxSamplerCPU :: 'f
  sm_TopN :: "'f TopNConfig"

definition sampler_DefaultConfig :: "('f::linordered_field) SamplerConfig" where
  "sampler_DefaultConfig =
     \<lparr>sm_SamplerType = ''topn'', sm_SampleInterval = second * 15, sm_MaxSamplerCPU = 1 / 2,
      sm_TopN = \<lparr>tn_MaxProcesses = 500, tn_CPUWeight = 7 / 10, tn_RSSWeight = 3 / 10, tn_MinScore = 1 / 1000,
        tn_StabilityFactor = 8 / 10, tn_ChurnHandlingEnabled = True, tn_ChurnThreshold = 2000\<rparr>\<rparr>"

datatype sampler_config_error = EmptySamplerType | ShortSampleInterval | MaxSamplerCPURange | MaxTrackedNotPositive
  | NegativeWeight | NoWeight | StabilityFactorRange

definition sampler_Validate :: "('f::linordered_field) SamplerConfig \<Rightarrow> sampler_config_error option" where
  "sampler_Validate c =
     (let t = sm_TopN c in
      if sm_SamplerType c = [] then Some EmptySamplerType
      else if sm_SampleInterval c < second then Some ShortSampleInterval
      else if sm_MaxSamplerCPU c \<le> 0 \<or> 5 < sm_MaxSamplerCPU c then Some MaxSamplerCPURange
      else if tn_MaxProcesses t \<le> 0 then Some MaxTrackedNotPositive
      else if tn_CPUWeight t < 0 \<or> tn_RSSWeight t < 0 then Some NegativeWeight
      else if tn_CPUWeight t + tn_RSSWeight t = 0 then Some NoWeight
      else if tn_StabilityFactor t < 0 \<or> 1 < tn_StabilityFactor t then Some StabilityFactorRange
      else None)"

section \<open>The sampler\<close>

record 'f TopNSampler =
  tn_config :: "'f TopNConfig"
  tn_heap :: "'f ProcessHeap"
  tn_metrics :: "(string, 'f) gomap"
  pidHistory :: "(int, bool) gomap"
  seenPIDs :: "(int, time) gomap"
  churnRate :: 'f
  lastUpdate :: time
  samplerStart :: time
  tn_ctx_cancelled :: "bool option"
  circuitOpen :: bool
  totalCPUUsage :: 'f
  totalRSSUsage :: int

definition NewTopNSampler :: "('f::linordered_field) TopNConfig \<Rightarrow> time \<Rightarrow> time \<Rightarrow> 'f TopNSampler outcome" where
  "NewTopNSampler config updated start =
     and_then (NewProcessHeap (tn_MaxProcesses config)) (\<lambda>h.
       Returns \<lparr>tn_config = config, tn_heap = h, tn_metrics = [], pidHistory = [], seenPIDs = [], churnRate = 0,
         lastUpdate = updated, samplerStart = start, tn_ctx_cancelled = None, circuitOpen = False, totalCPUUsage = 0,
         totalRSSUsage = 0\<rparr>)"

definition topn_Init :: "time \<Rightarrow> 'f TopNSampler \<Rightarrow> 'f TopNSampler" where
  "topn_Init now s = s\<lparr>tn_ctx_cancelled := Some False, samplerStart := now\<rparr>"

definition topn_Shutdown :: "'f TopNSampler \<Rightarrow> 'f TopNSampler" where
  "topn_Shutdown s = s\<lparr>tn_ctx_cancelled := map_option (\<lambda>_. True) (tn_ctx_cancelled s)\<rparr>"

definition seconds_of :: "duration \<Rightarrow> 'f::linordered_field" where
  "seconds_of d = of_int d / 1000000000"

definition metric :: "'f::zero TopNSampler \<Rightarrow> string \<Rightarrow> 'f" where
  "metric s name = (case map_of (tn_metrics s) name of None \<Rightarrow> 0 | Some v \<Rightarrow> v)"

definition calculateScore :: "('f::linordered_field) TopNSampler \<Rightarrow> 'f ProcessInfo \<Rightarrow> 'f" where
  "calculateScore s p =
     (let normalizedRSS = (if 0 < totalRSSUsage s then (of_int (RSS p) / of_int (totalRSSUsage s)) * 100 else 0);
          score = tn_CPUWeight (tn_config s) * CPU p + tn_RSSWeight (tn_config s) * normalizedRSS
      in if score < tn_MinScore (tn_config s) then 0 else score)"

definition checkCircuitBreaker :: "'f \<Rightarrow> ('f::linordered_field) TopNSampler \<Rightarrow> 'f TopNSampler" where
  "checkCircuitBreaker maxCPU s =
     (let cpu = metric s ''topn_update_time_seconds'' * 100; churn = tn_ChurnHandlingEnabled (tn_config s);
          threshold = of_int (tn_ChurnThreshold (tn_config s))
      in if \<not> circuitOpen s then
           (if maxCPU < cpu \<or> (churn \<and> threshold < churnRate s) then s\<lparr>circuitOpen := True\<rparr> else s)
         else if cpu < maxCPU * (7 / 10) \<and> (\<not> churn \<or> churnRate s < threshold * (7 / 10)) then s\<lparr>circuitOpen := False\<rparr>
         else s)"

definition sample_size :: "nat \<Rightarrow> nat" where
  "sample_size n = max 10 (n div 10)"

text \<open>The loop that scores and updates: the heap, the number updated and the totals.\<close>

fun score_and_update :: "('f::linordered_field) TopNSampler \<Rightarrow> 'f ProcessInfo list \<Rightarrow>
    'f ProcessHeap \<times> int \<times> 'f \<times> int \<Rightarrow> ('f ProcessHeap \<times> int \<times> 'f \<times> int) outcome" where
  "score_and_update s [] acc = Returns acc"
| "score_and_update s (p # ps) (h, updated, cpu, rss) =
     and_then (Update h (p\<lparr>Score := calculateScore s p\<rparr>)) (\<lambda>(h', changed).
       score_and_update s ps (h', if changed then updated + 1 else updated, cpu + CPU p, to_int64 (rss + RSS p)))"

definition minute :: duration where
  "minute = 60 * second"

text \<open>The loop over the PIDs of the last update that are gone. A deletion from the history has no effect that lasts: the
  history is replaced after the loop.\<close>

fun remove_gone :: "time \<Rightarrow> (int, bool) gomap \<Rightarrow> (int, bool) gomap \<Rightarrow>
    ('f::linorder) ProcessHeap \<times> (int, time) gomap \<Rightarrow> ('f ProcessHeap \<times> (int, time) gomap) outcome" where
  "remove_gone now newPIDs [] acc = Returns acc"
| "remove_gone now newPIDs ((pid, _) # hist) (h, seen) =
     (if map_of newPIDs pid = None then
        and_then (Remove h pid) (\<lambda>(h', _).
          remove_gone now newPIDs hist
            (h', case map_of seen pid of
                   Some lastSeen \<Rightarrow> if minute < time_sub now lastSeen then AList.delete pid seen else seen
                 | None \<Rightarrow> seen))
      else remove_gone now newPIDs hist (h, seen))"

definition new_pids :: "'f ProcessInfo list \<Rightarrow> (int, bool) gomap" where
  "new_pids ps = fold (\<lambda>p m. AList.update (PID p) True m) ps []"

definition mark_seen :: "time \<Rightarrow> 'f ProcessInfo list \<Rightarrow> (int, time) gomap \<Rightarrow> (int, time) gomap" where
  "mark_seen now ps seen = fold (\<lambda>p m. AList.update (PID p) now m) ps seen"

definition count_added :: "(int, bool) gomap \<Rightarrow> (int, bool) gomap \<Rightarrow> int" where
  "count_added newPIDs hist = int (length (filter (\<lambda>(pid, _). map_of hist pid \<noteq> Some True) newPIDs))"

definition before_loop :: "'f \<Rightarrow> time \<Rightarrow> ('f::linordered_field) TopNSampler \<Rightarrow> 'f ProcessInfo list \<Rightarrow> 'f TopNSampler" where
  "before_loop maxCPU now s ps =
     (let elapsed = seconds_of (time_sub now (lastUpdate s));
          s1 = s\<lparr>lastUpdate := now, seenPIDs := mark_seen now ps (seenPIDs s)\<rparr>;
          s2 = (if tn_ChurnHandlingEnabled (tn_config s) \<and> 0 < elapsed
                then s1\<lparr>churnRate := 7 / 10 * churnRate s + 3 / 10 * of_int (count_added (new_pids ps) (pidHistory s)) / elapsed\<rparr>
                else s1)
      in checkCircuitBreaker maxCPU s2)"

definition processed :: "('f::linordered_field) TopNSampler \<Rightarrow> 'f ProcessInfo list \<Rightarrow> 'f ProcessInfo list" where
  "processed s ps =
     (if circuitOpen s \<and> sample_size (length ps) < length ps then take (sample_size (length ps)) ps else ps)"

definition topn_Update :: "'f \<Rightarrow> time \<Rightarrow> duration \<Rightarrow> ('f::linordered_field) TopNSampler \<Rightarrow>
    'f ProcessInfo list \<Rightarrow> 'f TopNSampler outcome" where
  "topn_Update maxCPU now took s processes0 =
     (let newPIDs = new_pids processes0;
          s1 = before_loop maxCPU now s processes0;
          ps = processed s1 processes0
      in and_then (score_and_update s1 ps (tn_heap s1, 0, 0, 0)) (\<lambda>(h, updated, cpu, rss).
         and_then (if tn_ChurnHandlingEnabled (tn_config s1) then remove_gone now newPIDs (pidHistory s1) (h, seenPIDs s1)
                   else Returns (h, seenPIDs s1)) (\<lambda>(h1, seen1).
         let s2 = s1\<lparr>tn_heap := h1, seenPIDs := seen1, pidHistory := newPIDs, totalCPUUsage := cpu, totalRSSUsage := rss\<rparr>;
             m = AList.update ''topn_circuit_breaker'' (if circuitOpen s2 then 1 else 0)
                 (AList.update ''topn_churn_rate'' (churnRate s2)
                 (AList.update ''topn_processes_updated'' (of_int updated)
                 (AList.update ''topn_processes_tracked'' (of_nat (length (processes h1)))
                 (AList.update ''topn_update_time_seconds'' (seconds_of took) (tn_metrics s2)))))
         in and_then (Len h1) (\<lambda>_.
            if 0 < cpu then
              and_then (TopN h1 (tn_MaxProcesses (tn_config s2))) (\<lambda>top.
                Returns (s2\<lparr>tn_metrics := AList.update ''topn_capture_ratio'' (sum_list (map CPU top) / cpu * 100) m\<rparr>))
            else Returns (s2\<lparr>tn_metrics := AList.update ''topn_capture_ratio'' 100 m\<rparr>)))))"

definition GetTopN :: "('f::linorder) TopNSampler \<Rightarrow> int \<Rightarrow> 'f ProcessInfo list outcome" where
  "GetTopN s n = TopN (tn_heap s) n"

definition topn_Metrics :: "'f TopNSampler \<Rightarrow> (string, 'f) gomap" where
  "topn_Metrics s = fold (\<lambda>(k, v) m. AList.update k v m) (tn_metrics s) []"

text \<open>\<open>sys\<close> is the memory the runtime obtained from the system.\<close>

definition topn_Resources :: "'f \<Rightarrow> time \<Rightarrow> ('f::linordered_field) TopNSampler \<Rightarrow> (string, 'f) gomap" where
  "topn_Resources sys now s =
     [(''sampler_cpu_percent'', metric s ''topn_update_time_seconds'' * 100), (''sampler_rss_bytes'', sys),
      (''sampler_uptime_seconds'', seconds_of (time_sub now (samplerStart s)))]"

section \<open>The metrics tracker\<close>

record 'f MetricsTracker_sampler =
  mt_metrics :: "(string, 'f) gomap"
  mt_lastUpdated :: time
  mt_window :: duration
  mt_history :: "(string, 'f list) gomap"

definition NewMetricsTracker_sampler :: "duration \<Rightarrow> time \<Rightarrow> 'f MetricsTracker_sampler" where
  "NewMetricsTracker_sampler window now = \<lparr>mt_metrics = [], mt_lastUpdated = now, mt_window = window, mt_history = []\<rparr>"

definition quot :: "int \<Rightarrow> int \<Rightarrow> int" where
  "quot a b = sgn a * sgn b * (\<bar>a\<bar> div \<bar>b\<bar>)"

definition pruneHistory :: "time \<Rightarrow> string \<Rightarrow> 'f MetricsTracker_sampler \<Rightarrow> 'f MetricsTracker_sampler" where
  "pruneHistory now name m =
     (if time_sub now (mt_lastUpdated m) < quot (mt_window m) 10 then m
      else let m1 = m\<lparr>mt_lastUpdated := now\<rparr> in
           case map_of (mt_history m1) name of
             Some values \<Rightarrow>
               if 1000 < length values
               then m1\<lparr>mt_history := AList.update name (drop (length values - 1000) values) (mt_history m1)\<rparr> else m1
           | None \<Rightarrow> m1)"

definition history_metric :: "string \<Rightarrow> bool" where
  "history_metric name \<longleftrightarrow> name \<in> {''topn_capture_ratio'', ''topn_update_time_seconds'', ''sampler_cpu_percent''}"

definition mt_Set :: "time \<Rightarrow> string \<Rightarrow> 'f \<Rightarrow> 'f MetricsTracker_sampler \<Rightarrow> 'f MetricsTracker_sampler" where
  "mt_Set now name v m =
     (let m1 = m\<lparr>mt_metrics := AList.update name v (mt_metrics m)\<rparr> in
      if history_metric name then
        (let old = (case map_of (mt_history m1) name of None \<Rightarrow> [] | Some vs \<Rightarrow> vs) in
         pruneHistory now name (m1\<lparr>mt_history := AList.update name (old @ [v]) (mt_history m1)\<rparr>))
      else m1)"

definition mt_Get :: "'f MetricsTracker_sampler \<Rightarrow> string \<Rightarrow> 'f option" where
  "mt_Get m name = map_of (mt_metrics m) name"

definition mt_GetAll :: "'f MetricsTracker_sampler \<Rightarrow> (string, 'f) gomap" where
  "mt_GetAll m = fold (\<lambda>(k, v) b. AList.update k v b) (mt_metrics m) []"

definition mt_Increment :: "string \<Rightarrow> 'f \<Rightarrow> ('f::linordered_field) MetricsTracker_sampler \<Rightarrow> 'f MetricsTracker_sampler" where
  "mt_Increment name v m =
     m\<lparr>mt_metrics := AList.update name ((case map_of (mt_metrics m) name of None \<Rightarrow> 0 | Some x \<Rightarrow> x) + v) (mt_metrics m)\<rparr>"

definition mt_Average :: "('f::linordered_field) MetricsTracker_sampler \<Rightarrow> string \<Rightarrow> 'f option" where
  "mt_Average m name =
     (case map_of (mt_history m) name of None \<Rightarrow> None | Some vs \<Rightarrow>
        if vs = [] then None else Some (fold (\<lambda>v s. s + v) vs 0 / of_nat (length vs)))"

definition mt_Max :: "('f::linorder) MetricsTracker_sampler \<Rightarrow> string \<Rightarrow> 'f option" where
  "mt_Max m name =
     (case map_of (mt_history m) name of None \<Rightarrow> None | Some vs \<Rightarrow>
        (case vs of [] \<Rightarrow> None | v # rest \<Rightarrow> Some (fold (\<lambda>v mx. if mx < v then v else mx) rest v)))"

definition mt_Min :: "('f::linorder) MetricsTracker_sampler \<Rightarrow> string \<Rightarrow> 'f option" where
  "mt_Min m name =
     (case map_of (mt_history m) name of None \<Rightarrow> None | Some vs \<Rightarrow>
        (case vs of [] \<Rightarrow> None | v # rest \<Rightarrow> Some (fold (\<lambda>v mn. if v < mn then v else mn) rest v)))"

section \<open>Runs and invariant\<close>

text \<open>A run of updates: when each happened, how long it took and what was scanned.\<close>

fun topn_run :: "'f \<Rightarrow> (time \<times> duration \<times> 'f ProcessInfo list) list \<Rightarrow> ('f::linordered_field) TopNSampler \<Rightarrow>
    'f TopNSampler outcome" where
  "topn_run maxCPU [] s = Returns s"
| "topn_run maxCPU ((now, took, ps) # scans) s =
     and_then (topn_Update maxCPU now took s ps) (\<lambda>s'. topn_run maxCPU scans s')"

text \<open>A sampler that has tracked no process: its heap is as it was made.\<close>

definition untouched :: "('f::linordered_field) TopNSampler \<Rightarrow> bool" where
  "untouched s \<longleftrightarrow> tn_heap s = \<lparr>processes = [], pidMap = [], heap_mutex = Unlocked, maxSize = tn_MaxProcesses (tn_config s)\<rparr> \<and>
     0 < tn_MaxProcesses (tn_config s) \<and> pidHistory s = []"

definition example_scan :: "rat ProcessInfo list" where
  "example_scan =
     [\<lparr>PID = 7, ProcName = ''a'', Command = ''a'', CPU = 3, RSS = 10, StartTime = 0, Score = 0\<rparr>,
      \<lparr>PID = 8, ProcName = ''b'', Command = ''b'', CPU = 1, RSS = 20, StartTime = 0, Score = 0\<rparr>]"

definition example_sampler :: "rat TopNSampler" where
  "example_sampler = (case NewTopNSampler (sm_TopN sampler_DefaultConfig) 0 0 of Returns s \<Rightarrow> s)"

section \<open>Lemmas\<close>

lemma checkCircuitBreaker_fields [simp]:
  "tn_heap (checkCircuitBreaker maxCPU s) = tn_heap s" "tn_config (checkCircuitBreaker maxCPU s) = tn_config s"
  "pidHistory (checkCircuitBreaker maxCPU s) = pidHistory s"
  by (simp_all add: checkCircuitBreaker_def Let_def)

lemma before_loop_fields [simp]:
  "tn_heap (before_loop maxCPU now s ps) = tn_heap s" "tn_config (before_loop maxCPU now s ps) = tn_config s"
  "pidHistory (before_loop maxCPU now s ps) = pidHistory s"
  by (simp_all add: before_loop_def Let_def)

lemma untouched_blocks:
  assumes "untouched s" "ps \<noteq> []"
  shows "topn_Update maxCPU now took s ps = Blocks"
proof -
  let ?s = "before_loop maxCPU now s ps"
  have "processed ?s ps \<noteq> []" using assms(2) by (auto simp: processed_def sample_size_def)
  then obtain p rest where "processed ?s ps = p # rest" by (cases "processed ?s ps") auto
  moreover have "Update (tn_heap s) q = Blocks" for q
    using assms(1) locked_operations_block [of "tn_heap s" q 0] by (simp add: untouched_def pid_inv_def)
  ultimately have "score_and_update ?s (processed ?s ps) (tn_heap ?s, 0, 0, 0) = Blocks" by simp
  then show ?thesis by (simp add: topn_Update_def Let_def)
qed

lemma untouched_empty:
  assumes "untouched s"
  shows "\<exists>s'. topn_Update maxCPU now took s [] = Returns s' \<and> untouched s'"
  using assms by (auto simp: topn_Update_def processed_def new_pids_def untouched_def Len_def Let_def)

lemma untouched_run:
  assumes "untouched s"
  shows "if \<exists>(now, took, ps) \<in> set scans. ps \<noteq> [] then topn_run maxCPU scans s = Blocks
    else \<exists>s'. topn_run maxCPU scans s = Returns s' \<and> untouched s'"
  using assms
proof (induction scans arbitrary: s)
  case (Cons x scans)
  obtain now took ps where x: "x = (now, took, ps)" by (cases x)
  show ?case
  proof (cases "ps = []")
    case True
    obtain s1 where "topn_Update maxCPU now took s [] = Returns s1" "untouched s1" using untouched_empty [OF Cons.prems] by blast
    then show ?thesis using Cons.IH [of s1] True by (simp add: x)
  qed (use untouched_blocks [OF Cons.prems] in \<open>simp add: x\<close>)
qed simp

section \<open>Properties\<close>

text \<open>
  C22. The first update with a process never returns: the heap takes its own lock again in \<^verbatim>\<open>Len\<close> while
  \<^verbatim>\<open>Update\<close> holds it. A new sampler that may track any process gets through a run of updates exactly if no scan in it
  has a process, and then it tracks none. What the code computes before the call of the heap, the sample that is taken under load included,
  does not change that.
\<close>

theorem sampler_blocks_on_first_process:
  assumes "NewTopNSampler config t0 t1 = Returns s" "0 < tn_MaxProcesses config"
  shows "if \<exists>(now, took, ps) \<in> set scans. ps \<noteq> [] then topn_run maxCPU scans s = Blocks
    else \<exists>s'. topn_run maxCPU scans s = Returns s' \<and> (\<forall>n \<ge> 0. GetTopN s' n = Returns [])"
proof -
  have "untouched s" using assms by (auto simp: NewTopNSampler_def NewProcessHeap_def untouched_def split: if_splits)
  from untouched_run [OF this, of scans maxCPU] show ?thesis
    by (auto simp: untouched_def GetTopN_def TopN_def Sort_def Let_def split: if_splits)
qed

theorem sampler_blocks_on_first_process_witness:
  "topn_run (1 / 2) [(second, 0, []), (2 * second, 0, example_scan)] example_sampler = Blocks"
proof -
  have new: "NewTopNSampler (sm_TopN sampler_DefaultConfig) 0 0 = Returns example_sampler" "0 < tn_MaxProcesses (sm_TopN sampler_DefaultConfig)"
    by (simp_all add: example_sampler_def NewTopNSampler_def NewProcessHeap_def sampler_DefaultConfig_def)
  have "example_scan \<noteq> []" by (simp add: example_scan_def)
  with sampler_blocks_on_first_process [OF new, of "[(second, 0, []), (2 * second, 0, example_scan)]" "1 / 2"] show ?thesis
    by (simp del: topn_run.simps)
qed

end
