(* ===== verification/Bucket_Store.thy ===== *)
theory Bucket_Store
  imports Float64
begin

text \<open>
  The bucket stores of \<^verbatim>\<open>sketch/store.go\<close>: \<open>SparseStore\<close>, a map from bucket indices to
  counts that collapses small buckets when it grows, and \<open>DenseStore\<close>, an array with an offset.
  Counts are \<^verbatim>\<open>uint64\<close>, so they are words and additions wrap.

  The contract both offer a sketch, the interface \<^verbatim>\<open>Store\<close>, is the locale
  \<open>bucket_store\<close>; \<open>merging_store\<close> adds \<^verbatim>\<open>Merge\<close>. The other store of a merge is
  given by what \<^verbatim>\<open>GetNonEmptyBuckets\<close> and \<^verbatim>\<open>GetTotalCount\<close> return for it. The list
  order of the map of bins stands for the order in which Go ranges over it.

  \<open>portion c d t\<close> stands for \<open>collapse_portion\<close>, \<^verbatim>\<open>uint64(float64(c) * (float64(d) / float64(t)))\<close>, the float64
  arithmetic by which a collapsed bucket is split between its neighbours. Running out of memory
  for an array of a dense store is not modelled.
\<close>

type_synonym buckets = "(int, 64 word) gomap"

definition max_int32 :: int where
  "max_int32 = 2147483647"

definition min_int32 :: int where
  "min_int32 = -2147483648"

text \<open>Reading a Go map of counts: a missing key reads as zero.\<close>

definition bin_get :: "buckets \<Rightarrow> int \<Rightarrow> 64 word" where
  "bin_get m i = (case map_of m i of None \<Rightarrow> 0 | Some c \<Rightarrow> c)"

definition bin_add :: "int \<Rightarrow> 64 word \<Rightarrow> buckets \<Rightarrow> buckets" where
  "bin_add i c m = AList.update i (bin_get m i + c) m"

definition collapse_portion :: "fmath \<Rightarrow> 64 word \<Rightarrow> int \<Rightarrow> int \<Rightarrow> 64 word" where
  "collapse_portion fm count dist totalDist =
     fm_to_u64 fm (fm_mul fm (fm_of_u64 fm count) (fm_div fm (fm_of_int fm dist) (fm_of_int fm totalDist)))"

section \<open>The sparse store\<close>

record SparseStore =
  ss_bins :: buckets
  ss_count :: "64 word"
  ss_minIndex :: int
  ss_maxIndex :: int
  ss_hasElements :: bool
  ss_collapseThreshold :: "64 word"

definition NewSparseStore :: "64 word \<Rightarrow> SparseStore" where
  "NewSparseStore threshold =
     \<lparr>ss_bins = [], ss_count = 0, ss_minIndex = max_int32, ss_maxIndex = min_int32, ss_hasElements = False,
      ss_collapseThreshold = threshold\<rparr>"

definition recalculateMinMax :: "SparseStore \<Rightarrow> SparseStore" where
  "recalculateMinMax s =
     (if ss_bins s = [] then s\<lparr>ss_minIndex := max_int32, ss_maxIndex := min_int32, ss_hasElements := False\<rparr>
      else s\<lparr>ss_minIndex := fold (\<lambda>(i, _) m. if i < m then i else m) (ss_bins s) max_int32,
             ss_maxIndex := fold (\<lambda>(i, _) m. if i > m then i else m) (ss_bins s) min_int32,
             ss_hasElements := True\<rparr>)"

definition nearest_lower :: "int \<Rightarrow> buckets \<Rightarrow> int" where
  "nearest_lower idx bins = fold (\<lambda>(b, _) l. if b < idx \<and> b > l then b else l) bins min_int32"

definition nearest_upper :: "int \<Rightarrow> buckets \<Rightarrow> int" where
  "nearest_upper idx bins = fold (\<lambda>(b, _) u. if b > idx \<and> b < u then b else u) bins max_int32"

text \<open>The body of the second loop of \<^verbatim>\<open>collapseBuckets\<close>.\<close>

definition redistribute :: "(64 word \<Rightarrow> int \<Rightarrow> int \<Rightarrow> 64 word) \<Rightarrow> int \<Rightarrow> buckets \<Rightarrow> buckets" where
  "redistribute portion idx bins =
     (let count = bin_get bins idx;
          rest = AList.delete idx bins;
          lower = nearest_lower idx rest;
          upper = nearest_upper idx rest
      in if lower \<noteq> min_int32 \<and> upper \<noteq> max_int32 then
           (let lowerDist = idx - lower; upperDist = upper - idx; totalDist = lowerDist + upperDist
            in bin_add upper (portion count lowerDist totalDist)
                 (bin_add lower (portion count upperDist totalDist) rest))
         else if lower \<noteq> min_int32 then bin_add lower count rest
         else if upper \<noteq> max_int32 then bin_add upper count rest
         else AList.update idx count rest)"

definition collapse_candidates :: "SparseStore \<Rightarrow> int list" where
  "collapse_candidates s =
     map fst (filter (\<lambda>(idx, count). count \<le> ss_collapseThreshold s \<and> idx \<noteq> ss_minIndex s \<and> idx \<noteq> ss_maxIndex s)
       (ss_bins s))"

definition collapseBuckets :: "(64 word \<Rightarrow> int \<Rightarrow> int \<Rightarrow> 64 word) \<Rightarrow> SparseStore \<Rightarrow> SparseStore" where
  "collapseBuckets portion s =
     (if length (ss_bins s) < 10 then s
      else recalculateMinMax (s\<lparr>ss_bins := fold (redistribute portion) (collapse_candidates s) (ss_bins s)\<rparr>))"

definition sparse_Add :: "(64 word \<Rightarrow> int \<Rightarrow> int \<Rightarrow> 64 word) \<Rightarrow> SparseStore \<Rightarrow> int \<Rightarrow> 64 word \<Rightarrow> SparseStore" where
  "sparse_Add portion s index count =
     (let s1 = s\<lparr>ss_bins := bin_add index count (ss_bins s), ss_count := ss_count s + count,
             ss_minIndex := (if index < ss_minIndex s then index else ss_minIndex s),
             ss_maxIndex := (if index > ss_maxIndex s then index else ss_maxIndex s), ss_hasElements := True\<rparr>
      in if 1000 < length (ss_bins s1) then collapseBuckets portion s1 else s1)"

definition sparse_Get :: "SparseStore \<Rightarrow> int \<Rightarrow> 64 word" where
  "sparse_Get s index = bin_get (ss_bins s) index"

definition sparse_Clear :: "SparseStore \<Rightarrow> SparseStore" where
  "sparse_Clear s = s\<lparr>ss_bins := [], ss_count := 0, ss_minIndex := max_int32, ss_maxIndex := min_int32, ss_hasElements := False\<rparr>"

definition sparse_GetNonEmptyBuckets :: "SparseStore \<Rightarrow> buckets" where
  "sparse_GetNonEmptyBuckets s = fold (\<lambda>(idx, count) b. AList.update idx count b) (ss_bins s) []"

definition sparse_GetTotalCount :: "SparseStore \<Rightarrow> 64 word" where
  "sparse_GetTotalCount s = ss_count s"

definition sparse_GetMinIndex :: "SparseStore \<Rightarrow> int \<times> bool" where
  "sparse_GetMinIndex s = (if \<not> ss_hasElements s then (0, False) else (ss_minIndex s, True))"

definition sparse_GetMaxIndex :: "SparseStore \<Rightarrow> int \<times> bool" where
  "sparse_GetMaxIndex s = (if \<not> ss_hasElements s then (0, False) else (ss_maxIndex s, True))"

definition sparse_merge_bin :: "int \<times> 64 word \<Rightarrow> SparseStore \<Rightarrow> SparseStore" where
  "sparse_merge_bin entry s =
     (case entry of (idx, count) \<Rightarrow>
        s\<lparr>ss_bins := bin_add idx count (ss_bins s),
          ss_minIndex := (if idx < ss_minIndex s then idx else ss_minIndex s),
          ss_maxIndex := (if idx > ss_maxIndex s then idx else ss_maxIndex s)\<rparr>)"

definition sparse_Merge ::
    "(64 word \<Rightarrow> int \<Rightarrow> int \<Rightarrow> 64 word) \<Rightarrow> SparseStore \<Rightarrow> buckets \<Rightarrow> 64 word \<Rightarrow> SparseStore" where
  "sparse_Merge portion s otherBuckets otherTotal =
     (let s1 = fold sparse_merge_bin otherBuckets s;
          s2 = s1\<lparr>ss_count := ss_count s1 + otherTotal\<rparr>;
          s3 = (if 0 < ss_count s2 then s2\<lparr>ss_hasElements := True\<rparr> else s2)
      in if 100 < length otherBuckets then collapseBuckets portion s3 else s3)"

definition sparse_Copy :: "SparseStore \<Rightarrow> SparseStore" where
  "sparse_Copy s =
     (NewSparseStore (ss_collapseThreshold s))
       \<lparr>ss_count := ss_count s, ss_minIndex := ss_minIndex s, ss_maxIndex := ss_maxIndex s,
        ss_hasElements := ss_hasElements s,
        ss_bins := fold (\<lambda>(idx, count) b. AList.update idx count b) (ss_bins s) []\<rparr>"

text \<open>The two numbers whose float64 quotient is the density, or \<open>None\<close> for zero.\<close>

definition sparse_density :: "SparseStore \<Rightarrow> (int \<times> int) option" where
  "sparse_density s =
     (if \<not> ss_hasElements s \<or> ss_maxIndex s \<le> ss_minIndex s then None
      else Some (int (length (ss_bins s)), to_int64 (ss_maxIndex s - ss_minIndex s + 1)))"

definition sparse_GetMemoryUsageBytes :: "SparseStore \<Rightarrow> int" where
  "sparse_GetMemoryUsageBytes s = 48 + int (length (ss_bins s)) * (16 + 8 + 16) + 8 * 5"

section \<open>The dense store\<close>

record DenseStore =
  ds_bins :: "64 word list"
  ds_count :: "64 word"
  ds_offset :: int
  ds_minIndex :: int
  ds_maxIndex :: int
  ds_hasElements :: bool

text \<open>\<open>Panics\<close>: \<^verbatim>\<open>make\<close> with a negative length.\<close>

definition NewDenseStore :: "int \<Rightarrow> DenseStore outcome" where
  "NewDenseStore initialCapacity =
     (if initialCapacity < 0 then Panics
      else Returns \<lparr>ds_bins = replicate (nat initialCapacity) 0, ds_count = 0, ds_offset = 0,
             ds_minIndex = max_int32, ds_maxIndex = min_int32, ds_hasElements = False\<rparr>)"

definition ensureCapacity :: "DenseStore \<Rightarrow> int \<Rightarrow> DenseStore" where
  "ensureCapacity d index =
     (if ds_bins d = [] then d\<lparr>ds_bins := [0], ds_offset := index\<rparr>
      else let arrIdx = to_int64 (index - ds_offset d) in
           if arrIdx < 0 then d\<lparr>ds_bins := replicate (nat (- arrIdx)) 0 @ ds_bins d, ds_offset := index\<rparr>
           else if int (length (ds_bins d)) \<le> arrIdx
           then d\<lparr>ds_bins := ds_bins d @ replicate (nat (arrIdx + 1) - length (ds_bins d)) 0\<rparr>
           else d)"

definition dense_bump :: "DenseStore \<Rightarrow> int \<Rightarrow> 64 word \<Rightarrow> DenseStore" where
  "dense_bump d index count =
     (let arrIdx = nat (to_int64 (index - ds_offset d)) in
      d\<lparr>ds_bins := (ds_bins d)[arrIdx := ds_bins d ! arrIdx + count],
        ds_minIndex := (if index < ds_minIndex d then index else ds_minIndex d),
        ds_maxIndex := (if index > ds_maxIndex d then index else ds_maxIndex d)\<rparr>)"

definition dense_Add :: "DenseStore \<Rightarrow> int \<Rightarrow> 64 word \<Rightarrow> DenseStore" where
  "dense_Add d index count =
     (let d1 = dense_bump (ensureCapacity d index) index count in
      d1\<lparr>ds_count := ds_count d1 + count, ds_hasElements := True\<rparr>)"

definition dense_Get :: "DenseStore \<Rightarrow> int \<Rightarrow> 64 word" where
  "dense_Get d index =
     (let arrIdx = to_int64 (index - ds_offset d) in
      if arrIdx < 0 \<or> int (length (ds_bins d)) \<le> arrIdx then 0 else ds_bins d ! nat arrIdx)"

definition dense_Clear :: "DenseStore \<Rightarrow> DenseStore" where
  "dense_Clear d =
     d\<lparr>ds_bins := map (\<lambda>_. 0) (ds_bins d), ds_count := 0, ds_minIndex := max_int32, ds_maxIndex := min_int32,
       ds_hasElements := False\<rparr>"

fun dense_collect :: "int \<Rightarrow> 64 word list \<Rightarrow> buckets" where
  "dense_collect i [] = []"
| "dense_collect i (c # cs) = (if 0 < c then (to_int64 i, c) # dense_collect (i + 1) cs else dense_collect (i + 1) cs)"

definition dense_GetNonEmptyBuckets :: "DenseStore \<Rightarrow> buckets" where
  "dense_GetNonEmptyBuckets d = dense_collect (ds_offset d) (ds_bins d)"

definition dense_GetTotalCount :: "DenseStore \<Rightarrow> 64 word" where
  "dense_GetTotalCount d = ds_count d"

definition dense_GetMinIndex :: "DenseStore \<Rightarrow> int \<times> bool" where
  "dense_GetMinIndex d = (if \<not> ds_hasElements d then (0, False) else (ds_minIndex d, True))"

definition dense_GetMaxIndex :: "DenseStore \<Rightarrow> int \<times> bool" where
  "dense_GetMaxIndex d = (if \<not> ds_hasElements d then (0, False) else (ds_maxIndex d, True))"

definition dense_merge_bin :: "int \<times> 64 word \<Rightarrow> DenseStore \<Rightarrow> DenseStore" where
  "dense_merge_bin entry d =
     (case entry of (idx, count) \<Rightarrow>
        let arrIdx = to_int64 (idx - ds_offset d) in
        if 0 \<le> arrIdx \<and> arrIdx < int (length (ds_bins d)) then dense_bump d idx count else d)"

definition dense_Merge :: "DenseStore \<Rightarrow> buckets \<Rightarrow> 64 word \<Rightarrow> DenseStore" where
  "dense_Merge d otherBuckets otherTotal =
     (let d1 = (if otherBuckets = [] then d
                else ensureCapacity
                       (ensureCapacity d (fold (\<lambda>(i, _) m. if i < m then i else m) otherBuckets max_int32))
                       (fold (\<lambda>(i, _) m. if i > m then i else m) otherBuckets min_int32));
          d2 = fold dense_merge_bin otherBuckets d1;
          d3 = d2\<lparr>ds_count := ds_count d2 + otherTotal\<rparr>
      in if 0 < ds_count d3 then d3\<lparr>ds_hasElements := True\<rparr> else d3)"

definition dense_Copy :: "DenseStore \<Rightarrow> DenseStore" where
  "dense_Copy d =
     \<lparr>ds_bins = ds_bins d, ds_count = ds_count d, ds_offset = ds_offset d, ds_minIndex = ds_minIndex d,
      ds_maxIndex = ds_maxIndex d, ds_hasElements = ds_hasElements d\<rparr>"

definition dense_density :: "DenseStore \<Rightarrow> (int \<times> int) option" where
  "dense_density d =
     (if ds_bins d = [] then None
      else Some (int (length (filter (\<lambda>c. 0 < c) (ds_bins d))), int (length (ds_bins d))))"

definition dense_GetMemoryUsageBytes :: "DenseStore \<Rightarrow> int" where
  "dense_GetMemoryUsageBytes d = 24 + int (length (ds_bins d)) * 8 + 8 * 5"

section \<open>The contract of a store\<close>

text \<open>
  \<open>counts\<close> is the number of values a list of bucket entries holds; \<open>hits i\<close> is what they add to
  bucket \<open>i\<close>. \<open>no_wrap\<close> says that adding them to a store with total \<open>c\<close> keeps
  within a \<^verbatim>\<open>uint64\<close>.
\<close>

definition counts :: "(int \<times> 64 word) list \<Rightarrow> nat" where
  "counts es = sum_list (map (\<lambda>(_, c). unat c) es)"

definition hits :: "int \<Rightarrow> (int \<times> 64 word) list \<Rightarrow> 64 word" where
  "hits i es = sum_list (map (\<lambda>(j, c). if j = i then c else 0) es)"

definition no_wrap :: "64 word \<Rightarrow> (int \<times> 64 word) list \<Rightarrow> bool" where
  "no_wrap c es \<longleftrightarrow> unat c + counts es < 2 ^ 64"

definition add_list :: "('s \<Rightarrow> int \<Rightarrow> 64 word \<Rightarrow> 's) \<Rightarrow> 's \<Rightarrow> (int \<times> 64 word) list \<Rightarrow> 's" where
  "add_list add s es = fold (\<lambda>(i, c) s. add s i c) es s"

definition index_ok :: "int \<Rightarrow> bool" where
  "index_ok i \<longleftrightarrow> - (2 ^ 62) \<le> i \<and> i < 2 ^ 62"

text \<open>The bounds a store reports enclose every bucket with a count.\<close>

definition encloses :: "int \<times> bool \<Rightarrow> int \<times> bool \<Rightarrow> int \<Rightarrow> bool" where
  "encloses lo hi i \<longleftrightarrow> snd lo \<and> snd hi \<and> fst lo \<le> i \<and> i \<le> fst hi"

definition sparse_inv :: "SparseStore \<Rightarrow> bool" where
  "sparse_inv s \<longleftrightarrow> gm_wf (ss_bins s) \<and> counts (ss_bins s) = unat (ss_count s)
     \<and> (0 < ss_count s \<longrightarrow> ss_hasElements s) \<and> index_ok (ss_minIndex s) \<and> index_ok (ss_maxIndex s)
     \<and> (\<forall>i \<in> fst ` set (ss_bins s). ss_minIndex s \<le> i \<and> i \<le> ss_maxIndex s)"

definition sparse_fits :: "SparseStore \<Rightarrow> (int \<times> 64 word) list \<Rightarrow> bool" where
  "sparse_fits s es \<longleftrightarrow> no_wrap (ss_count s) es \<and> (\<forall>i \<in> fst ` set es. index_ok i)
     \<and> card (fst ` set (ss_bins s) \<union> fst ` set es) \<le> 1000"

definition sparse_merge_fits :: "SparseStore \<Rightarrow> buckets \<Rightarrow> bool" where
  "sparse_merge_fits s es \<longleftrightarrow> no_wrap (ss_count s) es \<and> (\<forall>i \<in> fst ` set es. index_ok i) \<and> length es \<le> 100"

definition dense_inv :: "DenseStore \<Rightarrow> bool" where
  "dense_inv d \<longleftrightarrow> index_ok (ds_offset d) \<and> ds_offset d + int (length (ds_bins d)) \<le> 2 ^ 62
     \<and> sum_list (map unat (ds_bins d)) = unat (ds_count d)
     \<and> (0 < ds_count d \<longrightarrow> ds_hasElements d) \<and> index_ok (ds_minIndex d) \<and> index_ok (ds_maxIndex d)
     \<and> (\<forall>j. index_ok j \<longrightarrow> dense_Get d j \<noteq> 0 \<longrightarrow> ds_minIndex d \<le> j \<and> j \<le> ds_maxIndex d)"

definition dense_fits :: "DenseStore \<Rightarrow> (int \<times> 64 word) list \<Rightarrow> bool" where
  "dense_fits d es \<longleftrightarrow> no_wrap (ds_count d) es \<and> (\<forall>i \<in> fst ` set es. index_ok i)"

definition dense_room :: "DenseStore \<Rightarrow> bool" where
  "dense_room d \<longleftrightarrow> index_ok (ds_offset d) \<and> ds_offset d + int (length (ds_bins d)) \<le> 2 ^ 62"

definition in_array :: "DenseStore \<Rightarrow> int \<Rightarrow> bool" where
  "in_array d i \<longleftrightarrow> ds_offset d \<le> i \<and> i < ds_offset d + int (length (ds_bins d))"

text \<open>A store with one value in each of a thousand buckets.\<close>

definition unit_store :: SparseStore where
  "unit_store = \<lparr>ss_bins = map (\<lambda>k. (int k, 1)) [0..<1000], ss_count = 1000, ss_minIndex = 0, ss_maxIndex = 999,
     ss_hasElements = True, ss_collapseThreshold = 10\<rparr>"

section \<open>Bins as maps\<close>

lemma counts_simps [simp]:
  "counts [] = 0" "counts ((i, c) # es) = unat c + counts es" "counts (es @ fs) = counts es + counts fs"
  by (simp_all add: counts_def)

lemma hits_simps [simp]:
  "hits i [] = 0" "hits i ((j, c) # es) = (if j = i then c else 0) + hits i es" "hits i (es @ fs) = hits i es + hits i fs"
  by (simp_all add: hits_def)

lemma bin_get_simps [simp]:
  "bin_get [] i = 0" "bin_get ((j, c) # m) i = (if j = i then c else bin_get m i)"
  by (simp_all add: bin_get_def)

lemma bin_get_update [simp]: "bin_get (AList.update k v m) i = (if k = i then v else bin_get m i)"
  by (simp add: bin_get_def gomap_simps)

lemma bin_get_notin: "i \<notin> fst ` set m \<Longrightarrow> bin_get m i = 0"
  by (induction m) auto

lemma bin_get_add: "bin_get (bin_add i c m) j = bin_get m j + (if i = j then c else 0)"
  by (simp add: bin_add_def)

lemma bin_add_wf: "gm_wf m \<Longrightarrow> gm_wf (bin_add i c m)"
  by (simp add: bin_add_def)

lemma bin_add_keys: "fst ` set (bin_add i c m) = insert i (fst ` set m)"
  by (simp add: bin_add_def dom_update)

lemma gm_wf_Cons [simp]: "gm_wf ((k, v) # m) \<longleftrightarrow> k \<notin> fst ` set m \<and> gm_wf m"
  by (simp add: gm_wf_def)

lemma hits_bin_get: "gm_wf m \<Longrightarrow> hits i m = bin_get m i"
  by (induction m) (auto simp: bin_get_notin split: prod.splits)

lemma counts_update:
  "gm_wf m \<Longrightarrow> counts (AList.update k v m) + unat (bin_get m k) = counts m + unat v"
  by (induction m) auto

lemma bin_get_le_counts: "unat (bin_get m i) \<le> counts m"
  by (induction m) auto

lemma pos_count: "bin_get m i \<noteq> 0 \<Longrightarrow> counts m = unat (c :: 64 word) \<Longrightarrow> 0 < c"
  using bin_get_le_counts [of m i] by (metis le_zero_eq unat_0 unat_gt_0 word_gt_0 not_gr_zero)

lemma counts_bin_add: "gm_wf m \<Longrightarrow> counts m + unat c < 2 ^ 64 \<Longrightarrow> counts (bin_add i c m) = counts m + unat c"
proof -
  assume wf: "gm_wf m" and lt: "counts m + unat c < 2 ^ 64"
  have "unat (bin_get m i + c) = unat (bin_get m i) + unat c"
    using lt bin_get_le_counts [of m i] by (simp add: unat_word_ariths)
  with counts_update [OF wf, of i "bin_get m i + c"] show ?thesis by (simp add: bin_add_def)
qed

lemma length_gm_wf: "gm_wf m \<Longrightarrow> length m = card (fst ` set m)"
  unfolding gm_wf_def by (metis distinct_card length_map set_map)

lemma unat_add_no_wrap: "unat (a :: 64 word) + unat c < 2 ^ 64 \<Longrightarrow> unat (a + c) = unat a + unat c"
  by (simp add: unat_word_ariths)

lemma no_wrap_Cons: "no_wrap a ((i, c) # es) \<Longrightarrow> no_wrap (a + c) es \<and> unat (a + c) = unat a + unat c"
  by (simp add: no_wrap_def unat_add_no_wrap)

lemma update_notin: "k \<notin> fst ` set acc \<Longrightarrow> AList.update k v acc = acc @ [(k, v)]"
  by (induction acc) auto

lemma copy_bins:
  "gm_wf m \<Longrightarrow> fst ` set m \<inter> fst ` set acc = {} \<Longrightarrow> fold (\<lambda>(i, c) b. AList.update i c b) m acc = acc @ m"
proof (induction m arbitrary: acc)
  case (Cons e m)
  obtain k v where e: "e = (k, v)" by force
  have "fst ` set m \<inter> fst ` set (acc @ [(k, v)]) = {}" using Cons.prems by (auto simp: e)
  with Cons.IH [of "acc @ [(k, v)]"] Cons.prems show ?case by (simp add: e update_notin)
qed simp

lemma sparse_buckets_eq: "gm_wf (ss_bins s) \<Longrightarrow> sparse_GetNonEmptyBuckets s = ss_bins s"
  using copy_bins [of "ss_bins s" "[]"] by (simp add: sparse_GetNonEmptyBuckets_def)

section \<open>The interface\<close>

locale bucket_store =
  fixes inv :: "'s \<Rightarrow> bool"
    and fits :: "'s \<Rightarrow> (int \<times> 64 word) list \<Rightarrow> bool"
    and add :: "'s \<Rightarrow> int \<Rightarrow> 64 word \<Rightarrow> 's"
    and get :: "'s \<Rightarrow> int \<Rightarrow> 64 word"
    and total :: "'s \<Rightarrow> 64 word"
    and clear :: "'s \<Rightarrow> 's"
    and buckets :: "'s \<Rightarrow> buckets"
    and min_index :: "'s \<Rightarrow> int \<times> bool"
    and max_index :: "'s \<Rightarrow> int \<times> bool"
  assumes add_inv: "inv s \<Longrightarrow> fits s ((i, c) # es) \<Longrightarrow> inv (add s i c)"
    and add_fits: "inv s \<Longrightarrow> fits s ((i, c) # es) \<Longrightarrow> fits (add s i c) es"
    and get_add: "inv s \<Longrightarrow> fits s ((i, c) # es) \<Longrightarrow> index_ok j \<Longrightarrow> get (add s i c) j = get s j + (if i = j then c else 0)"
    and total_add: "inv s \<Longrightarrow> fits s ((i, c) # es) \<Longrightarrow> total (add s i c) = total s + c"
    and fits_no_wrap: "fits s es \<Longrightarrow> no_wrap (total s) es"
    and clear_inv: "inv s \<Longrightarrow> inv (clear s)"
    and get_clear: "get (clear s) j = 0"
    and total_clear: "total (clear s) = 0"
    and buckets_wf: "inv s \<Longrightarrow> gm_wf (buckets s)"
    and buckets_get: "inv s \<Longrightarrow> index_ok j \<Longrightarrow> bin_get (buckets s) j = get s j"
    and buckets_keys: "inv s \<Longrightarrow> j \<in> fst ` set (buckets s) \<Longrightarrow> index_ok j"
    and buckets_total: "inv s \<Longrightarrow> counts (buckets s) = unat (total s)"
    and bounds: "inv s \<Longrightarrow> index_ok j \<Longrightarrow> get s j \<noteq> 0 \<Longrightarrow> encloses (min_index s) (max_index s) j"
    and bounds_ok: "inv s \<Longrightarrow> index_ok (fst (min_index s)) \<and> index_ok (fst (max_index s))"
begin

lemma add_list_ok:
  assumes "inv s" "fits s es" "index_ok j"
  shows "inv (add_list add s es) \<and> get (add_list add s es) j = get s j + hits j es"
  using assms
proof (induction es arbitrary: s)
  case Nil
  then show ?case by (simp add: add_list_def hits_def)
next
  case (Cons e es)
  obtain i c where e: "e = (i, c)" by force
  have "inv (add s i c)" "fits (add s i c) es" using add_inv add_fits Cons.prems unfolding e by blast+
  from Cons.IH [OF this Cons.prems(3)] get_add [OF Cons.prems(1)] Cons.prems(2,3)
  show ?case by (auto simp: add_list_def e algebra_simps)
qed

lemma add_list_total:
  assumes "inv s" "fits s es"
  shows "unat (total (add_list add s es)) = unat (total s) + counts es"
  using assms
proof (induction es arbitrary: s)
  case Nil
  then show ?case by (simp add: add_list_def counts_def)
next
  case (Cons e es)
  obtain i c where e: "e = (i, c)" by force
  have "inv (add s i c)" "fits (add s i c) es" using add_inv add_fits Cons.prems unfolding e by blast+
  note IH = Cons.IH [OF this]
  have "no_wrap (total s) ((i, c) # es)" using fits_no_wrap Cons.prems(2) unfolding e by blast
  then have "unat (total s + c) = unat (total s) + unat c"
    by (simp add: no_wrap_def counts_def unat_word_ariths)
  with IH total_add [OF Cons.prems(1)] Cons.prems(2)
  show ?case by (auto simp: add_list_def e counts_def)
qed

lemma reload_get:
  assumes "inv s" "fits (clear s) es" "index_ok j"
  shows "get (add_list add (clear s) es) j = hits j es"
  using add_list_ok [OF clear_inv [OF assms(1)] assms(2,3)] by (simp add: get_clear)

lemma reload_total:
  assumes "inv s" "fits (clear s) es"
  shows "unat (total (add_list add (clear s) es)) = counts es"
  using add_list_total [OF clear_inv [OF assms(1)] assms(2)] by (simp add: total_clear)

end

locale merging_store = bucket_store +
  fixes merge_fits :: "'a \<Rightarrow> buckets \<Rightarrow> bool"
    and merge :: "'a \<Rightarrow> buckets \<Rightarrow> 64 word \<Rightarrow> 'a"
  assumes merge_inv: "inv s \<Longrightarrow> gm_wf bs \<Longrightarrow> merge_fits s bs \<Longrightarrow> unat t = counts bs \<Longrightarrow> inv (merge s bs t)"
    and get_merge: "inv s \<Longrightarrow> gm_wf bs \<Longrightarrow> merge_fits s bs \<Longrightarrow> unat t = counts bs \<Longrightarrow> index_ok j \<Longrightarrow>
      get (merge s bs t) j = get s j + bin_get bs j"
    and total_merge: "total (merge s bs t) = total s + t"
begin

lemma switch_get:
  assumes "inv s" "gm_wf bs" "merge_fits (clear s) bs" "unat t = counts bs" "index_ok j"
  shows "get (merge (clear s) bs t) j = bin_get bs j \<and> total (merge (clear s) bs t) = t"
  using get_merge [OF clear_inv [OF assms(1)] assms(2-5)] by (simp add: get_clear total_merge total_clear)

end

section \<open>The sparse store keeps the contract\<close>

lemma index_ok_int32 [simp]: "index_ok max_int32" "index_ok min_int32"
  by (simp_all add: index_ok_def max_int32_def min_int32_def)

lemma index_ok_between: "index_ok a \<Longrightarrow> index_ok b \<Longrightarrow> a \<le> j \<Longrightarrow> j \<le> b \<Longrightarrow> index_ok j"
  by (simp add: index_ok_def)

lemma sparse_Add_small:
  assumes "sparse_inv s" "sparse_fits s ((i, c) # es)"
  shows "sparse_Add portion s i c =
    s\<lparr>ss_bins := bin_add i c (ss_bins s), ss_count := ss_count s + c,
      ss_minIndex := (if i < ss_minIndex s then i else ss_minIndex s),
      ss_maxIndex := (if i > ss_maxIndex s then i else ss_maxIndex s), ss_hasElements := True\<rparr>"
proof -
  have wf: "gm_wf (bin_add i c (ss_bins s))" using assms(1) by (simp add: sparse_inv_def bin_add_wf)
  have "card (fst ` set (bin_add i c (ss_bins s))) \<le> card (fst ` set (ss_bins s) \<union> fst ` set ((i, c) # es))"
    by (rule card_mono) (auto simp: bin_add_keys)
  also have "\<dots> \<le> 1000" using assms(2) by (simp add: sparse_fits_def)
  finally have "length (bin_add i c (ss_bins s)) \<le> 1000" using length_gm_wf [OF wf] by simp
  then show ?thesis by (simp add: sparse_Add_def Let_def)
qed

lemma sparse_Add_inv:
  assumes "sparse_inv s" "sparse_fits s ((i, c) # es)"
  shows "sparse_inv (sparse_Add portion s i c)" and "sparse_fits (sparse_Add portion s i c) es"
proof -
  have nw: "no_wrap (ss_count s) ((i, c) # es)" using assms(2) by (simp add: sparse_fits_def)
  from no_wrap_Cons [OF nw] have c: "no_wrap (ss_count s + c) es" "unat (ss_count s + c) = unat (ss_count s) + unat c"
    by simp_all
  have "counts (ss_bins s) + unat c < 2 ^ 64" using nw assms(1) by (simp add: no_wrap_def sparse_inv_def)
  then have cnt: "counts (bin_add i c (ss_bins s)) = unat (ss_count s + c)"
    using counts_bin_add assms(1) c(2) by (simp add: sparse_inv_def)
  show "sparse_inv (sparse_Add portion s i c)"
    using assms(1) assms(2) [unfolded sparse_fits_def] cnt unfolding sparse_Add_small [OF assms] sparse_inv_def
    by (auto simp: bin_add_keys bin_add_wf)
  show "sparse_fits (sparse_Add portion s i c) es"
    using assms(2) c(1) unfolding sparse_Add_small [OF assms] sparse_fits_def
    by (simp add: bin_add_keys)
qed

lemma sparse_merge_bins:
  assumes "gm_wf (ss_bins s)" "counts (ss_bins s) + counts es < 2 ^ 64"
  defines "s' \<equiv> fold sparse_merge_bin es s"
  shows "gm_wf (ss_bins s')" and "counts (ss_bins s') = counts (ss_bins s) + counts es"
    and "bin_get (ss_bins s') j = bin_get (ss_bins s) j + hits j es"
  using assms(1,2) unfolding s'_def
proof (induction es arbitrary: s)
  case (Cons e es)
  obtain i c where e: "e = (i, c)" by force
  case 1 show ?case using Cons.IH(1) [of "sparse_merge_bin e s"] 1
    by (simp add: sparse_merge_bin_def e bin_add_wf counts_bin_add)
  case 2 show ?case using Cons.IH(2) [of "sparse_merge_bin e s"] 2
    by (simp add: sparse_merge_bin_def e bin_add_wf counts_bin_add)
  case 3 show ?case using Cons.IH(3) [of "sparse_merge_bin e s"] 3
    by (simp add: sparse_merge_bin_def e bin_add_wf counts_bin_add bin_get_add)
qed simp_all

lemma sparse_merge_bins_bounds:
  fixes es :: "(int \<times> 64 word) list"
  assumes "\<forall>i \<in> fst ` set (ss_bins s). ss_minIndex s \<le> i \<and> i \<le> ss_maxIndex s"
  defines "s' \<equiv> fold sparse_merge_bin es s"
  shows "\<forall>i \<in> fst ` set (ss_bins s'). ss_minIndex s' \<le> i \<and> i \<le> ss_maxIndex s'"
    and "ss_count s' = ss_count s" and "ss_hasElements s' = ss_hasElements s"
  using assms(1) unfolding s'_def
proof (induction es arbitrary: s)
  case (Cons e es)
  obtain i c where e: "e = (i, c)" by force
  have step: "\<forall>i \<in> fst ` set (ss_bins s). ss_minIndex s \<le> i \<and> i \<le> ss_maxIndex s \<Longrightarrow>
    \<forall>i \<in> fst ` set (ss_bins (sparse_merge_bin e s)).
      ss_minIndex (sparse_merge_bin e s) \<le> i \<and> i \<le> ss_maxIndex (sparse_merge_bin e s)" for s
    by (auto simp: sparse_merge_bin_def e bin_add_keys)
  case 1 show ?case using Cons.IH(1) [OF step [OF 1]] by simp
  case 2 show ?case using Cons.IH(2) [OF step [OF 2]] by (simp add: sparse_merge_bin_def e)
  case 3 show ?case using Cons.IH(3) [OF step [OF 3]] by (simp add: sparse_merge_bin_def e)
qed simp_all

lemma sparse_merge_bins_index:
  "\<forall>i \<in> fst ` set es. index_ok i \<Longrightarrow> index_ok (ss_minIndex s) \<Longrightarrow> index_ok (ss_maxIndex s) \<Longrightarrow>
   index_ok (ss_minIndex (fold sparse_merge_bin es s)) \<and> index_ok (ss_maxIndex (fold sparse_merge_bin es s))"
proof (induction es arbitrary: s)
  case (Cons e es)
  have "index_ok (ss_minIndex (sparse_merge_bin e s)) \<and> index_ok (ss_maxIndex (sparse_merge_bin e s))"
    using Cons.prems by (auto simp: sparse_merge_bin_def Let_def split: prod.splits)
  with Cons.IH [of "sparse_merge_bin e s"] Cons.prems(1) show ?case by simp
qed simp

lemma sparse_merge_bins_count: "ss_count (fold sparse_merge_bin es s) = ss_count s"
  by (induction es arbitrary: s) (simp_all add: sparse_merge_bin_def split: prod.splits)

lemma collapse_count: "ss_count (collapseBuckets portion s) = ss_count s"
  by (simp add: collapseBuckets_def recalculateMinMax_def)

lemma sparse_Merge_small:
  assumes "sparse_merge_fits s bs"
  shows "sparse_Merge portion s bs t =
    (let s1 = fold sparse_merge_bin bs s; s2 = s1\<lparr>ss_count := ss_count s1 + t\<rparr>
     in if 0 < ss_count s2 then s2\<lparr>ss_hasElements := True\<rparr> else s2)"
  using assms by (simp add: sparse_Merge_def sparse_merge_fits_def Let_def)

lemma sparse_Merge_inv:
  assumes "sparse_inv s" "sparse_merge_fits s bs" "unat t = counts bs"
  shows "sparse_inv (sparse_Merge portion s bs t)"
proof -
  have lt: "counts (ss_bins s) + counts bs < 2 ^ 64"
    using assms(1,2) by (simp add: sparse_inv_def sparse_merge_fits_def no_wrap_def)
  then have t: "unat (ss_count s + t) = unat (ss_count s) + unat t"
    using assms(1,3) by (simp add: sparse_inv_def unat_add_no_wrap)
  have wf: "gm_wf (ss_bins s)" and bnd: "\<forall>i \<in> fst ` set (ss_bins s). ss_minIndex s \<le> i \<and> i \<le> ss_maxIndex s"
    using assms(1) by (simp_all add: sparse_inv_def)
  have "index_ok (ss_minIndex (fold sparse_merge_bin bs s)) \<and> index_ok (ss_maxIndex (fold sparse_merge_bin bs s))"
    using assms(1,2) by (intro sparse_merge_bins_index) (simp_all add: sparse_inv_def sparse_merge_fits_def)
  note facts = sparse_merge_bins [OF wf lt] sparse_merge_bins_bounds [OF bnd, of bs] this
  show ?thesis
    unfolding sparse_Merge_small [OF assms(2)] Let_def sparse_inv_def
    using facts t assms(1,3) by (auto simp: sparse_inv_def)
qed

interpretation sparse: merging_store sparse_inv sparse_fits "sparse_Add portion" sparse_Get sparse_GetTotalCount
  sparse_Clear sparse_GetNonEmptyBuckets sparse_GetMinIndex sparse_GetMaxIndex sparse_merge_fits "sparse_Merge portion"
  for portion
proof unfold_locales
  fix s i c es
  assume a: "sparse_inv s" "sparse_fits s ((i, c) # es)"
  show "sparse_inv (sparse_Add portion s i c)" "sparse_fits (sparse_Add portion s i c) es"
    by (rule sparse_Add_inv [OF a])+
  show "sparse_Get (sparse_Add portion s i c) j = sparse_Get s j + (if i = j then c else 0)" for j
    unfolding sparse_Add_small [OF a] by (simp add: sparse_Get_def bin_get_add)
  show "sparse_GetTotalCount (sparse_Add portion s i c) = sparse_GetTotalCount s + c"
    unfolding sparse_Add_small [OF a] by (simp add: sparse_GetTotalCount_def)
next
  fix s es assume "sparse_fits s es"
  then show "no_wrap (sparse_GetTotalCount s) es" by (simp add: sparse_fits_def sparse_GetTotalCount_def)
next
  fix s assume inv: "sparse_inv s"
  show "sparse_inv (sparse_Clear s)" by (simp add: sparse_inv_def sparse_Clear_def)
  show "gm_wf (sparse_GetNonEmptyBuckets s)" "counts (sparse_GetNonEmptyBuckets s) = unat (sparse_GetTotalCount s)"
    using inv by (simp_all add: sparse_inv_def sparse_buckets_eq sparse_GetTotalCount_def)
  show "bin_get (sparse_GetNonEmptyBuckets s) j = sparse_Get s j" for j
    using inv by (simp add: sparse_inv_def sparse_buckets_eq sparse_Get_def)
  show "index_ok (fst (sparse_GetMinIndex s)) \<and> index_ok (fst (sparse_GetMaxIndex s))"
    using inv by (simp add: sparse_inv_def sparse_GetMinIndex_def sparse_GetMaxIndex_def index_ok_def)
  show "index_ok j" if "j \<in> fst ` set (sparse_GetNonEmptyBuckets s)" for j
    using inv that by (auto simp: sparse_inv_def sparse_buckets_eq intro: index_ok_between)
  fix j assume nz: "sparse_Get s j \<noteq> 0"
  then have "j \<in> fst ` set (ss_bins s)" using bin_get_notin by (auto simp: sparse_Get_def)
  moreover have "0 < ss_count s"
    using inv by (intro pos_count [OF nz [unfolded sparse_Get_def]]) (simp add: sparse_inv_def)
  ultimately show "encloses (sparse_GetMinIndex s) (sparse_GetMaxIndex s) j"
    using inv by (auto simp: encloses_def sparse_GetMinIndex_def sparse_GetMaxIndex_def sparse_inv_def)
next
  fix s bs and t :: "64 word"
  assume a: "sparse_inv s" "gm_wf bs" "sparse_merge_fits s bs" "unat t = counts bs"
  show "sparse_inv (sparse_Merge portion s bs t)" by (rule sparse_Merge_inv [OF a(1,3,4)])
  have "gm_wf (ss_bins s)" "counts (ss_bins s) + counts bs < 2 ^ 64"
    using a by (simp_all add: sparse_inv_def sparse_merge_fits_def no_wrap_def)
  from sparse_merge_bins(3) [OF this] hits_bin_get [OF a(2)]
  show "sparse_Get (sparse_Merge portion s bs t) j = sparse_Get s j + bin_get bs j" for j
    unfolding sparse_Merge_small [OF a(3)] by (simp add: sparse_Get_def Let_def)
qed (simp_all add: sparse_Get_def sparse_Clear_def sparse_GetTotalCount_def sparse_Merge_def Let_def
  collapse_count sparse_merge_bins_count)

section \<open>The dense store keeps the contract\<close>

lemma index_sub: "index_ok i \<Longrightarrow> index_ok j \<Longrightarrow> to_int64 (i - j) = i - j"
  by (rule to_int64_id) (simp add: index_ok_def in_int64_def min_int64_def max_int64_def)

lemma dense_Get_eq:
  "dense_room d \<Longrightarrow> index_ok j \<Longrightarrow>
   dense_Get d j = (if in_array d j then ds_bins d ! nat (j - ds_offset d) else 0)"
  by (auto simp: dense_Get_def dense_room_def in_array_def index_sub Let_def)

lemma dense_Get_frame [simp]:
  "dense_Get (d\<lparr>ds_count := a\<rparr>) j = dense_Get d j" "dense_Get (d\<lparr>ds_hasElements := b\<rparr>) j = dense_Get d j"
  by (simp_all add: dense_Get_def Let_def)

lemma dense_Get_Clear [simp]: "dense_Get (dense_Clear d) j = 0"
  by (simp add: dense_Get_def dense_Clear_def Let_def nat_less_iff)

lemma ensureCapacity_cases:
  assumes "dense_room d" "index_ok i"
  obtains "ds_bins d = []" "ensureCapacity d i = d\<lparr>ds_bins := [0], ds_offset := i\<rparr>"
  | n where "ds_bins d \<noteq> []" "ensureCapacity d i = d\<lparr>ds_bins := replicate n 0 @ ds_bins d, ds_offset := i\<rparr>"
      "ds_offset d = i + int n" "0 < n"
  | n where "ds_bins d \<noteq> []" "ensureCapacity d i = d\<lparr>ds_bins := ds_bins d @ replicate n 0\<rparr>"
      "ds_offset d + int (length (ds_bins d) + n) = i + 1"
  | "ensureCapacity d i = d" "in_array d i"
proof -
  have ok: "index_ok (ds_offset d)" using assms(1) by (simp add: dense_room_def)
  define a where "a = i - ds_offset d"
  have a: "to_int64 (i - ds_offset d) = a" using index_sub [OF assms(2) ok] by (simp add: a_def)
  consider "ds_bins d = []" | "ds_bins d \<noteq> []" "a < 0" | "ds_bins d \<noteq> []" "int (length (ds_bins d)) \<le> a"
    | "ds_bins d \<noteq> []" "0 \<le> a" "a < int (length (ds_bins d))" by linarith
  then show thesis
  proof cases
    case 1
    show ?thesis by (rule that(1)) (simp_all add: ensureCapacity_def 1)
  next
    case 2
    have "ensureCapacity d i = d\<lparr>ds_bins := replicate (nat (- a)) 0 @ ds_bins d, ds_offset := i\<rparr>"
      unfolding ensureCapacity_def a Let_def using 2 by simp
    then show ?thesis by (rule that(2) [OF 2(1)]) (use 2(2) in \<open>simp_all add: a_def\<close>)
  next
    case 3
    then have "\<not> a < 0" by linarith
    then have "ensureCapacity d i = d\<lparr>ds_bins := ds_bins d @ replicate (nat (a + 1) - length (ds_bins d)) 0\<rparr>"
      unfolding ensureCapacity_def a Let_def using 3 by simp
    then show ?thesis by (rule that(3) [OF 3(1)]) (use 3(2) in \<open>simp add: a_def\<close>)
  next
    case 4
    have "ensureCapacity d i = d" unfolding ensureCapacity_def a Let_def using 4 by simp
    then show ?thesis by (rule that(4)) (use 4 in \<open>simp add: a_def in_array_def\<close>)
  qed
qed

lemma ensureCapacity_room:
  assumes "dense_room d" "index_ok i"
  shows "dense_room (ensureCapacity d i) \<and> in_array (ensureCapacity d i) i
    \<and> (in_array d j \<longrightarrow> in_array (ensureCapacity d i) j)"
proof (cases rule: ensureCapacity_cases [OF assms])
  case 1
  show ?thesis unfolding 1(2) using assms(2) 1(1) by (simp add: dense_room_def in_array_def index_ok_def)
next
  case (2 n)
  have "0 < length (ds_bins d)" using 2(1) by simp
  then show ?thesis unfolding 2(2) using assms 2(3,4) by (simp add: dense_room_def in_array_def)
next
  case (3 n)
  have "i < 2 ^ 62" using assms(2) by (simp add: index_ok_def)
  moreover have "ds_offset d \<le> i"
  proof -
    have "0 < length (ds_bins d)" using 3(1) by simp
    with 3(3) show ?thesis by linarith
  qed
  ultimately show ?thesis unfolding 3(2) using assms(1) 3(3) unfolding dense_room_def in_array_def by simp
next
  case 4
  show ?thesis unfolding 4(1) using assms 4(2) by simp
qed

lemma ensureCapacity_Get:
  assumes "dense_room d" "index_ok i" "index_ok j"
  shows "dense_Get (ensureCapacity d i) j = dense_Get d j"
proof (cases rule: ensureCapacity_cases [OF assms(1,2)])
  case 1
  then show ?thesis using assms ensureCapacity_room [OF assms(1,2)]
    by (auto simp: dense_Get_eq in_array_def)
next
  case (2 n)
  have "nat (j - i) - n = nat (j - ds_offset d)" using 2(3) by simp
  then have "(replicate n 0 @ ds_bins d) ! nat (j - i) = (if ds_offset d \<le> j then ds_bins d ! nat (j - ds_offset d) else 0)"
    if "i \<le> j" using that 2(3) by (simp add: nth_append nat_less_iff)
  then show ?thesis using assms(3) 2(2,3) ensureCapacity_room [OF assms(1,2)]
    by (simp add: dense_Get_eq assms in_array_def)
next
  case (3 n)
  have "(ds_bins d @ replicate n 0) ! nat (j - ds_offset d) =
      (if j < ds_offset d + int (length (ds_bins d)) then ds_bins d ! nat (j - ds_offset d) else 0)"
    if "ds_offset d \<le> j" "j \<le> i" using that 3(3) by (simp add: nth_append nat_less_iff)
  then show ?thesis using assms(3) 3(2,3) ensureCapacity_room [OF assms(1,2)]
    by (simp add: dense_Get_eq assms in_array_def)
qed simp

lemma ensureCapacity_frame:
  "ds_count (ensureCapacity d i) = ds_count d" "ds_hasElements (ensureCapacity d i) = ds_hasElements d"
  "ds_minIndex (ensureCapacity d i) = ds_minIndex d" "ds_maxIndex (ensureCapacity d i) = ds_maxIndex d"
  "sum_list (map unat (ds_bins (ensureCapacity d i))) = sum_list (map unat (ds_bins d))"
  by (simp_all add: ensureCapacity_def Let_def sum_list_replicate)

lemma dense_inv_room: "dense_inv d \<Longrightarrow> dense_room d"
  by (simp add: dense_inv_def dense_room_def)

lemma ensureCapacity_inv: "dense_inv d \<Longrightarrow> index_ok i \<Longrightarrow> dense_inv (ensureCapacity d i)"
  using ensureCapacity_room [of d i] ensureCapacity_Get [of d i]
  by (simp add: dense_inv_def ensureCapacity_frame dense_room_def)

lemma dense_bump_get:
  assumes "dense_room d" "in_array d i" "index_ok i" "index_ok j"
  shows "dense_Get (dense_bump d i c) j = dense_Get d j + (if i = j then c else 0)"
proof -
  have sub: "to_int64 (i - ds_offset d) = i - ds_offset d"
    using assms by (intro index_sub) (simp_all add: dense_room_def)
  have "dense_room (dense_bump d i c)" using assms(1) by (simp add: dense_room_def dense_bump_def Let_def)
  then show ?thesis using assms sub
    by (auto simp: dense_Get_eq in_array_def dense_bump_def Let_def nth_list_update)
qed

lemma dense_bump_sum:
  assumes "dense_room d" "in_array d i" "index_ok i" "sum_list (map unat (ds_bins d)) + unat c < 2 ^ 64"
  shows "sum_list (map unat (ds_bins (dense_bump d i c))) = sum_list (map unat (ds_bins d)) + unat c"
proof -
  define k where "k = nat (i - ds_offset d)"
  have sub: "to_int64 (i - ds_offset d) = i - ds_offset d"
    using assms by (intro index_sub) (simp_all add: dense_room_def)
  have k: "k < length (ds_bins d)" using assms(2) by (auto simp: in_array_def k_def)
  then have le: "unat (ds_bins d ! k) \<le> sum_list (map unat (ds_bins d))"
    using member_le_sum_list [of "unat (ds_bins d ! k)" "map unat (ds_bins d)"] by simp
  then have "unat (ds_bins d ! k + c) = unat (ds_bins d ! k) + unat c"
    using assms(4) by (intro unat_add_no_wrap) simp
  with k le show ?thesis by (simp add: dense_bump_def sub k_def [symmetric] map_update sum_list_update)
qed

lemma room_int64: "- (2 ^ 62) \<le> i \<Longrightarrow> i + int (Suc n) \<le> 2 ^ 62 \<Longrightarrow> to_int64 i = i"
  by (intro to_int64_id) (simp add: in_int64_def min_int64_def max_int64_def)

lemma dense_collect_keys:
  "- (2 ^ 62) \<le> i \<Longrightarrow> i + int (length cs) \<le> 2 ^ 62 \<Longrightarrow>
   fst ` set (dense_collect i cs) \<subseteq> {i..< i + int (length cs)} \<and> gm_wf (dense_collect i cs)"
proof (induction cs arbitrary: i)
  case (Cons c cs)
  have i: "to_int64 i = i" using Cons.prems room_int64 [of i "length cs"] by simp
  have IH: "fst ` set (dense_collect (i + 1) cs) \<subseteq> {i + 1..< i + 1 + int (length cs)}" "gm_wf (dense_collect (i + 1) cs)"
    using Cons.IH [of "i + 1"] Cons.prems by simp_all
  have "i \<notin> fst ` set (dense_collect (i + 1) cs)" using IH(1) by auto
  moreover have "fst ` set (dense_collect (i + 1) cs) \<subseteq> {i..< i + int (length (c # cs))}"
    using IH(1) by (rule order_trans) auto
  ultimately show ?case using IH(2) by (simp add: i)
qed simp

lemma dense_collect_get:
  "- (2 ^ 62) \<le> i \<Longrightarrow> i + int (length cs) \<le> 2 ^ 62 \<Longrightarrow>
   bin_get (dense_collect i cs) j = (if i \<le> j \<and> j < i + int (length cs) then cs ! nat (j - i) else 0)"
proof (induction cs arbitrary: i)
  case Nil
  then show ?case by auto
next
  case (Cons c cs)
  have i: "to_int64 i = i" using Cons.prems room_int64 [of i "length cs"] by simp
  have IH: "bin_get (dense_collect (i + 1) cs) j = (if i + 1 \<le> j \<and> j < i + 1 + int (length cs) then cs ! nat (j - (i + 1)) else 0)"
    using Cons.IH [of "i + 1"] Cons.prems by simp
  consider "j = i" | "j < i" | "i < j" by linarith
  then show ?case
  proof cases
    case 1 then show ?thesis using IH by (simp add: i word_gt_0)
  next
    case 2 then show ?thesis by (simp add: i IH)
  next
    case 3
    then have "nat (j - i) = Suc (nat (j - (i + 1)))" by simp
    with 3 show ?thesis by (simp add: i IH)
  qed
qed

lemma dense_collect_counts: "counts (dense_collect i cs) = sum_list (map unat cs)"
  by (induction cs arbitrary: i) (auto simp: word_gt_0)

lemma dense_Add_inv:
  assumes "dense_inv d" "dense_fits d ((i, c) # es)"
  shows "dense_inv (dense_Add d i c)" and "dense_fits (dense_Add d i c) es"
    and "index_ok j \<Longrightarrow> dense_Get (dense_Add d i c) j = dense_Get d j + (if i = j then c else 0)"
proof -
  define e where "e = ensureCapacity d i"
  have i: "index_ok i" and nw: "no_wrap (ds_count d) ((i, c) # es)" using assms(2) by (simp_all add: dense_fits_def)
  have room: "dense_room e" "in_array e i" using ensureCapacity_room [OF dense_inv_room [OF assms(1)] i] by (simp_all add: e_def)
  have inv: "dense_inv e" using ensureCapacity_inv assms(1) i by (simp add: e_def)
  have cnt: "ds_count e = ds_count d" by (simp add: e_def ensureCapacity_frame)
  have get: "dense_Get (dense_Add d i c) j = dense_Get e j + (if i = j then c else 0)" if "index_ok j" for j
    using dense_bump_get [OF room i that, of c] by (simp add: dense_Add_def e_def [symmetric] Let_def)
  show "dense_Get (dense_Add d i c) j = dense_Get d j + (if i = j then c else 0)" if "index_ok j"
    using get [OF that] ensureCapacity_Get [OF dense_inv_room [OF assms(1)] i that] by (simp add: e_def)
  have "sum_list (map unat (ds_bins e)) + unat c < 2 ^ 64"
    using inv nw cnt by (simp add: dense_inv_def no_wrap_def)
  from dense_bump_sum [OF room i this] no_wrap_Cons [OF nw] inv
  have sum: "sum_list (map unat (ds_bins (dense_bump e i c))) = unat (ds_count e + c)"
    by (simp add: cnt dense_inv_def)
  have bnd: "index_ok j \<Longrightarrow> dense_Get e j \<noteq> 0 \<Longrightarrow> ds_minIndex e \<le> j \<and> j \<le> ds_maxIndex e" for j
    using inv by (simp add: dense_inv_def)
  have "ds_minIndex (dense_Add d i c) \<le> j \<and> j \<le> ds_maxIndex (dense_Add d i c)"
    if "index_ok j" "dense_Get (dense_Add d i c) j \<noteq> 0" for j
    using bnd [of j] get [of j] that
    by (cases "i = j") (auto simp: dense_Add_def e_def [symmetric] dense_bump_def Let_def)
  moreover have "index_ok (ds_minIndex (dense_Add d i c))" "index_ok (ds_maxIndex (dense_Add d i c))"
    using inv i by (simp_all add: dense_Add_def e_def [symmetric] dense_bump_def Let_def dense_inv_def)
  moreover have "dense_room (dense_Add d i c)" "ds_hasElements (dense_Add d i c)"
    "sum_list (map unat (ds_bins (dense_Add d i c))) = unat (ds_count (dense_Add d i c))"
    using room(1) sum by (simp_all add: dense_room_def dense_Add_def e_def [symmetric] dense_bump_def Let_def)
  ultimately show "dense_inv (dense_Add d i c)" by (simp add: dense_inv_def dense_room_def)
  show "dense_fits (dense_Add d i c) es"
    using assms(2) no_wrap_Cons [OF nw] by (simp add: dense_fits_def dense_Add_def dense_bump_def Let_def ensureCapacity_frame)
qed

lemma dense_merge_bin_step:
  assumes "dense_room d" "in_array d i" "index_ok i"
  shows "dense_merge_bin (i, c) d = dense_bump d i c" and "dense_room (dense_bump d i c)"
    and "in_array (dense_bump d i c) j = in_array d j"
proof -
  have "to_int64 (i - ds_offset d) = i - ds_offset d"
    using assms by (intro index_sub) (simp_all add: dense_room_def)
  then show "dense_merge_bin (i, c) d = dense_bump d i c"
    using assms(2) by (simp add: dense_merge_bin_def in_array_def Let_def)
  show "dense_room (dense_bump d i c)" "in_array (dense_bump d i c) j = in_array d j"
    using assms(1) by (simp_all add: dense_room_def in_array_def dense_bump_def Let_def)
qed

lemma dense_merge_bins:
  assumes "dense_room d" "\<forall>(i, _) \<in> set es. in_array d i \<and> index_ok i"
    "sum_list (map unat (ds_bins d)) + counts es < 2 ^ 64"
    "\<forall>j. index_ok j \<longrightarrow> dense_Get d j \<noteq> 0 \<longrightarrow> ds_minIndex d \<le> j \<and> j \<le> ds_maxIndex d"
  shows "let d' = fold dense_merge_bin es d in dense_room d'
    \<and> sum_list (map unat (ds_bins d')) = sum_list (map unat (ds_bins d)) + counts es
    \<and> (\<forall>j. index_ok j \<longrightarrow> dense_Get d' j = dense_Get d j + hits j es)
    \<and> (\<forall>j. index_ok j \<longrightarrow> dense_Get d' j \<noteq> 0 \<longrightarrow> ds_minIndex d' \<le> j \<and> j \<le> ds_maxIndex d')
    \<and> ds_count d' = ds_count d \<and> ds_hasElements d' = ds_hasElements d"
  using assms
proof (induction es arbitrary: d)
  case (Cons e es)
  obtain i c where e: "e = (i, c)" by force
  have i: "in_array d i" "index_ok i" using Cons.prems(2) by (auto simp: e)
  note step = dense_merge_bin_step [OF Cons.prems(1) i, of c]
  have sum: "sum_list (map unat (ds_bins (dense_bump d i c))) = sum_list (map unat (ds_bins d)) + unat c"
    using Cons.prems(3) by (intro dense_bump_sum [OF Cons.prems(1) i]) (simp add: e)
  have get: "dense_Get (dense_bump d i c) j = dense_Get d j + (if i = j then c else 0)" if "index_ok j" for j
    by (rule dense_bump_get [OF Cons.prems(1) i that])
  have bnd: "\<forall>j. index_ok j \<longrightarrow> dense_Get (dense_bump d i c) j \<noteq> 0 \<longrightarrow>
      ds_minIndex (dense_bump d i c) \<le> j \<and> j \<le> ds_maxIndex (dense_bump d i c)"
  proof (intro allI impI)
    fix j assume j: "index_ok j" "dense_Get (dense_bump d i c) j \<noteq> 0"
    show "ds_minIndex (dense_bump d i c) \<le> j \<and> j \<le> ds_maxIndex (dense_bump d i c)"
    proof (cases "i = j")
      case False
      then have "ds_minIndex d \<le> j \<and> j \<le> ds_maxIndex d" using Cons.prems(4) j get by simp
      then show ?thesis by (simp add: dense_bump_def Let_def)
    qed (simp add: dense_bump_def Let_def)
  qed
  have frame: "ds_count (dense_bump d i c) = ds_count d" "ds_hasElements (dense_bump d i c) = ds_hasElements d"
    by (simp_all add: dense_bump_def Let_def)
  have "\<forall>(i', _) \<in> set es. in_array (dense_bump d i c) i' \<and> index_ok i'" using Cons.prems(2) step(3) by auto
  from Cons.IH [OF step(2) this _ bnd] Cons.prems(3) sum get frame step(1)
  show ?case by (simp add: e Let_def add.assoc)
qed (simp add: Let_def)

lemma dense_merge_bins_index:
  "\<forall>i \<in> fst ` set es. index_ok i \<Longrightarrow> index_ok (ds_minIndex d) \<Longrightarrow> index_ok (ds_maxIndex d) \<Longrightarrow>
   index_ok (ds_minIndex (fold dense_merge_bin es d)) \<and> index_ok (ds_maxIndex (fold dense_merge_bin es d))"
proof (induction es arbitrary: d)
  case (Cons e es)
  have "index_ok (ds_minIndex (dense_merge_bin e d)) \<and> index_ok (ds_maxIndex (dense_merge_bin e d))"
    using Cons.prems by (auto simp: dense_merge_bin_def dense_bump_def Let_def split: prod.splits)
  with Cons.IH [of "dense_merge_bin e d"] Cons.prems(1) show ?case by simp
qed simp

lemma fold_min_le: "fold (\<lambda>(i, _) m. if i < m then i else m) bs (m :: int) \<le> m
    \<and> (\<forall>(i, _) \<in> set bs. fold (\<lambda>(i, _) m. if i < m then i else m) bs m \<le> i)"
proof (induction bs arbitrary: m)
  case (Cons b bs)
  then show ?case using Cons.IH [of "if fst b < m then fst b else m"] by (auto split: prod.splits if_splits) force+
qed simp

lemma fold_max_ge: "m \<le> fold (\<lambda>(i, _) m. if i > m then i else m) bs (m :: int)
    \<and> (\<forall>(i, _) \<in> set bs. i \<le> fold (\<lambda>(i, _) m. if i > m then i else m) bs m)"
proof (induction bs arbitrary: m)
  case (Cons b bs)
  then show ?case using Cons.IH [of "if fst b > m then fst b else m"] by (auto split: prod.splits if_splits) force+
qed simp

lemma fold_min_in: "fold (\<lambda>(i, _) m. if i < m then i else m) bs (m :: int) \<in> insert m (fst ` set bs)"
  by (induction bs arbitrary: m) (auto split: prod.splits if_splits)

lemma fold_max_in: "fold (\<lambda>(i, _) m. if i > m then i else m) bs (m :: int) \<in> insert m (fst ` set bs)"
  by (induction bs arbitrary: m) (auto split: prod.splits if_splits)

lemma dense_widen:
  assumes "dense_inv d" "\<forall>i \<in> fst ` set bs. index_ok i"
  obtains d1 where "dense_inv d1" "\<forall>(i, _) \<in> set bs. in_array d1 i \<and> index_ok i"
    "\<And>j. index_ok j \<Longrightarrow> dense_Get d1 j = dense_Get d j" "ds_count d1 = ds_count d"
    "\<And>t. dense_Merge d bs t = (let d2 = fold dense_merge_bin bs d1; d3 = d2\<lparr>ds_count := ds_count d2 + t\<rparr>
        in if 0 < ds_count d3 then d3\<lparr>ds_hasElements := True\<rparr> else d3)"
proof (cases "bs = []")
  case True
  show ?thesis by (rule that [of d]) (use assms True in \<open>simp_all add: dense_Merge_def\<close>)
next
  case False
  define lo where "lo = fold (\<lambda>(i, _) m. if i < m then i else m) bs max_int32"
  define hi where "hi = fold (\<lambda>(i, _) m. if i > m then i else m) bs min_int32"
  have lohi: "index_ok lo" "index_ok hi"
    using fold_min_in [of bs max_int32] fold_max_in [of bs min_int32] assms(2)
    by (auto simp: lo_def hi_def index_ok_def max_int32_def min_int32_def)
  define e where "e = ensureCapacity d lo"
  define d1 where "d1 = ensureCapacity e hi"
  have room: "dense_room d" "dense_room e"
    using dense_inv_room assms(1) ensureCapacity_room [OF _ lohi(1)] by (auto simp: e_def)
  have "dense_inv e" "dense_inv d1" using ensureCapacity_inv assms(1) lohi by (simp_all add: e_def d1_def)
  have get: "dense_Get d1 j = dense_Get d j" if "index_ok j" for j
    using ensureCapacity_Get [OF room(1) lohi(1) that] ensureCapacity_Get [OF room(2) lohi(2) that]
    by (simp add: e_def d1_def)
  have "in_array e lo" using ensureCapacity_room [OF room(1) lohi(1)] by (simp add: e_def)
  then have "in_array d1 lo" "in_array d1 hi" using ensureCapacity_room [OF room(2) lohi(2)] by (simp_all add: d1_def)
  then have "in_array d1 i" if "lo \<le> i" "i \<le> hi" for i using that by (simp add: in_array_def)
  then have "\<forall>(i, _) \<in> set bs. in_array d1 i \<and> index_ok i"
    using fold_min_le [of bs max_int32] fold_max_ge [where m = min_int32 and bs = bs] assms(2) unfolding lo_def hi_def by fastforce
  then show ?thesis
    by (rule that [OF \<open>dense_inv d1\<close> _ get])
      (use False in \<open>simp_all add: dense_Merge_def lo_def [symmetric] hi_def [symmetric] e_def [symmetric] d1_def [symmetric]\<close>,
       simp add: d1_def e_def ensureCapacity_frame)
qed

lemma dense_Merge_ok:
  assumes "dense_inv d" "dense_fits d bs" "unat t = counts bs"
  shows "dense_inv (dense_Merge d bs t)"
    and "index_ok j \<Longrightarrow> dense_Get (dense_Merge d bs t) j = dense_Get d j + hits j bs"
proof -
  have idx: "\<forall>i \<in> fst ` set bs. index_ok i" and nw: "no_wrap (ds_count d) bs"
    using assms(2) by (simp_all add: dense_fits_def)
  obtain d1 where inv: "dense_inv d1" and arr: "\<forall>(i, _) \<in> set bs. in_array d1 i \<and> index_ok i"
    and get: "\<And>j. index_ok j \<Longrightarrow> dense_Get d1 j = dense_Get d j" and cnt: "ds_count d1 = ds_count d"
    and eq: "\<And>t. dense_Merge d bs t = (let d2 = fold dense_merge_bin bs d1; d3 = d2\<lparr>ds_count := ds_count d2 + t\<rparr>
        in if 0 < ds_count d3 then d3\<lparr>ds_hasElements := True\<rparr> else d3)"
    by (rule dense_widen [OF assms(1) idx]) blast
  define d2 where "d2 = fold dense_merge_bin bs d1"
  have lt: "sum_list (map unat (ds_bins d1)) + counts bs < 2 ^ 64"
    using inv nw cnt by (simp add: dense_inv_def no_wrap_def)
  have bnd: "\<forall>j. index_ok j \<longrightarrow> dense_Get d1 j \<noteq> 0 \<longrightarrow> ds_minIndex d1 \<le> j \<and> j \<le> ds_maxIndex d1"
    using inv by (simp add: dense_inv_def)
  note facts = dense_merge_bins [OF dense_inv_room [OF inv] arr lt bnd, folded d2_def, unfolded Let_def]
  have ends: "index_ok (ds_minIndex d2) \<and> index_ok (ds_maxIndex d2)"
    unfolding d2_def using idx inv by (intro dense_merge_bins_index) (simp_all add: dense_inv_def)
  have t: "unat (ds_count d1 + t) = unat (ds_count d1) + unat t"
    using nw assms(3) cnt by (intro unat_add_no_wrap) (simp add: no_wrap_def)
  show "dense_inv (dense_Merge d bs t)"
    unfolding eq d2_def [symmetric] Let_def using facts ends t inv assms(3)
    by (simp add: dense_inv_def dense_room_def)
  show "index_ok j \<Longrightarrow> dense_Get (dense_Merge d bs t) j = dense_Get d j + hits j bs"
    unfolding eq d2_def [symmetric] Let_def using facts get by simp
qed

lemma dense_merge_bins_count: "ds_count (fold dense_merge_bin es d) = ds_count d"
  by (induction es arbitrary: d) (simp_all add: dense_merge_bin_def dense_bump_def Let_def split: prod.splits)

lemma dense_pos_count: "dense_inv d \<Longrightarrow> index_ok j \<Longrightarrow> dense_Get d j \<noteq> 0 \<Longrightarrow> 0 < ds_count d"
proof -
  assume inv: "dense_inv d" and j: "index_ok j" "dense_Get d j \<noteq> 0"
  note get = dense_collect_get [of "ds_offset d" "ds_bins d" j]
  have "bin_get (dense_collect (ds_offset d) (ds_bins d)) j \<noteq> 0"
    using j get inv dense_Get_eq [OF dense_inv_room [OF inv] j(1)]
    by (simp add: dense_inv_def index_ok_def in_array_def)
  then show ?thesis by (rule pos_count) (use inv in \<open>simp add: dense_collect_counts dense_inv_def\<close>)
qed

interpretation dense: merging_store dense_inv dense_fits dense_Add dense_Get dense_GetTotalCount dense_Clear
  dense_GetNonEmptyBuckets dense_GetMinIndex dense_GetMaxIndex dense_fits dense_Merge
proof unfold_locales
  fix d i c es
  assume a: "dense_inv d" "dense_fits d ((i, c) # es)"
  show "dense_inv (dense_Add d i c)" "dense_fits (dense_Add d i c) es" by (rule dense_Add_inv [OF a])+
  show "index_ok j \<Longrightarrow> dense_Get (dense_Add d i c) j = dense_Get d j + (if i = j then c else 0)" for j
    by (rule dense_Add_inv(3) [OF a])
  show "dense_GetTotalCount (dense_Add d i c) = dense_GetTotalCount d + c"
    by (simp add: dense_GetTotalCount_def dense_Add_def dense_bump_def ensureCapacity_frame Let_def)
next
  fix d es assume "dense_fits d es"
  then show "no_wrap (dense_GetTotalCount d) es" by (simp add: dense_fits_def dense_GetTotalCount_def)
next
  fix d assume inv: "dense_inv d"
  show "dense_inv (dense_Clear d)"
    using inv by (simp add: dense_inv_def) (simp add: dense_Clear_def sum_list_0 comp_def)
  have off: "- (2 ^ 62) \<le> ds_offset d" "ds_offset d + int (length (ds_bins d)) \<le> 2 ^ 62"
    using inv by (simp_all add: dense_inv_def index_ok_def)
  show "gm_wf (dense_GetNonEmptyBuckets d)" "counts (dense_GetNonEmptyBuckets d) = unat (dense_GetTotalCount d)"
    using dense_collect_keys [OF off] inv
    by (simp_all add: dense_GetNonEmptyBuckets_def dense_collect_counts dense_GetTotalCount_def dense_inv_def)
  show "bin_get (dense_GetNonEmptyBuckets d) j = dense_Get d j" if "index_ok j" for j
    using dense_collect_get [OF off] dense_Get_eq [OF dense_inv_room [OF inv] that]
    by (simp add: dense_GetNonEmptyBuckets_def in_array_def)
  show "index_ok (fst (dense_GetMinIndex d)) \<and> index_ok (fst (dense_GetMaxIndex d))"
    using inv by (simp add: dense_inv_def dense_GetMinIndex_def dense_GetMaxIndex_def index_ok_def)
  show "index_ok j" if "j \<in> fst ` set (dense_GetNonEmptyBuckets d)" for j
    using dense_collect_keys [OF off] off that by (auto simp: dense_GetNonEmptyBuckets_def index_ok_def)
  show "encloses (dense_GetMinIndex d) (dense_GetMaxIndex d) j" if "index_ok j" "dense_Get d j \<noteq> 0" for j
    using dense_pos_count [OF inv that] inv that
    by (auto simp: encloses_def dense_GetMinIndex_def dense_GetMaxIndex_def dense_inv_def)
next
  fix d bs and t :: "64 word"
  assume a: "dense_inv d" "gm_wf bs" "dense_fits d bs" "unat t = counts bs"
  show "dense_inv (dense_Merge d bs t)" by (rule dense_Merge_ok [OF a(1,3,4)])
  show "index_ok j \<Longrightarrow> dense_Get (dense_Merge d bs t) j = dense_Get d j + bin_get bs j" for j
    using dense_Merge_ok(2) [OF a(1,3,4)] hits_bin_get [OF a(2)] by simp
next
  show "dense_GetTotalCount (dense_Merge d bs t) = dense_GetTotalCount d + t" for d bs t
    by (simp add: dense_GetTotalCount_def dense_Merge_def Let_def dense_merge_bins_count ensureCapacity_frame)
next
  show "dense_GetTotalCount (dense_Clear d) = 0" for d by (simp add: dense_GetTotalCount_def dense_Clear_def)
qed simp

lemma NewDenseStore_inv:
  assumes "NewDenseStore cap = Returns d" "cap \<le> 2 ^ 62"
  shows "dense_inv d \<and> (\<forall>j. dense_Get d j = 0) \<and> ds_count d = 0"
proof -
  have d: "d = \<lparr>ds_bins = replicate (nat cap) 0, ds_count = 0, ds_offset = 0, ds_minIndex = max_int32,
      ds_maxIndex = min_int32, ds_hasElements = False\<rparr>" "0 \<le> cap"
    using assms(1) by (simp_all add: NewDenseStore_def split: if_splits)
  have zero: "dense_Get d j = 0" for j using d(2) by (simp add: d(1) dense_Get_def Let_def nat_less_iff)
  then have "dense_inv d"
    using assms(2) d(2) by (simp add: dense_inv_def) (simp add: d(1) index_ok_def [of 0] sum_list_replicate)
  with zero show ?thesis by (simp add: d(1))
qed

lemma NewSparseStore_inv: "sparse_inv (NewSparseStore th) \<and> sparse_Get (NewSparseStore th) j = 0"
  by (simp add: sparse_inv_def NewSparseStore_def sparse_Get_def)

section \<open>Collapsing\<close>

lemma nearest_lower_in:
  assumes "l \<in> fst ` set m" "l < idx" "min_int32 < l"
  shows "nearest_lower idx m \<in> fst ` set m \<and> nearest_lower idx m < idx \<and> min_int32 < nearest_lower idx m"
proof -
  define f where "f = (\<lambda>(b, _ :: 64 word) l. if b < idx \<and> b > l then b else (l :: int))"
  have mono: "a \<le> fold f m a" for m a
  proof (induction m arbitrary: a)
    case (Cons e m)
    have "a \<le> f e a" by (auto simp: f_def split: prod.splits)
    with Cons.IH [of "f e a"] show ?case by simp
  qed simp
  have ge: "l \<le> fold f m a" if "l \<in> fst ` set m" for m a using that
  proof (induction m arbitrary: a)
    case (Cons e m)
    then show ?case using mono [where m = m and a = "f e a"] assms(2)
      by (cases "fst e = l") (auto simp: f_def split: prod.splits if_splits)
  qed simp
  have "fold f m a = a \<or> (fold f m a \<in> fst ` set m \<and> fold f m a < idx)" for m a
  proof (induction m arbitrary: a)
    case (Cons e m)
    have "f e a = a \<or> (f e a = fst e \<and> fst e < idx)" by (auto simp: f_def split: prod.splits)
    with Cons.IH [of "f e a"] show ?case by auto
  qed simp
  from this [of m min_int32] ge [OF assms(1), of min_int32] assms(3) show ?thesis
    by (auto simp: nearest_lower_def f_def)
qed

lemma nearest_upper_in:
  assumes "u \<in> fst ` set m" "idx < u" "u < max_int32"
  shows "nearest_upper idx m \<in> fst ` set m \<and> idx < nearest_upper idx m \<and> nearest_upper idx m < max_int32"
proof -
  define f where "f = (\<lambda>(b, _ :: 64 word) u. if b > idx \<and> b < u then b else (u :: int))"
  have mono: "fold f m a \<le> a" for m a
  proof (induction m arbitrary: a)
    case (Cons e m)
    have "f e a \<le> a" by (auto simp: f_def split: prod.splits)
    with Cons.IH [of "f e a"] show ?case by simp
  qed simp
  have le: "fold f m a \<le> u" if "u \<in> fst ` set m" for m a using that
  proof (induction m arbitrary: a)
    case (Cons e m)
    then show ?case using mono [where m = m and a = "f e a"] assms(2)
      by (cases "fst e = u") (auto simp: f_def split: prod.splits if_splits)
  qed simp
  have "fold f m a = a \<or> (fold f m a \<in> fst ` set m \<and> idx < fold f m a)" for m a
  proof (induction m arbitrary: a)
    case (Cons e m)
    have "f e a = a \<or> (f e a = fst e \<and> idx < fst e)" by (auto simp: f_def split: prod.splits)
    with Cons.IH [of "f e a"] show ?case by auto
  qed simp
  from this [of m max_int32] le [OF assms(1), of max_int32] assms(3) show ?thesis
    by (auto simp: nearest_upper_def f_def)
qed

lemma bin_get_delete: "bin_get (AList.delete k m) i = (if k = i then 0 else bin_get m i)"
  by (simp add: bin_get_def gomap_simps)

lemma delete_keys: "fst ` set (AList.delete k m) = fst ` set m - {k}"
  by (auto simp: AList.delete_eq image_iff)

lemma redistribute_unit:
  assumes portion: "\<And>u t. 0 < u \<Longrightarrow> u < t \<Longrightarrow> t < 2 ^ 33 \<Longrightarrow> portion 1 u t = 0"
    and "gm_wf m" "bin_get m idx = 1" "lo \<in> fst ` set m" "lo < idx" "min_int32 < lo"
    "hi \<in> fst ` set m" "idx < hi" "hi < max_int32"
  shows "gm_wf (redistribute portion idx m) \<and> fst ` set (redistribute portion idx m) = fst ` set m - {idx}
    \<and> (\<forall>j. bin_get (redistribute portion idx m) j = (if j = idx then 0 else bin_get m j))"
proof -
  define rest where "rest = AList.delete idx m"
  define l where "l = nearest_lower idx rest"
  define u where "u = nearest_upper idx rest"
  have l: "l \<in> fst ` set rest \<and> l < idx \<and> min_int32 < l" unfolding l_def
    by (rule nearest_lower_in [of lo]) (use assms in \<open>auto simp: rest_def delete_keys\<close>)
  have u: "u \<in> fst ` set rest \<and> idx < u \<and> u < max_int32" unfolding u_def
    by (rule nearest_upper_in [of hi]) (use assms in \<open>auto simp: rest_def delete_keys\<close>)
  have "redistribute portion idx m = bin_add u 0 (bin_add l 0 rest)"
    using l u portion [of "idx - l" "u - l"] portion [of "u - idx" "u - l"] assms(3)
    by (simp add: min_int32_def max_int32_def redistribute_def Let_def rest_def [symmetric] l_def [symmetric] u_def [symmetric])
  moreover have "gm_wf rest" using assms(2) by (simp add: rest_def)
  moreover have "fst ` set rest = fst ` set m - {idx}" by (simp add: rest_def delete_keys)
  ultimately show ?thesis using l u by (auto simp: bin_add_wf bin_add_keys bin_get_add) (auto simp: rest_def bin_get_delete)
qed

lemma collapse_units:
  assumes portion: "\<And>u t. 0 < u \<Longrightarrow> u < t \<Longrightarrow> t < 2 ^ 33 \<Longrightarrow> portion 1 u t = 0"
    and lohi: "min_int32 < lo" "hi < max_int32"
    and "gm_wf m" "lo \<in> fst ` set m" "hi \<in> fst ` set m" "\<forall>k \<in> fst ` set m. bin_get m k = 1"
    "distinct is" "set is \<subseteq> fst ` set m" "\<forall>k \<in> set is. lo < k \<and> k < hi"
  shows "gm_wf (fold (redistribute portion) is m) \<and> fst ` set (fold (redistribute portion) is m) = fst ` set m - set is
    \<and> (\<forall>k \<in> fst ` set m - set is. bin_get (fold (redistribute portion) is m) k = 1)"
  using assms(4-)
proof (induction "is" arbitrary: m)
  case (Cons i "is")
  have i: "bin_get m i = 1" "lo < i" "i < hi" using Cons.prems by auto
  note r = redistribute_unit [where portion = portion, OF portion Cons.prems(1) i(1) Cons.prems(2) i(2) lohi(1) Cons.prems(3) i(3) lohi(2)]
  define m' where "m' = redistribute portion i m"
  have "gm_wf m'" "fst ` set m' = fst ` set m - {i}" "\<And>j. j \<noteq> i \<Longrightarrow> bin_get m' j = bin_get m j"
    using r by (simp_all add: m'_def)
  note m' = this
  have "gm_wf (fold (redistribute portion) is m') \<and> fst ` set (fold (redistribute portion) is m') = fst ` set m' - set is
    \<and> (\<forall>k \<in> fst ` set m' - set is. bin_get (fold (redistribute portion) is m') k = 1)"
  proof (rule Cons.IH)
    show "gm_wf m'" by (rule m')
    show "lo \<in> fst ` set m'" "hi \<in> fst ` set m'" using Cons.prems(2,3) i by (simp_all add: m'(2))
    show "\<forall>k \<in> fst ` set m'. bin_get m' k = 1" using Cons.prems(4) m'(3) by (auto simp: m'(2))
    show "distinct is" "\<forall>k \<in> set is. lo < k \<and> k < hi" using Cons.prems(5,7) by simp_all
    show "set is \<subseteq> fst ` set m'" using Cons.prems(5,6) by (auto simp: m'(2))
  qed
  moreover have "fst ` set m' - set is = fst ` set m - set (i # is)" by (auto simp: m'(2))
  ultimately show ?case by (simp add: m'_def [symmetric])
qed simp

lemma gm_wf_keys: "gm_wf m \<Longrightarrow> distinct (map fst m)"
  by (simp add: gm_wf_def)

lemma bin_get_in: "gm_wf m \<Longrightarrow> (i, c) \<in> set m \<Longrightarrow> bin_get m i = c"
  by (simp add: bin_get_def map_of_Some_iff [symmetric])

lemma counts_units: "gm_wf m \<Longrightarrow> \<forall>k \<in> fst ` set m. bin_get m k = 1 \<Longrightarrow> counts m = card (fst ` set m)"
proof -
  assume wf: "gm_wf m" and one: "\<forall>k \<in> fst ` set m. bin_get m k = 1"
  have "\<forall>(i, c) \<in> set m. c = 1" using bin_get_in [OF wf] one by force
  then have "counts m = length m" by (induction m) auto
  then show ?thesis by (simp add: length_gm_wf [OF wf])
qed

lemma collapse_candidates_units:
  assumes "gm_wf (ss_bins s)" "\<forall>k \<in> fst ` set (ss_bins s). bin_get (ss_bins s) k = 1" "1 \<le> ss_collapseThreshold s"
  shows "distinct (collapse_candidates s)"
    and "set (collapse_candidates s) = fst ` set (ss_bins s) - {ss_minIndex s, ss_maxIndex s}"
proof -
  show "distinct (collapse_candidates s)"
    using gm_wf_keys [OF gm_wf_filter [OF assms(1)]] by (simp add: collapse_candidates_def)
  have "c = 1" if "(i, c) \<in> set (ss_bins s)" for i c
    using bin_get_in [OF assms(1) that] assms(2) that by force
  then have "c \<le> ss_collapseThreshold s" if "(i, c) \<in> set (ss_bins s)" for i c using that assms(3) by auto
  then show "set (collapse_candidates s) = fst ` set (ss_bins s) - {ss_minIndex s, ss_maxIndex s}"
    by (auto simp: collapse_candidates_def image_iff Bex_def)
qed

lemma collapseBuckets_units:
  assumes portion: "\<And>u t. 0 < u \<Longrightarrow> u < t \<Longrightarrow> t < 2 ^ 33 \<Longrightarrow> portion 1 u t = 0"
    and wf: "gm_wf (ss_bins s)" and one: "\<forall>k \<in> fst ` set (ss_bins s). bin_get (ss_bins s) k = 1"
    and thr: "1 \<le> ss_collapseThreshold s" and len: "10 \<le> length (ss_bins s)"
    and lo: "ss_minIndex s \<in> fst ` set (ss_bins s)" "min_int32 < ss_minIndex s"
    and hi: "ss_maxIndex s \<in> fst ` set (ss_bins s)" "ss_maxIndex s < max_int32"
    and bnd: "\<forall>k \<in> fst ` set (ss_bins s). ss_minIndex s \<le> k \<and> k \<le> ss_maxIndex s"
  shows "gm_wf (ss_bins (collapseBuckets portion s))
    \<and> fst ` set (ss_bins (collapseBuckets portion s)) = {ss_minIndex s, ss_maxIndex s}
    \<and> (\<forall>k \<in> {ss_minIndex s, ss_maxIndex s}. bin_get (ss_bins (collapseBuckets portion s)) k = 1)"
proof -
  note cand = collapse_candidates_units [OF wf one thr]
  have eq: "ss_bins (collapseBuckets portion s) = fold (redistribute portion) (collapse_candidates s) (ss_bins s)"
    using len by (simp add: collapseBuckets_def recalculateMinMax_def)
  have rest: "fst ` set (ss_bins s) - set (collapse_candidates s) = {ss_minIndex s, ss_maxIndex s}"
    using cand(2) lo(1) hi(1) by auto
  have "\<forall>k \<in> set (collapse_candidates s). ss_minIndex s < k \<and> k < ss_maxIndex s"
    using bnd unfolding cand(2) by (auto simp: less_le)
  moreover have "set (collapse_candidates s) \<subseteq> fst ` set (ss_bins s)" using cand(2) by auto
  ultimately show ?thesis
    using collapse_units [where portion = portion, OF portion lo(2) hi(2) wf lo(1) hi(1) one cand(1)]
    unfolding eq rest by blast
qed

section \<open>Properties\<close>

text \<open>
  C23. Both stores hold exactly what was added: from an empty store, any sequence of
  \<^verbatim>\<open>Add\<close> calls whose counts fit a \<^verbatim>\<open>uint64\<close> (and, for the sparse store, with at most 1000 distinct
  indices) makes \<^verbatim>\<open>Get\<close> return for every index the sum of the counts added there,
  \<^verbatim>\<open>GetTotalCount\<close> the sum of all of them, and every index with a count lies between
  \<^verbatim>\<open>GetMinIndex\<close> and \<^verbatim>\<open>GetMaxIndex\<close>.\<close>

theorem stores_hold_counts:
  assumes "counts es < 2 ^ 64" "card (fst ` set es) \<le> 1000" "\<forall>i \<in> fst ` set es. index_ok i"
    and "NewDenseStore cap = Returns d0" "cap \<le> 2 ^ 62" "index_ok j"
  shows "let s = add_list (sparse_Add portion) (NewSparseStore th) es; d = add_list dense_Add d0 es in
     sparse_Get s j = hits j es \<and> dense_Get d j = hits j es
     \<and> unat (sparse_GetTotalCount s) = counts es \<and> unat (dense_GetTotalCount d) = counts es
     \<and> (hits j es \<noteq> 0 \<longrightarrow> encloses (sparse_GetMinIndex s) (sparse_GetMaxIndex s) j
                     \<and> encloses (dense_GetMinIndex d) (dense_GetMaxIndex d) j)"
proof -
  have si: "sparse_inv (NewSparseStore th)" by (simp add: NewSparseStore_inv)
  have sf: "sparse_fits (NewSparseStore th) es"
    using assms(1-3) by (simp add: sparse_fits_def no_wrap_def NewSparseStore_def)
  have di: "dense_inv d0" and zero: "\<And>j. dense_Get d0 j = 0" and cnt: "ds_count d0 = 0"
    using NewDenseStore_inv [OF assms(4,5)] by simp_all
  have df: "dense_fits d0 es" using assms(1,3) by (simp add: dense_fits_def no_wrap_def cnt)
  note s = sparse.add_list_ok [OF si sf assms(6), of portion] sparse.add_list_total [OF si sf, of portion]
  note d = dense.add_list_ok [OF di df assms(6)] dense.add_list_total [OF di df]
  from s d sparse.bounds [OF conjunct1 [OF s(1)] assms(6)] dense.bounds [OF conjunct1 [OF d(1)] assms(6)] zero
  show ?thesis
    by (simp add: Let_def sparse_GetTotalCount_def dense_GetTotalCount_def)
      (simp add: NewSparseStore_def sparse_Get_def cnt)
qed

theorem stores_hold_counts_witness:
  "let s = add_list (sparse_Add (\<lambda>c u t. 0)) (NewSparseStore 10) [(3, 2), (-1, 5), (3, 1)];
       d = add_list dense_Add \<lparr>ds_bins = [0], ds_count = 0, ds_offset = 0, ds_minIndex = max_int32,
             ds_maxIndex = min_int32, ds_hasElements = False\<rparr> [(3, 2), (-1, 5), (3, 1)] in
   sparse_Get s 3 = hits 3 [(3, 2), (-1, 5), (3, 1)] \<and> dense_Get d 3 = hits 3 [(3, 2), (-1, 5), (3, 1)]
   \<and> unat (sparse_GetTotalCount s) = counts [(3, 2), (-1, 5), (3, 1)]
   \<and> unat (dense_GetTotalCount d) = counts [(3, 2), (-1, 5), (3, 1)]
   \<and> (hits 3 [(3, 2), (-1, 5), (3, 1)] \<noteq> 0 \<longrightarrow> encloses (sparse_GetMinIndex s) (sparse_GetMaxIndex s) 3
        \<and> encloses (dense_GetMinIndex d) (dense_GetMaxIndex d) 3)"
  by (rule stores_hold_counts [where cap = 1]) (simp_all add: index_ok_def NewDenseStore_def card_insert_if)

text \<open>
  C24. Collapsing forgets values. A sparse store with 1000 buckets of one value each (and a
  threshold of at least one) that gets a value in a new bucket keeps only its lowest and highest
  bucket, with one value each, while \<^verbatim>\<open>GetTotalCount\<close> answers 1001: each of the other 999 values is
  split between two neighbours, and both parts truncate to zero (the hypothesis on \<open>portion\<close>:
  a fraction of small integers that is below one stays below one in float64 and truncates to 0).\<close>

theorem collapse_forgets_values:
  assumes portion: "\<And>u t. 0 < u \<Longrightarrow> u < t \<Longrightarrow> t < 2 ^ 33 \<Longrightarrow> portion 1 u t = 0"
    and inv: "sparse_inv s" and len: "length (ss_bins s) = 1000" and thr: "1 \<le> ss_collapseThreshold s"
    and unit: "\<forall>(k, c) \<in> set (ss_bins s). c = 1 \<and> min_int32 < k \<and> k < max_int32"
    and new: "i \<notin> fst ` set (ss_bins s)" "min_int32 < i" "i < max_int32"
    and tight: "ss_minIndex s \<in> fst ` set (ss_bins s)" "ss_maxIndex s \<in> fst ` set (ss_bins s)"
  shows "let s' = sparse_Add portion s i 1; lo = min i (ss_minIndex s); hi = max i (ss_maxIndex s) in
     sparse_GetTotalCount s' = 1001 \<and> counts (sparse_GetNonEmptyBuckets s') = 2
     \<and> (\<forall>j. sparse_Get s' j = (if j = lo \<or> j = hi then 1 else 0))"
proof -
  define lo hi where "lo = min i (ss_minIndex s)" and "hi = max i (ss_maxIndex s)"
  define m where "m = bin_add i 1 (ss_bins s)"
  define s1 where "s1 = s\<lparr>ss_bins := m, ss_count := ss_count s + 1, ss_minIndex := lo, ss_maxIndex := hi, ss_hasElements := True\<rparr>"
  have wf0: "gm_wf (ss_bins s)" and bnd: "\<forall>k \<in> fst ` set (ss_bins s). ss_minIndex s \<le> k \<and> k \<le> ss_maxIndex s"
    using inv by (simp_all add: sparse_inv_def)
  have wf: "gm_wf m" and keys: "fst ` set m = insert i (fst ` set (ss_bins s))"
    by (simp_all add: m_def wf0 bin_add_wf bin_add_keys)
  have one0: "\<forall>k \<in> fst ` set (ss_bins s). bin_get (ss_bins s) k = 1"
    using bin_get_in [OF wf0] unit by force
  have one: "\<forall>k \<in> fst ` set m. bin_get m k = 1"
    unfolding keys using one0 bin_get_notin [OF new(1)] new(1) by (auto simp: m_def bin_get_add)
  have card0: "card (fst ` set (ss_bins s)) = 1000" using length_gm_wf [OF wf0] len by simp
  then have lenm: "length m = 1001" using length_gm_wf [OF wf] new(1) by (simp add: keys)
  have cnt: "unat (ss_count s) = 1000" using counts_units [OF wf0 one0] inv card0 by (simp add: sparse_inv_def)
  have "ss_count s = of_nat 1000" unfolding cnt [symmetric] by simp
  then have cnt1: "ss_count s + 1 = 1001" by simp
  have s1: "sparse_Add portion s i 1 = collapseBuckets portion s1"
    using lenm by (simp add: sparse_Add_def Let_def s1_def m_def lo_def hi_def min_def max_def)
  have lohi: "lo \<in> fst ` set m" "hi \<in> fst ` set m" "min_int32 < lo" "hi < max_int32"
    using tight new unit by (auto simp: keys lo_def hi_def min_def max_def)
  have bnd1: "\<forall>k \<in> fst ` set m. lo \<le> k \<and> k \<le> hi" using bnd by (auto simp: keys lo_def hi_def)
  have ne: "lo \<noteq> hi"
  proof
    assume "lo = hi"
    then have "fst ` set m \<subseteq> {lo}" using bnd1 by auto
    then have "card (fst ` set m) \<le> 1" using card_mono [of "{lo}"] by simp
    then show False using length_gm_wf [OF wf] lenm by simp
  qed
  have "gm_wf (ss_bins (collapseBuckets portion s1)) \<and> fst ` set (ss_bins (collapseBuckets portion s1)) = {lo, hi}
      \<and> (\<forall>k \<in> {lo, hi}. bin_get (ss_bins (collapseBuckets portion s1)) k = 1)"
    using collapseBuckets_units [where portion = portion and s = s1, OF portion] wf one thr lenm lohi bnd1
    by (simp add: s1_def)
  note r = this
  then have "counts (ss_bins (collapseBuckets portion s1)) = 2"
    using counts_units [of "ss_bins (collapseBuckets portion s1)"] ne by simp
  moreover have "bin_get (ss_bins (collapseBuckets portion s1)) j = (if j = lo \<or> j = hi then 1 else 0)" for j
    using r bin_get_notin [of j "ss_bins (collapseBuckets portion s1)"] by auto
  moreover have "ss_count (collapseBuckets portion s1) = 1001" using cnt1 by (simp add: collapse_count s1_def)
  ultimately show ?thesis
    using r by (simp add: s1 Let_def sparse_GetTotalCount_def sparse_buckets_eq sparse_Get_def lo_def [symmetric] hi_def [symmetric])
qed

lemma counts_unit_bins: "counts (map (\<lambda>k. (f k, 1)) xs) = length xs"
  by (induction xs) simp_all

theorem collapse_forgets_values_witness:
  "let s' = sparse_Add (\<lambda>c u t. if u < t then 0 else c) unit_store 2000 1; lo = min 2000 (ss_minIndex unit_store);
       hi = max 2000 (ss_maxIndex unit_store) in
   sparse_GetTotalCount s' = 1001 \<and> counts (sparse_GetNonEmptyBuckets s') = 2
   \<and> (\<forall>j. sparse_Get s' j = (if j = lo \<or> j = hi then 1 else 0))"
proof (rule collapse_forgets_values)
  show "sparse_inv unit_store"
    by (auto simp: sparse_inv_def unit_store_def index_ok_def gm_wf_def counts_unit_bins comp_def distinct_map inj_on_def)
  show "ss_minIndex unit_store \<in> fst ` set (ss_bins unit_store)" "ss_maxIndex unit_store \<in> fst ` set (ss_bins unit_store)"
    by (simp_all add: unit_store_def image_image image_iff)
qed (auto simp: unit_store_def min_int32_def max_int32_def)

end
