(* ===== verification/Ddsketch.thy ===== *)
theory Ddsketch
  imports Bucket_Store
begin

text \<open>
  The quantile sketch of \<^verbatim>\<open>sketch/ddsketch.go\<close>, with its configuration
  (\<^verbatim>\<open>sketch/config.go\<close>) and errors (\<^verbatim>\<open>sketch/sketch.go\<close>), on top of the stores of
  \<open>Bucket_Store\<close>.

  A \<open>Store\<close> value is the dynamic value behind the Go interface. The fields \<^verbatim>\<open>store\<close>,
  \<^verbatim>\<open>sparseStore\<close> and \<^verbatim>\<open>denseStore\<close> are pointers of which the first may point to the same object as
  one of the others; \<open>dd_store\<close> says which object \<^verbatim>\<open>store\<close> points to, and \<open>dd_own\<close> is
  the object \<^verbatim>\<open>NewDDSketch\<close> creates for it. \<open>dd_mutex\<close> is the sketch's lock: an operation that
  takes it while its own goroutine holds it blocks. An operation that reads the clock takes the readings as
  arguments. \<open>fm\<close> is the float64 arithmetic.
\<close>

section \<open>Configuration\<close>

record DDSketchConfig =
  RelativeAccuracy :: float64
  MinValue :: float64
  MaxValue :: float64
  InitialCapacity :: int
  UseSparseStore :: bool
  CollapseThreshold :: "64 word"
  AutoSwitch :: bool
  SwitchThreshold :: float64

record SketchConfig =
  SketchType :: string
  DDSketchOf :: DDSketchConfig

datatype config_error = EmptySketchType | BadRelativeAccuracy | BadMinValue | BadMaxValue | BadInitialCapacity
  | BadCollapseThreshold | BadSwitchThreshold

definition sketch_DefaultConfig :: SketchConfig where
  "sketch_DefaultConfig =
     \<lparr>SketchType = ''ddsketch'',
      DDSketchOf = \<lparr>RelativeAccuracy = 0x3F7EB851EB851EB8, MinValue = 0x3E112E0BE826D695,
        MaxValue = 0x41CDCD6500000000, InitialCapacity = 128, UseSparseStore = True, CollapseThreshold = 10,
        AutoSwitch = True, SwitchThreshold = 0x3FE0000000000000\<rparr>\<rparr>"

definition sketch_Validate :: "SketchConfig \<Rightarrow> config_error option" where
  "sketch_Validate c =
     (let d = DDSketchOf c in
      if SketchType c = [] then Some EmptySketchType
      else if SketchType c = ''ddsketch'' then
        (if f_le (RelativeAccuracy d) 0 \<or> f_le f_one (RelativeAccuracy d) then Some BadRelativeAccuracy
         else if f_le (MinValue d) 0 then Some BadMinValue
         else if f_le (MaxValue d) (MinValue d) then Some BadMaxValue
         else if InitialCapacity d \<le> 0 then Some BadInitialCapacity
         else if CollapseThreshold d = 0 then Some BadCollapseThreshold
         else if AutoSwitch d \<and> (f_le (SwitchThreshold d) 0 \<or> f_le f_one (SwitchThreshold d)) then Some BadSwitchThreshold
         else None)
      else None)"

definition f_half :: float64 where
  "f_half = 0x3FE0000000000000"

text \<open>\<open>None\<close> is \<^verbatim>\<open>math.NaN()\<close>.\<close>

definition CalculateExpectedError :: "fmath \<Rightarrow> DDSketchConfig \<Rightarrow> float64 \<Rightarrow> float64 option" where
  "CalculateExpectedError fm c quantile =
     (if f_le quantile 0 \<or> f_le f_one quantile then None
      else if f_le f_half quantile then Some (RelativeAccuracy c)
      else Some (fm_div fm (RelativeAccuracy c) (fm_sub fm f_one quantile)))"

definition LogarithmicMapping :: "fmath \<Rightarrow> DDSketchConfig \<Rightarrow> float64 \<times> float64 \<times> float64" where
  "LogarithmicMapping fm c =
     (let gamma = RelativeAccuracy c; multiplier = fm_div fm f_one (fm_log1p fm gamma); offset = 0
      in (gamma, multiplier, offset))"

section \<open>Stores behind the interface\<close>

datatype Store = SparseS SparseStore | DenseS DenseStore

fun store_Add :: "fmath \<Rightarrow> Store \<Rightarrow> int \<Rightarrow> 64 word \<Rightarrow> Store" where
  "store_Add fm (SparseS s) i c = SparseS (sparse_Add (collapse_portion fm) s i c)"
| "store_Add fm (DenseS d) i c = DenseS (dense_Add d i c)"

fun store_Get :: "Store \<Rightarrow> int \<Rightarrow> 64 word" where
  "store_Get (SparseS s) i = sparse_Get s i"
| "store_Get (DenseS d) i = dense_Get d i"

fun store_Clear :: "Store \<Rightarrow> Store" where
  "store_Clear (SparseS s) = SparseS (sparse_Clear s)"
| "store_Clear (DenseS d) = DenseS (dense_Clear d)"

fun store_GetNonEmptyBuckets :: "Store \<Rightarrow> buckets" where
  "store_GetNonEmptyBuckets (SparseS s) = sparse_GetNonEmptyBuckets s"
| "store_GetNonEmptyBuckets (DenseS d) = dense_GetNonEmptyBuckets d"

fun store_GetTotalCount :: "Store \<Rightarrow> 64 word" where
  "store_GetTotalCount (SparseS s) = sparse_GetTotalCount s"
| "store_GetTotalCount (DenseS d) = dense_GetTotalCount d"

fun store_GetMinIndex :: "Store \<Rightarrow> int \<times> bool" where
  "store_GetMinIndex (SparseS s) = sparse_GetMinIndex s"
| "store_GetMinIndex (DenseS d) = dense_GetMinIndex d"

fun store_GetMaxIndex :: "Store \<Rightarrow> int \<times> bool" where
  "store_GetMaxIndex (SparseS s) = sparse_GetMaxIndex s"
| "store_GetMaxIndex (DenseS d) = dense_GetMaxIndex d"

fun store_Merge :: "fmath \<Rightarrow> Store \<Rightarrow> Store \<Rightarrow> Store" where
  "store_Merge fm (SparseS s) other =
     SparseS (sparse_Merge (collapse_portion fm) s (store_GetNonEmptyBuckets other) (store_GetTotalCount other))"
| "store_Merge fm (DenseS d) other =
     DenseS (dense_Merge d (store_GetNonEmptyBuckets other) (store_GetTotalCount other))"

fun store_Copy :: "Store \<Rightarrow> Store" where
  "store_Copy (SparseS s) = SparseS (sparse_Copy s)"
| "store_Copy (DenseS d) = DenseS (dense_Copy d)"

definition density_value :: "fmath \<Rightarrow> (int \<times> int) option \<Rightarrow> float64" where
  "density_value fm q = (case q of None \<Rightarrow> 0 | Some (a, b) \<Rightarrow> fm_div fm (fm_of_int fm a) (fm_of_int fm b))"

fun store_GetStoreDensity :: "fmath \<Rightarrow> Store \<Rightarrow> float64" where
  "store_GetStoreDensity fm (SparseS s) = density_value fm (sparse_density s)"
| "store_GetStoreDensity fm (DenseS d) = density_value fm (dense_density d)"

fun store_GetMemoryUsageBytes :: "Store \<Rightarrow> int" where
  "store_GetMemoryUsageBytes (SparseS s) = sparse_GetMemoryUsageBytes s"
| "store_GetMemoryUsageBytes (DenseS d) = dense_GetMemoryUsageBytes d"

section \<open>The sketch\<close>

datatype store_ref = Own | IsSparse | IsDense

record DDSketch =
  dd_gamma :: float64
  dd_multiplier :: float64
  dd_offset :: float64
  dd_minValue :: float64
  dd_maxValue :: float64
  dd_store :: store_ref
  dd_own :: Store
  dd_useSparseStore :: bool
  dd_autoSwitch :: bool
  dd_switchThreshold :: float64
  dd_min :: float64
  dd_max :: float64
  dd_sum :: float64
  dd_count :: "64 word"
  dd_sparseStore :: Store
  dd_denseStore :: Store
  dd_startTime :: time
  dd_lastSwitch :: time
  dd_mutex :: rwmutex

datatype sketch_error = ErrInvalidQuantile | ErrEmptySketch | ErrIncompatibleSketches
  | ErrNotPositive float64 | ErrDifferentGamma float64 float64

text \<open>The object \<^verbatim>\<open>store\<close> points to, and its replacement.\<close>

definition active :: "DDSketch \<Rightarrow> Store" where
  "active d = (case dd_store d of Own \<Rightarrow> dd_own d | IsSparse \<Rightarrow> dd_sparseStore d | IsDense \<Rightarrow> dd_denseStore d)"

definition set_active :: "Store \<Rightarrow> DDSketch \<Rightarrow> DDSketch" where
  "set_active st d =
     (case dd_store d of Own \<Rightarrow> d\<lparr>dd_own := st\<rparr> | IsSparse \<Rightarrow> d\<lparr>dd_sparseStore := st\<rparr> | IsDense \<Rightarrow> d\<lparr>dd_denseStore := st\<rparr>)"

definition NewDDSketch :: "fmath \<Rightarrow> DDSketchConfig \<Rightarrow> time \<Rightarrow> time \<Rightarrow> DDSketch outcome" where
  "NewDDSketch fm config start switched =
     (case LogarithmicMapping fm config of (gamma, multiplier, offset) \<Rightarrow>
        and_then (NewDenseStore (InitialCapacity config)) (\<lambda>dense.
          Returns \<lparr>dd_gamma = gamma, dd_multiplier = multiplier, dd_offset = offset,
            dd_minValue = MinValue config, dd_maxValue = MaxValue config, dd_store = Own,
            dd_own = (if UseSparseStore config then SparseS (NewSparseStore (CollapseThreshold config)) else DenseS dense),
            dd_useSparseStore = UseSparseStore config, dd_autoSwitch = AutoSwitch config,
            dd_switchThreshold = SwitchThreshold config, dd_min = f_inf, dd_max = f_neg_inf, dd_sum = 0, dd_count = 0,
            dd_sparseStore = SparseS (NewSparseStore (CollapseThreshold config)), dd_denseStore = DenseS dense,
            dd_startTime = start, dd_lastSwitch = switched, dd_mutex = Unlocked\<rparr>))"

definition valueToIndex :: "fmath \<Rightarrow> DDSketch \<Rightarrow> float64 \<Rightarrow> int" where
  "valueToIndex fm d value =
     (if f_le value 0 then min_int32
      else fm_to_int fm (fm_ceil fm (fm_sub fm (fm_mul fm (dd_multiplier d) (fm_log fm value)) (dd_offset d))))"

definition indexToValue :: "fmath \<Rightarrow> DDSketch \<Rightarrow> int \<Rightarrow> float64" where
  "indexToValue fm d index =
     fm_exp fm (fm_div fm (fm_add fm (fm_of_int fm index) (dd_offset d)) (dd_multiplier d))"

definition clamp :: "DDSketch \<Rightarrow> float64 \<Rightarrow> float64" where
  "clamp d value =
     (if f_less value (dd_minValue d) then dd_minValue d
      else if f_less (dd_maxValue d) value then dd_maxValue d else value)"

definition f_two :: float64 where
  "f_two = 0x4000000000000000"

definition checkAndSwitchStores :: "fmath \<Rightarrow> time \<Rightarrow> DDSketch \<Rightarrow> DDSketch" where
  "checkAndSwitchStores fm now d =
     (if time_sub now (dd_lastSwitch d) < second then d
      else let d1 = d\<lparr>dd_lastSwitch := now\<rparr>; density = store_GetStoreDensity fm (active d1) in
           if dd_useSparseStore d1 \<and> f_less (dd_switchThreshold d1) density then
             (let d2 = d1\<lparr>dd_denseStore := store_Clear (dd_denseStore d1)\<rparr>;
                  d3 = d2\<lparr>dd_denseStore := store_Merge fm (dd_denseStore d2) (active d2)\<rparr>
              in d3\<lparr>dd_store := IsDense, dd_useSparseStore := False\<rparr>)
           else if \<not> dd_useSparseStore d1 \<and> f_less density (fm_div fm (dd_switchThreshold d1) f_two) then
             (let d2 = d1\<lparr>dd_sparseStore := store_Clear (dd_sparseStore d1)\<rparr>;
                  d3 = d2\<lparr>dd_sparseStore := store_Merge fm (dd_sparseStore d2) (active d2)\<rparr>
              in d3\<lparr>dd_store := IsSparse, dd_useSparseStore := True\<rparr>)
           else d1)"

text \<open>\<open>since\<close> and \<open>now\<close> are the clock at \<^verbatim>\<open>time.Since\<close> and in \<^verbatim>\<open>checkAndSwitchStores\<close>.\<close>

definition AddWithCount ::
    "fmath \<Rightarrow> time \<Rightarrow> time \<Rightarrow> DDSketch \<Rightarrow> float64 \<Rightarrow> 64 word \<Rightarrow> (DDSketch \<times> sketch_error option) outcome" where
  "AddWithCount fm since now d value0 count =
     (if f_le value0 0 then Returns (d, Some (ErrNotPositive value0))
      else if count = 0 then Returns (d, None)
      else let value = clamp d value0; index = valueToIndex fm d value in
           if dd_mutex d = WriteLocked then Blocks
           else let d1 = set_active (store_Add fm (active d) index count) d;
                    d2 = d1\<lparr>dd_count := dd_count d1 + count,
                            dd_sum := fm_add fm (dd_sum d1) (fm_mul fm value (fm_of_u64 fm count)),
                            dd_min := (if f_less value (dd_min d1) then value else dd_min d1),
                            dd_max := (if f_less (dd_max d1) value then value else dd_max d1)\<rparr>
                in Returns (if dd_autoSwitch d2 \<and> second < time_sub since (dd_lastSwitch d2)
                            then checkAndSwitchStores fm now d2 else d2, None))"

definition sketch_Add :: "fmath \<Rightarrow> time \<Rightarrow> time \<Rightarrow> DDSketch \<Rightarrow> float64 \<Rightarrow> (DDSketch \<times> sketch_error option) outcome" where
  "sketch_Add fm since now d value = AddWithCount fm since now d value 1"

text \<open>The loop of \<^verbatim>\<open>GetValueAtQuantile\<close>: the first index whose cumulative count reaches the rank.\<close>

function find_rank :: "(int \<Rightarrow> 64 word) \<Rightarrow> int \<Rightarrow> int \<Rightarrow> 64 word \<Rightarrow> 64 word \<Rightarrow> int option" where
  "find_rank get i maxIndex acc rank =
     (if i \<le> maxIndex then
        (let acc' = acc + get i in if rank \<le> acc' then Some i else find_rank get (i + 1) maxIndex acc' rank)
      else None)"
  by auto
termination
  by (relation "measure (\<lambda>(get, i, maxIndex, acc, rank). nat (maxIndex + 1 - i))") auto

definition rank_of :: "fmath \<Rightarrow> float64 \<Rightarrow> 64 word \<Rightarrow> 64 word" where
  "rank_of fm q count = fm_to_u64 fm (fm_ceil fm (fm_mul fm q (fm_of_u64 fm count)))"

text \<open>A reader that takes the lock while its goroutine holds it for writing blocks.\<close>

definition read_locked :: "DDSketch \<Rightarrow> 'a \<Rightarrow> 'a outcome" where
  "read_locked d x = (if dd_mutex d = WriteLocked then Blocks else Returns x)"

definition GetValueAtQuantile :: "fmath \<Rightarrow> DDSketch \<Rightarrow> float64 \<Rightarrow> (sketch_error + float64) outcome" where
  "GetValueAtQuantile fm d q =
     (if f_less q 0 \<or> f_less f_one q then Returns (Inl ErrInvalidQuantile)
      else read_locked d
        (if dd_count d = 0 then Inl ErrEmptySketch
         else if f_eq q 0 then Inr (dd_min d)
         else if f_eq q f_one then Inr (dd_max d)
         else let rank = rank_of fm q (dd_count d);
                  (minIndex, hasMin) = store_GetMinIndex (active d);
                  (maxIndex, hasMax) = store_GetMaxIndex (active d)
              in if \<not> hasMin \<or> \<not> hasMax then Inl ErrEmptySketch
                 else case find_rank (store_Get (active d)) minIndex maxIndex 0 rank of
                        Some i \<Rightarrow> Inr (indexToValue fm d i)
                      | None \<Rightarrow> Inr (dd_max d)))"

function sum_below :: "(int \<Rightarrow> 64 word) \<Rightarrow> int \<Rightarrow> int \<Rightarrow> 64 word \<Rightarrow> 64 word" where
  "sum_below get i index acc = (if i < index then sum_below get (i + 1) index (acc + get i) else acc)"
  by auto
termination
  by (relation "measure (\<lambda>(get, i, index, acc). nat (index - i))") auto

definition GetQuantileAtValue :: "fmath \<Rightarrow> DDSketch \<Rightarrow> float64 \<Rightarrow> (sketch_error + float64) outcome" where
  "GetQuantileAtValue fm d value0 =
     (if f_le value0 0 then Returns (Inl (ErrNotPositive value0))
      else read_locked d
        (if dd_count d = 0 then Inl ErrEmptySketch
         else let value = clamp d value0 in
              if f_le value (dd_min d) then Inr 0
              else if f_le (dd_max d) value then Inr f_one
              else let index = valueToIndex fm d value; (minIndex, hasMin) = store_GetMinIndex (active d) in
                   if \<not> hasMin then Inl ErrEmptySketch
                   else Inr (fm_div fm (fm_of_u64 fm (sum_below (store_Get (active d)) minIndex index 0))
                                       (fm_of_u64 fm (dd_count d)))))"

definition GetCount :: "DDSketch \<Rightarrow> 64 word outcome" where
  "GetCount d = read_locked d (dd_count d)"

definition GetMin :: "DDSketch \<Rightarrow> (sketch_error + float64) outcome" where
  "GetMin d = read_locked d (if dd_count d = 0 then Inl ErrEmptySketch else Inr (dd_min d))"

definition GetMax :: "DDSketch \<Rightarrow> (sketch_error + float64) outcome" where
  "GetMax d = read_locked d (if dd_count d = 0 then Inl ErrEmptySketch else Inr (dd_max d))"

definition GetSum :: "DDSketch \<Rightarrow> (sketch_error + float64) outcome" where
  "GetSum d = read_locked d (if dd_count d = 0 then Inl ErrEmptySketch else Inr (dd_sum d))"

definition GetAvg :: "fmath \<Rightarrow> DDSketch \<Rightarrow> (sketch_error + float64) outcome" where
  "GetAvg fm d =
     read_locked d (if dd_count d = 0 then Inl ErrEmptySketch else Inr (fm_div fm (dd_sum d) (fm_of_u64 fm (dd_count d))))"

text \<open>The argument of \<^verbatim>\<open>Merge\<close>: the receiver itself, another \<^verbatim>\<open>*DDSketch\<close>, or another kind of sketch.\<close>

datatype merge_arg = Itself | OtherDD DDSketch | OtherKind

definition merge_body :: "fmath \<Rightarrow> time \<Rightarrow> DDSketch \<Rightarrow> DDSketch \<Rightarrow> DDSketch" where
  "merge_body fm now d otherDD =
     (let d1 = set_active (store_Merge fm (active d) (active otherDD)) d;
          d2 = d1\<lparr>dd_count := dd_count d1 + dd_count otherDD,
                  dd_sum := fm_add fm (dd_sum d1) (dd_sum otherDD),
                  dd_min := (if f_less (dd_min otherDD) (dd_min d1) then dd_min otherDD else dd_min d1),
                  dd_max := (if f_less (dd_max d1) (dd_max otherDD) then dd_max otherDD else dd_max d1)\<rparr>
      in if dd_autoSwitch d2 then checkAndSwitchStores fm now d2 else d2)"

definition sketch_Merge :: "fmath \<Rightarrow> time \<Rightarrow> DDSketch \<Rightarrow> merge_arg \<Rightarrow> (DDSketch \<times> sketch_error option) outcome" where
  "sketch_Merge fm now d other =
     (case other of
        OtherKind \<Rightarrow> Returns (d, Some ErrIncompatibleSketches)
      | Itself \<Rightarrow> if \<not> f_eq (dd_gamma d) (dd_gamma d) then Returns (d, Some (ErrDifferentGamma (dd_gamma d) (dd_gamma d)))
                  else Blocks
      | OtherDD otherDD \<Rightarrow>
          if \<not> f_eq (dd_gamma d) (dd_gamma otherDD) then Returns (d, Some (ErrDifferentGamma (dd_gamma d) (dd_gamma otherDD)))
          else if dd_mutex d = WriteLocked \<or> dd_mutex otherDD = WriteLocked then Blocks
          else Returns (merge_body fm now d otherDD, None))"

text \<open>\<^verbatim>\<open>Copy\<close>: the copy has no object of its own for \<^verbatim>\<open>store\<close>, which points to one of the two
  others (\<open>dd_own\<close> is unreachable).\<close>

definition fresh_dense :: DenseStore where
  "fresh_dense = \<lparr>ds_bins = replicate 128 0, ds_count = 0, ds_offset = 0, ds_minIndex = max_int32,
     ds_maxIndex = min_int32, ds_hasElements = False\<rparr>"

definition sketch_Copy :: "DDSketch \<Rightarrow> DDSketch outcome" where
  "sketch_Copy d = read_locked d
     (let newDD = d\<lparr>dd_sparseStore := SparseS (NewSparseStore 10), dd_denseStore := DenseS fresh_dense, dd_mutex := Unlocked\<rparr>
      in if dd_useSparseStore d then newDD\<lparr>dd_store := IsSparse, dd_sparseStore := store_Copy (active d)\<rparr>
         else newDD\<lparr>dd_store := IsDense, dd_denseStore := store_Copy (active d)\<rparr>)"

definition Reset_body :: "DDSketch \<Rightarrow> DDSketch" where
  "Reset_body d =
     (let d1 = (set_active (store_Clear (active d)) d)\<lparr>dd_min := f_inf, dd_max := f_neg_inf, dd_sum := 0, dd_count := 0\<rparr>;
          d2 = d1\<lparr>dd_sparseStore := store_Clear (dd_sparseStore d1)\<rparr>
      in d2\<lparr>dd_denseStore := store_Clear (dd_denseStore d2)\<rparr>)"

definition Reset :: "DDSketch \<Rightarrow> DDSketch outcome" where
  "Reset d = (if dd_mutex d = WriteLocked then Blocks else Returns (Reset_body d))"

text \<open>\<^verbatim>\<open>Duration.Seconds\<close>.\<close>

definition f_giga :: float64 where
  "f_giga = 0x41CDCD6500000000"

definition duration_seconds :: "fmath \<Rightarrow> duration \<Rightarrow> float64" where
  "duration_seconds fm t =
     fm_add fm (fm_of_int fm (sgn t * (\<bar>t\<bar> div second))) (fm_div fm (fm_of_int fm (sgn t * (\<bar>t\<bar> mod second))) f_giga)"

definition f_hundred :: float64 where
  "f_hundred = 0x4059000000000000"

definition sketch_Resources :: "fmath \<Rightarrow> time \<Rightarrow> DDSketch \<Rightarrow> (string, float64) gomap outcome" where
  "sketch_Resources fm now d = read_locked d
     [(''sketch_count'', fm_of_u64 fm (dd_count d)),
      (''sketch_buckets'', fm_of_int fm (int (length (store_GetNonEmptyBuckets (active d))))),
      (''sketch_memory_bytes'', fm_of_int fm (store_GetMemoryUsageBytes (active d))),
      (''sketch_store_density'', fm_mul fm (store_GetStoreDensity fm (active d)) f_hundred),
      (''sketch_uptime_seconds'', duration_seconds fm (time_sub now (dd_startTime d)))]"

section \<open>Invariant and histories\<close>

fun store_inv :: "Store \<Rightarrow> bool" where
  "store_inv (SparseS s) = sparse_inv s"
| "store_inv (DenseS d) = dense_inv d"

fun store_fits :: "Store \<Rightarrow> (int \<times> 64 word) list \<Rightarrow> bool" where
  "store_fits (SparseS s) es = sparse_fits s es"
| "store_fits (DenseS d) es = dense_fits d es"

fun store_merge_fits :: "Store \<Rightarrow> buckets \<Rightarrow> bool" where
  "store_merge_fits (SparseS s) es = sparse_merge_fits s es"
| "store_merge_fits (DenseS d) es = dense_fits d es"

fun store_merge_buckets :: "fmath \<Rightarrow> Store \<Rightarrow> buckets \<Rightarrow> 64 word \<Rightarrow> Store" where
  "store_merge_buckets fm (SparseS s) bs t = SparseS (sparse_Merge (collapse_portion fm) s bs t)"
| "store_merge_buckets fm (DenseS d) bs t = DenseS (dense_Merge d bs t)"

fun is_sparse :: "Store \<Rightarrow> bool" where
  "is_sparse (SparseS s) = True"
| "is_sparse (DenseS d) = False"

definition dd_inv :: "DDSketch \<Rightarrow> bool" where
  "dd_inv d \<longleftrightarrow> store_inv (active d) \<and> store_inv (dd_sparseStore d) \<and> store_inv (dd_denseStore d)
     \<and> is_sparse (dd_sparseStore d) \<and> \<not> is_sparse (dd_denseStore d) \<and> is_sparse (active d) = dd_useSparseStore d
     \<and> store_GetTotalCount (active d) = dd_count d \<and> dd_mutex d = Unlocked"

text \<open>The bucket entries a sequence of \<^verbatim>\<open>AddWithCount\<close> calls makes, and the calls themselves.\<close>

type_synonym add_call = "time \<times> time \<times> float64 \<times> 64 word"

fun add_calls :: "fmath \<Rightarrow> add_call list \<Rightarrow> DDSketch \<Rightarrow> DDSketch outcome" where
  "add_calls fm [] d = Returns d"
| "add_calls fm ((since, now, v, c) # calls) d =
     and_then (AddWithCount fm since now d v c) (\<lambda>(d', _). add_calls fm calls d')"

fun entries :: "fmath \<Rightarrow> DDSketch \<Rightarrow> add_call list \<Rightarrow> (int \<times> 64 word) list" where
  "entries fm d [] = []"
| "entries fm d ((since, now, v, c) # calls) =
     (if f_le v 0 \<or> c = 0 then entries fm d calls else (valueToIndex fm d (clamp d v), c) # entries fm d calls)"

fun seen :: "DDSketch \<Rightarrow> add_call list \<Rightarrow> float64 list" where
  "seen d [] = []"
| "seen d ((since, now, v, c) # calls) = (if f_le v 0 \<or> c = 0 then seen d calls else clamp d v # seen d calls)"

definition same_params :: "DDSketch \<Rightarrow> DDSketch \<Rightarrow> bool" where
  "same_params d e \<longleftrightarrow> dd_multiplier d = dd_multiplier e \<and> dd_offset d = dd_offset e \<and> dd_minValue d = dd_minValue e
     \<and> dd_maxValue d = dd_maxValue e"

text \<open>A sketch holds the entries \<open>es\<close>.\<close>

definition holds :: "DDSketch \<Rightarrow> (int \<times> 64 word) list \<Rightarrow> bool" where
  "holds d es \<longleftrightarrow> dd_inv d \<and> (\<forall>j. index_ok j \<longrightarrow> store_Get (active d) j = hits j es)
     \<and> unat (dd_count d) = counts es
     \<and> fst ` set (store_GetNonEmptyBuckets (active d)) \<subseteq> fst ` set es"

text \<open>Few enough buckets that no store collapses, and counts that fit. A sketch that switches between its stores may use 100 buckets, as
  a sparse store that is merged with more collapses; one that stays with its sparse store 1000, and one that stays with its dense store
  any number. The other sketch of a merge may have 100, unless the receiver stays with its dense store.\<close>

definition bucket_room :: "DDSketch \<Rightarrow> nat \<Rightarrow> bool" where
  "bucket_room d n \<longleftrightarrow> (if dd_autoSwitch d then n \<le> 100 else dd_useSparseStore d \<longrightarrow> n \<le> 1000)"

definition small :: "DDSketch \<Rightarrow> (int \<times> 64 word) list \<Rightarrow> bool" where
  "small d es \<longleftrightarrow> bucket_room d (card (fst ` set es)) \<and> counts es < 2 ^ 64 \<and> (\<forall>i \<in> fst ` set es. index_ok i)"

definition merge_room :: "DDSketch \<Rightarrow> (int \<times> 64 word) list \<Rightarrow> bool" where
  "merge_room d es \<longleftrightarrow> (dd_autoSwitch d \<or> dd_useSparseStore d \<longrightarrow> card (fst ` set es) \<le> 100)"

definition same_room :: "DDSketch \<Rightarrow> DDSketch \<Rightarrow> bool" where
  "same_room d' d \<longleftrightarrow> dd_autoSwitch d' = dd_autoSwitch d \<and> (\<not> dd_autoSwitch d \<longrightarrow> dd_useSparseStore d' = dd_useSparseStore d)"

text \<open>The smallest and the largest value seen; values that are not a number are not compared.\<close>

definition extremes :: "DDSketch \<Rightarrow> float64 list \<Rightarrow> bool" where
  "extremes d vs \<longleftrightarrow> \<not> f_nan (dd_min d) \<and> \<not> f_nan (dd_max d)
     \<and> (\<forall>v \<in> set vs. f_nan v \<or> (f_le (dd_min d) v \<and> f_le v (dd_max d)))
     \<and> (dd_min d = f_inf \<or> dd_min d \<in> set vs) \<and> (dd_max d = f_neg_inf \<or> dd_max d \<in> set vs)"

text \<open>Example data: arithmetic by powers of two, in which the bucket of a value is its exponent.\<close>

definition example_fm :: fmath where
  "example_fm = \<lparr>fm_add = (\<lambda>x y. x), fm_sub = (\<lambda>x y. x), fm_mul = (\<lambda>x y. y), fm_div = (\<lambda>x y. x), fm_log = (\<lambda>x. x),
     fm_log1p = (\<lambda>x. x), fm_exp = (\<lambda>x. x), fm_ceil = (\<lambda>x. x), fm_of_int = (\<lambda>i. word_of_int ((i + 1023) * 2 ^ 52)),
     fm_of_u64 = (\<lambda>n. n), fm_to_int = (\<lambda>x. uint x div 2 ^ 52 - 1023), fm_to_u64 = (\<lambda>x. x)\<rparr>"

definition example_sketch :: DDSketch where
  "example_sketch = (case NewDDSketch example_fm (DDSketchOf sketch_DefaultConfig) 0 0 of Returns d \<Rightarrow> d)"

definition example_calls :: "add_call list" where
  "example_calls = [(1, 2, 0x3FF0000000000000, 3), (4000000000, 4000000001, 0x4000000000000000, 2)]"

definition example_built :: DDSketch where
  "example_built = (case add_calls example_fm example_calls example_sketch of Returns d \<Rightarrow> d)"

section \<open>The interface kept by both kinds of store\<close>

declare find_rank.simps [simp del] sum_below.simps [simp del]

lemma store_Merge_eq:
  "store_Merge fm st other = store_merge_buckets fm st (store_GetNonEmptyBuckets other) (store_GetTotalCount other)"
  by (cases st) simp_all

interpretation st: merging_store store_inv store_fits "store_Add fm" store_Get store_GetTotalCount store_Clear
  store_GetNonEmptyBuckets store_GetMinIndex store_GetMaxIndex store_merge_fits "store_merge_buckets fm"
  for fm
proof unfold_locales
  fix s i c es
  assume a: "store_inv s" "store_fits s ((i, c) # es)"
  have "store_inv (store_Add fm s i c) \<and> store_fits (store_Add fm s i c) es
    \<and> (\<forall>j. index_ok j \<longrightarrow> store_Get (store_Add fm s i c) j = store_Get s j + (if i = j then c else 0))
    \<and> store_GetTotalCount (store_Add fm s i c) = store_GetTotalCount s + c"
  proof (cases s)
    case (SparseS x)
    then have x: "sparse_inv x" "sparse_fits x ((i, c) # es)" using a by simp_all
    show ?thesis using sparse.add_inv [OF x] sparse.add_fits [OF x] sparse.get_add [OF x] sparse.total_add [OF x]
      by (simp add: SparseS)
  next
    case (DenseS x)
    then have x: "dense_inv x" "dense_fits x ((i, c) # es)" using a by simp_all
    show ?thesis using dense.add_inv [OF x] dense.add_fits [OF x] dense.get_add [OF x] dense.total_add [OF x]
      by (simp add: DenseS)
  qed
  then show "store_inv (store_Add fm s i c)" "store_fits (store_Add fm s i c) es"
    "store_GetTotalCount (store_Add fm s i c) = store_GetTotalCount s + c"
    "\<And>j. index_ok j \<Longrightarrow> store_Get (store_Add fm s i c) j = store_Get s j + (if i = j then c else 0)" by blast+
next
  fix s es assume "store_fits s es"
  then show "no_wrap (store_GetTotalCount s) es"
    using sparse.fits_no_wrap dense.fits_no_wrap by (cases s) simp_all
next
  fix s assume inv: "store_inv s"
  show "store_inv (store_Clear s)" using inv sparse.clear_inv dense.clear_inv by (cases s) simp_all
  show "gm_wf (store_GetNonEmptyBuckets s)" using inv sparse.buckets_wf dense.buckets_wf by (cases s) simp_all
  show "counts (store_GetNonEmptyBuckets s) = unat (store_GetTotalCount s)"
    using inv sparse.buckets_total dense.buckets_total by (cases s) simp_all
  show "index_ok (fst (store_GetMinIndex s)) \<and> index_ok (fst (store_GetMaxIndex s))"
    using inv sparse.bounds_ok dense.bounds_ok by (cases s) simp_all
  fix j
  show "index_ok j" if "j \<in> fst ` set (store_GetNonEmptyBuckets s)"
    using inv that by (cases s) (use sparse.buckets_keys dense.buckets_keys in \<open>auto\<close>)
  assume j: "index_ok j"
  then show "bin_get (store_GetNonEmptyBuckets s) j = store_Get s j"
    using inv sparse.buckets_get dense.buckets_get by (cases s) simp_all
  assume "store_Get s j \<noteq> 0"
  then show "encloses (store_GetMinIndex s) (store_GetMaxIndex s) j"
    using inv j sparse.bounds dense.bounds by (cases s) simp_all
next
  fix s bs and t :: "64 word"
  assume a: "store_inv s" "gm_wf bs" "store_merge_fits s bs" "unat t = counts bs"
  show "store_inv (store_merge_buckets fm s bs t)"
    using a sparse.merge_inv dense.merge_inv by (cases s) simp_all
  show "store_Get (store_merge_buckets fm s bs t) j = store_Get s j + bin_get bs j" if "index_ok j" for j
    using a that sparse.get_merge dense.get_merge by (cases s) simp_all
next
  show "store_Get (store_Clear s) j = 0" for s j
    using sparse.get_clear dense.get_clear by (cases s) simp_all
  show "store_GetTotalCount (store_Clear s) = 0" for s
    using sparse.total_clear dense.total_clear by (cases s) simp_all
  show "store_GetTotalCount (store_merge_buckets fm s bs t) = store_GetTotalCount s + t" for s bs t
    using sparse.total_merge dense.total_merge by (cases s) simp_all
qed

section \<open>Keys of a store\<close>

lemma dense_collect_nonzero: "(k, c) \<in> set (dense_collect i cs) \<Longrightarrow> c \<noteq> 0"
  by (induction cs arbitrary: i) (auto simp: word_gt_0 split: if_splits)

lemma dense_keys_iff:
  assumes "dense_inv d"
  shows "k \<in> fst ` set (dense_GetNonEmptyBuckets d) \<longleftrightarrow> index_ok k \<and> dense_Get d k \<noteq> 0"
proof
  assume "k \<in> fst ` set (dense_GetNonEmptyBuckets d)"
  then obtain c where kc: "(k, c) \<in> set (dense_GetNonEmptyBuckets d)" by force
  then have "bin_get (dense_GetNonEmptyBuckets d) k = c" by (rule bin_get_in [OF dense.buckets_wf [OF assms]])
  moreover have "c \<noteq> 0" using kc dense_collect_nonzero by (simp add: dense_GetNonEmptyBuckets_def)
  moreover have "index_ok k" by (rule dense.buckets_keys [OF assms]) (use kc in force)
  ultimately show "index_ok k \<and> dense_Get d k \<noteq> 0" using dense.buckets_get [OF assms] by simp
next
  assume k: "index_ok k \<and> dense_Get d k \<noteq> 0"
  then have "bin_get (dense_GetNonEmptyBuckets d) k \<noteq> 0" using dense.buckets_get [OF assms] by simp
  then show "k \<in> fst ` set (dense_GetNonEmptyBuckets d)" using bin_get_notin by blast
qed

lemma merge_bins_keys: "fst ` set (ss_bins (fold sparse_merge_bin es s)) = fst ` set (ss_bins s) \<union> fst ` set es"
  by (induction es arbitrary: s) (auto simp: sparse_merge_bin_def bin_add_keys split: prod.splits)

lemma sparse_keys: "sparse_inv s \<Longrightarrow> fst ` set (sparse_GetNonEmptyBuckets s) = fst ` set (ss_bins s)"
  by (simp add: sparse_inv_def sparse_buckets_eq)

lemma store_Add_keys:
  assumes "store_inv st" "store_fits st ((i, c) # es)"
  shows "fst ` set (store_GetNonEmptyBuckets (store_Add fm st i c)) \<subseteq> insert i (fst ` set (store_GetNonEmptyBuckets st))"
proof (cases st)
  case (SparseS s)
  then have s: "sparse_inv s" "sparse_fits s ((i, c) # es)" using assms by simp_all
  show ?thesis using sparse_keys [OF s(1)] sparse_keys [OF sparse.add_inv [OF s, of "collapse_portion fm"]]
    by (simp add: SparseS sparse_Add_small [OF s] bin_add_keys)
next
  case (DenseS d)
  then have d: "dense_inv d" "dense_fits d ((i, c) # es)" using assms by simp_all
  have "k \<in> insert i (fst ` set (dense_GetNonEmptyBuckets d))"
    if "k \<in> fst ` set (dense_GetNonEmptyBuckets (dense_Add d i c))" for k
    using that dense.get_add [OF d, of k] unfolding dense_keys_iff [OF dense.add_inv [OF d]] insert_iff dense_keys_iff [OF d(1)]
    by auto
  then show ?thesis unfolding DenseS store_Add.simps store_GetNonEmptyBuckets.simps by blast
qed

lemma store_Merge_keys:
  assumes "store_inv st" "gm_wf bs" "store_merge_fits st bs" "unat t = counts bs"
  shows "fst ` set (store_GetNonEmptyBuckets (store_merge_buckets fm st bs t)) \<subseteq> fst ` set (store_GetNonEmptyBuckets st) \<union> fst ` set bs"
proof (cases st)
  case (SparseS s)
  then have s: "sparse_inv s" "gm_wf bs" "sparse_merge_fits s bs" "unat t = counts bs" using assms by simp_all
  show ?thesis using sparse_keys [OF s(1)] sparse_keys [OF sparse.merge_inv [OF s, of "collapse_portion fm"]]
    by (simp add: SparseS sparse_Merge_small [OF s(3)] Let_def merge_bins_keys)
next
  case (DenseS d)
  then have d: "dense_inv d" "gm_wf bs" "dense_fits d bs" "unat t = counts bs" using assms by simp_all
  have "k \<in> fst ` set (dense_GetNonEmptyBuckets d) \<union> fst ` set bs"
    if "k \<in> fst ` set (dense_GetNonEmptyBuckets (dense_Merge d bs t))" for k
    using that dense.get_merge [OF d, of k] bin_get_notin [of k bs]
    unfolding dense_keys_iff [OF dense.merge_inv [OF d]] Un_iff dense_keys_iff [OF d(1)] by fastforce
  then show ?thesis unfolding DenseS store_merge_buckets.simps store_GetNonEmptyBuckets.simps by blast
qed

lemma store_Clear_keys:
  assumes "store_inv st"
  shows "fst ` set (store_GetNonEmptyBuckets (store_Clear st)) = {}"
proof (cases st)
  case (SparseS s)
  show ?thesis by (simp add: SparseS sparse_Clear_def sparse_GetNonEmptyBuckets_def)
next
  case (DenseS d)
  then have inv: "dense_inv (dense_Clear d)" using dense.clear_inv assms by simp
  have "fst ` set (dense_GetNonEmptyBuckets (dense_Clear d)) = {}"
  proof (rule equals0I)
    fix k assume "k \<in> fst ` set (dense_GetNonEmptyBuckets (dense_Clear d))"
    then show False using dense_keys_iff [OF inv, of k] by simp
  qed
  then show ?thesis by (simp add: DenseS)
qed

section \<open>Switching stores is invisible\<close>

lemma is_sparse_ops [simp]:
  "is_sparse (store_Add fm st i c) = is_sparse st" "is_sparse (store_Clear st) = is_sparse st"
  "is_sparse (store_merge_buckets fm st bs t) = is_sparse st" "is_sparse (store_Copy st) = is_sparse st"
  by (cases st; simp)+

lemma card_keys_mono: "card (fst ` set es) \<le> n \<Longrightarrow> fst ` set bs \<subseteq> fst ` set es \<Longrightarrow> card (fst ` set bs) \<le> n"
  by (meson List.finite_set card_mono finite_imageI order_trans)

lemma small_same: "same_room d' d \<Longrightarrow> small d' es \<longleftrightarrow> small d es"
  by (auto simp: small_def bucket_room_def same_room_def)

lemma total_le: "store_inv st \<Longrightarrow> no_wrap 0 (store_GetNonEmptyBuckets st)"
  using st.buckets_total [of st] unsigned_less [of "store_GetTotalCount st"] by (simp add: no_wrap_def)

lemma clear_merge_fits:
  assumes "store_inv t" "store_inv a" "fst ` set (store_GetNonEmptyBuckets a) \<subseteq> fst ` set es" "card (fst ` set es) \<le> 100"
  shows "store_merge_fits (store_Clear t) (store_GetNonEmptyBuckets a)"
proof -
  have keys: "\<forall>i \<in> fst ` set (store_GetNonEmptyBuckets a). index_ok i" using st.buckets_keys [OF assms(2)] by blast
  have "length (store_GetNonEmptyBuckets a) \<le> 100"
    using card_keys_mono [OF assms(4,3)] length_gm_wf [OF st.buckets_wf [OF assms(2)]] by simp
  with keys total_le [OF assms(2)] show ?thesis
    by (cases t) (simp_all add: sparse_merge_fits_def dense_fits_def sparse_Clear_def dense_Clear_def)
qed

lemma store_switch:
  fixes fm :: fmath
  assumes "store_inv t" "store_inv a" "fst ` set (store_GetNonEmptyBuckets a) \<subseteq> fst ` set es" "card (fst ` set es) \<le> 100"
  defines "m \<equiv> store_Merge fm (store_Clear t) a"
  shows "store_inv m \<and> (\<forall>j. index_ok j \<longrightarrow> store_Get m j = store_Get a j) \<and> store_GetTotalCount m = store_GetTotalCount a
    \<and> is_sparse m = is_sparse t \<and> fst ` set (store_GetNonEmptyBuckets m) \<subseteq> fst ` set es"
proof -
  note fits = clear_merge_fits [OF assms(1-4)]
  note wf = st.buckets_wf [OF assms(2)] and cnt = st.buckets_total [OF assms(2), symmetric]
  note clr = st.clear_inv [OF assms(1)]
  show ?thesis
    using st.merge_inv [OF clr wf fits cnt, of fm] st.switch_get [OF assms(1) wf fits cnt, of _ fm]
      st.buckets_get [OF assms(2)] store_Merge_keys [OF clr wf fits cnt, of fm] store_Clear_keys [OF assms(1)] assms(3)
      st.total_merge [of fm "store_Clear t"] st.total_clear
    by (auto simp: m_def store_Merge_eq)
qed

lemma active_frame [simp]:
  "active (d\<lparr>dd_count := a\<rparr>) = active d" "active (d\<lparr>dd_sum := x\<rparr>) = active d" "active (d\<lparr>dd_min := x\<rparr>) = active d"
  "active (d\<lparr>dd_max := x\<rparr>) = active d" "active (d\<lparr>dd_lastSwitch := t\<rparr>) = active d"
  "active (d\<lparr>dd_mutex := l\<rparr>) = active d" "active (d\<lparr>dd_useSparseStore := b\<rparr>) = active d"
  "active (d\<lparr>dd_store := IsSparse\<rparr>) = dd_sparseStore d" "active (d\<lparr>dd_store := IsDense\<rparr>) = dd_denseStore d"
  "active (set_active st d) = st"
  by (cases "dd_store d"; simp add: active_def set_active_def)+

lemma holds_switch:
  assumes "holds d es" "card (fst ` set es) \<le> 100"
  shows "holds (checkAndSwitchStores fm now d) es"
proof -
  have inv: "dd_inv d" using assms(1) by (simp add: holds_def)
  define d1 where "d1 = d\<lparr>dd_lastSwitch := now\<rparr>"
  have act1: "active d1 = active d" by (simp add: d1_def)
  have h1: "holds d1 es" using assms(1) act1 by (simp add: holds_def dd_inv_def) (simp add: d1_def)
  have keys: "fst ` set (store_GetNonEmptyBuckets (active d)) \<subseteq> fst ` set es" using assms(1) by (simp add: holds_def)
  define m1 where "m1 = store_Merge fm (store_Clear (dd_denseStore d)) (active d)"
  define m2 where "m2 = store_Merge fm (store_Clear (dd_sparseStore d)) (active d)"
  define e1 where "e1 = d1\<lparr>dd_denseStore := m1, dd_store := IsDense, dd_useSparseStore := False\<rparr>"
  define e2 where "e2 = d1\<lparr>dd_sparseStore := m2, dd_store := IsSparse, dd_useSparseStore := True\<rparr>"
  have i: "store_inv (dd_denseStore d)" "store_inv (dd_sparseStore d)" "store_inv (active d)"
    using inv by (simp_all add: dd_inv_def)
  note s1 = store_switch [OF i(1,3) keys assms(2), of fm, folded m1_def]
  note s2 = store_switch [OF i(2,3) keys assms(2), of fm, folded m2_def]
  have ae: "active e1 = m1" "active e2 = m2" by (simp_all add: e1_def e2_def)
  have he: "holds e1 es" "holds e2 es"
    using assms(1) s1 s2 inv unfolding holds_def dd_inv_def ae by (simp_all add: e1_def e2_def d1_def)
  have "checkAndSwitchStores fm now d \<in> {d, d1, e1, e2}"
  proof -
    have a2: "active (d1\<lparr>dd_denseStore := x\<rparr>) = active d" if "dd_useSparseStore d" for x
      using that inv by (cases "dd_store d") (auto simp: active_def dd_inv_def d1_def)
    have a3: "active (d1\<lparr>dd_sparseStore := x\<rparr>) = active d" if "\<not> dd_useSparseStore d" for x
      using that inv by (cases "dd_store d") (auto simp: active_def dd_inv_def d1_def)
    have f1: "dd_useSparseStore d1 = dd_useSparseStore d" "dd_denseStore d1 = dd_denseStore d"
      "dd_sparseStore d1 = dd_sparseStore d" by (simp_all add: d1_def)
    consider "time_sub now (dd_lastSwitch d) < second"
      | "\<not> time_sub now (dd_lastSwitch d) < second" "dd_useSparseStore d" | "\<not> time_sub now (dd_lastSwitch d) < second" "\<not> dd_useSparseStore d"
      by blast
    then show ?thesis
      by cases (simp_all add: checkAndSwitchStores_def Let_def d1_def [symmetric] f1 a2 a3 m1_def [symmetric] m2_def [symmetric]
        e1_def [symmetric] e2_def [symmetric])
  qed
  then show ?thesis using assms(1) h1 he by auto
qed

section \<open>Adding values\<close>

lemma store_fits_next:
  assumes "holds d es" "small d (es @ [(i, c)])"
  shows "store_fits (active d) [(i, c)]"
proof -
  have inv: "store_inv (active d)" and keys: "fst ` set (store_GetNonEmptyBuckets (active d)) \<subseteq> fst ` set es"
    and cnt: "unat (store_GetTotalCount (active d)) = counts es"
    using assms(1) by (simp_all add: holds_def dd_inv_def)
  have nw: "no_wrap (store_GetTotalCount (active d)) [(i, c)]" "index_ok i"
    using assms(2) cnt by (simp_all add: no_wrap_def small_def)
  show ?thesis
  proof (cases "active d")
    case (SparseS s)
    have "dd_useSparseStore d" using assms(1) by (simp add: SparseS holds_def dd_inv_def)
    then have "card (fst ` set (es @ [(i, c)])) \<le> 1000" using assms(2) by (auto simp: small_def bucket_room_def split: if_splits)
    moreover have "fst ` set (ss_bins s) \<union> {i} \<subseteq> fst ` set (es @ [(i, c)])"
      using keys inv sparse_keys [of s] by (auto simp: SparseS)
    then have "card (fst ` set (ss_bins s) \<union> {i}) \<le> card (fst ` set (es @ [(i, c)]))" by (intro card_mono) simp_all
    ultimately have "card (fst ` set (ss_bins s) \<union> {i}) \<le> 1000" by linarith
    with nw show ?thesis
      by (simp add: SparseS sparse_fits_def sparse_GetTotalCount_def del: Un_insert_right)
  next
    case (DenseS x)
    with nw show ?thesis by (simp add: dense_fits_def dense_GetTotalCount_def)
  qed
qed

lemma set_active_frame [simp]:
  "dd_useSparseStore (set_active st d) = dd_useSparseStore d" "dd_count (set_active st d) = dd_count d"
  "dd_mutex (set_active st d) = dd_mutex d" "dd_min (set_active st d) = dd_min d" "dd_max (set_active st d) = dd_max d"
  "dd_multiplier (set_active st d) = dd_multiplier d" "dd_offset (set_active st d) = dd_offset d"
  "dd_minValue (set_active st d) = dd_minValue d" "dd_maxValue (set_active st d) = dd_maxValue d"
  "dd_lastSwitch (set_active st d) = dd_lastSwitch d" "dd_autoSwitch (set_active st d) = dd_autoSwitch d"
  "dd_sum (set_active st d) = dd_sum d" "dd_gamma (set_active st d) = dd_gamma d"
  by (cases "dd_store d"; simp add: set_active_def)+

lemma set_active_inv:
  assumes "dd_inv d" "store_inv st" "is_sparse st = dd_useSparseStore d" "store_GetTotalCount st = n"
  shows "dd_inv ((set_active st d)\<lparr>dd_count := n, dd_sum := x, dd_min := y, dd_max := z\<rparr>)"
  using assms by (cases "dd_store d") (auto simp: dd_inv_def set_active_def active_def)

lemma holds_add:
  assumes "holds d es" "small d (es @ [(i, c)])"
  shows "holds ((set_active (store_Add fm (active d) i c) d)\<lparr>dd_count := dd_count d + c, dd_sum := x, dd_min := y, dd_max := z\<rparr>)
    (es @ [(i, c)])"
proof -
  have inv: "dd_inv d" "store_inv (active d)" and tot: "store_GetTotalCount (active d) = dd_count d"
    and get: "\<And>j. index_ok j \<Longrightarrow> store_Get (active d) j = hits j es" and cnt: "unat (dd_count d) = counts es"
    and keys: "fst ` set (store_GetNonEmptyBuckets (active d)) \<subseteq> fst ` set es"
    using assms(1) by (simp_all add: holds_def dd_inv_def)
  note fits = store_fits_next [OF assms]
  define st where "st = store_Add fm (active d) i c"
  have "store_inv st" "store_GetTotalCount st = dd_count d + c"
    using st.add_inv [OF inv(2) fits] st.total_add [OF inv(2) fits] tot by (simp_all add: st_def)
  moreover have "is_sparse st = dd_useSparseStore d" using inv(1) by (simp add: st_def dd_inv_def)
  ultimately have "dd_inv ((set_active st d)\<lparr>dd_count := dd_count d + c, dd_sum := x, dd_min := y, dd_max := z\<rparr>)"
    using inv(1) by (intro set_active_inv)
  moreover have "store_Get st j = hits j (es @ [(i, c)])" if "index_ok j" for j
    using st.get_add [OF inv(2) fits that, of fm] get [OF that] by (simp add: st_def)
  moreover have "unat (dd_count d + c) = counts (es @ [(i, c)])"
    using cnt assms(2) by (simp add: small_def unat_add_no_wrap)
  moreover have "fst ` set (store_GetNonEmptyBuckets st) \<subseteq> fst ` set (es @ [(i, c)])"
    using store_Add_keys [OF inv(2) fits, of fm] keys by (auto simp: st_def)
  ultimately show ?thesis by (simp add: holds_def st_def)
qed

lemma switch_frame [simp]:
  "dd_multiplier (checkAndSwitchStores fm now d) = dd_multiplier d" "dd_offset (checkAndSwitchStores fm now d) = dd_offset d"
  "dd_minValue (checkAndSwitchStores fm now d) = dd_minValue d" "dd_maxValue (checkAndSwitchStores fm now d) = dd_maxValue d"
  "dd_min (checkAndSwitchStores fm now d) = dd_min d" "dd_max (checkAndSwitchStores fm now d) = dd_max d"
  "dd_sum (checkAndSwitchStores fm now d) = dd_sum d" "dd_gamma (checkAndSwitchStores fm now d) = dd_gamma d"
  "dd_autoSwitch (checkAndSwitchStores fm now d) = dd_autoSwitch d"
  by (simp_all add: checkAndSwitchStores_def Let_def)

text \<open>What one accepted \<^verbatim>\<open>AddWithCount\<close> does.\<close>

lemma AddWithCount_accepts:
  fixes fm :: fmath
  assumes "\<not> f_le v 0" "c \<noteq> 0" "dd_mutex d = Unlocked"
  defines "i \<equiv> valueToIndex fm d (clamp d v)"
  shows "\<exists>d2. AddWithCount fm since now d v c = Returns (d2, None) \<and> same_params d2 d \<and> same_room d2 d
    \<and> dd_min d2 = (if f_less (clamp d v) (dd_min d) then clamp d v else dd_min d)
    \<and> dd_max d2 = (if f_less (dd_max d) (clamp d v) then clamp d v else dd_max d)
    \<and> (\<forall>es. holds d es \<longrightarrow> small d (es @ [(i, c)]) \<longrightarrow> holds d2 (es @ [(i, c)]))"
proof -
  define d1 where "d1 = (set_active (store_Add fm (active d) i c) d)\<lparr>dd_count := dd_count d + c,
      dd_sum := fm_add fm (dd_sum (set_active (store_Add fm (active d) i c) d)) (fm_mul fm (clamp d v) (fm_of_u64 fm c)),
      dd_min := (if f_less (clamp d v) (dd_min d) then clamp d v else dd_min d),
      dd_max := (if f_less (dd_max d) (clamp d v) then clamp d v else dd_max d)\<rparr>"
  define d2 where "d2 = (if dd_autoSwitch d1 \<and> second < time_sub since (dd_lastSwitch d1) then checkAndSwitchStores fm now d1 else d1)"
  have h: "holds d1 (es @ [(i, c)])" if "holds d es" "small d (es @ [(i, c)])" for es
    unfolding d1_def using that by (rule holds_add)
  have h2: "holds d2 (es @ [(i, c)])" if "holds d es" "small d (es @ [(i, c)])" for es
  proof (cases "dd_autoSwitch d1")
    case True
    then have "card (fst ` set (es @ [(i, c)])) \<le> 100" using that(2) by (simp add: small_def bucket_room_def d1_def)
    then show ?thesis using h [OF that] holds_switch [OF h [OF that]] by (simp add: d2_def)
  qed (use h [OF that] in \<open>simp add: d2_def\<close>)
  have r: "AddWithCount fm since now d v c = Returns (d2, None)"
    using assms by (simp add: AddWithCount_def Let_def d2_def d1_def)
  have "same_params d2 d1" "dd_min d2 = dd_min d1" "dd_max d2 = dd_max d1" "same_room d2 d1"
    by (simp_all add: d2_def same_params_def same_room_def)
  then show ?thesis using r h2 by (intro exI [of _ d2]) (simp add: d1_def same_params_def same_room_def)
qed

lemma params_eq:
  assumes "same_params d' d"
  shows "entries fm d' calls = entries fm d calls" and "seen d' calls = seen d calls"
proof -
  have "clamp d' v = clamp d v" "valueToIndex fm d' v = valueToIndex fm d v" for v
    using assms by (simp_all add: same_params_def clamp_def valueToIndex_def)
  then show "entries fm d' calls = entries fm d calls" "seen d' calls = seen d calls"
    by (induction calls rule: entries.induct) simp_all
qed

lemma small_append: "small d (es @ fs) \<Longrightarrow> small d es"
proof -
  assume "small d (es @ fs)"
  moreover have "card (fst ` set es) \<le> card (fst ` set (es @ fs))" by (rule card_mono) auto
  ultimately show ?thesis by (auto simp: small_def bucket_room_def split: if_splits)
qed

lemma same_room_trans: "same_room d3 d2 \<Longrightarrow> same_room d2 d \<Longrightarrow> same_room d3 d"
  by (simp add: same_room_def)

lemma add_calls_holds:
  assumes "holds d es" "small d (es @ entries fm d calls)"
  shows "\<exists>d'. add_calls fm calls d = Returns d' \<and> holds d' (es @ entries fm d calls) \<and> same_room d' d"
  using assms
proof (induction calls arbitrary: d es)
  case (Cons call calls)
  obtain since now v c where call: "call = (since, now, v, c)" by (cases call)
  have lock: "dd_mutex d = Unlocked" using Cons.prems(1) by (simp add: holds_def dd_inv_def)
  show ?case
  proof (cases "f_le v 0 \<or> c = 0")
    case True
    then have "AddWithCount fm since now d v c = Returns (d, if f_le v 0 then Some (ErrNotPositive v) else None)"
      by (auto simp: AddWithCount_def)
    with True Cons.IH [OF Cons.prems(1)] Cons.prems(2) show ?thesis by (simp add: call)
  next
    case False
    then have v: "\<not> f_le v 0" "c \<noteq> 0" by simp_all
    let ?e = "(valueToIndex fm d (clamp d v), c)"
    obtain d2 where d2: "AddWithCount fm since now d v c = Returns (d2, None)" "same_params d2 d"
      "dd_min d2 = (if f_less (clamp d v) (dd_min d) then clamp d v else dd_min d)"
      "dd_max d2 = (if f_less (dd_max d) (clamp d v) then clamp d v else dd_max d)"
      "\<forall>es. holds d es \<longrightarrow> small d (es @ [?e]) \<longrightarrow> holds d2 (es @ [?e])" "same_room d2 d"
      using AddWithCount_accepts [OF v lock, where fm = fm and since = since and now = now] by blast
    note eq = params_eq(1) [OF d2(2), of fm calls]
    have all: "small d ((es @ [?e]) @ entries fm d calls)" using Cons.prems(2) False by (simp add: call)
    have "holds d2 (es @ [?e])" using d2(5) Cons.prems(1) small_append [OF all] by blast
    from Cons.IH [OF this] all eq d2(1) False show ?thesis
      by (auto simp: call small_same [OF d2(6)] intro: same_room_trans [OF _ d2(6)])
  qed
qed (simp add: holds_def same_room_def)

lemma extremes_add:
  assumes "extremes d vs" "dd_min d2 = (if f_less v (dd_min d) then v else dd_min d)"
    "dd_max d2 = (if f_less (dd_max d) v then v else dd_max d)"
  shows "extremes d2 (vs @ [v])"
proof -
  have lo: "\<not> f_nan (dd_min d2)" "f_le (dd_min d2) (dd_min d)" "f_nan v \<or> f_le (dd_min d2) v"
    using assms(1,2) by (auto simp: extremes_def f_less_def f_le_def)
  have hi: "\<not> f_nan (dd_max d2)" "f_le (dd_max d) (dd_max d2)" "f_nan v \<or> f_le v (dd_max d2)"
    using assms(1,3) by (auto simp: extremes_def f_less_def f_le_def)
  have "\<forall>w \<in> set vs. f_nan w \<or> (f_le (dd_min d2) w \<and> f_le w (dd_max d2))"
    using assms(1) f_le_trans [OF lo(2)] f_le_trans [OF _ hi(2)] unfolding extremes_def by blast
  moreover have "dd_min d2 = f_inf \<or> dd_min d2 \<in> set (vs @ [v])" "dd_max d2 = f_neg_inf \<or> dd_max d2 \<in> set (vs @ [v])"
    using assms by (auto simp: extremes_def)
  ultimately show ?thesis using lo hi by (auto simp: extremes_def)
qed

lemma add_calls_extremes:
  assumes "extremes d vs" "dd_mutex d = Unlocked" "add_calls fm calls d = Returns d'" "holds d es" "small d (es @ entries fm d calls)"
  shows "extremes d' (vs @ seen d calls)"
  using assms
proof (induction calls arbitrary: d vs es)
  case (Cons call calls)
  obtain since now v c where call: "call = (since, now, v, c)" by (cases call)
  show ?case
  proof (cases "f_le v 0 \<or> c = 0")
    case True
    then have "AddWithCount fm since now d v c = Returns (d, if f_le v 0 then Some (ErrNotPositive v) else None)"
      by (auto simp: AddWithCount_def)
    with True Cons.IH [OF Cons.prems(1,2) _ Cons.prems(4)] Cons.prems(3,5) show ?thesis by (simp add: call)
  next
    case False
    then have v: "\<not> f_le v 0" "c \<noteq> 0" by simp_all
    let ?e = "(valueToIndex fm d (clamp d v), c)"
    obtain d2 where d2: "AddWithCount fm since now d v c = Returns (d2, None)" "same_params d2 d"
      "dd_min d2 = (if f_less (clamp d v) (dd_min d) then clamp d v else dd_min d)"
      "dd_max d2 = (if f_less (dd_max d) (clamp d v) then clamp d v else dd_max d)"
      "\<forall>es. holds d es \<longrightarrow> small d (es @ [?e]) \<longrightarrow> holds d2 (es @ [?e])" "same_room d2 d"
      using AddWithCount_accepts [OF v Cons.prems(2), where fm = fm and since = since and now = now] by blast
    note eq = params_eq [OF d2(2)]
    have all: "small d ((es @ [?e]) @ entries fm d calls)" using Cons.prems(5) False by (simp add: call)
    have h: "holds d2 (es @ [?e])" using d2(5) Cons.prems(4) small_append [OF all] by blast
    have "add_calls fm calls d2 = Returns d'" using Cons.prems(3) d2(1) by (simp add: call)
    from Cons.IH [OF extremes_add [OF Cons.prems(1) d2(3,4)] _ this h] all eq h False
    show ?thesis by (simp add: call holds_def dd_inv_def small_same [OF d2(6)])
  qed
qed simp

lemma NewDDSketch_holds:
  assumes "NewDDSketch fm config start switched = Returns d" "InitialCapacity config \<le> 2 ^ 62"
  shows "holds d [] \<and> extremes d [] \<and> dd_mutex d = Unlocked"
proof -
  obtain dense where dn: "NewDenseStore (InitialCapacity config) = Returns dense"
    using assms(1) by (cases "NewDenseStore (InitialCapacity config)") (simp_all add: NewDDSketch_def split: prod.splits)
  note di = NewDenseStore_inv [OF dn assms(2)]
  have "fst ` set (dense_GetNonEmptyBuckets dense) = {}"
  proof (rule equals0I)
    fix k assume "k \<in> fst ` set (dense_GetNonEmptyBuckets dense)"
    then show False using dense_keys_iff [of dense k] di by simp
  qed
  then have keys: "dense_GetNonEmptyBuckets dense = []" by simp
  have d: "active d = (if UseSparseStore config then SparseS (NewSparseStore (CollapseThreshold config)) else DenseS dense)"
    "dd_sparseStore d = SparseS (NewSparseStore (CollapseThreshold config))" "dd_denseStore d = DenseS dense"
    "dd_useSparseStore d = UseSparseStore config" "dd_count d = 0" "dd_mutex d = Unlocked" "dd_min d = f_inf" "dd_max d = f_neg_inf"
    using assms(1) by (auto simp: NewDDSketch_def dn active_def split: prod.splits)
  have "store_GetTotalCount (active d) = 0" "store_GetNonEmptyBuckets (active d) = []"
    using di keys by (simp_all add: d NewSparseStore_def sparse_GetTotalCount_def dense_GetTotalCount_def sparse_GetNonEmptyBuckets_def)
  moreover have "store_inv (active d)" "store_Get (active d) j = 0" for j
    using di NewSparseStore_inv by (simp_all add: d)
  ultimately have "holds d []" using di NewSparseStore_inv by (simp add: holds_def dd_inv_def d)
  moreover have "extremes d []" by (simp add: extremes_def d f_nan_def f_inf_def f_neg_inf_def f_magnitude_def)
  ultimately show ?thesis by (simp add: d)
qed

section \<open>Quantiles\<close>

lemma unat_hits: "counts es < 2 ^ 64 \<Longrightarrow> unat (hits j es) = counts (filter (\<lambda>(k, _). k = j) es)"
proof (induction es)
  case (Cons e es)
  obtain k c where e: "e = (k, c)" by force
  have le: "counts (filter P es) \<le> counts es" for P by (induction es) (auto split: prod.splits)
  have "unat (hits j es) \<le> counts es" using Cons le [of "\<lambda>(k, _). k = j"] by (simp add: e)
  then have "unat (c + hits j es) = unat c + unat (hits j es)"
    using Cons.prems by (intro unat_add_no_wrap) (simp add: e)
  with Cons show ?case by (simp add: e)
qed simp

lemma counts_filter_Suc:
  "counts (filter (\<lambda>(k, _). k \<le> (i :: int)) es) = counts (filter (\<lambda>(k, _). k < i) es) + counts (filter (\<lambda>(k, _). k = i) es)"
  by (induction es) (auto split: prod.splits)

lemma counts_filter_le: "counts (filter P es) \<le> counts es"
  by (induction es) (auto split: prod.splits)

lemma counts_filter_all: "(\<And>k c. (k, c) \<in> set es \<Longrightarrow> c \<noteq> 0 \<Longrightarrow> P (k, c)) \<Longrightarrow> counts (filter P es) = counts es"
  by (induction es) (force split: prod.splits)+

lemma counts_filter_none: "(\<And>k c. (k, c) \<in> set es \<Longrightarrow> c \<noteq> 0 \<Longrightarrow> \<not> P (k, c)) \<Longrightarrow> counts (filter P es) = 0"
  by (induction es) (force split: prod.splits)+

lemma find_rank_spec:
  assumes "\<forall>j. i \<le> j \<and> j \<le> hi \<longrightarrow> get j = hits j es" "counts es < 2 ^ 64"
    "unat acc = counts (filter (\<lambda>(k, _). k < i) es)" "unat acc < unat rank" "unat rank \<le> counts (filter (\<lambda>(k, _). k \<le> hi) es)"
  shows "\<exists>r. find_rank get i hi acc rank = Some r \<and> counts (filter (\<lambda>(k, _). k < r) es) < unat rank
    \<and> unat rank \<le> counts (filter (\<lambda>(k, _). k \<le> r) es)"
  using assms
proof (induction "nat (hi + 1 - i)" arbitrary: i acc)
  case 0
  then have "{k. k \<le> hi} \<subseteq> {k. k < i}" by auto
  then have "counts (filter (\<lambda>(k, _). k \<le> hi) es) \<le> counts (filter (\<lambda>(k, _). k < i) es)"
    by (induction es) (auto split: prod.splits)
  then show ?case using 0 by simp
next
  case (Suc n)
  have i: "i \<le> hi" using Suc.hyps(2) by simp
  have "unat (hits i es) = counts (filter (\<lambda>(k, _). k = i) es)" by (rule unat_hits [OF Suc.prems(2)])
  moreover have "counts (filter (\<lambda>(k, _). k \<le> i) es) < 2 ^ 64"
    using counts_filter_le [of "\<lambda>(k, _). k \<le> i" es] Suc.prems(2) by simp
  ultimately have acc: "unat (acc + hits i es) = counts (filter (\<lambda>(k, _). k \<le> i) es)"
    using Suc.prems(3) by (simp add: counts_filter_Suc unat_add_no_wrap)
  have step: "find_rank get i hi acc rank =
      (if rank \<le> acc + hits i es then Some i else find_rank get (i + 1) hi (acc + hits i es) rank)"
    using i Suc.prems(1) by (subst find_rank.simps) (simp add: Let_def)
  show ?case
  proof (cases "rank \<le> acc + hits i es")
    case True
    then show ?thesis using step acc Suc.prems(3,4) by (simp add: word_le_nat_alt)
  next
    case False
    then have "unat (acc + hits i es) < unat rank" by (simp add: word_le_nat_alt)
    then show ?thesis using Suc.hyps(1) [of "i + 1" "acc + hits i es"] Suc.hyps(2) Suc.prems(1,2,5) acc step False by simp
  qed
qed

lemma nonempty_bounds:
  assumes "holds d es" "(k, c) \<in> set es" "c \<noteq> 0" "counts es < 2 ^ 64" "index_ok k"
  shows "encloses (store_GetMinIndex (active d)) (store_GetMaxIndex (active d)) k"
proof -
  have "unat c \<le> counts (filter (\<lambda>(j, _). j = k) es)" using assms(2) by (induction es) auto
  then have "hits k es \<noteq> 0" using unat_hits [OF assms(4), of k] assms(3) by (auto simp: unat_eq_0)
  then have "store_Get (active d) k \<noteq> 0" using assms(1,5) by (simp add: holds_def)
  with assms(1,5) show ?thesis by (intro st.bounds) (simp_all add: holds_def dd_inv_def)
qed

lemma holds_range:
  assumes "holds d es" "small d0 es" "counts es \<noteq> 0"
  shows "\<exists>lo hi. store_GetMinIndex (active d) = (lo, True) \<and> store_GetMaxIndex (active d) = (hi, True)
    \<and> index_ok lo \<and> index_ok hi \<and> (\<forall>(k, c) \<in> set es. c \<noteq> 0 \<longrightarrow> lo \<le> k \<and> k \<le> hi)"
proof -
  obtain lo hi b b' where eq: "store_GetMinIndex (active d) = (lo, b)" "store_GetMaxIndex (active d) = (hi, b')"
    by (metis surj_pair)
  have enc: "b \<and> b' \<and> lo \<le> k \<and> k \<le> hi" if "(k, c) \<in> set es" "c \<noteq> 0" for k c
  proof -
    have "index_ok k" using assms(2) that(1) by (force simp: small_def)
    then show ?thesis using nonempty_bounds [OF assms(1) that] assms(2) by (simp add: small_def encloses_def eq)
  qed
  have "\<exists>k c. (k, c) \<in> set es \<and> c \<noteq> 0" using assms(3) counts_filter_none [of es "\<lambda>_. True"] by auto
  then have "b" "b'" using enc by blast+
  moreover have "index_ok lo \<and> index_ok hi"
    using st.bounds_ok [of "active d"] assms(1) eq by (simp add: holds_def dd_inv_def)
  ultimately show ?thesis using enc eq by auto
qed

section \<open>Merging and copying\<close>

lemma holds_merge:
  assumes "holds d xs" "holds e ys" "small d (xs @ ys)" "merge_room d ys"
  shows "holds (merge_body fm now d e) (xs @ ys)"
proof -
  have d: "dd_inv d" "store_inv (active d)" "store_GetTotalCount (active d) = dd_count d" "unat (dd_count d) = counts xs"
    and dk: "fst ` set (store_GetNonEmptyBuckets (active d)) \<subseteq> fst ` set xs"
    and dg: "\<And>j. index_ok j \<Longrightarrow> store_Get (active d) j = hits j xs"
    using assms(1) by (simp_all add: holds_def dd_inv_def)
  have e: "store_inv (active e)" "store_GetTotalCount (active e) = dd_count e" "unat (dd_count e) = counts ys"
    and ek: "fst ` set (store_GetNonEmptyBuckets (active e)) \<subseteq> fst ` set ys"
    and eg: "\<And>j. index_ok j \<Longrightarrow> store_Get (active e) j = hits j ys"
    using assms(2) by (simp_all add: holds_def dd_inv_def)
  define bs where "bs = store_GetNonEmptyBuckets (active e)"
  have wf: "gm_wf bs" and cnt: "unat (dd_count e) = counts bs"
    using st.buckets_wf [OF e(1)] st.buckets_total [OF e(1)] e(2) by (simp_all add: bs_def)
  have "length bs \<le> 100" if "dd_useSparseStore d"
    using card_keys_mono [of ys 100 bs] assms(4) that ek length_gm_wf [OF wf] by (simp add: bs_def merge_room_def)
  moreover have "is_sparse (active d) = dd_useSparseStore d" using d(1) by (simp add: dd_inv_def)
  moreover have "\<forall>i \<in> fst ` set bs. index_ok i" using st.buckets_keys [OF e(1)] by (auto simp: bs_def)
  moreover have "no_wrap (dd_count d) bs"
    using assms(3) d(4) e(3) cnt by (simp add: no_wrap_def small_def)
  ultimately have fits: "store_merge_fits (active d) bs"
    using d(3) by (cases "active d") (simp_all add: sparse_merge_fits_def dense_fits_def sparse_GetTotalCount_def dense_GetTotalCount_def)
  define m where "m = store_Merge fm (active d) (active e)"
  have m: "m = store_merge_buckets fm (active d) bs (dd_count e)" by (simp add: m_def store_Merge_eq bs_def e(2))
  have inv: "store_inv m" unfolding m by (rule st.merge_inv [OF d(2) wf fits cnt])
  have tot: "store_GetTotalCount m = dd_count d + dd_count e" by (simp add: m st.total_merge d(3))
  have get: "store_Get m j = hits j (xs @ ys)" if "index_ok j" for j
    using st.get_merge [OF d(2) wf fits cnt that, of fm] st.buckets_get [OF e(1) that] dg [OF that] eg [OF that]
    by (simp add: m bs_def)
  have keys: "fst ` set (store_GetNonEmptyBuckets m) \<subseteq> fst ` set (xs @ ys)"
    using store_Merge_keys [OF d(2) wf fits cnt, of fm] dk ek unfolding m bs_def set_append image_Un by blast
  have ty: "is_sparse m = dd_useSparseStore d" using d(1) by (simp add: m dd_inv_def)
  have sum: "unat (dd_count d + dd_count e) = counts (xs @ ys)"
    using assms(3) d(4) e(3) by (simp add: small_def unat_add_no_wrap)
  have "holds ((set_active m d)\<lparr>dd_count := dd_count d + dd_count e, dd_sum := x, dd_min := y, dd_max := z\<rparr>) (xs @ ys)" for x y z
    using set_active_inv [OF d(1) inv ty tot, where x = x and y = y and z = z] get keys sum by (simp add: holds_def)
  moreover have "card (fst ` set (xs @ ys)) \<le> 100" if "dd_autoSwitch d" using assms(3) that by (simp add: small_def bucket_room_def)
  ultimately show ?thesis
    using holds_switch by (simp add: merge_body_def Let_def m_def)
qed

lemma store_Copy_same: "store_inv st \<Longrightarrow> store_Copy st = st"
  by (cases st) (simp_all add: dense_Copy_def sparse_Copy_def NewSparseStore_def sparse_inv_def copy_bins)

section \<open>Properties\<close>

lemma example_sketch_new:
  "NewDDSketch example_fm (DDSketchOf sketch_DefaultConfig) 0 0 = Returns example_sketch"
  by (simp add: example_sketch_def NewDDSketch_def NewDenseStore_def sketch_DefaultConfig_def LogarithmicMapping_def Let_def)

lemma example_entries: "entries example_fm example_sketch example_calls = [(0, 3), (1, 2)]"
  by (simp add: example_calls_def example_sketch_def NewDDSketch_def NewDenseStore_def sketch_DefaultConfig_def LogarithmicMapping_def
      Let_def clamp_def valueToIndex_def example_fm_def f_le_def f_less_def f_nan_def f_key_def f_sign_def f_magnitude_def)

lemma example_small: "small example_sketch (entries example_fm example_sketch example_calls)"
  by (simp add: example_entries small_def bucket_room_def index_ok_def)

lemma example_built_eq: "add_calls example_fm example_calls example_sketch = Returns example_built"
  using add_calls_holds [of example_sketch "[]" example_fm example_calls] NewDDSketch_holds [OF example_sketch_new] example_small
  by (auto simp: example_built_def sketch_DefaultConfig_def)

lemma built_holds:
  assumes "NewDDSketch fm config start switched = Returns d" "InitialCapacity config \<le> 2 ^ 62"
    "small d (entries fm d calls)" "add_calls fm calls d = Returns d'"
  shows "holds d' (entries fm d calls)" "same_room d' d"
  using add_calls_holds [of d "[]" fm calls] NewDDSketch_holds [OF assms(1,2)] assms(3,4) by simp_all

lemma holds_unlocked: "holds d es \<Longrightarrow> dd_mutex d = Unlocked"
  by (simp add: holds_def dd_inv_def)

text \<open>
  C6. A sketch holds exactly the values it was given, whichever stores it went through: after any
  sequence of \<^verbatim>\<open>AddWithCount\<close> calls on a new sketch that touch at most 100 buckets (at most 1000 if the
  sketch stays with its sparse store, any number if it stays with its dense one), every call has returned, \<^verbatim>\<open>GetCount\<close> is the sum of the accepted counts, the count of each bucket is the sum
  of the counts of the values mapped to it, no matter how often the sketch switched between its sparse and its dense
  store, and \<^verbatim>\<open>min\<close> and \<^verbatim>\<open>max\<close> are the extreme accepted values.\<close>

theorem sketch_counts_values:
  assumes "NewDDSketch fm config start switched = Returns d" "InitialCapacity config \<le> 2 ^ 62" "small d (entries fm d calls)"
  shows "\<exists>d' n. add_calls fm calls d = Returns d' \<and> GetCount d' = Returns n \<and> unat n = counts (entries fm d calls)
    \<and> (\<forall>j. index_ok j \<longrightarrow> store_Get (active d') j = hits j (entries fm d calls)) \<and> extremes d' (seen d calls)"
proof -
  have new: "holds d []" "extremes d []" "dd_mutex d = Unlocked" using NewDDSketch_holds [OF assms(1,2)] by simp_all
  then obtain d' where d': "add_calls fm calls d = Returns d'" "holds d' (entries fm d calls)"
    using add_calls_holds [of d "[]" fm calls] assms(3) by auto
  have "extremes d' (seen d calls)"
    using add_calls_extremes [OF new(2,3) d'(1) new(1)] assms(3) by simp
  with d' holds_unlocked [OF d'(2)] show ?thesis by (auto simp: GetCount_def read_locked_def holds_def)
qed

theorem sketch_counts_values_witness:
  "\<exists>d' n. add_calls example_fm example_calls example_sketch = Returns d' \<and> GetCount d' = Returns n
    \<and> unat n = counts (entries example_fm example_sketch example_calls)
    \<and> (\<forall>j. index_ok j \<longrightarrow> store_Get (active d') j = hits j (entries example_fm example_sketch example_calls))
    \<and> extremes d' (seen example_sketch example_calls)"
  by (rule sketch_counts_values [OF example_sketch_new _ example_small]) (simp add: sketch_DefaultConfig_def)

text \<open>
  C25. \<^verbatim>\<open>GetValueAtQuantile\<close> answers by rank: for a quantile strictly between 0 and 1 whose rank
  (the rounded-up product with the count) lies between 1 and the count, it returns the representative value of the bucket in
  which the value of that rank is: fewer than \<open>rank\<close> of the values added are in lower buckets, and at least \<open>rank\<close>
  are in this one or lower. It never takes the fallback. The values added touch at most 100 buckets (at most 1000 if the sketch
  stays with its sparse store, any number if it stays with its dense one): beyond that a sparse store collapses buckets and loses
  counts.\<close>

theorem GetValueAtQuantile_rank:
  assumes "NewDDSketch fm config start switched = Returns d" "InitialCapacity config \<le> 2 ^ 62"
    "small d (entries fm d calls)" "add_calls fm calls d = Returns d'" "f_less 0 q" "f_less q f_one"
    "1 \<le> rank_of fm q (dd_count d')" "rank_of fm q (dd_count d') \<le> dd_count d'"
  shows "\<exists>i. GetValueAtQuantile fm d' q = Returns (Inr (indexToValue fm d' i))
    \<and> counts (filter (\<lambda>(k, _). k < i) (entries fm d calls)) < unat (rank_of fm q (dd_count d'))
    \<and> unat (rank_of fm q (dd_count d')) \<le> counts (filter (\<lambda>(k, _). k \<le> i) (entries fm d calls))"
proof -
  define es where "es = entries fm d calls"
  define rank where "rank = rank_of fm q (dd_count d')"
  have h: "holds d' es" unfolding es_def by (rule built_holds(1) [OF assms(1-4)])
  have sm: "counts es < 2 ^ 64" "\<forall>i \<in> fst ` set es. index_ok i" using assms(3) by (simp_all add: small_def es_def)
  have cnt: "unat (dd_count d') = counts es" and inv: "store_inv (active d')" using h by (simp_all add: holds_def dd_inv_def)
  have rank: "1 \<le> unat rank" "unat rank \<le> counts es"
    using assms(7,8) by (simp_all add: rank_def word_le_nat_alt cnt [symmetric])
  then have "counts es \<noteq> 0" by simp
  then obtain lo hi where lohi: "store_GetMinIndex (active d') = (lo, True)"
    "store_GetMaxIndex (active d') = (hi, True)" "index_ok lo" "index_ok hi"
    and rng: "\<forall>(k, c) \<in> set es. c \<noteq> 0 \<longrightarrow> lo \<le> k \<and> k \<le> hi"
    using holds_range [OF h] assms(3) unfolding es_def by blast
  then have between: "lo \<le> k \<and> k \<le> hi" if "(k, c) \<in> set es" "c \<noteq> 0" for k c using that by blast
  have get: "\<forall>j. lo \<le> j \<and> j \<le> hi \<longrightarrow> store_Get (active d') j = hits j es"
    using h index_ok_between [OF lohi(3,4)] by (simp add: holds_def)
  have zero: "counts (filter (\<lambda>(k, _). k < lo) es) = 0" using between by (intro counts_filter_none) fastforce
  have all: "counts (filter (\<lambda>(k, _). k \<le> hi) es) = counts es" using between by (intro counts_filter_all) fastforce
  obtain r where r: "find_rank (store_Get (active d')) lo hi 0 rank = Some r"
      "counts (filter (\<lambda>(k, _). k < r) es) < unat rank" "unat rank \<le> counts (filter (\<lambda>(k, _). k \<le> r) es)"
    using find_rank_spec [OF get sm(1), of 0 rank] zero all rank by auto
  have q: "\<not> f_less q 0" "\<not> f_less f_one q" "\<not> f_eq q 0" "\<not> f_eq q f_one"
    using assms(5,6) by (auto simp: f_less_def f_eq_def)
  have "dd_count d' \<noteq> 0" using \<open>counts es \<noteq> 0\<close> cnt by (auto simp: unat_eq_0)
  then have "GetValueAtQuantile fm d' q = Returns (Inr (indexToValue fm d' r))"
    using q r(1) lohi(1,2) holds_unlocked [OF h] by (simp add: GetValueAtQuantile_def read_locked_def rank_def)
  with r show ?thesis by (auto simp: es_def rank_def)
qed

lemma example_count: "dd_count example_built = 5"
proof -
  have "unat (dd_count example_built) = unat (5 :: 64 word)"
    using built_holds(1) [OF example_sketch_new _ example_small example_built_eq]
    by (simp add: holds_def example_entries sketch_DefaultConfig_def)
  then show ?thesis by (simp only: word_unat_eq_iff)
qed

theorem GetValueAtQuantile_rank_witness:
  "\<exists>i. GetValueAtQuantile example_fm example_built 0x3FE0000000000000 = Returns (Inr (indexToValue example_fm example_built i))
    \<and> counts (filter (\<lambda>(k, _). k < i) (entries example_fm example_sketch example_calls))
        < unat (rank_of example_fm 0x3FE0000000000000 (dd_count example_built))
    \<and> unat (rank_of example_fm 0x3FE0000000000000 (dd_count example_built))
        \<le> counts (filter (\<lambda>(k, _). k \<le> i) (entries example_fm example_sketch example_calls))"
  by (rule GetValueAtQuantile_rank [OF example_sketch_new _ example_small example_built_eq])
    (simp_all add: sketch_DefaultConfig_def example_count rank_of_def example_fm_def f_less_def f_nan_def f_key_def f_sign_def
      f_magnitude_def f_one_def)

lemma add_calls_gamma: "add_calls fm calls d = Returns d' \<Longrightarrow> dd_gamma d' = dd_gamma d"
proof (induction calls arbitrary: d)
  case (Cons call calls)
  obtain since now v c where call: "call = (since, now, v, c)" by (cases call)
  have step: "AddWithCount fm since now d v c = Returns (d2, err) \<Longrightarrow> dd_gamma d2 = dd_gamma d" for d2 err
    by (auto simp: AddWithCount_def Let_def split: if_splits)
  show ?case
  proof (cases "AddWithCount fm since now d v c")
    case (Returns r)
    obtain d2 err where r: "r = (d2, err)" by force
    show ?thesis using Cons.IH [of d2] Cons.prems step [of d2 err] by (simp add: call Returns r)
  qed (use Cons.prems in \<open>simp_all add: call\<close>)
qed simp

lemma example_gamma: "dd_gamma example_built = 0x3F7EB851EB851EB8"
  using add_calls_gamma [OF example_built_eq]
  by (simp add: example_sketch_def NewDDSketch_def NewDenseStore_def sketch_DefaultConfig_def LogarithmicMapping_def Let_def)

text \<open>
  C26. Merging: a sketch that received the calls \<open>xs\<close> merged with one that received \<open>ys\<close> holds the values of both, as long
  as no store collapses: the receiver stays with its dense store; or it stays with its sparse store, the other sketch has at most
  100 buckets and both together at most 1000; or it switches between its stores and both together have at most 100. The receiver of a merge with
  another kind of sketch or with a different accuracy is unchanged and the error says so, and a sketch merged with itself blocks
  forever on its own lock, without any such limit.\<close>

theorem sketch_Merge_spec:
  assumes "NewDDSketch fm config start switched = Returns d" "InitialCapacity config \<le> 2 ^ 62" "add_calls fm xs d = Returns d'"
    "NewDDSketch fm config2 start2 switched2 = Returns e" "InitialCapacity config2 \<le> 2 ^ 62" "add_calls fm ys e = Returns e'"
    "small d (entries fm d xs @ entries fm e ys)" "small e (entries fm e ys)" "merge_room d (entries fm e ys)"
  shows "(if f_eq (dd_gamma d') (dd_gamma e')
          then \<exists>m. sketch_Merge fm now d' (OtherDD e') = Returns (m, None)
             \<and> (\<forall>j. index_ok j \<longrightarrow> store_Get (active m) j = hits j (entries fm d xs) + hits j (entries fm e ys))
             \<and> unat (dd_count m) = counts (entries fm d xs) + counts (entries fm e ys)
          else sketch_Merge fm now d' (OtherDD e') = Returns (d', Some (ErrDifferentGamma (dd_gamma d') (dd_gamma e'))))
    \<and> sketch_Merge fm now s OtherKind = Returns (s, Some ErrIncompatibleSketches)
    \<and> (\<not> f_nan (dd_gamma s) \<longrightarrow> sketch_Merge fm now s Itself = Blocks)"
proof -
  have xs: "small d (entries fm d xs)" by (rule small_append [OF assms(7)])
  note hd = built_holds [OF assms(1,2) xs assms(3)] and he = built_holds [OF assms(4,5,8,6)]
  have room: "merge_room d' (entries fm e ys)" using assms(9) hd(2) by (auto simp: merge_room_def same_room_def)
  have "small d' (entries fm d xs @ entries fm e ys)" using small_same [OF hd(2)] assms(7) by simp
  from holds_merge [OF hd(1) he(1) this room, of fm now] holds_unlocked [OF hd(1)] holds_unlocked [OF he(1)] show ?thesis
    by (auto simp: sketch_Merge_def holds_def f_eq_def)
qed

theorem sketch_Merge_spec_witness:
  "(\<exists>m. sketch_Merge example_fm 7 example_built (OtherDD example_built) = Returns (m, None)
       \<and> store_Get (active m) 1 = 4 \<and> unat (dd_count m) = 10)
    \<and> sketch_Merge example_fm 7 example_built OtherKind = Returns (example_built, Some ErrIncompatibleSketches)
    \<and> sketch_Merge example_fm 7 example_built Itself = Blocks"
proof -
  have g: "\<not> f_nan (dd_gamma example_built)" by (simp add: example_gamma f_nan_def f_magnitude_def)
  have ok: "index_ok 1" by (simp add: index_ok_def)
  have room: "bucket_room example_sketch (Suc (Suc 0))" "merge_room example_sketch [(0, 3), (1, 2)]"
    by (simp_all add: bucket_room_def merge_room_def)
  show ?thesis
    using sketch_Merge_spec [OF example_sketch_new _ example_built_eq example_sketch_new _ example_built_eq, of 7 example_built] g ok room
    by (auto simp: sketch_DefaultConfig_def example_entries small_def index_ok_def card_insert_if f_eq_def)
qed

text \<open>
  Errors of the sketch: \<^verbatim>\<open>AddWithCount\<close> fails exactly for a value at or below zero, and then changes
  nothing; \<^verbatim>\<open>GetValueAtQuantile\<close> fails exactly for a quantile below 0 or above 1 or on an empty sketch; and the
  statistics fail exactly on an empty sketch.\<close>

lemma sketch_errors:
  assumes "NewDDSketch fm config start switched = Returns d" "InitialCapacity config \<le> 2 ^ 62"
    "small d (entries fm d calls)" "add_calls fm calls d = Returns d'"
  shows "(AddWithCount fm since now d' v c = Returns (d'', Some e) \<longleftrightarrow> f_le v 0 \<and> d'' = d' \<and> e = ErrNotPositive v)
    \<and> (GetValueAtQuantile fm d' q = Returns (Inl e) \<longleftrightarrow>
         (if f_less q 0 \<or> f_less f_one q then e = ErrInvalidQuantile
          else counts (entries fm d calls) = 0 \<and> e = ErrEmptySketch))
    \<and> (\<forall>r \<in> {GetMin d', GetMax d', GetSum d', GetAvg fm d'}. r = Returns (Inl e) \<longleftrightarrow>
         counts (entries fm d calls) = 0 \<and> e = ErrEmptySketch)"
proof -
  have h: "holds d' (entries fm d calls)" by (rule built_holds(1) [OF assms])
  note lock = holds_unlocked [OF h]
  have zero: "dd_count d' = 0 \<longleftrightarrow> counts (entries fm d calls) = 0"
    using h unat_eq_0 [of "dd_count d'"] by (simp add: holds_def)
  have add: "AddWithCount fm since now d' v c = Returns (d'', Some e) \<longleftrightarrow> f_le v 0 \<and> d'' = d' \<and> e = ErrNotPositive v"
    using lock by (auto simp: AddWithCount_def Let_def)
  have "\<exists>lo hi. store_GetMinIndex (active d') = (lo, True) \<and> store_GetMaxIndex (active d') = (hi, True)" if "dd_count d' \<noteq> 0"
    using holds_range [OF h assms(3)] that zero by blast
  then have "GetValueAtQuantile fm d' q = Returns (Inl e) \<longleftrightarrow>
         (if f_less q 0 \<or> f_less f_one q then e = ErrInvalidQuantile else dd_count d' = 0 \<and> e = ErrEmptySketch)"
    using lock by (auto simp: GetValueAtQuantile_def read_locked_def Let_def split: option.splits)
  with add zero lock show ?thesis
    by (auto simp: GetMin_def GetMax_def GetSum_def GetAvg_def read_locked_def)
qed

end
