(* ===== verification/Sketch_Codec.thy ===== *)
theory Sketch_Codec
  imports Ddsketch
begin

unbundle bit_operations_syntax

text \<open>
  The binary format of sketches, \<^verbatim>\<open>sketch/serialization.go\<close>: \<open>Bytes\<close>, \<open>FromBytes\<close>,
  \<open>MergeBytes\<close>, \<open>SerializeSlice\<close> and \<open>DeserializeSlice\<close>.

  \<open>le_put\<close> and \<open>le_get\<close> are \<^verbatim>\<open>binary.LittleEndian\<close>; \<open>read_le\<close> is
  \<^verbatim>\<open>binary.Read\<close> from a \<^verbatim>\<open>bytes.Buffer\<close>, which on a short buffer consumes what is left and keeps the
  variable (the source ignores its error). \<open>decode_into\<close> is what \<^verbatim>\<open>FromBytes\<close> does after its call of
  \<^verbatim>\<open>Reset\<close>, which takes the lock that \<^verbatim>\<open>FromBytes\<close> already holds: the code never gets there, which is the
  property; lemmas show that \<open>decode_into\<close> inverts \<open>Bytes\<close>.
\<close>

type_synonym bytes = "8 word list"

fun le_put :: "nat \<Rightarrow> nat \<Rightarrow> bytes" where
  "le_put 0 v = []"
| "le_put (Suc n) v = of_nat (v mod 256) # le_put n (v div 256)"

fun le_get :: "bytes \<Rightarrow> nat" where
  "le_get [] = 0"
| "le_get (b # bs) = unat b + 256 * le_get bs"

definition read_le :: "nat \<Rightarrow> nat \<Rightarrow> bytes \<Rightarrow> nat \<times> bytes" where
  "read_le n old buf = (if length buf < n then (old, []) else (le_get (take n buf), drop n buf))"

definition read64 :: "64 word \<Rightarrow> bytes \<Rightarrow> 64 word \<times> bytes" where
  "read64 old buf = (let (v, rest) = read_le 8 (unat old) buf in (of_nat v, rest))"

definition put64 :: "64 word \<Rightarrow> bytes" where
  "put64 x = le_put 8 (unat x)"

definition put32 :: "int \<Rightarrow> bytes" where
  "put32 i = le_put 4 (nat (i mod 2 ^ 32))"

definition to_int32 :: "nat \<Rightarrow> int" where
  "to_int32 v = (if v < 2 ^ 31 then int v else int v - 2 ^ 32)"

definition ddSketchMagic :: bytes where
  "ddSketchMagic = [68, 68, 83, 75]"

definition serializationVersion :: "8 word" where
  "serializationVersion = 1"

definition flagSparseStore :: "8 word" where "flagSparseStore = 1"
definition flagHasMin :: "8 word" where "flagHasMin = 2"
definition flagHasMax :: "8 word" where "flagHasMax = 4"
definition flagHasSum :: "8 word" where "flagHasSum = 8"

datatype codec_error = HeaderTooShort | InvalidMagic | UnsupportedVersion "8 word" | OnlyDDSketch | SliceTooShort
  | MergeFailed sketch_error

definition sketch_flags :: "DDSketch \<Rightarrow> 8 word" where
  "sketch_flags d =
     (let f0 = 0;
          f1 = (if dd_useSparseStore d then f0 OR flagSparseStore else f0);
          f2 = (if dd_min d \<noteq> f_inf then f1 OR flagHasMin else f1);
          f3 = (if dd_max d \<noteq> f_neg_inf then f2 OR flagHasMax else f2)
      in if f_less 0 (dd_sum d) then f3 OR flagHasSum else f3)"

definition put_bucket :: "int \<times> 64 word \<Rightarrow> bytes" where
  "put_bucket e = (case e of (idx, count) \<Rightarrow> put32 idx @ put64 count)"

definition Bytes_body :: "DDSketch \<Rightarrow> bytes" where
  "Bytes_body d =
     (let flags = sketch_flags d; buckets = store_GetNonEmptyBuckets (active d) in
      ddSketchMagic @ [serializationVersion] @ [flags]
      @ put64 (dd_gamma d) @ put64 (dd_minValue d) @ put64 (dd_maxValue d) @ put64 (dd_count d)
      @ (if flags AND flagHasMin \<noteq> 0 then put64 (dd_min d) else [])
      @ (if flags AND flagHasMax \<noteq> 0 then put64 (dd_max d) else [])
      @ (if flags AND flagHasSum \<noteq> 0 then put64 (dd_sum d) else [])
      @ put32 (int (length buckets)) @ concat (map put_bucket buckets))"

definition Bytes :: "DDSketch \<Rightarrow> bytes outcome" where
  "Bytes d = read_locked d (Bytes_body d)"

fun read_buckets :: "fmath \<Rightarrow> nat \<Rightarrow> bytes \<Rightarrow> Store \<Rightarrow> Store" where
  "read_buckets fm 0 buf st = st"
| "read_buckets fm (Suc n) buf st =
     (let (idx, buf1) = read_le 4 0 buf; (count, buf2) = read64 0 buf1
      in read_buckets fm n buf2 (store_Add fm st (to_int32 idx) count))"

definition decode_into :: "fmath \<Rightarrow> DDSketch \<Rightarrow> bytes \<Rightarrow> DDSketch \<times> codec_error option" where
  "decode_into fm d data =
     (let magic = take 4 data; buf = drop 4 data in
      if magic \<noteq> ddSketchMagic then (d, Some InvalidMagic)
      else let version = hd buf; buf = tl buf in
      if version \<noteq> serializationVersion then (d, Some (UnsupportedVersion version))
      else let flags = hd buf; buf = tl buf;
               (gamma, buf) = read64 (dd_gamma d) buf;
               (minValue, buf) = read64 (dd_minValue d) buf;
               (maxValue, buf) = read64 (dd_maxValue d) buf;
               (count, buf) = read64 (dd_count d) buf;
               (mn, buf) = (if flags AND flagHasMin \<noteq> 0 then read64 (dd_min d) buf else (f_inf, buf));
               (mx, buf) = (if flags AND flagHasMax \<noteq> 0 then read64 (dd_max d) buf else (f_neg_inf, buf));
               (sm, buf) = (if flags AND flagHasSum \<noteq> 0 then read64 (dd_sum d) buf else (0, buf));
               (numBuckets, buf) = read_le 4 0 buf;
               useSparse = flags AND flagSparseStore \<noteq> 0;
               d1 = d\<lparr>dd_gamma := gamma, dd_minValue := minValue, dd_maxValue := maxValue,
                      dd_multiplier := fm_div fm f_one (fm_log1p fm gamma), dd_offset := 0, dd_count := count,
                      dd_min := mn, dd_max := mx, dd_sum := sm,
                      dd_store := (if useSparse then IsSparse else IsDense), dd_useSparseStore := useSparse\<rparr>
           in (set_active (read_buckets fm numBuckets buf (store_Clear (active d1))) d1, None))"

definition FromBytes :: "fmath \<Rightarrow> DDSketch \<Rightarrow> bytes \<Rightarrow> (DDSketch \<times> codec_error option) outcome" where
  "FromBytes fm d data =
     (if length data < 4 + 1 + 1 + 8 + 8 + 8 + 8 then Returns (d, Some HeaderTooShort)
      else if dd_mutex d = WriteLocked then Blocks
      else and_then (Reset (d\<lparr>dd_mutex := WriteLocked\<rparr>)) (\<lambda>d1.
             case decode_into fm d1 data of (d2, err) \<Rightarrow> Returns (d2\<lparr>dd_mutex := Unlocked\<rparr>, err)))"

text \<open>\<open>start\<close> and \<open>switched\<close> are the clock when the temporary sketch is made.\<close>

definition MergeBytes ::
    "fmath \<Rightarrow> time \<Rightarrow> time \<Rightarrow> time \<Rightarrow> DDSketch \<Rightarrow> bytes \<Rightarrow> (DDSketch \<times> codec_error option) outcome" where
  "MergeBytes fm start switched now d data =
     and_then (NewDDSketch fm (DDSketchOf sketch_DefaultConfig) start switched) (\<lambda>temp.
       and_then (FromBytes fm temp data) (\<lambda>(temp', err).
         case err of Some e \<Rightarrow> Returns (d, Some e)
         | None \<Rightarrow> and_then (sketch_Merge fm now d (OtherDD temp')) (\<lambda>(d', err').
                     Returns (d', map_option MergeFailed err'))))"

text \<open>An element of a slice of sketches: a \<^verbatim>\<open>*DDSketch\<close> or another implementation.\<close>

datatype sketch_elem = DD DDSketch | NotDD

fun serialize_each :: "sketch_elem list \<Rightarrow> bytes \<Rightarrow> (codec_error + bytes) outcome" where
  "serialize_each [] buf = Returns (Inr buf)"
| "serialize_each (NotDD # sketches) buf = Returns (Inl OnlyDDSketch)"
| "serialize_each (DD d # sketches) buf =
     and_then (Bytes d) (\<lambda>data. serialize_each sketches (buf @ put32 (int (length data)) @ data))"

definition SerializeSlice :: "sketch_elem list \<Rightarrow> (codec_error + bytes) outcome" where
  "SerializeSlice sketches = serialize_each sketches (put32 (int (length sketches)))"

definition read_exact :: "nat \<Rightarrow> bytes \<Rightarrow> bytes \<times> bytes" where
  "read_exact sz buf = (take sz buf @ replicate (sz - length buf) 0, drop sz buf)"

fun deserialize_each :: "fmath \<Rightarrow> time \<Rightarrow> nat \<Rightarrow> bytes \<Rightarrow> DDSketch list \<Rightarrow> (codec_error + DDSketch list) outcome" where
  "deserialize_each fm now 0 buf acc = Returns (Inr (rev acc))"
| "deserialize_each fm now (Suc n) buf acc =
     (let (sz, buf1) = read_le 4 0 buf; (data, buf2) = read_exact sz buf1 in
      and_then (NewDDSketch fm (DDSketchOf sketch_DefaultConfig) now now) (\<lambda>sketch.
        and_then (FromBytes fm sketch data) (\<lambda>(sketch', err).
          case err of Some e \<Rightarrow> Returns (Inl e) | None \<Rightarrow> deserialize_each fm now n buf2 (sketch' # acc))))"

definition DeserializeSlice :: "fmath \<Rightarrow> time \<Rightarrow> bytes \<Rightarrow> (codec_error + DDSketch list) outcome" where
  "DeserializeSlice fm now data =
     (if length data < 4 then Returns (Inl SliceTooShort)
      else let (numSketches, buf) = read_le 4 0 data in deserialize_each fm now numSketches buf [])"

text \<open>A sketch with the parameters and statistics of another, its store chosen by kind.\<close>

definition with_header :: "fmath \<Rightarrow> DDSketch \<Rightarrow> DDSketch \<Rightarrow> DDSketch" where
  "with_header fm e d = e\<lparr>dd_gamma := dd_gamma d, dd_minValue := dd_minValue d, dd_maxValue := dd_maxValue d,
      dd_multiplier := fm_div fm f_one (fm_log1p fm (dd_gamma d)), dd_offset := 0, dd_count := dd_count d,
      dd_min := dd_min d, dd_max := dd_max d, dd_sum := dd_sum d,
      dd_store := (if dd_useSparseStore d then IsSparse else IsDense), dd_useSparseStore := dd_useSparseStore d\<rparr>"

section \<open>Bytes and numbers\<close>

lemma length_le_put [simp]: "length (le_put n v) = n"
  by (induction n arbitrary: v) simp_all

lemma le_get_put: "v < 256 ^ n \<Longrightarrow> le_get (le_put n v) = v"
proof (induction n arbitrary: v)
  case (Suc n)
  have "v div 256 < 256 ^ n" using Suc.prems by (simp add: less_mult_imp_div_less mult.commute)
  moreover have "unat (of_nat (v mod 256) :: 8 word) = v mod 256"
    by (simp add: unat_of_nat take_bit_eq_mod)
  ultimately show ?case using Suc.IH by simp
qed simp

lemma length_put [simp]: "length (put64 x) = 8" "length (put32 i) = 4"
  by (simp_all add: put64_def put32_def)

lemma read64_put: "read64 old (put64 x @ rest) = (x, rest)"
proof -
  have "le_get (put64 x) = unat x"
    unfolding put64_def by (rule le_get_put) (use unsigned_less [of x] in simp)
  then show ?thesis by (simp add: read64_def read_le_def)
qed

lemma read32_put: "read_le 4 old (put32 i @ rest) = (nat (i mod 2 ^ 32), rest)"
proof -
  have "le_get (put32 i) = nat (i mod 2 ^ 32)"
    unfolding put32_def by (rule le_get_put) (simp add: nat_less_iff)
  then show ?thesis by (simp add: read_le_def)
qed

lemma to_int32_put: "min_int32 \<le> i \<Longrightarrow> i \<le> max_int32 \<Longrightarrow> to_int32 (nat (i mod 2 ^ 32)) = i"
proof (cases "0 \<le> i")
  case True
  assume "i \<le> max_int32"
  then show ?thesis using True by (simp add: to_int32_def max_int32_def)
next
  case False
  assume "min_int32 \<le> i"
  have "i mod 2 ^ 32 = (i + 2 ^ 32) mod 2 ^ 32" by simp
  also have "\<dots> = i + 2 ^ 32"
    by (rule mod_pos_pos_trivial) (use False \<open>min_int32 \<le> i\<close> in \<open>simp_all add: min_int32_def\<close>)
  finally have "i mod 2 ^ 32 = i + 2 ^ 32" .
  then show ?thesis using False \<open>min_int32 \<le> i\<close> by (simp add: to_int32_def min_int32_def)
qed

lemma read_buckets_put:
  assumes "\<forall>(i, c) \<in> set bs. min_int32 \<le> i \<and> i \<le> max_int32"
  shows "read_buckets fm (length bs) (concat (map put_bucket bs) @ rest) st = add_list (store_Add fm) st bs"
  using assms
proof (induction bs arbitrary: st)
  case (Cons e bs)
  obtain i c where e: "e = (i, c)" by force
  have "to_int32 (nat (i mod 2 ^ 32)) = i" using Cons.prems to_int32_put by (simp add: e)
  with Cons show ?case by (simp add: e put_bucket_def read32_put read64_put add_list_def)
qed (simp add: add_list_def)

lemma flag_bits:
  "sketch_flags d AND flagSparseStore \<noteq> 0 \<longleftrightarrow> dd_useSparseStore d"
  "sketch_flags d AND flagHasMin \<noteq> 0 \<longleftrightarrow> dd_min d \<noteq> f_inf"
  "sketch_flags d AND flagHasMax \<noteq> 0 \<longleftrightarrow> dd_max d \<noteq> f_neg_inf"
  "sketch_flags d AND flagHasSum \<noteq> 0 \<longleftrightarrow> f_less 0 (dd_sum d)"
  by (simp_all add: sketch_flags_def flagSparseStore_def flagHasMin_def flagHasMax_def flagHasSum_def Let_def)

section \<open>Decoding what was encoded\<close>

lemma read_optional:
  "(if b then read64 old ((if b then put64 x else []) @ rest) else (y, (if b then put64 x else []) @ rest)) = (if b then x else y, rest)"
  by (simp add: read64_put)

lemma decode_Bytes:
  assumes "\<forall>(i, c) \<in> set (store_GetNonEmptyBuckets (active d)). min_int32 \<le> i \<and> i \<le> max_int32"
    "length (store_GetNonEmptyBuckets (active d)) < 2 ^ 32" "f_less 0 (dd_sum d) \<or> dd_sum d = 0"
  shows "decode_into fm e (Bytes_body d) =
    (set_active (add_list (store_Add fm) (store_Clear (active (with_header fm e d)))
        (store_GetNonEmptyBuckets (active d))) (with_header fm e d), None)"
proof -
  define bs where "bs = store_GetNonEmptyBuckets (active d)"
  define tail where "tail = concat (map put_bucket bs)"
  have n: "nat (int (length bs) mod 2 ^ 32) = length bs" using assms(2) by (simp add: bs_def)
  have rd: "read_buckets fm (length bs) tail st = add_list (store_Add fm) st bs" for st
    using read_buckets_put [of bs fm "[]" st] assms(1) by (simp add: tail_def bs_def)
  have sm: "(if f_less 0 (dd_sum d) then dd_sum d else 0) = dd_sum d" using assms(3) by auto
  define flags where "flags = sketch_flags d"
  have data: "Bytes_body d = ddSketchMagic @ [serializationVersion] @ [flags]
      @ put64 (dd_gamma d) @ put64 (dd_minValue d) @ put64 (dd_maxValue d) @ put64 (dd_count d)
      @ (if flags AND flagHasMin \<noteq> 0 then put64 (dd_min d) else [])
      @ (if flags AND flagHasMax \<noteq> 0 then put64 (dd_max d) else [])
      @ (if flags AND flagHasSum \<noteq> 0 then put64 (dd_sum d) else []) @ put32 (int (length bs)) @ tail"
    by (simp add: Bytes_body_def flags_def bs_def tail_def Let_def)
  have parts: "take 4 (Bytes_body d) = ddSketchMagic" "hd (drop 4 (Bytes_body d)) = serializationVersion"
    "hd (tl (drop 4 (Bytes_body d))) = flags"
    "tl (tl (drop 4 (Bytes_body d))) = put64 (dd_gamma d) @ put64 (dd_minValue d) @ put64 (dd_maxValue d) @ put64 (dd_count d)
      @ (if flags AND flagHasMin \<noteq> 0 then put64 (dd_min d) else [])
      @ (if flags AND flagHasMax \<noteq> 0 then put64 (dd_max d) else [])
      @ (if flags AND flagHasSum \<noteq> 0 then put64 (dd_sum d) else []) @ put32 (int (length bs)) @ tail"
    unfolding data by (simp_all add: ddSketchMagic_def)
  have bits: "flags AND flagSparseStore \<noteq> 0 \<longleftrightarrow> dd_useSparseStore d" using flag_bits(1) by (simp add: flags_def)
  have mn: "(if flags AND flagHasMin \<noteq> 0 then dd_min d else f_inf) = dd_min d"
    and mx: "(if flags AND flagHasMax \<noteq> 0 then dd_max d else f_neg_inf) = dd_max d"
    and sm': "(if flags AND flagHasSum \<noteq> 0 then dd_sum d else 0) = dd_sum d"
    using flag_bits(2-4) [of d] sm by (simp_all add: flags_def)
  show ?thesis
    unfolding decode_into_def parts Let_def read64_put read_optional prod.case mn mx sm' read32_put n rd bits
    by (simp add: with_header_def bs_def)
qed

lemma Reset_inv:
  assumes "dd_inv d"
  shows "store_inv (dd_sparseStore (Reset_body d)) \<and> store_inv (dd_denseStore (Reset_body d))"
  using assms st.clear_inv
  by (cases "dd_store d") (simp_all add: Reset_body_def set_active_def dd_inv_def Let_def active_def)

lemma reload_fits:
  assumes "store_inv t" "store_inv a" "card (fst ` set (store_GetNonEmptyBuckets a)) \<le> 1000"
  shows "store_fits (store_Clear t) (store_GetNonEmptyBuckets a)"
proof -
  have "\<forall>i \<in> fst ` set (store_GetNonEmptyBuckets a). index_ok i" using st.buckets_keys [OF assms(2)] by blast
  with total_le [OF assms(2)] assms(3) show ?thesis
    by (cases t) (simp_all add: sparse_fits_def dense_fits_def sparse_Clear_def dense_Clear_def)
qed

section \<open>Properties\<close>

text \<open>
  What the decoding after the call of \<^verbatim>\<open>Reset\<close> would make of what \<^verbatim>\<open>Bytes\<close> wrote for a sketch (within
  the limits of its stores, with bucket indices in the range of an \<^verbatim>\<open>int32\<close> and a sum that is zero or positive), if it
  were reached: a sketch with the same parameters, statistics, kind of store and bucket counts.\<close>

lemma sketch_roundtrip:
  assumes "NewDDSketch fm config start switched = Returns d0" "InitialCapacity config \<le> 2 ^ 62" "small d0 (entries fm d0 calls)"
    "add_calls fm calls d0 = Returns d" "\<forall>i \<in> fst ` set (entries fm d0 calls). min_int32 \<le> i \<and> i \<le> max_int32"
    "f_less 0 (dd_sum d) \<or> dd_sum d = 0" "dd_inv e" "card (fst ` set (entries fm d0 calls)) \<le> 1000"
  shows "\<exists>r. Bytes d = Returns (Bytes_body d) \<and> decode_into fm (Reset_body e) (Bytes_body d) = (r, None)
    \<and> dd_gamma r = dd_gamma d \<and> dd_minValue r = dd_minValue d \<and> dd_maxValue r = dd_maxValue d \<and> dd_count r = dd_count d
    \<and> dd_min r = dd_min d \<and> dd_max r = dd_max d \<and> dd_sum r = dd_sum d \<and> dd_useSparseStore r = dd_useSparseStore d
    \<and> store_GetTotalCount (active r) = store_GetTotalCount (active d)
    \<and> (\<forall>j. index_ok j \<longrightarrow> store_Get (active r) j = store_Get (active d) j)"
proof -
  have h: "holds d (entries fm d0 calls)" by (rule built_holds(1) [OF assms(1-4)])
  define bs where "bs = store_GetNonEmptyBuckets (active d)"
  have inv: "store_inv (active d)" and keys: "fst ` set bs \<subseteq> fst ` set (entries fm d0 calls)"
    using h by (simp_all add: holds_def dd_inv_def bs_def)
  have wf: "gm_wf bs" using st.buckets_wf [OF inv] by (simp add: bs_def)
  have card: "card (fst ` set bs) \<le> 1000" by (rule card_keys_mono [OF assms(8) keys])
  then have len: "length bs < 2 ^ 32" using length_gm_wf [OF wf] by simp
  have idx: "\<forall>(i, c) \<in> set bs. min_int32 \<le> i \<and> i \<le> max_int32"
  proof (intro ballI, clarify)
    fix i c assume "(i, c) \<in> set bs"
    then have "i \<in> fst ` set (entries fm d0 calls)" using keys by force
    with assms(5) show "min_int32 \<le> i \<and> i \<le> max_int32" by blast
  qed
  define d1 where "d1 = with_header fm (Reset_body e) d"
  define r where "r = set_active (add_list (store_Add fm) (store_Clear (active d1)) bs) d1"
  have dec: "decode_into fm (Reset_body e) (Bytes_body d) = (r, None)"
    using decode_Bytes [of d, where e = "Reset_body e" and fm = fm] idx len assms(6) by (simp add: r_def d1_def bs_def)
  have inv1: "store_inv (active d1)" using Reset_inv [OF assms(7)] by (simp add: d1_def with_header_def active_def)
  have fits: "store_fits (store_Clear (active d1)) bs"
    unfolding bs_def by (rule reload_fits [OF inv1 inv]) (use card in \<open>simp add: bs_def\<close>)
  have get: "store_Get (active r) j = store_Get (active d) j" if "index_ok j" for j
    using st.reload_get [OF inv1 fits that, of fm] hits_bin_get [OF wf, of j] st.buckets_get [OF inv that]
    by (simp add: r_def bs_def)
  have "unat (store_GetTotalCount (active r)) = unat (store_GetTotalCount (active d))"
    using st.reload_total [OF inv1 fits, of fm] st.buckets_total [OF inv] by (simp add: r_def bs_def)
  then have tot: "store_GetTotalCount (active r) = store_GetTotalCount (active d)" by (simp only: word_unat_eq_iff)
  show ?thesis using dec get tot holds_unlocked [OF h]
    by (simp add: Bytes_def read_locked_def) (simp add: r_def d1_def with_header_def)
qed

text \<open>
  C10. No sketch is ever decoded. \<^verbatim>\<open>FromBytes\<close> rejects data shorter than the header, and for any longer data it
  blocks forever, because it calls \<^verbatim>\<open>Reset\<close> while it holds the lock that \<^verbatim>\<open>Reset\<close> takes; so does
  \<^verbatim>\<open>MergeBytes\<close>. What \<^verbatim>\<open>Bytes\<close> writes is never too short, so no sketch survives the way through its
  bytes, and \<^verbatim>\<open>DeserializeSlice\<close> blocks on what \<^verbatim>\<open>SerializeSlice\<close> wrote for one or more
  sketches.\<close>

theorem decoding_blocks:
  assumes "SerializeSlice (DD d # sketches) = Returns (Inr bytes)" "length sketches < 2 ^ 32 - 1" "length (Bytes_body d) < 2 ^ 32"
  shows "FromBytes fm e data = (if length data < 38 then Returns (e, Some HeaderTooShort) else Blocks)
    \<and> MergeBytes fm start switched now e data = (if length data < 38 then Returns (e, Some HeaderTooShort) else Blocks)
    \<and> (\<forall>d'. dd_mutex d' = Unlocked \<longrightarrow> (\<exists>data. Bytes d' = Returns data \<and> FromBytes fm e data = Blocks))
    \<and> DeserializeSlice fm now bytes = Blocks"
proof -
  have fb: "FromBytes fm e data = (if length data < 38 then Returns (e, Some HeaderTooShort) else Blocks)" for e data
    by (simp add: FromBytes_def Reset_def)
  have new: "\<exists>t. NewDDSketch fm (DDSketchOf sketch_DefaultConfig) a b = Returns t" for a b
    by (simp add: NewDDSketch_def NewDenseStore_def sketch_DefaultConfig_def LogarithmicMapping_def Let_def)
  have mb: "MergeBytes fm start switched now e data = (if length data < 38 then Returns (e, Some HeaderTooShort) else Blocks)"
    using new [of start switched] by (auto simp: MergeBytes_def fb)
  define n where "n = length sketches"
  have ser: "\<exists>rest. serialize_each ss buf = Returns (Inr out) \<longrightarrow> out = buf @ rest" for ss buf out
  proof (induction ss buf rule: serialize_each.induct)
    case (3 d ss buf)
    then show ?case by (cases "Bytes d") auto
  qed auto
  have unl: "Bytes d = Returns (Bytes_body d)" using assms(1) by (cases "dd_mutex d") (auto simp: SerializeSlice_def Bytes_def read_locked_def)
  obtain rest where out: "bytes = put32 (int (Suc n)) @ put32 (int (length (Bytes_body d))) @ Bytes_body d @ rest"
    using ser [of sketches "put32 (int (Suc n)) @ put32 (int (length (Bytes_body d))) @ Bytes_body d" bytes] assms(1) unl
    by (auto simp: SerializeSlice_def n_def)
  have len: "38 \<le> length (Bytes_body d)" for d by (simp add: Bytes_body_def Let_def ddSketchMagic_def)
  have own: "\<exists>data. Bytes d' = Returns data \<and> FromBytes fm e data = Blocks" if "dd_mutex d' = Unlocked" for d'
    using that len [of d'] by (simp add: Bytes_def read_locked_def fb)
  have n1: "nat (int (Suc n) mod 2 ^ 32) = Suc n" "nat (int (length (Bytes_body d)) mod 2 ^ 32) = length (Bytes_body d)"
    using assms(2,3) by (simp_all add: n_def nat_mod_distrib)
  have rd: "read_le 4 0 bytes = (Suc n, put32 (int (length (Bytes_body d))) @ Bytes_body d @ rest)"
    unfolding out read32_put n1 ..
  have "deserialize_each fm now (Suc n) (put32 (int (length (Bytes_body d))) @ Bytes_body d @ rest) [] = Blocks"
    unfolding deserialize_each.simps read32_put n1 using new [of now now] len [of d] by (auto simp: read_exact_def fb)
  moreover have "\<not> length bytes < 4" by (simp add: out)
  ultimately have "DeserializeSlice fm now bytes = Blocks" by (simp add: DeserializeSlice_def rd)
  with fb mb own show ?thesis by blast
qed

theorem decoding_blocks_witness:
  "\<exists>bytes. SerializeSlice [DD example_sketch] = Returns (Inr bytes) \<and> DeserializeSlice example_fm 0 bytes = Blocks \<and>
     FromBytes example_fm example_sketch (Bytes_body example_sketch) = Blocks \<and> FromBytes example_fm example_sketch [] = Returns (example_sketch, Some HeaderTooShort)"
proof -
  have unlocked: "dd_mutex example_sketch = Unlocked"
    using NewDDSketch_holds [OF example_sketch_new] by (simp add: sketch_DefaultConfig_def)
  obtain bytes where bytes: "SerializeSlice [DD example_sketch] = Returns (Inr bytes)"
    using unlocked by (simp add: SerializeSlice_def Bytes_def read_locked_def)
  have "store_GetNonEmptyBuckets (active example_sketch) = []"
    by (simp add: example_sketch_def NewDDSketch_def NewDenseStore_def sketch_DefaultConfig_def LogarithmicMapping_def Let_def active_def
        NewSparseStore_def sparse_GetNonEmptyBuckets_def)
  then have len: "length (Bytes_body example_sketch) < 2 ^ 32" by (simp add: Bytes_body_def Let_def ddSketchMagic_def)
  show ?thesis
    using bytes decoding_blocks [OF bytes _ len, of example_fm example_sketch "Bytes_body example_sketch"]
      decoding_blocks [OF bytes _ len, of example_fm example_sketch "[]"]
    by (auto simp: Bytes_body_def Let_def ddSketchMagic_def)
qed

text \<open>
  Errors of decoding: data with other magic bytes or another version is rejected with that error and leaves the (reset)
  sketch as it was; a slice with a sketch of another kind is not serialized; fewer than four bytes are
  not a slice.\<close>

lemma decode_errors:
  assumes "38 \<le> length data"
  shows "(take 4 data \<noteq> ddSketchMagic \<longrightarrow> decode_into fm d data = (d, Some InvalidMagic))
    \<and> (take 4 data = ddSketchMagic \<longrightarrow> data ! 4 \<noteq> serializationVersion \<longrightarrow> decode_into fm d data = (d, Some (UnsupportedVersion (data ! 4))))
    \<and> (take 4 data = ddSketchMagic \<longrightarrow> data ! 4 = serializationVersion \<longrightarrow> snd (decode_into fm d data) = None)
    \<and> (\<forall>ds. (\<forall>x \<in> set ds. dd_mutex x = Unlocked) \<longrightarrow> SerializeSlice (map DD ds @ NotDD # rest) = Returns (Inl OnlyDDSketch))
    \<and> (\<forall>short. length short < 4 \<longrightarrow> DeserializeSlice fm now short = Returns (Inl SliceTooShort))"
proof -
  have v: "hd (drop 4 data) = data ! 4" using assms by (simp add: hd_drop_conv_nth)
  have ser: "\<forall>x \<in> set ds. dd_mutex x = Unlocked \<Longrightarrow> serialize_each (map DD ds @ NotDD # rest) buf = Returns (Inl OnlyDDSketch)" for ds buf
    by (induction ds arbitrary: buf) (simp_all add: Bytes_def read_locked_def)
  have "snd (decode_into fm d data) = None" if "take 4 data = ddSketchMagic" "data ! 4 = serializationVersion"
    using that v by (simp add: decode_into_def Let_def split: prod.split)
  then show ?thesis using v ser by (auto simp: decode_into_def SerializeSlice_def DeserializeSlice_def Let_def)
qed

end
