(* ===== verification/File_System.thy ===== *)
theory File_System
  imports Go_Prelude
begin

text \<open>
  The file system as the packages \<^verbatim>\<open>os\<close>, \<^verbatim>\<open>io/ioutil\<close> and
  \<^verbatim>\<open>path/filepath\<close> show it, and the functions of \<^verbatim>\<open>pkg/disk/disk_unix.go\<close> and
  \<^verbatim>\<open>pkg/helpers/io.go\<close> on it.

  \<^item> A \<open>path\<close> is the list of names of a cleaned absolute path; \<open>fp_join\<close> is
    \<^verbatim>\<open>filepath.Join\<close>, which cleans what it joins.
  \<^item> A \<open>disk\<close> maps paths to directories and files. The system refuses to open, create or remove the paths of
    \<open>denied\<close>, and a write to a path of \<open>full\<close> fails; a failed \<^verbatim>\<open>WriteFile\<close> leaves the file empty.
    Operations that change the disk return it with a flag that says whether they succeeded.
  \<^item> \<open>glob\<close> is \<^verbatim>\<open>filepath.Glob\<close> with the patterns of \<^verbatim>\<open>filepath.Match\<close>.
  \<^item> \<open>disk_wf\<close>: what exists lies in a directory. Every operation keeps it.

  Links, permissions and file times are not modelled; a \<^verbatim>\<open>RemoveAll\<close> that fails removes nothing.
\<close>

named_theorems disk_simps

section \<open>Paths\<close>

type_synonym path = "string list"

fun split_slash :: "string \<Rightarrow> string list" where
  "split_slash [] = [[]]"
| "split_slash (c # cs) =
     (if c = CHR ''/'' then [] # split_slash cs
      else case split_slash cs of [] \<Rightarrow> [[c]] | n # ns \<Rightarrow> (c # n) # ns)"

definition path_step :: "path \<Rightarrow> string \<Rightarrow> path" where
  "path_step p name = (if name = [] \<or> name = ''.'' then p else if name = ''..'' then butlast p else p @ [name])"

definition fp_join :: "path \<Rightarrow> string list \<Rightarrow> path" where
  "fp_join base elems = foldl path_step base (concat (map split_slash elems))"

text \<open>A name that \<open>fp_join\<close> leaves alone.\<close>

definition plain :: "string \<Rightarrow> bool" where
  "plain name \<longleftrightarrow> name \<noteq> [] \<and> name \<noteq> ''.'' \<and> name \<noteq> ''..'' \<and> CHR ''/'' \<notin> set name"

section \<open>Reading\<close>

datatype node = Dir | File string

record disk =
  entries :: "(path, node) gomap"
  denied :: "path \<Rightarrow> bool"
  full :: "path \<Rightarrow> bool"

definition stat :: "disk \<Rightarrow> path \<Rightarrow> node option" where
  "stat d p = (if p = [] then Some Dir else map_of (entries d) p)"

definition read_file :: "disk \<Rightarrow> path \<Rightarrow> string option" where
  "read_file d p = (case stat d p of Some (File c) \<Rightarrow> if denied d p then None else Some c | _ \<Rightarrow> None)"

definition children :: "disk \<Rightarrow> path \<Rightarrow> string list" where
  "children d p = sort (map last (filter (\<lambda>q. q \<noteq> [] \<and> butlast q = p) (map fst (entries d))))"

definition read_dir :: "disk \<Rightarrow> path \<Rightarrow> string list option" where
  "read_dir d p = (if stat d p = Some Dir \<and> \<not> denied d p then Some (children d p) else None)"

text \<open>The sizes of all files below a path, as \<^verbatim>\<open>filepath.Walk\<close> visits them.\<close>

definition below :: "path \<Rightarrow> path \<Rightarrow> bool" where
  "below p q \<longleftrightarrow> take (length p) q = p"

definition walk_size :: "disk \<Rightarrow> path \<Rightarrow> nat option" where
  "walk_size d p =
     (if stat d p = None \<or> (\<exists>(q, n) \<in> set (entries d). below p q \<and> n = Dir \<and> denied d q) then None
      else Some (sum_list (map (\<lambda>(q, n). case n of File c \<Rightarrow> if below p q then length c else 0 | Dir \<Rightarrow> 0) (entries d))))"

section \<open>Patterns\<close>

text \<open>One bound of a character class: the character and the rest of the pattern.\<close>

definition get_esc :: "string \<Rightarrow> (char \<times> string) option" where
  "get_esc s =
     (case s of [] \<Rightarrow> None
      | c # t \<Rightarrow>
          if c = CHR ''-'' \<or> c = CHR '']'' then None
          else if c = CHR 0x5C then (case t of e # u \<Rightarrow> if u = [] then None else Some (e, u) | [] \<Rightarrow> None)
          else if t = [] then None else Some (c, t))"

text \<open>The ranges of a class after its bracket: whether the character is in one, and the rest after the closing
  bracket. The fuel is the length of the pattern, as each range takes a character.\<close>

fun class_ranges :: "nat \<Rightarrow> bool \<Rightarrow> char \<Rightarrow> string \<Rightarrow> bool \<Rightarrow> (bool \<times> string) option" where
  "class_ranges 0 some r s acc = None"
| "class_ranges (Suc n) some r s acc =
     (if some \<and> s \<noteq> [] \<and> hd s = CHR '']'' then Some (acc, tl s)
      else case get_esc s of None \<Rightarrow> None
           | Some (lo, t) \<Rightarrow>
               if hd t = CHR ''-'' then
                 (case get_esc (tl t) of None \<Rightarrow> None
                  | Some (hi, u) \<Rightarrow> class_ranges n True r u (acc \<or> (lo \<le> r \<and> r \<le> hi)))
               else class_ranges n True r t (acc \<or> lo = r))"

text \<open>\<^verbatim>\<open>Match\<close> on one name. A malformed pattern matches nothing here; \<open>bad_pattern\<close> reports it.\<close>

fun glob_match :: "nat \<Rightarrow> string \<Rightarrow> string \<Rightarrow> bool" where
  "glob_match 0 pat s \<longleftrightarrow> False"
| "glob_match (Suc n) pat s \<longleftrightarrow>
     (case pat of [] \<Rightarrow> s = []
      | c # ps \<Rightarrow>
          if c = CHR ''*'' then glob_match n ps s \<or> (s \<noteq> [] \<and> glob_match n pat (tl s))
          else (case s of [] \<Rightarrow> False
                | r # t \<Rightarrow>
                    if c = CHR ''?'' then glob_match n ps t
                    else if c = CHR ''['' then
                      (let neg = (ps \<noteq> [] \<and> hd ps = CHR ''^'') in
                       case class_ranges (Suc (length ps)) False r (if neg then tl ps else ps) False of
                         Some (found, rest) \<Rightarrow> found \<noteq> neg \<and> glob_match n rest t
                       | None \<Rightarrow> False)
                    else if c = CHR 0x5C then
                      (case ps of e # rest \<Rightarrow> e = r \<and> glob_match n rest t | [] \<Rightarrow> False)
                    else c = r \<and> glob_match n ps t))"

definition name_match :: "string \<Rightarrow> string \<Rightarrow> bool" where
  "name_match pat s = glob_match (Suc (length pat + length s)) pat s"

fun bad_pattern :: "nat \<Rightarrow> string \<Rightarrow> bool" where
  "bad_pattern 0 pat \<longleftrightarrow> False"
| "bad_pattern (Suc n) pat \<longleftrightarrow>
     (case pat of [] \<Rightarrow> False
      | c # ps \<Rightarrow>
          if c = CHR ''['' then
            (case class_ranges (Suc (length ps)) False CHR ''a'' (if ps \<noteq> [] \<and> hd ps = CHR ''^'' then tl ps else ps) False of
               None \<Rightarrow> True
             | Some (_, rest) \<Rightarrow> bad_pattern n rest)
          else if c = CHR 0x5C then (case ps of _ # rest \<Rightarrow> bad_pattern n rest | [] \<Rightarrow> True)
          else bad_pattern n ps)"

definition has_meta :: "string \<Rightarrow> bool" where
  "has_meta s \<longleftrightarrow> (\<exists>c \<in> set s. c = CHR ''*'' \<or> c = CHR ''?'' \<or> c = CHR ''['' \<or> c = CHR 0x5C)"

definition glob_dir :: "disk \<Rightarrow> string \<Rightarrow> path \<Rightarrow> path list" where
  "glob_dir d pat dir =
     (if stat d dir = Some Dir \<and> \<not> denied d dir
      then map (\<lambda>n. dir @ [n]) (filter (name_match pat) (children d dir)) else [])"

text \<open>The pattern from its last name to its first; a directory without a metacharacter is taken as it is.\<close>

fun glob_rev :: "disk \<Rightarrow> string list \<Rightarrow> path list" where
  "glob_rev d [] = [[]]"
| "glob_rev d (pat # pats) =
     (if list_all (\<lambda>n. \<not> has_meta n) (pat # pats) then (if stat d (rev (pat # pats)) = None then [] else [rev (pat # pats)])
      else concat (map (glob_dir d pat) (if list_all (\<lambda>n. \<not> has_meta n) pats then [rev pats] else glob_rev d pats)))"

definition glob :: "disk \<Rightarrow> path \<Rightarrow> path list option" where
  "glob d pat = (if \<exists>n \<in> set pat. bad_pattern (length n) n then None else Some (glob_rev d (rev pat)))"

section \<open>Writing\<close>

definition put_node :: "path \<Rightarrow> node \<Rightarrow> disk \<Rightarrow> disk" where
  "put_node p n d = d\<lparr>entries := AList.update p n (entries d)\<rparr>"

definition can_open :: "disk \<Rightarrow> path \<Rightarrow> bool" where
  "can_open d p \<longleftrightarrow> p \<noteq> [] \<and> \<not> denied d p \<and> stat d (butlast p) = Some Dir \<and> stat d p \<noteq> Some Dir"

definition file_content :: "disk \<Rightarrow> path \<Rightarrow> string" where
  "file_content d p = (case stat d p of Some (File c) \<Rightarrow> c | _ \<Rightarrow> [])"

text \<open>\<^verbatim>\<open>OpenFile\<close> for writing, with \<^verbatim>\<open>O_CREATE\<close>; \<open>trunc\<close> is \<^verbatim>\<open>O_TRUNC\<close>.\<close>

definition OpenFile :: "disk \<Rightarrow> path \<Rightarrow> bool \<Rightarrow> disk \<times> bool" where
  "OpenFile d p trunc = (if can_open d p then (put_node p (File (if trunc then [] else file_content d p)) d, True) else (d, False))"

definition append_file :: "disk \<Rightarrow> path \<Rightarrow> string \<Rightarrow> disk \<times> bool" where
  "append_file d p s = (if full d p then (d, False) else (put_node p (File (file_content d p @ s)) d, True))"

definition WriteFile :: "disk \<Rightarrow> path \<Rightarrow> string \<Rightarrow> disk \<times> bool" where
  "WriteFile d p s = (case OpenFile d p True of (d1, ok) \<Rightarrow> if ok then append_file d1 p s else (d1, False))"

definition Create :: "disk \<Rightarrow> path \<Rightarrow> disk \<times> bool" where
  "Create d p = OpenFile d p True"

fun make_dirs :: "path list \<Rightarrow> disk \<Rightarrow> disk \<times> bool" where
  "make_dirs [] d = (d, True)"
| "make_dirs (p # ps) d =
     (case stat d p of
        Some Dir \<Rightarrow> make_dirs ps d
      | Some (File _) \<Rightarrow> (d, False)
      | None \<Rightarrow> if denied d p then (d, False) else make_dirs ps (put_node p Dir d))"

definition MkdirAll :: "disk \<Rightarrow> path \<Rightarrow> disk \<times> bool" where
  "MkdirAll d p = make_dirs (map (\<lambda>i. take (Suc i) p) [0..<length p]) d"

definition delete_node :: "path \<Rightarrow> disk \<Rightarrow> disk" where
  "delete_node p d = d\<lparr>entries := AList.delete p (entries d)\<rparr>"

definition os_Remove :: "disk \<Rightarrow> path \<Rightarrow> disk \<times> bool" where
  "os_Remove d p =
     (if p = [] \<or> denied d p \<or> stat d p = None \<or> (stat d p = Some Dir \<and> children d p \<noteq> []) then (d, False)
      else (delete_node p d, True))"

definition os_RemoveAll :: "disk \<Rightarrow> path \<Rightarrow> disk \<times> bool" where
  "os_RemoveAll d p =
     (if stat d p = None then (d, True)
      else if p = [] \<or> (\<exists>(q, n) \<in> set (entries d). below p q \<and> denied d q) then (d, False)
      else (d\<lparr>entries := filter (\<lambda>(q, n). \<not> below p q) (entries d)\<rparr>, True))"

text \<open>\<^verbatim>\<open>CopyFile\<close>: the old file is removed before the source is opened.\<close>

definition CopyFile :: "disk \<Rightarrow> path \<Rightarrow> path \<Rightarrow> disk \<times> bool" where
  "CopyFile d src dest =
     (case stat d dest of
        Some Dir \<Rightarrow> (d, False)
      | existing \<Rightarrow>
          (case (if existing = None then (d, True) else os_Remove d dest) of
             (d1, ok) \<Rightarrow>
               if \<not> ok then (d1, False)
               else if stat d1 src = None \<or> denied d1 src then (d1, False)
               else (case Create d1 dest of (d2, ok2) \<Rightarrow>
                       (case stat d1 src of
                          Some (File c) \<Rightarrow> if ok2 then append_file d2 dest c else (d2, False)
                        | _ \<Rightarrow> (d2, False)))))"

section \<open>Well-formed disks\<close>

definition disk_wf :: "disk \<Rightarrow> bool" where
  "disk_wf d \<longleftrightarrow> gm_wf (entries d) \<and> (\<forall>p \<in> fst ` set (entries d). p \<noteq> [] \<and> stat d (butlast p) = Some Dir)"

definition meta_free :: "string \<Rightarrow> bool" where
  "meta_free n \<longleftrightarrow> \<not> has_meta n"

section \<open>Lemmas on paths\<close>

lemma split_slash_not_Nil [simp]: "split_slash s \<noteq> []"
  by (induction s) (auto split: list.splits)

lemma split_slash_plain: "CHR ''/'' \<notin> set name \<Longrightarrow> split_slash name = [name]"
  by (induction name) auto

lemma path_step_plain [simp]: "plain name \<Longrightarrow> path_step p name = p @ [name]"
  by (simp add: path_step_def plain_def)

lemma fp_join_plain: "list_all plain names \<Longrightarrow> fp_join base names = base @ names"
proof (induction names arbitrary: base)
  case (Cons n names)
  then have "split_slash n = [n]" by (simp add: plain_def split_slash_plain)
  with Cons.IH [of "base @ [n]"] Cons.prems show ?case by (simp add: fp_join_def)
qed (simp add: fp_join_def)

section \<open>Lemmas on disks\<close>

lemma put_node_fields [simp]: "denied (put_node p n d) = denied d" "full (put_node p n d) = full d"
  by (simp_all add: put_node_def)

lemma delete_node_fields [simp]: "denied (delete_node p d) = denied d" "full (delete_node p d) = full d"
  by (simp_all add: delete_node_def)

lemma stat_put [disk_simps]: "p \<noteq> [] \<Longrightarrow> stat (put_node p n d) q = (if q = p then Some n else stat d q)"
  by (auto simp: stat_def put_node_def gomap_simps)

lemma stat_delete [disk_simps]: "p \<noteq> [] \<Longrightarrow> stat (delete_node p d) q = (if q = p then None else stat d q)"
  by (auto simp: stat_def delete_node_def gomap_simps)

lemma stat_root [simp]: "stat d [] = Some Dir"
  by (simp add: stat_def)

lemma OpenFile_fields [simp]:
  "denied (fst (OpenFile d p t)) = denied d" "full (fst (OpenFile d p t)) = full d"
  by (simp_all add: OpenFile_def)

lemma stat_Open [disk_simps]:
  "stat (fst (OpenFile d p t)) q = (if can_open d p \<and> q = p then Some (File (if t then [] else file_content d p)) else stat d q)"
  by (auto simp: OpenFile_def can_open_def disk_simps)

lemma Open_ok [disk_simps]: "snd (OpenFile d p t) = can_open d p"
  by (simp add: OpenFile_def)

lemma append_fields [simp]:
  "denied (fst (append_file d p s)) = denied d" "full (fst (append_file d p s)) = full d"
  by (simp_all add: append_file_def)

lemma stat_append [disk_simps]:
  "p \<noteq> [] \<Longrightarrow> stat (fst (append_file d p s)) q = (if \<not> full d p \<and> q = p then Some (File (file_content d p @ s)) else stat d q)"
  by (auto simp: append_file_def disk_simps)

lemma append_ok [disk_simps]: "snd (append_file d p s) = (\<not> full d p)"
  by (simp add: append_file_def)

lemma WriteFile_fields [simp]:
  "denied (fst (WriteFile d p s)) = denied d" "full (fst (WriteFile d p s)) = full d"
  by (simp_all add: WriteFile_def split_beta)

lemma stat_Write [disk_simps]:
  "stat (fst (WriteFile d p s)) q = (if can_open d p \<and> q = p then Some (File (if full d p then [] else s)) else stat d q)"
proof (cases "can_open d p")
  case True
  then have "p \<noteq> []" by (simp add: can_open_def)
  with True show ?thesis by (auto simp: WriteFile_def split_beta disk_simps file_content_def)
qed (simp add: WriteFile_def split_beta disk_simps)

lemma Write_ok [disk_simps]: "snd (WriteFile d p s) \<longleftrightarrow> can_open d p \<and> \<not> full d p"
  by (auto simp: WriteFile_def split_beta disk_simps)

lemma Remove_fields [simp]: "denied (fst (os_Remove d p)) = denied d" "full (fst (os_Remove d p)) = full d"
  by (simp_all add: os_Remove_def)

lemma Remove_ok: "snd (os_Remove d p) \<longleftrightarrow> \<not> (p = [] \<or> denied d p \<or> stat d p = None \<or> (stat d p = Some Dir \<and> children d p \<noteq> []))"
  by (simp add: os_Remove_def)

lemma stat_Remove [disk_simps]: "stat (fst (os_Remove d p)) q = (if snd (os_Remove d p) \<and> q = p then None else stat d q)"
  by (auto simp: os_Remove_def disk_simps)

lemma RemoveAll_fields [simp]: "denied (fst (os_RemoveAll d p)) = denied d" "full (fst (os_RemoveAll d p)) = full d"
  by (simp_all add: os_RemoveAll_def)

lemma map_of_filter_fst: "map_of (filter (\<lambda>(q, n). P q) m) q = (if P q then map_of m q else None)"
  by (induction m) auto

lemma stat_RemoveAll [disk_simps]:
  "p \<noteq> [] \<Longrightarrow> stat (fst (os_RemoveAll d p)) q = (if snd (os_RemoveAll d p) \<and> stat d p \<noteq> None \<and> below p q then None else stat d q)"
  by (auto simp: os_RemoveAll_def stat_def map_of_filter_fst below_def)

lemma make_dirs_fields [simp]: "denied (fst (make_dirs ps d)) = denied d" "full (fst (make_dirs ps d)) = full d"
  by (induction ps d rule: make_dirs.induct) (auto split: option.splits node.splits)

lemma MkdirAll_fields [simp]: "denied (fst (MkdirAll d p)) = denied d" "full (fst (MkdirAll d p)) = full d"
  by (simp_all add: MkdirAll_def)

lemma make_dirs_keeps: "[] \<notin> set ps \<Longrightarrow> stat d q \<noteq> None \<Longrightarrow> stat (fst (make_dirs ps d)) q = stat d q"
  by (induction ps d rule: make_dirs.induct) (auto simp: disk_simps split: option.splits node.splits)

lemma make_dirs_new: "[] \<notin> set ps \<Longrightarrow> stat d q = None \<Longrightarrow> stat (fst (make_dirs ps d)) q \<in> {None, Some Dir} \<and> (q \<notin> set ps \<longrightarrow> stat (fst (make_dirs ps d)) q = None)"
proof (induction ps d rule: make_dirs.induct)
  case (2 p ps d)
  then show ?case
    by (cases "p = q"; cases "stat d p") (auto simp: disk_simps make_dirs_keeps split: node.splits)
qed simp

lemma make_dirs_ok: "[] \<notin> set ps \<Longrightarrow> snd (make_dirs ps d) \<Longrightarrow> p \<in> set ps \<Longrightarrow> stat (fst (make_dirs ps d)) p = Some Dir"
proof (induction ps d rule: make_dirs.induct)
  case (2 a ps d)
  then show ?case
    by (cases "stat d a") (auto simp: disk_simps make_dirs_keeps split: node.splits if_splits)
qed simp

lemma mkdir_prefixes: "[] \<notin> set (map (\<lambda>i. take (Suc i) p) [0..<length p])"
  by auto

lemma stat_Mkdir_old [disk_simps]: "stat d q \<noteq> None \<Longrightarrow> stat (fst (MkdirAll d p)) q = stat d q"
  unfolding MkdirAll_def by (rule make_dirs_keeps [OF mkdir_prefixes])

lemma stat_Mkdir_file: "stat (fst (MkdirAll d p)) q = Some (File c) \<longleftrightarrow> stat d q = Some (File c)"
proof (cases "stat d q")
  case None
  then show ?thesis unfolding MkdirAll_def using make_dirs_new [OF mkdir_prefixes [of p] None] by auto
qed (simp add: disk_simps)

lemma Mkdir_ok: "snd (MkdirAll d p) \<Longrightarrow> stat (fst (MkdirAll d p)) p = Some Dir"
proof (cases p rule: rev_cases)
  case (snoc ys y)
  assume "snd (MkdirAll d p)"
  moreover have "p \<in> set (map (\<lambda>i. take (Suc i) p) [0..<length p])" using snoc by auto
  ultimately show ?thesis unfolding MkdirAll_def by (intro make_dirs_ok [OF mkdir_prefixes]) simp_all
qed simp

lemma make_dirs_succeeds:
  "[] \<notin> set ps \<Longrightarrow> \<forall>p \<in> set ps. stat d p = Some Dir \<or> (stat d p = None \<and> \<not> denied d p) \<Longrightarrow> snd (make_dirs ps d)"
proof (induction ps arbitrary: d)
  case (Cons p ps)
  show ?case
  proof (cases "stat d p")
    case None
    have "\<forall>q \<in> set ps. stat (put_node p Dir d) q = Some Dir \<or> (stat (put_node p Dir d) q = None \<and> \<not> denied d q)"
    proof -
      have "p \<noteq> []" using Cons.prems(1) by auto
      then show ?thesis using Cons.prems(2) by (simp add: disk_simps)
    qed
    then have "snd (make_dirs ps (put_node p Dir d))" using Cons.IH [of "put_node p Dir d"] Cons.prems(1) by simp
    then show ?thesis using None Cons.prems by simp
  next
    case (Some n)
    then show ?thesis using Cons.prems Cons.IH [of d] by auto
  qed
qed simp

lemma Mkdir_succeeds:
  assumes "\<And>q. q \<noteq> [] \<Longrightarrow> below q p \<Longrightarrow> stat d q = Some Dir \<or> (stat d q = None \<and> \<not> denied d q)"
  shows "snd (MkdirAll d p)"
proof -
  have "stat d (take (Suc i) p) = Some Dir \<or> (stat d (take (Suc i) p) = None \<and> \<not> denied d (take (Suc i) p))" if "i < length p" for i
  proof (rule assms)
    show "take (Suc i) p \<noteq> []" using that by auto
    show "below (take (Suc i) p) p" using that by (simp add: below_def min.absorb2 Suc_le_eq)
  qed
  then show ?thesis unfolding MkdirAll_def by (intro make_dirs_succeeds [OF mkdir_prefixes]) auto
qed

lemma child_iff: "name \<in> set (children d p) \<longleftrightarrow> p @ [name] \<in> fst ` set (entries d)"
proof
  assume "name \<in> set (children d p)"
  then obtain q where "q \<in> fst ` set (entries d)" "q \<noteq> []" "butlast q = p" "last q = name" by (auto simp: children_def)
  then show "p @ [name] \<in> fst ` set (entries d)" by (metis append_butlast_last_id)
next
  assume "p @ [name] \<in> fst ` set (entries d)"
  then have "p @ [name] \<in> set (filter (\<lambda>q. q \<noteq> [] \<and> butlast q = p) (map fst (entries d)))" by auto
  then have "last (p @ [name]) \<in> last ` set (filter (\<lambda>q. q \<noteq> [] \<and> butlast q = p) (map fst (entries d)))" by (rule imageI)
  then show "name \<in> set (children d p)" unfolding children_def by simp
qed

lemma key_iff: "p \<in> fst ` set (entries d) \<longleftrightarrow> map_of (entries d) p \<noteq> None"
  by (simp add: map_of_eq_None_iff)

lemma child_stat: "name \<in> set (children d p) \<longleftrightarrow> stat d (p @ [name]) \<noteq> None"
  by (simp add: child_iff key_iff stat_def)

lemma children_distinct: "gm_wf (entries d) \<Longrightarrow> distinct (children d p)"
proof -
  assume "gm_wf (entries d)"
  then have "distinct (filter (\<lambda>q. q \<noteq> [] \<and> butlast q = p) (map fst (entries d)))" by (simp add: gm_wf_def)
  moreover have "inj_on last (set (filter (\<lambda>q. q \<noteq> [] \<and> butlast q = p) (map fst (entries d))))"
    by (rule inj_onI) (metis (mono_tags, lifting) append_butlast_last_id mem_Collect_eq set_filter)
  ultimately show ?thesis by (simp add: children_def distinct_map)
qed

section \<open>Well-formed disks\<close>

lemma disk_wf_parent: "disk_wf d \<Longrightarrow> stat d p \<noteq> None \<Longrightarrow> stat d (butlast p) = Some Dir"
  using key_iff [of p d] by (cases "p = []") (auto simp: disk_wf_def stat_def)

lemma disk_wf_alt:
  "disk_wf d \<longleftrightarrow> gm_wf (entries d) \<and> map_of (entries d) [] = None \<and> (\<forall>p. stat d p \<noteq> None \<longrightarrow> stat d (butlast p) = Some Dir)"
proof
  assume "disk_wf d"
  then show "gm_wf (entries d) \<and> map_of (entries d) [] = None \<and> (\<forall>p. stat d p \<noteq> None \<longrightarrow> stat d (butlast p) = Some Dir)"
    by (auto simp: disk_wf_parent) (auto simp: disk_wf_def map_of_eq_None_iff)
next
  assume *: "gm_wf (entries d) \<and> map_of (entries d) [] = None \<and> (\<forall>p. stat d p \<noteq> None \<longrightarrow> stat d (butlast p) = Some Dir)"
  have "p \<noteq> [] \<and> stat d (butlast p) = Some Dir" if "p \<in> fst ` set (entries d)" for p
    using * that unfolding key_iff by (cases "p = []") (auto simp: stat_def)
  with * show "disk_wf d" by (simp add: disk_wf_def)
qed

lemma put_node_entries: "entries (put_node p n d) = AList.update p n (entries d)"
  by (simp add: put_node_def)

lemma disk_wf_put:
  assumes wf: "disk_wf d" and p: "p \<noteq> []" "stat d (butlast p) = Some Dir" "stat d p = Some Dir \<longrightarrow> n = Dir"
  shows "disk_wf (put_node p n d)"
proof -
  have "stat (put_node p n d) (butlast q) = Some Dir" if "stat (put_node p n d) q \<noteq> None" for q
  proof (cases "q = p")
    case True
    then show ?thesis using p by (auto simp: disk_simps)
  next
    case False
    then have "stat d (butlast q) = Some Dir" using that p(1) disk_wf_parent [OF wf, of q] by (simp add: disk_simps)
    then show ?thesis using p by (auto simp: disk_simps)
  qed
  then show ?thesis using wf p(1) unfolding disk_wf_alt by (simp add: put_node_entries gomap_simps)
qed

lemma disk_wf_delete:
  assumes wf: "disk_wf d" and p: "p \<noteq> []" "stat d p = Some Dir \<longrightarrow> children d p = []"
  shows "disk_wf (delete_node p d)"
proof -
  have "stat (delete_node p d) (butlast q) = Some Dir" if "stat (delete_node p d) q \<noteq> None" for q
  proof -
    have q: "q \<noteq> p" "stat d q \<noteq> None" using that p(1) by (auto simp: disk_simps split: if_splits)
    have parent: "stat d (butlast q) = Some Dir" by (rule disk_wf_parent [OF wf q(2)])
    have "butlast q \<noteq> p"
    proof
      assume b: "butlast q = p"
      then have "q = p @ [last q]" using p(1) append_butlast_last_id [of q] by (cases "q = []") auto
      then have "last q \<in> set (children d p)" using q(2) child_stat by metis
      then show False using parent b p(2) by simp
    qed
    with parent p(1) show ?thesis by (simp add: disk_simps)
  qed
  then show ?thesis using wf p(1) unfolding disk_wf_alt by (simp add: delete_node_def gomap_simps)
qed

lemma disk_wf_Open [simp]: "disk_wf d \<Longrightarrow> disk_wf (fst (OpenFile d p t))"
  by (simp add: OpenFile_def can_open_def disk_wf_put)

lemma disk_wf_append: "disk_wf d \<Longrightarrow> stat d p = Some (File c) \<Longrightarrow> disk_wf (fst (append_file d p s))"
  using disk_wf_parent [of d p] by (cases "p = []") (auto simp: append_file_def disk_wf_put)

lemma disk_wf_Write [simp]: "disk_wf d \<Longrightarrow> disk_wf (fst (WriteFile d p s))"
proof (cases "can_open d p")
  case True
  assume "disk_wf d"
  then have "disk_wf (fst (append_file (fst (OpenFile d p True)) p s))"
    using True by (intro disk_wf_append [of _ _ "[]"]) (simp_all add: disk_simps)
  then show ?thesis using True by (simp add: WriteFile_def split_beta disk_simps)
qed (simp add: WriteFile_def split_beta disk_simps)

lemma disk_wf_Remove [simp]: "disk_wf d \<Longrightarrow> disk_wf (fst (os_Remove d p))"
  by (auto simp: os_Remove_def intro!: disk_wf_delete)

lemma below_butlast: "\<not> below p q \<Longrightarrow> \<not> below p (butlast q)"
  by (metis below_def butlast_conv_take take_all_iff take_take min.absorb1 min.absorb2 nle_le)

lemma disk_wf_RemoveAll [simp]: "disk_wf d \<Longrightarrow> disk_wf (fst (os_RemoveAll d p))"
proof (cases "p = [] \<or> \<not> snd (os_RemoveAll d p) \<or> stat d p = None")
  case True
  assume "disk_wf d"
  then show ?thesis using True by (auto simp: os_RemoveAll_def split: if_splits)
next
  case False
  assume wf: "disk_wf d"
  let ?d = "fst (os_RemoveAll d p)"
  have s: "stat ?d q = (if below p q then None else stat d q)" for q
    using False by (simp add: disk_simps)
  have e: "entries ?d = filter (\<lambda>(q, n). \<not> below p q) (entries d)"
    using False by (auto simp: os_RemoveAll_def split: if_splits)
  have "stat ?d (butlast q) = Some Dir" if "stat ?d q \<noteq> None" for q
    using that disk_wf_parent [OF wf, of q] below_butlast [of p q] by (auto simp: s split: if_splits)
  then show ?thesis using wf unfolding disk_wf_alt by (simp add: e map_of_filter_fst)
qed

lemma make_dirs_wf:
  "disk_wf d \<Longrightarrow> stat d (take k p) = Some Dir \<Longrightarrow> n \<le> length p \<Longrightarrow> disk_wf (fst (make_dirs (map (\<lambda>i. take (Suc i) p) [k..<n]) d))"
proof (induction "n - k" arbitrary: k d)
  case (Suc m)
  then have k: "k < n" by simp
  have p: "take (Suc k) p \<noteq> []" "butlast (take (Suc k) p) = take k p" using k Suc.prems(3) by (auto simp: butlast_take)
  have list: "map (\<lambda>i. take (Suc i) p) [k..<n] = take (Suc k) p # map (\<lambda>i. take (Suc i) p) [Suc k..<n]"
    using k by (simp add: upt_conv_Cons)
  show ?case
  proof (cases "stat d (take (Suc k) p)")
    case None
    let ?d = "put_node (take (Suc k) p) Dir d"
    have "disk_wf ?d" using disk_wf_put [OF Suc.prems(1) p(1), of Dir] Suc.prems(2) p(2) by simp
    moreover have "stat ?d (take (Suc k) p) = Some Dir" using p(1) by (simp add: disk_simps)
    ultimately have "disk_wf (fst (make_dirs (map (\<lambda>i. take (Suc i) p) [Suc k..<n]) ?d))"
      using Suc.hyps(1) [of "Suc k" ?d] Suc.hyps(2) Suc.prems(3) by simp
    then show ?thesis using None Suc.prems(1) by (simp add: list)
  next
    case (Some node)
    then show ?thesis
      using Suc.hyps(1) [of "Suc k" d] Suc.hyps(2) Suc.prems by (cases node) (simp_all add: list)
  qed
qed simp

lemma disk_wf_Mkdir [simp]: "disk_wf d \<Longrightarrow> disk_wf (fst (MkdirAll d p))"
  unfolding MkdirAll_def by (rule make_dirs_wf) simp_all

lemma ancestor_dir: "disk_wf d \<Longrightarrow> stat d p = Some Dir \<Longrightarrow> stat d (take n p) = Some Dir"
proof (induction p rule: rev_induct)
  case (snoc x p)
  then have "stat d p = Some Dir" using disk_wf_parent [of d "p @ [x]"] by simp
  then show ?case using snoc by (cases "n \<le> length p") auto
qed simp

lemma missing_below: "disk_wf d \<Longrightarrow> stat d p = None \<Longrightarrow> below p q \<Longrightarrow> stat d q = None"
proof (rule ccontr)
  assume wf: "disk_wf d" and none: "stat d p = None" and p: "below p q" and q: "stat d q \<noteq> None"
  show False
  proof (cases "length p < length q")
    case True
    then have "take (length p) (butlast q) = p" using p by (simp add: below_def take_butlast)
    then show False using ancestor_dir [OF wf disk_wf_parent [OF wf q], of "length p"] none by simp
  qed (use p none q in \<open>auto simp: below_def\<close>)
qed

lemma Mkdir_old: "disk_wf d \<Longrightarrow> stat d p = Some Dir \<Longrightarrow> MkdirAll d p = (d, True)"
proof -
  assume "disk_wf d" "stat d p = Some Dir"
  then have dirs: "stat d q = Some Dir" if "q \<in> set (map (\<lambda>i. take (Suc i) p) [0..<length p])" for q
    using that ancestor_dir by auto
  have "make_dirs qs d = (d, True)" if "\<forall>q \<in> set qs. stat d q = Some Dir" for qs using that by (induction qs) auto
  then show ?thesis unfolding MkdirAll_def using dirs by blast
qed

lemma Copy_fields [simp]: "denied (fst (CopyFile d src dest)) = denied d" "full (fst (CopyFile d src dest)) = full d"
  by (auto simp: CopyFile_def Create_def split_beta split: option.splits node.splits)

lemma stat_Copy_other: "q \<noteq> dest \<Longrightarrow> stat (fst (CopyFile d src dest)) q = stat d q"
proof (cases "dest = []")
  case False
  assume "q \<noteq> dest"
  with False show ?thesis
    by (auto simp: CopyFile_def Create_def split_beta disk_simps split: option.splits node.splits)
qed (simp add: CopyFile_def)

lemma stat_Copy_dest: "stat (fst (CopyFile d src dest)) dest = Some Dir \<longleftrightarrow> stat d dest = Some Dir"
proof (cases "dest = []")
  case False
  then show ?thesis
    by (auto simp: CopyFile_def Create_def split_beta disk_simps split: option.splits node.splits)
qed simp

lemma Copy_ok:
  assumes "stat d src = Some (File c)" "src \<noteq> dest" "stat d (butlast dest) = Some Dir" "stat d dest \<noteq> Some Dir"
    "\<not> denied d src" "\<not> denied d dest" "\<not> full d dest"
  shows "snd (CopyFile d src dest)" "stat (fst (CopyFile d src dest)) dest = Some (File c)"
proof -
  have dest: "dest \<noteq> []" using assms(4) by auto
  have "butlast dest \<noteq> dest" using dest by (metis append_butlast_last_id append_self_conv list.distinct(1))
  then show "snd (CopyFile d src dest)" "stat (fst (CopyFile d src dest)) dest = Some (File c)"
    using assms dest
    by (auto simp: CopyFile_def Create_def split_beta disk_simps can_open_def Remove_ok file_content_def split: option.splits node.splits)
qed

lemma Copy_success:
  assumes "snd (CopyFile d src dest)" "src \<noteq> dest"
  shows "\<exists>c. stat (fst (CopyFile d src dest)) src = Some (File c) \<and> stat (fst (CopyFile d src dest)) dest = Some (File c) \<and> \<not> denied d src"
proof (cases "dest = []")
  case False
  with assms show ?thesis
    by (auto simp: CopyFile_def Create_def split_beta disk_simps file_content_def split: option.splits node.splits if_splits)
qed (use assms in \<open>simp add: CopyFile_def\<close>)

lemma Copy_cases:
  fixes d :: disk and dest :: path
  defines "d1 \<equiv> (if stat d dest = None then d else fst (os_Remove d dest))"
  shows "fst (CopyFile d src dest) = d \<or> fst (CopyFile d src dest) = d1 \<or> fst (CopyFile d src dest) = fst (OpenFile d1 dest True) \<or>
    (can_open d1 dest \<and> (\<exists>c. fst (CopyFile d src dest) = fst (append_file (fst (OpenFile d1 dest True)) dest c)))"
proof (cases "stat d dest = Some Dir")
  case False
  then have eq: "CopyFile d src dest =
      (if stat d dest \<noteq> None \<and> \<not> snd (os_Remove d dest) then (d1, False)
       else if stat d1 src = None \<or> denied d1 src then (d1, False)
       else (case stat d1 src of
               Some (File c) \<Rightarrow> if can_open d1 dest then append_file (fst (OpenFile d1 dest True)) dest c else (fst (OpenFile d1 dest True), False)
             | _ \<Rightarrow> (fst (OpenFile d1 dest True), False)))"
  proof (cases "stat d dest")
    case None
    then have d1: "d1 = d" by (simp add: d1_def)
    show ?thesis unfolding d1 using None by (simp add: CopyFile_def Create_def split_beta Open_ok)
  next
    case (Some n)
    then have d1: "d1 = fst (os_Remove d dest)" by (simp add: d1_def)
    obtain c where "n = File c" using False Some by (cases n) auto
    then show ?thesis unfolding d1 using Some by (simp add: CopyFile_def Create_def split_beta Open_ok)
  qed
  show ?thesis unfolding eq by (cases "stat d1 src") (auto split: node.splits)
qed (simp add: CopyFile_def)

lemma disk_wf_Copy [simp]:
  assumes wf: "disk_wf d"
  shows "disk_wf (fst (CopyFile d src dest))"
proof -
  define d1 where "d1 = (if stat d dest = None then d else fst (os_Remove d dest))"
  have d1: "disk_wf d1" using wf by (simp add: d1_def)
  have "disk_wf (fst (append_file (fst (OpenFile d1 dest True)) dest c))" if "can_open d1 dest" for c
    using that d1 by (intro disk_wf_append [of _ _ "[]"]) (simp_all add: disk_simps)
  then show ?thesis using Copy_cases [of d src dest] wf d1 unfolding d1_def [symmetric] by fastforce
qed

section \<open>Globs without metacharacters in the directory\<close>

lemma has_meta_Cons: "has_meta (c # s) \<longleftrightarrow> c = CHR ''*'' \<or> c = CHR ''?'' \<or> c = CHR ''['' \<or> c = CHR 0x5C \<or> has_meta s"
  by (auto simp: has_meta_def)

lemma literal_match: "\<not> has_meta ps \<Longrightarrow> length ps < n \<Longrightarrow> glob_match n ps s \<longleftrightarrow> s = ps"
proof (induction ps arbitrary: n s)
  case Nil
  then show ?case by (cases n) auto
next
  case (Cons c ps)
  then obtain m where "n = Suc m" by (cases n) auto
  with Cons show ?case by (cases s) (auto simp: has_meta_Cons)
qed

lemma has_suffix_Cons: "has_suffix (c # s) t \<longleftrightarrow> c # s = t \<or> has_suffix s t"
proof (cases "length t \<le> length s")
  case True
  then show ?thesis by (auto simp: has_suffix_def Suc_diff_le)
next
  case False
  then show ?thesis by (auto simp: has_suffix_def not_le Suc_le_eq le_Suc_eq)
qed

lemma star_match: "\<not> has_meta ps \<Longrightarrow> Suc (length ps + length s) < n \<Longrightarrow> glob_match n (CHR ''*'' # ps) s \<longleftrightarrow> has_suffix s ps"
proof (induction s arbitrary: n)
  case Nil
  then obtain m where "n = Suc m" by (cases n) auto
  with Nil literal_match [of ps m "[]"] show ?case by (auto simp: has_suffix_def)
next
  case (Cons c s)
  then obtain m where "n = Suc m" by (cases n) auto
  with Cons literal_match [of ps m "c # s"] show ?case by (simp add: has_suffix_Cons)
qed

lemma json_match: "name_match ''*.json'' s \<longleftrightarrow> has_suffix s ''.json''"
  unfolding name_match_def by (rule star_match) (simp_all add: has_meta_def)

lemma bad_pattern_free: "\<not> has_meta n \<Longrightarrow> \<not> bad_pattern k n"
proof (induction k arbitrary: n)
  case (Suc k)
  then show ?case by (cases n) (auto simp: has_meta_Cons)
qed simp

lemma glob_json:
  assumes "list_all meta_free dir"
  shows "glob d (dir @ [''*.json'']) = Some (if stat d dir = Some Dir \<and> \<not> denied d dir
    then map (\<lambda>n. dir @ [n]) (filter (\<lambda>n. has_suffix n ''.json'') (children d dir)) else [])"
proof -
  have "\<not> bad_pattern (length n) n" if "n \<in> set (dir @ [''*.json''])" for n
    using that assms bad_pattern_free [of n] by (auto simp: list_all_iff meta_free_def numeral_eq_Suc)
  moreover have "has_meta ''*.json''" by (simp add: has_meta_def)
  ultimately show ?thesis
    using assms by (auto simp: glob_def glob_dir_def json_match list_all_iff meta_free_def cong: filter_cong)
qed

end
