(* ===== verification/Lru_Cache.thy ===== *)
theory Lru_Cache
  imports Go_Prelude
begin

text \<open>
  The LRU cache of \<^verbatim>\<open>pkg/helpers/lru/lru.go\<close>. The doubly linked list
  \<^verbatim>\<open>ll\<close> of \<^verbatim>\<open>container/list\<close> is the list of its elements, front first; an
  element carries the identity (\<open>nat\<close>) that the map \<^verbatim>\<open>cache\<close> points at, so the two
  structures can disagree and the invariant \<open>lru_inv\<close> says that they do not. A nil
  \<^verbatim>\<open>cache\<close> is \<open>None\<close>. \<open>next_elem\<close> is the allocator of element identities.

  The locale \<open>recency_cache\<close> is the contract a client of the cache uses: the contents as
  a recency-ordered association list, front most recent. It is interpreted on the model.
\<close>

section \<open>The cache\<close>

type_synonym ('k, 'v) lru_entry = "'k \<times> 'v"

record ('k, 'v) lru_cache =
  ll :: "(nat \<times> ('k, 'v) lru_entry) list"
  cache :: "('k, nat) gomap option"
  next_elem :: nat

definition lru_New :: "('k, 'v) lru_cache" where
  "lru_New = \<lparr>ll = [], cache = Some [], next_elem = 0\<rparr>"

text \<open>\<^verbatim>\<open>list.MoveToFront\<close>, \<^verbatim>\<open>list.Remove\<close> and the write through the element pointer.\<close>

definition move_to_front :: "nat \<Rightarrow> (nat \<times> 'e) list \<Rightarrow> (nat \<times> 'e) list" where
  "move_to_front i xs =
     (case map_of xs i of None \<Rightarrow> xs | Some e \<Rightarrow> (i, e) # filter (\<lambda>p. fst p \<noteq> i) xs)"

definition set_elem :: "nat \<Rightarrow> 'v \<Rightarrow> (nat \<times> 'k \<times> 'v) list \<Rightarrow> (nat \<times> 'k \<times> 'v) list" where
  "set_elem i v xs = map (\<lambda>(j, k, w). if j = i then (j, k, v) else (j, k, w)) xs"

definition lru_Add :: "('k, 'v) lru_cache \<Rightarrow> 'k \<Rightarrow> 'v \<Rightarrow> ('k, 'v) lru_cache" where
  "lru_Add c k v =
     (let c1 = (if cache c = None then c\<lparr>cache := Some [], ll := []\<rparr> else c);
          m = the (cache c1)
      in case map_of m k of
           Some ee \<Rightarrow> c1\<lparr>ll := set_elem ee v (move_to_front ee (ll c1))\<rparr>
         | None \<Rightarrow> c1\<lparr>ll := (next_elem c1, k, v) # ll c1,
                       cache := Some (AList.update k (next_elem c1) m),
                       next_elem := Suc (next_elem c1)\<rparr>)"

definition lru_Get :: "('k, 'v) lru_cache \<Rightarrow> 'k \<Rightarrow> ('k, 'v) lru_cache \<times> 'v option" where
  "lru_Get c k =
     (case cache c of
        None \<Rightarrow> (c, None)
      | Some m \<Rightarrow>
          (case map_of m k of
             Some ele \<Rightarrow> (c\<lparr>ll := move_to_front ele (ll c)\<rparr>, map_option snd (map_of (ll c) ele))
           | None \<Rightarrow> (c, None)))"

definition removeElement :: "('k, 'v) lru_cache \<Rightarrow> nat \<Rightarrow> ('k, 'v) lru_cache" where
  "removeElement c e =
     (case map_of (ll c) e of
        None \<Rightarrow> c
      | Some kv \<Rightarrow> c\<lparr>ll := filter (\<lambda>p. fst p \<noteq> e) (ll c),
                     cache := map_option (AList.delete (fst kv)) (cache c)\<rparr>)"

definition lru_Remove :: "('k, 'v) lru_cache \<Rightarrow> 'k \<Rightarrow> ('k, 'v) lru_cache" where
  "lru_Remove c k =
     (case cache c of
        None \<Rightarrow> c
      | Some m \<Rightarrow> (case map_of m k of Some ele \<Rightarrow> removeElement c ele | None \<Rightarrow> c))"

definition removeOldest :: "('k, 'v) lru_cache \<Rightarrow> ('k, 'v) lru_cache" where
  "removeOldest c = (if ll c = [] then c else removeElement c (fst (last (ll c))))"

definition lru_RemoveOldest :: "('k, 'v) lru_cache \<Rightarrow> ('k, 'v) lru_cache" where
  "lru_RemoveOldest c = (if cache c = None then c else removeOldest c)"

definition lru_Len :: "('k, 'v) lru_cache \<Rightarrow> int" where
  "lru_Len c = (if cache c = None then 0 else int (length (ll c)))"

definition lru_Clear :: "('k, 'v) lru_cache \<Rightarrow> ('k, 'v) lru_cache" where
  "lru_Clear c = c\<lparr>ll := [], cache := None\<rparr>"

text \<open>The loop of \<^verbatim>\<open>RemoveUntilLen\<close>; \<open>None\<close> is a loop that never ends.\<close>

partial_function (option) remove_until_loop ::
    "int \<Rightarrow> ('k, 'v) lru_cache \<Rightarrow> ('k, 'v) lru_cache option" where
  "remove_until_loop n c =
     (if int (length (ll c)) > n then remove_until_loop n (removeOldest c) else Some c)"

definition lru_RemoveUntilLen :: "('k, 'v) lru_cache \<Rightarrow> int \<Rightarrow> ('k, 'v) lru_cache option" where
  "lru_RemoveUntilLen c newLength =
     (if cache c = None then Some c else remove_until_loop newLength c)"

section \<open>Invariant and abstraction\<close>

definition lru_inv :: "('k, 'v) lru_cache \<Rightarrow> bool" where
  "lru_inv c \<longleftrightarrow>
     (case cache c of
        None \<Rightarrow> ll c = []
      | Some m \<Rightarrow> gm_wf m \<and> distinct (map fst (ll c)) \<and>
          (\<forall>(i, k, v) \<in> set (ll c). i < next_elem c) \<and>
          distinct (map (fst \<circ> snd) (ll c)) \<and>
          (\<forall>k i. map_of m k = Some i \<longleftrightarrow> (\<exists>v. (i, k, v) \<in> set (ll c))))"

definition lru_abs :: "('k, 'v) lru_cache \<Rightarrow> ('k \<times> 'v) list" where
  "lru_abs c = map snd (ll c)"

text \<open>The reference: a recency list.\<close>

definition touch :: "'k \<Rightarrow> 'v \<Rightarrow> ('k \<times> 'v) list \<Rightarrow> ('k \<times> 'v) list" where
  "touch k v xs = (k, v) # filter (\<lambda>p. fst p \<noteq> k) xs"

section \<open>The interface of a recency cache\<close>

locale recency_cache =
  fixes empty :: 'c
    and add :: "'c \<Rightarrow> 'k \<Rightarrow> 'v \<Rightarrow> 'c"
    and get :: "'c \<Rightarrow> 'k \<Rightarrow> 'c \<times> 'v option"
    and remove :: "'c \<Rightarrow> 'k \<Rightarrow> 'c"
    and evict :: "'c \<Rightarrow> 'c"
    and inv :: "'c \<Rightarrow> bool"
    and contents :: "'c \<Rightarrow> ('k \<times> 'v) list"
  assumes inv_empty: "inv empty"
    and contents_empty: "contents empty = []"
    and inv_add: "inv c \<Longrightarrow> inv (add c k v)"
    and contents_add: "inv c \<Longrightarrow> contents (add c k v) = touch k v (contents c)"
    and inv_get: "inv c \<Longrightarrow> inv (fst (get c k))"
    and get_value: "inv c \<Longrightarrow> snd (get c k) = map_of (contents c) k"
    and contents_get: "inv c \<Longrightarrow> contents (fst (get c k)) =
          (case map_of (contents c) k of None \<Rightarrow> contents c | Some v \<Rightarrow> touch k v (contents c))"
    and inv_remove: "inv c \<Longrightarrow> inv (remove c k)"
    and contents_remove: "inv c \<Longrightarrow> contents (remove c k) = filter (\<lambda>p. fst p \<noteq> k) (contents c)"
    and inv_evict: "inv c \<Longrightarrow> inv (evict c)"
    and contents_evict: "inv c \<Longrightarrow> contents (evict c) = butlast (contents c)"
    and keys_distinct: "inv c \<Longrightarrow> distinct (map fst (contents c))"
begin

lemma get_after_add: "inv c \<Longrightarrow> snd (get (add c k v) k') = (if k' = k then Some v else snd (get c k'))"
  by (simp add: inv_add get_value contents_add touch_def map_of_filter_key
      gm_wf_def keys_distinct split: option.splits)

lemma get_keeps_values:
  assumes "inv c"
  shows "snd (get (fst (get c k)) k') = snd (get c k')"
  using assms
  by (simp add: inv_get get_value contents_get touch_def map_of_filter_key gm_wf_def keys_distinct
      split: option.splits)

lemma get_after_remove: "inv c \<Longrightarrow> snd (get (remove c k) k') = (if k' = k then None else snd (get c k'))"
  by (simp add: inv_remove get_value contents_remove map_of_filter_key gm_wf_def keys_distinct
      split: option.splits)

lemma set_add_subset: "inv c \<Longrightarrow> set (contents (add c k v)) \<subseteq> insert (k, v) (set (contents c))"
  by (auto simp: contents_add touch_def)

lemma set_get: "inv c \<Longrightarrow> set (contents (fst (get c k))) = set (contents c)"
  by (auto simp: contents_get touch_def map_of_SomeD
      dest: map_of_is_SomeI [OF keys_distinct] split: option.splits)

lemma length_add: "inv c \<Longrightarrow> length (contents (add c k v)) \<le> Suc (length (contents c))"
  by (simp add: contents_add touch_def)

lemma length_get: "inv c \<Longrightarrow> length (contents (fst (get c k))) = length (contents c)"
proof -
  assume "inv c"
  then have "set (map fst (contents (fst (get c k)))) = set (map fst (contents c))"
    by (simp add: set_get)
  moreover have "distinct (map fst (contents c))" "distinct (map fst (contents (fst (get c k))))"
    using \<open>inv c\<close> by (simp_all only: keys_distinct inv_get)
  ultimately show ?thesis
    by (metis distinct_card length_map)
qed

end

section \<open>The model implements it\<close>

lemma filter_id_key:
  assumes "distinct (map fst xs)" "distinct (map (fst \<circ> snd) xs)" "(i, k, v) \<in> set xs"
  shows "map snd (filter (\<lambda>p. fst p \<noteq> i) xs) = filter (\<lambda>q. fst q \<noteq> k) (map snd xs)"
proof -
  have "fst p \<noteq> i \<longleftrightarrow> fst (snd p) \<noteq> k" if "p \<in> set xs" for p
    using distinct_map_eqD [OF assms(1) that assms(3)] distinct_map_eqD [OF assms(2) that assms(3)]
    by (cases p) auto
  then have "filter (\<lambda>p. fst p \<noteq> i) xs = filter (\<lambda>p. fst (snd p) \<noteq> k) xs"
    by (rule filter_cong [OF refl])
  then show ?thesis
    by (simp add: filter_map comp_def)
qed

lemma distinct_map_filterI: "distinct (map f xs) \<Longrightarrow> distinct (map f (filter P xs))"
  by (simp add: distinct_map inj_on_def)

lemma lru_invD:
  assumes "lru_inv c" "cache c = Some m"
  shows "gm_wf m" "distinct (map fst (ll c))" "distinct (map (fst \<circ> snd) (ll c))"
    and "\<And>i k v. (i, k, v) \<in> set (ll c) \<Longrightarrow> i < next_elem c"
    and "\<And>k i. map_of m k = Some i \<longleftrightarrow> (\<exists>v. (i, k, v) \<in> set (ll c))"
  using assms by (auto simp: lru_inv_def)

lemma lru_invI:
  assumes "cache c = Some m" "gm_wf m" "distinct (map fst (ll c))" "distinct (map (fst \<circ> snd) (ll c))"
    and "\<And>i k v. (i, k, v) \<in> set (ll c) \<Longrightarrow> i < next_elem c"
    and "\<And>k i. map_of m k = Some i \<longleftrightarrow> (\<exists>v. (i, k, v) \<in> set (ll c))"
  shows "lru_inv c"
  using assms by (auto simp: lru_inv_def)

lemma lru_abs_keys: "lru_inv c \<Longrightarrow> distinct (map fst (lru_abs c))"
  by (auto simp: lru_inv_def lru_abs_def split: option.splits)

lemma lru_hit:
  assumes "lru_inv c" "cache c = Some m" "map_of m k = Some i"
  obtains v where "(i, k, v) \<in> set (ll c)" "map_of (ll c) i = Some (k, v)" "map_of (lru_abs c) k = Some v"
proof -
  from assms obtain v where v: "(i, k, v) \<in> set (ll c)"
    by (auto simp: lru_invD)
  have "map_of (ll c) i = Some (k, v)"
    using v assms by (simp add: lru_invD(2))
  moreover have "map_of (lru_abs c) k = Some v"
    using v by (intro map_of_is_SomeI [OF lru_abs_keys [OF assms(1)]]) (simp add: lru_abs_def rev_image_eqI)
  ultimately show ?thesis using v that by blast
qed

lemma lru_miss:
  assumes "lru_inv c" "cache c = Some m"
  shows "map_of m k = None \<longleftrightarrow> k \<notin> fst ` set (lru_abs c)"
proof -
  have "k \<in> fst ` set (lru_abs c) \<longleftrightarrow> (\<exists>i v. (i, k, v) \<in> set (ll c))"
    by (auto simp: lru_abs_def image_iff Bex_def)
  also have "\<dots> \<longleftrightarrow> (\<exists>i. map_of m k = Some i)"
    by (simp add: lru_invD(5) [OF assms])
  finally show ?thesis by auto
qed

lemma lru_inv_New: "lru_inv lru_New" and lru_abs_New: "lru_abs lru_New = []"
  by (simp_all add: lru_inv_def lru_abs_def lru_New_def)

lemma lru_inv_move:
  assumes "lru_inv c" "cache c = Some m" "(i, k, v) \<in> set (ll c)"
  shows "lru_inv (c\<lparr>ll := (i, k, w) # filter (\<lambda>p. fst p \<noteq> i) (ll c)\<rparr>)"
proof -
  note D = lru_invD [OF assms(1,2)]
  have keys: "(j, k, u) \<in> set (ll c) \<Longrightarrow> j = i" for j u
    using distinct_map_eqD [OF D(3) _ assms(3)] by force
  have ids: "(i, k', u) \<in> set (ll c) \<Longrightarrow> k' = k" for k' u
    using distinct_map_eqD [OF D(2) _ assms(3)] by force
  show ?thesis
  proof (rule lru_invI [where m = m], goal_cases)
    case 3 then show ?case using distinct_map_filterI [OF D(2)] by auto
  next
    case 4 then show ?case using distinct_map_filterI [OF D(3), of "\<lambda>p. fst p \<noteq> i"] by (auto dest: keys)
  next
    case 5 then show ?case using D(4) assms(3) by auto
  next
    case (6 k' j)
    show ?case unfolding D(5) by (auto dest: keys ids intro: assms(3))
  qed (use assms(2) D(1) in simp_all)
qed

lemma move_to_front_eq:
  "map_of xs i = Some e \<Longrightarrow> move_to_front i xs = (i, e) # filter (\<lambda>p. fst p \<noteq> i) xs"
  by (simp add: move_to_front_def)

lemma set_elem_front:
  "set_elem i v ((i, k, w) # filter (\<lambda>p. fst p \<noteq> i) xs) = (i, k, v) # filter (\<lambda>p. fst p \<noteq> i) xs"
  by (auto simp: set_elem_def intro!: map_idI)

lemma lru_abs_move:
  assumes "lru_inv c" "cache c = Some m" "(i, k, v) \<in> set (ll c)"
  shows "lru_abs (c\<lparr>ll := (i, k, w) # filter (\<lambda>p. fst p \<noteq> i) (ll c)\<rparr>) = touch k w (lru_abs c)"
  using filter_id_key [OF lru_invD(2,3) [OF assms(1,2)] assms(3)]
  by (simp add: lru_abs_def touch_def)

lemma filter_key_absent: "k \<notin> fst ` set xs \<Longrightarrow> filter (\<lambda>p. fst p \<noteq> k) xs = xs"
  by (induction xs) auto

lemma lru_inv_push:
  assumes "lru_inv c" "cache c = Some m" "map_of m k = None"
  shows "lru_inv (c\<lparr>ll := (next_elem c, k, v) # ll c, cache := Some (AList.update k (next_elem c) m),
           next_elem := Suc (next_elem c)\<rparr>)"
proof -
  note D = lru_invD [OF assms(1,2)]
  have fresh: "(next_elem c, k', u) \<notin> set (ll c)" for k' u
    using D(4) by blast
  have nokey: "(j, k, u) \<notin> set (ll c)" for j u
    using D(5) [of k j] assms(3) by auto
  show ?thesis
  proof (rule lru_invI [where m = "AList.update k (next_elem c) m"], goal_cases)
    case 3 then show ?case using D(2) fresh by auto
  next
    case 4 then show ?case using D(3) nokey by auto
  next
    case 5 then show ?case using D(4) by (auto simp: less_Suc_eq)
  next
    case (6 k' j)
    show ?case
      using fresh nokey by (cases "k' = k") (simp_all add: gomap_simps D(5), auto)
  qed (use D(1) in simp_all)
qed

lemma lru_Add_correct:
  assumes "lru_inv c"
  shows "lru_inv (lru_Add c k v) \<and> lru_abs (lru_Add c k v) = touch k v (lru_abs c)"
proof -
  define c1 where "c1 = (if cache c = None then c\<lparr>cache := Some [], ll := []\<rparr> else c)"
  have c1: "lru_inv c1" "lru_abs c1 = lru_abs c"
    using assms by (auto simp: c1_def lru_inv_def lru_abs_def)
  obtain m where m: "cache c1 = Some m"
    by (cases "cache c") (auto simp: c1_def)
  show ?thesis
  proof (cases "map_of m k")
    case None
    then have "lru_Add c k v = c1\<lparr>ll := (next_elem c1, k, v) # ll c1,
        cache := Some (AList.update k (next_elem c1) m), next_elem := Suc (next_elem c1)\<rparr>"
      using m by (simp add: lru_Add_def c1_def [symmetric])
    moreover have "filter (\<lambda>p. fst p \<noteq> k) (lru_abs c1) = lru_abs c1"
      using None lru_miss [OF c1(1) m] by (intro filter_key_absent) simp
    ultimately show ?thesis
      using lru_inv_push [OF c1(1) m None] c1(2)
      by (simp add: touch_def) (simp add: lru_abs_def)
  next
    case (Some i)
    obtain w where w: "(i, k, w) \<in> set (ll c1)" "map_of (ll c1) i = Some (k, w)"
      using lru_hit [OF c1(1) m Some] by blast
    have "lru_Add c k v = c1\<lparr>ll := (i, k, v) # filter (\<lambda>p. fst p \<noteq> i) (ll c1)\<rparr>"
      using m Some w by (simp add: lru_Add_def c1_def [symmetric] move_to_front_eq set_elem_front)
    then show ?thesis
      using lru_inv_move [OF c1(1) m w(1)] lru_abs_move [OF c1(1) m w(1)] c1(2) by simp
  qed
qed

lemma lru_Add_live: "cache (lru_Add c k v) \<noteq> None"
  by (cases "cache c") (simp_all add: lru_Add_def split: option.split)

lemma lru_Get_correct:
  assumes "lru_inv c"
  shows "lru_inv (fst (lru_Get c k)) \<and> snd (lru_Get c k) = map_of (lru_abs c) k \<and>
    lru_abs (fst (lru_Get c k)) =
      (case map_of (lru_abs c) k of None \<Rightarrow> lru_abs c | Some v \<Rightarrow> touch k v (lru_abs c))"
proof (cases "cache c")
  case None
  then show ?thesis using assms by (simp add: lru_Get_def lru_abs_def lru_inv_def)
next
  case m: (Some m)
  show ?thesis
  proof (cases "map_of m k")
    case None
    then have "map_of (lru_abs c) k = None"
      using lru_miss [OF assms m] by (simp add: map_of_eq_None_iff)
    with None m assms show ?thesis by (simp add: lru_Get_def)
  next
    case (Some i)
    obtain v where v: "(i, k, v) \<in> set (ll c)" "map_of (ll c) i = Some (k, v)"
        "map_of (lru_abs c) k = Some v"
      using lru_hit [OF assms m Some] by blast
    show ?thesis
      using v m Some lru_inv_move [OF assms m v(1)] lru_abs_move [OF assms m v(1)]
      by (simp add: lru_Get_def move_to_front_eq)
  qed
qed

lemma removeElement_correct:
  assumes "lru_inv c" "cache c = Some m" "(i, k, v) \<in> set (ll c)"
  shows "lru_inv (removeElement c i) \<and>
    lru_abs (removeElement c i) = filter (\<lambda>p. fst p \<noteq> k) (lru_abs c) \<and> cache (removeElement c i) \<noteq> None"
proof -
  note D = lru_invD [OF assms(1,2)]
  have keys: "(j, k, u) \<in> set (ll c) \<Longrightarrow> j = i" for j u
    using distinct_map_eqD [OF D(3) _ assms(3)] by force
  have ids: "(i, k', u) \<in> set (ll c) \<Longrightarrow> k' = k" for k' u
    using distinct_map_eqD [OF D(2) _ assms(3)] by force
  have eq: "removeElement c i =
      c\<lparr>ll := filter (\<lambda>p. fst p \<noteq> i) (ll c), cache := Some (AList.delete k m)\<rparr>"
    using assms D(2) by (simp add: removeElement_def)
  have "lru_inv (removeElement c i)"
    unfolding eq
  proof (rule lru_invI [where m = "AList.delete k m"], goal_cases)
    case 3 then show ?case using distinct_map_filterI [OF D(2)] by simp
  next
    case 4 then show ?case using distinct_map_filterI [OF D(3)] by simp
  next
    case 5 then show ?case using D(4) by auto
  next
    case (6 k' j)
    show ?case
      by (cases "k' = k") (auto simp add: gomap_simps D(5) dest: keys ids)
  qed (use D(1) in simp_all)
  then show ?thesis
    using filter_id_key [OF D(2,3) assms(3)] by (simp add: eq lru_abs_def)
qed


lemma lru_Remove_correct:
  assumes "lru_inv c"
  shows "lru_inv (lru_Remove c k) \<and> lru_abs (lru_Remove c k) = filter (\<lambda>p. fst p \<noteq> k) (lru_abs c)"
proof (cases "cache c")
  case None
  then show ?thesis using assms by (simp add: lru_Remove_def lru_abs_def lru_inv_def)
next
  case m: (Some m)
  show ?thesis
  proof (cases "map_of m k")
    case None
    then have "filter (\<lambda>p. fst p \<noteq> k) (lru_abs c) = lru_abs c"
      using lru_miss [OF assms m] by (intro filter_key_absent) simp
    with None m assms show ?thesis by (simp add: lru_Remove_def)
  next
    case (Some i)
    then obtain v where "(i, k, v) \<in> set (ll c)"
      using lru_hit [OF assms m] by blast
    from removeElement_correct [OF assms m this] m Some show ?thesis
      by (simp add: lru_Remove_def)
  qed
qed

lemma removeOldest_correct:
  assumes "lru_inv c"
  shows "lru_inv (removeOldest c) \<and> lru_abs (removeOldest c) = butlast (lru_abs c)"
proof (cases "ll c = []")
  case True
  then show ?thesis using assms by (simp add: removeOldest_def lru_abs_def)
next
  case False
  then obtain m where m: "cache c = Some m"
    using assms by (auto simp: lru_inv_def split: option.splits)
  obtain i k v where last: "last (ll c) = (i, k, v)" by (cases "last (ll c)") auto
  then have mem: "(i, k, v) \<in> set (ll c)" using False last_in_set by metis
  have split: "lru_abs c = butlast (lru_abs c) @ [(k, v)]"
    using append_butlast_last_id [of "lru_abs c"] False last by (simp add: lru_abs_def last_map)
  have "distinct (map fst (butlast (lru_abs c) @ [(k, v)]))"
    using lru_abs_keys [OF assms] split by simp
  then have "filter (\<lambda>p. fst p \<noteq> k) (butlast (lru_abs c) @ [(k, v)]) = butlast (lru_abs c)"
    by (simp add: filter_key_absent)
  with split have "filter (\<lambda>p. fst p \<noteq> k) (lru_abs c) = butlast (lru_abs c)" by simp
  then show ?thesis
    using removeElement_correct [OF assms m mem] False last by (simp add: removeOldest_def)
qed

lemma lru_RemoveOldest_correct:
  assumes "lru_inv c"
  shows "lru_inv (lru_RemoveOldest c) \<and> lru_abs (lru_RemoveOldest c) = butlast (lru_abs c)"
  using removeOldest_correct [OF assms] assms
  by (auto simp: lru_RemoveOldest_def lru_inv_def lru_abs_def)

lemma lru_Clear_correct: "lru_inv (lru_Clear c)" "lru_abs (lru_Clear c) = []"
  by (simp_all add: lru_Clear_def lru_inv_def lru_abs_def)

lemma lru_Len_correct: "lru_inv c \<Longrightarrow> lru_Len c = int (length (lru_abs c))"
  by (auto simp: lru_Len_def lru_inv_def lru_abs_def)

interpretation lru: recency_cache lru_New lru_Add lru_Get lru_Remove lru_RemoveOldest lru_inv lru_abs
  by unfold_locales
    (simp_all add: lru_inv_New lru_abs_New lru_Add_correct lru_Get_correct lru_Remove_correct
      lru_RemoveOldest_correct lru_abs_keys)

lemma remove_until_loop_enough:
  assumes "lru_inv c" "0 \<le> n"
  shows "\<exists>c'. remove_until_loop n c = Some c' \<and> lru_inv c' \<and> lru_abs c' = take (nat n) (lru_abs c)"
  using assms(1)
proof (induction "length (ll c)" arbitrary: c rule: less_induct)
  case less
  show ?case
  proof (cases "int (length (ll c)) > n")
    case False
    then have "length (lru_abs c) \<le> nat n" by (simp add: lru_abs_def)
    then show ?thesis
      using False less.prems by (subst remove_until_loop.simps) simp
  next
    case True
    let ?c = "removeOldest c"
    have c: "lru_inv ?c" "lru_abs ?c = butlast (lru_abs c)"
      using removeOldest_correct [OF less.prems] by auto
    have len: "length (ll ?c) = length (ll c) - 1"
      using c(2) by (metis lru_abs_def length_map length_butlast)
    moreover have "length (ll c) > 0" using True assms(2) by linarith
    ultimately have "length (ll ?c) < length (ll c)" by simp
    from less.hyps [OF this c(1)] obtain c' where c': "remove_until_loop n ?c = Some c'" "lru_inv c'"
        "lru_abs c' = take (nat n) (lru_abs ?c)" by blast
    have "take (nat n) (butlast (lru_abs c)) = take (nat n) (lru_abs c)"
      using True assms(2) by (intro take_butlast) (simp add: lru_abs_def)
    with c' c True show ?thesis by (subst remove_until_loop.simps) simp
  qed
qed

lemma remove_until_loop_result:
  assumes "remove_until_loop n c = Some r"
  shows "int (length (ll r)) \<le> n"
proof (rule remove_until_loop.raw_induct [where P = "\<lambda>n c r. int (length (ll r)) \<le> n", OF _ assms])
  fix f and n :: int and c r :: "('a, 'b) lru_cache"
  assume "\<And>n c r. f n c = Some r \<Longrightarrow> int (length (ll r)) \<le> n"
    and "(if int (length (ll c)) > n then f n (removeOldest c) else Some c) = Some r"
  then show "int (length (ll r)) \<le> n"
    by (auto split: if_splits)
qed

text \<open>
  \<^verbatim>\<open>RemoveUntilLen\<close> with a length of at least zero returns, keeps the most recent
  entries in their order and no more than the given number; with a negative length on a live
  cache its loop never ends.
\<close>

lemma lru_RemoveUntilLen_spec:
  assumes "lru_inv c" "cache c \<noteq> None"
  shows "if 0 \<le> n
    then \<exists>c'. lru_RemoveUntilLen c n = Some c' \<and> lru_inv c' \<and> lru_abs c' = take (nat n) (lru_abs c)
    else lru_RemoveUntilLen c n = None"
proof (cases "0 \<le> n")
  case True
  with remove_until_loop_enough [OF assms(1) True] assms(2) show ?thesis
    by (auto simp: lru_RemoveUntilLen_def)
next
  case False
  have "remove_until_loop n c = None"
  proof (rule ccontr)
    assume "remove_until_loop n c \<noteq> None"
    then obtain r where "remove_until_loop n c = Some r" by blast
    then have "int (length (ll r)) \<le> n" by (rule remove_until_loop_result)
    with False show False by simp
  qed
  with False assms(2) show ?thesis by (simp add: lru_RemoveUntilLen_def)
qed

text \<open>
  C5. The cache refines the recency list, operation by operation: a new cache is empty, \<^verbatim>\<open>Add\<close> puts its pair at the
  front and drops the old pair of that key, \<^verbatim>\<open>Get\<close> returns what the list holds and moves the pair to the front,
  \<^verbatim>\<open>Remove\<close> drops the key, \<^verbatim>\<open>RemoveOldest\<close> drops the last pair, \<^verbatim>\<open>Clear\<close> drops all,
  \<^verbatim>\<open>Len\<close> is the length of the list, and \<^verbatim>\<open>RemoveUntilLen\<close> keeps the most recent pairs up to the given
  number, or never returns if that is negative and the cache was not cleared. Each keeps the list and the map of elements in
  agreement.
\<close>

theorem lru_refines_recency_list:
  assumes "lru_inv c"
  shows "lru_inv lru_New \<and> lru_abs lru_New = [] \<and>
    lru_inv (lru_Add c k v) \<and> lru_abs (lru_Add c k v) = touch k v (lru_abs c) \<and>
    lru_inv (fst (lru_Get c k)) \<and> snd (lru_Get c k) = map_of (lru_abs c) k \<and>
    lru_abs (fst (lru_Get c k)) =
      (case map_of (lru_abs c) k of None \<Rightarrow> lru_abs c | Some w \<Rightarrow> touch k w (lru_abs c)) \<and>
    lru_inv (lru_Remove c k) \<and> lru_abs (lru_Remove c k) = filter (\<lambda>p. fst p \<noteq> k) (lru_abs c) \<and>
    lru_inv (lru_RemoveOldest c) \<and> lru_abs (lru_RemoveOldest c) = butlast (lru_abs c) \<and>
    lru_inv (lru_Clear c) \<and> lru_abs (lru_Clear c) = [] \<and>
    lru_Len c = int (length (lru_abs c)) \<and>
    (if 0 \<le> n \<or> cache c = None
     then \<exists>c'. lru_RemoveUntilLen c n = Some c' \<and> lru_inv c' \<and> lru_abs c' = take (nat n) (lru_abs c)
     else lru_RemoveUntilLen c n = None)"
proof -
  have until: "if 0 \<le> n \<or> cache c = None
     then \<exists>c'. lru_RemoveUntilLen c n = Some c' \<and> lru_inv c' \<and> lru_abs c' = take (nat n) (lru_abs c)
     else lru_RemoveUntilLen c n = None"
  proof (cases "cache c = None")
    case True
    then show ?thesis using assms by (simp add: lru_RemoveUntilLen_def lru_inv_def lru_abs_def)
  qed (use lru_RemoveUntilLen_spec [OF assms, of n] in auto)
  show ?thesis
    using assms until
    by (simp only: lru_inv_New lru_abs_New lru_Add_correct lru_Get_correct lru_Remove_correct lru_RemoveOldest_correct
        lru_Clear_correct lru_Len_correct simp_thms)
qed

theorem lru_refines_recency_list_witness:
  "let c = lru_Add (lru_Add lru_New ''a'' (1::nat)) ''b'' 2 in
   lru_abs (lru_Add c ''a'' 3) = [(''a'', 3), (''b'', 2)] \<and> lru_Len c = 2 \<and>
   (\<exists>c'. lru_RemoveUntilLen c 1 = Some c' \<and> lru_abs c' = [(''b'', 2)])"
proof -
  let ?c = "lru_Add (lru_Add lru_New ''a'' (1::nat)) ''b'' 2"
  have inv: "lru_inv ?c" by (simp add: lru_Add_correct lru_inv_New)
  have "lru_abs ?c = [(''b'', 2), (''a'', 1)]"
    by (simp add: lru_Add_correct lru_inv_New lru_abs_New touch_def)
  then show ?thesis
    using lru_refines_recency_list [OF inv, of "''a''" 3 1] by (auto simp: touch_def)
qed

end
