(* ===== verification/Utf8_Text.thy ===== *)
theory Utf8_Text
  imports Main
begin

text \<open>
  Go strings and runes. A string is its bytes; ranging over it, or converting it to \<^verbatim>\<open>[]rune\<close>, decodes UTF-8, and
  converting runes to a string encodes them.

  \<^item> \<open>decode_rune\<close> is \<^verbatim>\<open>utf8.DecodeRuneInString\<close>: the first rune and its width. A byte that does not start a
    valid sequence is the rune U+FFFD of width 1. The checks reject overlong forms, surrogates and values above U+10FFFF.
  \<^item> \<open>runes\<close> is the sequence of runes of a string, \<open>encode_runes\<close> the string of a sequence of runes.
  \<^item> \<open>to_valid\<close> is what both make of a string: each byte outside a valid sequence becomes U+FFFD, and a valid string stays
    as it is (\<open>to_valid_id\<close>).
\<close>

section \<open>Decoding\<close>

text \<open>A byte past the end counts as 0, which no sequence continues with.\<close>

definition byte_at :: "string \<Rightarrow> nat \<Rightarrow> nat" where
  "byte_at s i = (if i < length s then of_char (s ! i) else 0)"

definition continues :: "nat \<Rightarrow> bool" where
  "continues b \<longleftrightarrow> 0x80 \<le> b \<and> b \<le> 0xBF"

definition second_byte :: "nat \<Rightarrow> nat \<Rightarrow> bool" where
  "second_byte a b \<longleftrightarrow>
     (if a = 0xE0 then 0xA0 else if a = 0xF0 then 0x90 else 0x80) \<le> b \<and>
     b \<le> (if a = 0xED then 0x9F else if a = 0xF4 then 0x8F else 0xBF)"

definition RuneError :: nat where
  "RuneError = 0xFFFD"

definition decode_rune :: "string \<Rightarrow> nat \<times> nat" where
  "decode_rune s =
     (let a = byte_at s 0; b = byte_at s 1; c = byte_at s 2; d = byte_at s 3 in
      if a < 0x80 then (a, 1)
      else if 0xC2 \<le> a \<and> a \<le> 0xDF \<and> continues b then ((a - 0xC0) * 64 + (b - 0x80), 2)
      else if 0xE0 \<le> a \<and> a \<le> 0xEF \<and> second_byte a b \<and> continues c
        then ((a - 0xE0) * 4096 + (b - 0x80) * 64 + (c - 0x80), 3)
      else if 0xF0 \<le> a \<and> a \<le> 0xF4 \<and> second_byte a b \<and> continues c \<and> continues d
        then ((a - 0xF0) * 262144 + (b - 0x80) * 4096 + (c - 0x80) * 64 + (d - 0x80), 4)
      else (RuneError, 1))"

function runes :: "string \<Rightarrow> nat list" where
  "runes s = (if s = [] then [] else fst (decode_rune s) # runes (drop (snd (decode_rune s)) s))"
  by pat_completeness auto
termination
  by (relation "measure length") (auto simp: decode_rune_def Let_def)

declare runes.simps [simp del]

text \<open>No byte is outside a valid sequence.\<close>

function valid_utf8 :: "string \<Rightarrow> bool" where
  "valid_utf8 s \<longleftrightarrow>
     (if s = [] then True
      else (byte_at s 0 < 0x80 \<or> 1 < snd (decode_rune s)) \<and> valid_utf8 (drop (snd (decode_rune s)) s))"
  by pat_completeness auto
termination
  by (relation "measure length") (auto simp: decode_rune_def Let_def)

declare valid_utf8.simps [simp del]

section \<open>Encoding\<close>

definition encode_rune :: "nat \<Rightarrow> string" where
  "encode_rune r =
     (if r < 0x80 then [char_of r]
      else if r < 0x800 then [char_of (0xC0 + r div 64), char_of (0x80 + r mod 64)]
      else if 0x10FFFF < r \<or> 0xD800 \<le> r \<and> r \<le> 0xDFFF then [char_of (0xEF :: nat), char_of (0xBF :: nat), char_of (0xBD :: nat)]
      else if r < 0x10000 then [char_of (0xE0 + r div 4096), char_of (0x80 + r div 64 mod 64), char_of (0x80 + r mod 64)]
      else [char_of (0xF0 + r div 262144), char_of (0x80 + r div 4096 mod 64), char_of (0x80 + r div 64 mod 64),
            char_of (0x80 + r mod 64)])"

definition encode_runes :: "nat list \<Rightarrow> string" where
  "encode_runes rs = concat (map encode_rune rs)"

definition to_valid :: "string \<Rightarrow> string" where
  "to_valid s = encode_runes (runes s)"

section \<open>Encoding what was decoded\<close>

lemma byte_at_pos: "0 < byte_at s i \<Longrightarrow> i < length s \<and> s ! i = char_of (byte_at s i)"
  by (simp add: byte_at_def split: if_splits)

lemma take_bytes:
  assumes "\<forall>i < n. 0 < byte_at s i"
  shows "take n s = map (\<lambda>i. char_of (byte_at s i)) [0..<n]"
  using assms
proof (induction n)
  case (Suc n)
  have "n < length s" "s ! n = char_of (byte_at s n)" using Suc.prems byte_at_pos [of s n] by auto
  then show ?case using Suc by (simp add: take_Suc_conv_app_nth)
qed simp

lemma take_sequence:
  "0 < byte_at s 0 \<Longrightarrow> 0 < byte_at s 1 \<Longrightarrow> take 2 s = map (\<lambda>i. char_of (byte_at s i)) [0, 1]"
  "0 < byte_at s 0 \<Longrightarrow> 0 < byte_at s 1 \<Longrightarrow> 0 < byte_at s 2 \<Longrightarrow> take 3 s = map (\<lambda>i. char_of (byte_at s i)) [0, 1, 2]"
  "0 < byte_at s 0 \<Longrightarrow> 0 < byte_at s 1 \<Longrightarrow> 0 < byte_at s 2 \<Longrightarrow> 0 < byte_at s 3 \<Longrightarrow>
    take 4 s = map (\<lambda>i. char_of (byte_at s i)) [0, 1, 2, 3]"
  using take_bytes [of 2 s] take_bytes [of 3 s] take_bytes [of 4 s] by (simp_all add: numeral_eq_Suc All_less_Suc)

lemma six_bits:
  assumes "(b :: nat) < 64"
  shows "(q * 64 + b) div 64 = q" "(q * 64 + b) mod 64 = b"
  using assms by simp_all

lemma div_64_64: "(r :: nat) div 4096 = r div 64 div 64" "(r :: nat) div 262144 = r div 64 div 64 div 64"
  by (simp_all flip: div_mult2_eq)

lemma continues_bits: "continues b \<Longrightarrow> b - 0x80 < 64 \<and> 0x80 + (b - 0x80) = b"
  by (auto simp: continues_def)

lemma second_continues: "second_byte a b \<Longrightarrow> continues b"
  by (auto simp: second_byte_def continues_def split: if_splits)

lemma encode_decode2:
  assumes "0xC2 \<le> a" "a \<le> 0xDF" "continues b"
  shows "encode_rune ((a - 0xC0) * 64 + (b - 0x80)) = [char_of a, char_of b]"
proof -
  define r where "r = (a - 0xC0) * 64 + (b - 0x80)"
  note b = continues_bits [OF assms(3), THEN conjunct1] continues_bits [OF assms(3), THEN conjunct2]
  have "r div 64 = a - 0xC0" "r mod 64 = b - 0x80" unfolding r_def by (rule six_bits [OF b(1)])+
  moreover have "\<not> r < 0x80" "r < 0x800" "0xC0 + (a - 0xC0) = a" using assms(1,2) b(1) unfolding r_def by linarith+
  ultimately show ?thesis unfolding r_def [symmetric] using b(2) by (simp add: encode_rune_def)
qed

lemma encode_decode3:
  assumes "0xE0 \<le> a" "a \<le> 0xEF" "second_byte a b" "continues c"
  shows "encode_rune ((a - 0xE0) * 4096 + (b - 0x80) * 64 + (c - 0x80)) = [char_of a, char_of b, char_of c]"
proof -
  define q r where "q = (a - 0xE0) * 64 + (b - 0x80)" and "r = q * 64 + (c - 0x80)"
  note b = continues_bits [OF second_continues [OF assms(3)], THEN conjunct1] continues_bits [OF second_continues [OF assms(3)], THEN conjunct2]
  note c = continues_bits [OF assms(4), THEN conjunct1] continues_bits [OF assms(4), THEN conjunct2]
  have eq: "(a - 0xE0) * 4096 + (b - 0x80) * 64 + (c - 0x80) = r" by (simp add: q_def r_def)
  have q: "q div 64 = a - 0xE0" "q mod 64 = b - 0x80" unfolding q_def by (rule six_bits [OF b(1)])+
  have r: "r div 64 = q" "r mod 64 = c - 0x80" unfolding r_def by (rule six_bits [OF c(1)])+
  have a: "0xE0 + (a - 0xE0) = a" using assms(1) by simp
  have size: "\<not> r < 0x80" "\<not> r < 0x800" "\<not> 0x10FFFF < r" "r < 0x10000"
    using assms(1-3) b(1) c(1) by (auto simp: q_def r_def second_byte_def split: if_splits)
  moreover have "\<not> (0xD800 \<le> r \<and> r \<le> 0xDFFF)"
    using assms(1-3) b c(1) by (auto simp: q_def r_def second_byte_def split: if_splits)
  ultimately show ?thesis
    unfolding eq using q r a b(2) c(2) by (auto simp: encode_rune_def div_64_64)
qed

lemma encode_decode4:
  assumes "0xF0 \<le> a" "a \<le> 0xF4" "second_byte a b" "continues c" "continues d"
  shows "encode_rune ((a - 0xF0) * 262144 + (b - 0x80) * 4096 + (c - 0x80) * 64 + (d - 0x80)) =
    [char_of a, char_of b, char_of c, char_of d]"
proof -
  define p q r where "p = (a - 0xF0) * 64 + (b - 0x80)" and "q = p * 64 + (c - 0x80)" and "r = q * 64 + (d - 0x80)"
  note b = continues_bits [OF second_continues [OF assms(3)], THEN conjunct1] continues_bits [OF second_continues [OF assms(3)], THEN conjunct2]
  note c = continues_bits [OF assms(4), THEN conjunct1] continues_bits [OF assms(4), THEN conjunct2]
  note d = continues_bits [OF assms(5), THEN conjunct1] continues_bits [OF assms(5), THEN conjunct2]
  have eq: "(a - 0xF0) * 262144 + (b - 0x80) * 4096 + (c - 0x80) * 64 + (d - 0x80) = r" by (simp add: p_def q_def r_def)
  have p: "p div 64 = a - 0xF0" "p mod 64 = b - 0x80" unfolding p_def by (rule six_bits [OF b(1)])+
  have q: "q div 64 = p" "q mod 64 = c - 0x80" unfolding q_def by (rule six_bits [OF c(1)])+
  have r: "r div 64 = q" "r mod 64 = d - 0x80" unfolding r_def by (rule six_bits [OF d(1)])+
  have a: "0xF0 + (a - 0xF0) = a" using assms(1) by simp
  have "\<not> r < 0x10000" "\<not> 0x10FFFF < r"
    using assms(1-3) b(1) c(1) d(1) by (auto simp: p_def q_def r_def second_byte_def split: if_splits)
  then show ?thesis
    unfolding eq using p q r a b(2) c(2) d(2) by (simp add: encode_rune_def div_64_64)
qed

lemma encode_decode:
  assumes "s \<noteq> []" "byte_at s 0 < 0x80 \<or> 1 < snd (decode_rune s)"
  shows "encode_rune (fst (decode_rune s)) = take (snd (decode_rune s)) s"
proof -
  define a b c d where "a = byte_at s 0" and "b = byte_at s 1" and "c = byte_at s 2" and "d = byte_at s 3"
  note bytes = a_def [symmetric] b_def [symmetric] b_def [simplified, symmetric] c_def [symmetric] d_def [symmetric]
  have dec: "decode_rune s = (let a = a; b = b; c = c; d = d in
      if a < 0x80 then (a, 1)
      else if 0xC2 \<le> a \<and> a \<le> 0xDF \<and> continues b then ((a - 0xC0) * 64 + (b - 0x80), 2)
      else if 0xE0 \<le> a \<and> a \<le> 0xEF \<and> second_byte a b \<and> continues c
        then ((a - 0xE0) * 4096 + (b - 0x80) * 64 + (c - 0x80), 3)
      else if 0xF0 \<le> a \<and> a \<le> 0xF4 \<and> second_byte a b \<and> continues c \<and> continues d
        then ((a - 0xF0) * 262144 + (b - 0x80) * 4096 + (c - 0x80) * 64 + (d - 0x80), 4)
      else (RuneError, 1))"
    unfolding decode_rune_def bytes ..
  have pos: "continues x \<Longrightarrow> 0 < x" for x by (simp add: continues_def)
  consider (one) "a < 0x80" | (two) "\<not> a < 0x80" "0xC2 \<le> a \<and> a \<le> 0xDF \<and> continues b"
    | (three) "0xE0 \<le> a \<and> a \<le> 0xEF \<and> second_byte a b \<and> continues c"
    | (four) "0xF0 \<le> a \<and> a \<le> 0xF4 \<and> second_byte a b \<and> continues c \<and> continues d"
    using assms(2) by (auto simp: dec bytes split: if_splits)
  then show ?thesis
  proof cases
    case one
    have "take 1 s = [char_of a]" using assms(1) by (cases s) (simp_all add: a_def byte_at_def)
    then show ?thesis using one by (simp add: dec encode_rune_def)
  next
    case two
    have "take 2 s = [char_of a, char_of b]"
      using take_sequence(1) [of s] two pos [of b] pos [of c] pos [of d] second_continues [of a b] by (simp add: bytes)
    then show ?thesis using two encode_decode2 [of a b] by (simp add: dec)
  next
    case three
    have "take 3 s = [char_of a, char_of b, char_of c]"
      using take_sequence(2) [of s] three pos [of b] pos [of c] pos [of d] second_continues [of a b] by (simp add: bytes)
    then show ?thesis using three encode_decode3 [of a b c] by (simp add: dec)
  next
    case four
    have "take 4 s = [char_of a, char_of b, char_of c, char_of d]"
      using take_sequence(3) [of s] four pos [of b] pos [of c] pos [of d] second_continues [of a b] by (simp add: bytes)
    then show ?thesis using four encode_decode4 [of a b c d] by (simp add: dec)
  qed
qed

lemma to_valid_id: "valid_utf8 s \<Longrightarrow> to_valid s = s"
proof (induction s rule: valid_utf8.induct)
  case (1 s)
  show ?case
  proof (cases "s = []")
    case True
    then show ?thesis by (simp add: to_valid_def encode_runes_def runes.simps)
  next
    case False
    have "byte_at s 0 < 0x80 \<or> 1 < snd (decode_rune s)" "valid_utf8 (drop (snd (decode_rune s)) s)"
      using "1.prems" False valid_utf8.simps [of s] by simp_all
    with 1 False encode_decode [OF False] show ?thesis
      by (simp add: to_valid_def encode_runes_def runes.simps [of s])
  qed
qed

lemma valid_ascii: "\<forall>c \<in> set s. of_char c < (0x80 :: nat) \<Longrightarrow> valid_utf8 s"
proof (induction s)
  case (Cons c s)
  then have "decode_rune (c # s) = (of_char c, 1)" by (simp add: decode_rune_def byte_at_def)
  with Cons show ?case by (simp add: valid_utf8.simps [of "c # s"] byte_at_def)
qed (simp add: valid_utf8.simps)

text \<open>The bytes of a rune that is not ASCII are not ASCII, so an ASCII character can be taken out of the runes or of the bytes.\<close>

lemma encode_rune_high: "0x80 \<le> r \<Longrightarrow> c \<in> set (encode_rune r) \<Longrightarrow> (0x80 :: nat) \<le> of_char c"
proof -
  assume r: "0x80 \<le> r" and c: "c \<in> set (encode_rune r)"
  have high: "(0x80 :: nat) \<le> of_char (char_of n :: char)" if "0x80 \<le> n" "n < 256" for n :: nat
    using that by (simp add: of_char_of)
  have "r < 0x800 \<Longrightarrow> 0xC0 + r div 64 < 256" "r < 0x10000 \<Longrightarrow> 0xE0 + r div 4096 < 256" "r \<le> 0x10FFFF \<Longrightarrow> 0xF0 + r div 262144 < 256"
    by linarith+
  moreover have "x mod 64 < 64" for x :: nat by simp
  ultimately show ?thesis
    using r c high by (auto simp: encode_rune_def not_less split: if_splits)
qed

lemma filter_runes:
  assumes "\<forall>c \<in> A. of_char c < (0x80 :: nat)"
  shows "encode_runes (filter (\<lambda>r. r \<notin> of_char ` A) rs) = filter (\<lambda>c. c \<notin> A) (encode_runes rs)"
proof (induction rs)
  case (Cons r rs)
  have "filter (\<lambda>c. c \<notin> A) (encode_rune r) = (if r \<in> of_char ` A then [] else encode_rune r)"
  proof (cases "r < 0x80")
    case True
    have "r \<in> of_char ` A \<longleftrightarrow> char_of r \<in> A" using True by (force simp: image_iff of_char_of)
    with True show ?thesis by (simp add: encode_rune_def)
  next
    case False
    then have "\<forall>c \<in> set (encode_rune r). c \<notin> A" using assms encode_rune_high [of r] by force
    moreover have "r \<notin> of_char ` A" using assms False by auto
    ultimately show ?thesis by (simp add: filter_id_conv)
  qed
  with Cons show ?case by (simp add: encode_runes_def)
qed (simp add: encode_runes_def)

end
