(* ===== verification/Helpers.thy ===== *)
theory Helpers
  imports Lru_Cache Utf8_Text "HOL-Library.Word" "HOL-Library.Sublist"
begin

text \<open>
  The functions of \<^verbatim>\<open>pkg/helpers/helpers.go\<close> that the inventory pipeline calls:
  \<open>SanitizeFileName\<close> with its LRU cache passed as state, \<open>ExpBackoff\<close> at the
  widths of the source (a 32-bit retry count, 64-bit durations), the removal of empty and
  duplicate entries, and \<open>SplitRightSubstring\<close>.

  A file name is its bytes; sanitizing it decodes runes and encodes those that are kept (\<open>Utf8_Text\<close>).
\<close>

section \<open>SanitizeFileName\<close>

definition SanitizeFileNameCacheSize :: int where
  "SanitizeFileNameCacheSize = 1000"

definition forbidden_runes :: "char list" where
  "forbidden_runes = [CHR 0x5C, CHR ''/'', CHR '':'', CHR ''*'', CHR ''?'', CHR 0x22, CHR ''<'', CHR ''>'', CHR ''|'']"

definition sanitize_runes :: "string \<Rightarrow> string" where
  "sanitize_runes fileName = encode_runes (filter (\<lambda>c. c \<notin> of_char ` set forbidden_runes) (runes fileName))"

definition SanitizeFileName ::
    "(string, string) lru_cache \<Rightarrow> string \<Rightarrow> ((string, string) lru_cache \<times> string) option" where
  "SanitizeFileName c fileName =
     (if fileName = [] then Some (c, fileName)
      else case lru_Get c fileName of
             (c1, Some value) \<Rightarrow> Some (c1, value)
           | (c1, None) \<Rightarrow>
               (let result = sanitize_runes fileName in
                case lru_RemoveUntilLen c1 SanitizeFileNameCacheSize of
                  None \<Rightarrow> None
                | Some c2 \<Rightarrow> Some (lru_Add c2 fileName result, result)))"

section \<open>ExpBackoff\<close>

definition MaxBackoffErrorCount :: nat where
  "MaxBackoffErrorCount = 31"

text \<open>\<^verbatim>\<open>x << n\<close> on a signed 64-bit value: a shift by 64 or more gives 0.\<close>

definition shl_int64 :: "int \<Rightarrow> nat \<Rightarrow> int" where
  "shl_int64 x n = (if 64 \<le> n then 0 else to_int64 (x * 2 ^ n))"

definition ExpBackoff :: "duration \<Rightarrow> duration \<Rightarrow> 32 word \<Rightarrow> duration" where
  "ExpBackoff base maxd count =
     (if MaxBackoffErrorCount \<le> unat count then maxd
      else let backoff = to_int64 (to_int64 (shl_int64 1 (unat (count - 1)) * second) + base)
           in if backoff > maxd then maxd else backoff)"

section \<open>RemoveEmptyAndDuplicateEntries, SplitRightSubstring\<close>

fun remove_empty_dups_loop :: "string list \<Rightarrow> string list \<Rightarrow> string set \<Rightarrow> string list" where
  "remove_empty_dups_loop [] uniques uniquesMap = uniques"
| "remove_empty_dups_loop (entry # entries) uniques uniquesMap =
     (if entry \<noteq> [] \<and> entry \<notin> uniquesMap
      then remove_empty_dups_loop entries (uniques @ [entry]) (insert entry uniquesMap)
      else remove_empty_dups_loop entries uniques uniquesMap)"

definition RemoveEmptyAndDuplicateEntries :: "string list \<Rightarrow> string list" where
  "RemoveEmptyAndDuplicateEntries entries = remove_empty_dups_loop entries [] {}"

text \<open>\<^verbatim>\<open>strings.Index\<close>: the first position of a substring, \<open>-1\<close> if there is none.\<close>

fun strings_Index :: "string \<Rightarrow> string \<Rightarrow> int" where
  "strings_Index s sub =
     (if take (length sub) s = sub then 0
      else case s of [] \<Rightarrow> -1
           | _ # s' \<Rightarrow> (let r = strings_Index s' sub in if r = -1 then -1 else r + 1))"

declare strings_Index.simps [simp del]

definition SplitRightSubstring :: "string \<Rightarrow> string \<Rightarrow> string \<Rightarrow> string" where
  "SplitRightSubstring output substring separator =
     (let idx = strings_Index output substring in
      if idx = -1 then []
      else let start = nat idx + length substring;
               right = strings_Index (drop start output) separator
           in if right = -1 then [] else take (nat right) (drop start output))"

section \<open>Lemmas\<close>

definition sanitize_inv :: "(string, string) lru_cache \<Rightarrow> bool" where
  "sanitize_inv c \<longleftrightarrow> lru_inv c \<and> cache c \<noteq> None \<and>
     (\<forall>(k, v) \<in> set (lru_abs c). v = sanitize_runes k) \<and>
     length (lru_abs c) \<le> 1001"

lemma sanitize_runes_filter: "sanitize_runes s = filter (\<lambda>c. c \<notin> set forbidden_runes) (to_valid s)"
  unfolding sanitize_runes_def to_valid_def by (rule filter_runes) (simp add: forbidden_runes_def)

lemma sanitize_runes_valid: "valid_utf8 s \<Longrightarrow> sanitize_runes s = filter (\<lambda>c. c \<notin> set forbidden_runes) s"
  by (simp add: sanitize_runes_filter to_valid_id)

lemma lru_Get_live: "cache c \<noteq> None \<Longrightarrow> cache (fst (lru_Get c k)) \<noteq> None"
  by (auto simp: lru_Get_def split: option.splits)

lemma length_touch_new: "k \<notin> fst ` set xs \<Longrightarrow> length (touch k v xs) = Suc (length xs)"
  by (simp add: touch_def filter_key_absent)

text \<open>
  C17. \<^verbatim>\<open>SanitizeFileName\<close> always returns, and what it returns is the name without the nine characters a file name
  may not have, whatever the cache holds: the cache never changes a result and keeps its invariant. Each byte of the name that is not
  part of valid UTF-8 becomes the replacement character U+FFFD; a valid name has none. The cache holds up to 1001 names, one more than
  its documented maximum: on a name it does not know it is first cut to 1000 and then gets the name.
\<close>

theorem SanitizeFileName_correct:
  assumes "sanitize_inv c"
  shows "\<exists>c'. SanitizeFileName c fileName = Some (c', filter (\<lambda>x. x \<notin> set forbidden_runes) (to_valid fileName)) \<and>
    sanitize_inv c' \<and> (valid_utf8 fileName \<longrightarrow> to_valid fileName = fileName) \<and>
    length (lru_abs c') = (if fileName = [] \<or> fileName \<in> fst ` set (lru_abs c) then length (lru_abs c)
      else Suc (min 1000 (length (lru_abs c))))"
proof (cases "fileName = []")
  case True
  have "to_valid [] = []" by (simp add: to_valid_def runes.simps encode_runes_def)
  with True show ?thesis using assms by (simp add: SanitizeFileName_def)
next
  case False
  obtain c1 r where get: "lru_Get c fileName = (c1, r)" by (cases "lru_Get c fileName")
  have inv: "lru_inv c" and vals: "\<And>k v. (k, v) \<in> set (lru_abs c) \<Longrightarrow> v = sanitize_runes k"
    using assms by (auto simp: sanitize_inv_def)
  have c1: "lru_inv c1" "set (lru_abs c1) = set (lru_abs c)" "length (lru_abs c1) = length (lru_abs c)"
      "cache c1 \<noteq> None"
    using lru.inv_get [OF inv, of fileName] lru.set_get [OF inv, of fileName]
      lru.length_get [OF inv, of fileName] lru_Get_live [of c fileName] assms get by (auto simp: sanitize_inv_def)
  have r: "r = map_of (lru_abs c) fileName"
    using lru.get_value [OF inv, of fileName] get by simp
  show ?thesis
  proof (cases r)
    case (Some v)
    then have "v = sanitize_runes fileName" "fileName \<in> fst ` set (lru_abs c)"
      using r vals by (metis map_of_SomeD, metis map_of_eq_None_iff option.distinct(1))
    then show ?thesis
      using False get Some c1 assms
      by (auto simp: SanitizeFileName_def sanitize_inv_def sanitize_runes_filter to_valid_id)
  next
    case None
    then have new: "fileName \<notin> fst ` set (lru_abs c)" using r by (simp add: map_of_eq_None_iff)
    obtain c2 where c2: "lru_RemoveUntilLen c1 1000 = Some c2" "lru_inv c2"
        "lru_abs c2 = take 1000 (lru_abs c1)"
      using remove_until_loop_enough [OF c1(1), of 1000] c1(4) by (auto simp: lru_RemoveUntilLen_def)
    let ?c3 = "lru_Add c2 fileName (sanitize_runes fileName)"
    have sub: "set (lru_abs c2) \<subseteq> set (lru_abs c)"
      using c2(3) c1(2) set_take_subset by fastforce
    then have "fileName \<notin> fst ` set (lru_abs c2)" using new by blast
    then have len: "length (lru_abs ?c3) = Suc (min 1000 (length (lru_abs c)))"
      using lru.contents_add [OF c2(2)] c2(3) c1(3) by (simp add: length_touch_new min.commute)
    have "\<forall>(k, v) \<in> set (lru_abs ?c3). v = sanitize_runes k"
      using lru.set_add_subset [OF c2(2), of fileName "sanitize_runes fileName"] vals sub by blast
    then have "sanitize_inv ?c3"
      using lru.inv_add [OF c2(2)] lru_Add_live len by (simp add: sanitize_inv_def)
    then show ?thesis
      using False get None c2 new len
      by (simp add: SanitizeFileName_def SanitizeFileNameCacheSize_def sanitize_runes_filter to_valid_id Let_def)
  qed
qed

theorem SanitizeFileName_correct_witness:
  "\<exists>c'. SanitizeFileName lru_New ''instance:db/1'' = Some (c', ''instancedb1'') \<and> length (lru_abs c') = 1"
proof -
  have "sanitize_inv lru_New"
    by (simp add: sanitize_inv_def lru_inv_New lru_abs_New) (simp add: lru_New_def)
  moreover have "valid_utf8 ''instance:db/1''" by (rule valid_ascii) simp
  ultimately show ?thesis
    using SanitizeFileName_correct [of lru_New "''instance:db/1''"] by (auto simp: forbidden_runes_def lru_abs_New)
qed

lemma in_int64_seconds:
  "0 < x \<Longrightarrow> x \<le> 2 ^ 29 \<Longrightarrow> 0 \<le> base \<Longrightarrow> base \<le> 2 ^ 62 \<Longrightarrow> in_int64 (x * 1000000000 + base)"
  "0 < x \<Longrightarrow> x \<le> 2 ^ 29 \<Longrightarrow> in_int64 x"
  by (simp_all add: in_int64_def min_int64_def max_int64_def)

lemma shl_second:
  assumes "n < 30"
  shows "to_int64 (shl_int64 1 n * second) = 2 ^ n * 1000000000"
proof -
  have "(2::int) ^ n \<le> 2 ^ 29" using assms by (intro power_increasing) auto
  moreover have "(0::int) < 2 ^ n" by simp
  ultimately have "in_int64 (2 ^ n)" "in_int64 (2 ^ n * 1000000000 + 0)"
    using in_int64_seconds(1) [of "2 ^ n" 0] in_int64_seconds(2) [of "2 ^ n"] by auto
  then show ?thesis
    using assms by (simp add: shl_int64_def second_def to_int64_id)
qed

lemma unat_minus_one_word32: "0 < unat (count :: 32 word) \<Longrightarrow> unat (count - 1) = unat count - 1"
  by (metis unat_minus_one unat_eq_0 less_numeral_extra(3))

lemma ExpBackoff_value:
  assumes "0 \<le> base" "base \<le> 2 ^ 62"
  shows "ExpBackoff base maxd count =
    (if 31 \<le> unat count then maxd
     else if count = 0 then min base maxd
     else min maxd (2 ^ (unat count - 1) * 1000000000 + base))"
proof -
  consider "31 \<le> unat count" | "count = 0" | "0 < unat count" "unat count < 31"
    by (metis not_le unat_eq_zero gr0I)
  then show ?thesis
  proof cases
    case 1
    then show ?thesis by (simp add: ExpBackoff_def MaxBackoffErrorCount_def)
  next
    case 2
    have "64 \<le> unat (0 - 1 :: 32 word)" by (simp add: unsigned_minus_1_eq_mask mask_eq_exp_minus_1)
    then have "to_int64 (to_int64 (shl_int64 1 (unat (0 - 1 :: 32 word)) * second) + base) = base"
      using assms by (simp add: shl_int64_def to_int64_id in_int64_def min_int64_def max_int64_def)
    with 2 show ?thesis by (simp add: ExpBackoff_def MaxBackoffErrorCount_def min_def Let_def)
  next
    case 3
    let ?n = "unat count - 1"
    have "(2::int) ^ ?n \<le> 2 ^ 29" using 3 by (intro power_increasing) auto
    moreover have "(0::int) < 2 ^ ?n" by simp
    ultimately have "to_int64 (2 ^ ?n * 1000000000 + base) = 2 ^ ?n * 1000000000 + base"
      using assms by (intro to_int64_id in_int64_seconds)
    moreover have "count \<noteq> 0" using 3 by auto
    ultimately show ?thesis
      using 3 shl_second [of ?n] unat_minus_one_word32 [OF 3(1)]
      by (simp add: ExpBackoff_def MaxBackoffErrorCount_def min_def Let_def)
  qed
qed

text \<open>
  The retry interval of \<^verbatim>\<open>ExpBackoff\<close> is the base after no failure, doubles its
  extra seconds with every further failure, never leaves the range from the base to the maximum
  (nothing wraps, although the shift and the product are 64-bit), and never gets shorter when the
  failure count grows.
\<close>

lemma ExpBackoff_bounds_mono:
  assumes "0 \<le> base" "base \<le> maxd" "base \<le> 2 ^ 62" "unat c \<le> unat d"
  shows "base \<le> ExpBackoff base maxd c \<and> ExpBackoff base maxd d \<le> maxd \<and>
    ExpBackoff base maxd 0 = base \<and> ExpBackoff base maxd c \<le> ExpBackoff base maxd d"
proof -
  define a b where "a = (2::int) ^ (unat c - 1)" and "b = (2::int) ^ (unat d - 1)"
  have ab: "0 < a" "a \<le> b"
    using assms(4) unfolding a_def b_def by (simp, intro power_increasing) auto
  have value_c: "ExpBackoff base maxd c = (if 31 \<le> unat c then maxd
      else if unat c = 0 then min base maxd else min maxd (a * 1000000000 + base))"
    and value_d: "ExpBackoff base maxd d = (if 31 \<le> unat d then maxd
      else if unat d = 0 then min base maxd else min maxd (b * 1000000000 + base))"
    using assms(1,3) by (simp_all only: ExpBackoff_value a_def b_def unat_eq_0)
  have "ExpBackoff base maxd 0 = base"
    using assms by (simp add: ExpBackoff_value)
  then show ?thesis
    unfolding value_c value_d using assms ab by auto
qed

lemma remove_empty_dups_loop_spec:
  assumes "set uniques = seen" "distinct uniques" "[] \<notin> seen"
  shows "distinct (remove_empty_dups_loop es uniques seen) \<and>
    set (remove_empty_dups_loop es uniques seen) = seen \<union> (set es - {[]}) \<and>
    (\<exists>rest. remove_empty_dups_loop es uniques seen = uniques @ rest \<and> subseq rest es)"
  using assms
proof (induction es arbitrary: uniques seen)
  case Nil
  then show ?case by simp
next
  case (Cons e es)
  show ?case
  proof (cases "e \<noteq> [] \<and> e \<notin> seen")
    case True
    have "set (uniques @ [e]) = insert e seen" "distinct (uniques @ [e])" "[] \<notin> insert e seen"
      using True Cons.prems by auto
    from Cons.IH [OF this] obtain rest where
      "remove_empty_dups_loop es (uniques @ [e]) (insert e seen) = uniques @ e # rest" "subseq rest es"
      by auto
    with Cons.IH [OF \<open>set (uniques @ [e]) = insert e seen\<close>] True Cons.prems show ?thesis by auto
  next
    case False
    with Cons.IH [OF Cons.prems] Cons.prems show ?thesis by auto
  qed
qed

text \<open>
  \<^verbatim>\<open>RemoveEmptyAndDuplicateEntries\<close> returns the distinct non-empty entries, each
  once, as a subsequence of the input.
\<close>

lemma RemoveEmptyAndDuplicateEntries_spec:
  "distinct (RemoveEmptyAndDuplicateEntries es) \<and>
   set (RemoveEmptyAndDuplicateEntries es) = set es - {[]} \<and>
   subseq (RemoveEmptyAndDuplicateEntries es) es"
  using remove_empty_dups_loop_spec [of "[]" "{}" es]
  by (auto simp: RemoveEmptyAndDuplicateEntries_def)

end
