(* ===== verification/Delta_Store.thy ===== *)
theory Delta_Store
  imports Json_Text File_System Helpers
begin

text \<open>
  The inventory store of \<^verbatim>\<open>internal/agent/delta\<close>: plugin information (\<^verbatim>\<open>plugins.go\<close>) and the
  store itself (\<^verbatim>\<open>store.go\<close>), on the disk of \<open>File_System\<close> with the texts of \<open>Json_Text\<close>.

  A plugin writes its inventory to a source file in the data directory. For every changed source the store appends a delta
  to the journal of the plugin (the \<^verbatim>\<open>.pending\<close> file), numbers it, and copies the source to the cache
  directory. \<open>ReadDeltas\<close> collects the journals for submission; \<open>UpdateState\<close> records what the
  backend answered and drops what it has.

  \<^item> \<open>Store\<close> is the struct together with the disk it works on. The mutex guards the default entity only and no
    operation holds it across a call, so it is left out. Sanitizing a name does not depend on the cache of names.
  \<^item> \<open>ext\<close> are the parameters: \<open>float_text\<close>, how \<^verbatim>\<open>strconv\<close> prints the float64 nearest to a
    literal, and \<open>CreateMergePatch\<close> of the package \<^verbatim>\<open>json-patch\<close>.
  \<^item> A clock is an argument: \<open>unix\<close> is the second at which the delta of a source is stored.
  \<^item> Maps and pointers of the plugin map are not nil. A file of plugin identifiers that holds \<^verbatim>\<open>null\<close>, for
    the map or for a plugin in it, is read as an empty map or a plugin without fields; in Go it leaves a nil map or pointer, and the operation
    that first stores into it panics. The store itself never writes such a file.
\<close>

section \<open>Plugin information\<close>

record PIEntity =
  MostRecentID :: int
  LastSentID :: int

record PluginInfo =
  pi_Source :: string
  pi_Plugin :: string
  pi_FileName :: string
  pi_Entities :: "(string, PIEntity) gomap"

definition newPluginInfo :: "string \<Rightarrow> string \<Rightarrow> PluginInfo" where
  "newPluginInfo name fileName =
     \<lparr>pi_Source = name @ ''/'' @ trim_suffix fileName (filepath_ext fileName), pi_Plugin = name, pi_FileName = fileName,
      pi_Entities = []\<rparr>"

text \<open>Looking an entity up creates it.\<close>

definition pi_entity :: "PluginInfo \<Rightarrow> string \<Rightarrow> PluginInfo \<times> PIEntity" where
  "pi_entity p key =
     (case map_of (pi_Entities p) key of
        Some e \<Rightarrow> (p, e)
      | None \<Rightarrow> let e = \<lparr>MostRecentID = 0, LastSentID = 0\<rparr> in (p\<lparr>pi_Entities := AList.update key e (pi_Entities p)\<rparr>, e))"

definition setLastSentID :: "string \<Rightarrow> int \<Rightarrow> PluginInfo \<Rightarrow> PluginInfo" where
  "setLastSentID key v p =
     (case pi_entity p key of (p1, e) \<Rightarrow> p1\<lparr>pi_Entities := AList.update key (e\<lparr>LastSentID := v\<rparr>) (pi_Entities p1)\<rparr>)"

definition lastSentID :: "PluginInfo \<Rightarrow> string \<Rightarrow> PluginInfo \<times> int" where
  "lastSentID p key = (case pi_entity p key of (p1, e) \<Rightarrow> (p1, LastSentID e))"

definition setDeltaID :: "string \<Rightarrow> int \<Rightarrow> PluginInfo \<Rightarrow> PluginInfo" where
  "setDeltaID key v p =
     (case pi_entity p key of (p1, e) \<Rightarrow> p1\<lparr>pi_Entities := AList.update key (e\<lparr>MostRecentID := v\<rparr>) (pi_Entities p1)\<rparr>)"

definition increaseDeltaID :: "string \<Rightarrow> PluginInfo \<Rightarrow> PluginInfo" where
  "increaseDeltaID key p =
     (case pi_entity p key of (p1, e) \<Rightarrow>
        p1\<lparr>pi_Entities := AList.update key (e\<lparr>MostRecentID := to_int64 (MostRecentID e + 1)\<rparr>) (pi_Entities p1)\<rparr>)"

definition deltaID :: "PluginInfo \<Rightarrow> string \<Rightarrow> PluginInfo \<times> int" where
  "deltaID p key = (case pi_entity p key of (p1, e) \<Rightarrow> (p1, MostRecentID e))"

section \<open>Deltas and their texts\<close>

text \<open>The difference is an object, or \<open>JNull\<close> for a nil map.\<close>

record RawDelta =
  rd_Source :: string
  rd_ID :: int
  rd_Timestamp :: int
  rd_Diff :: json
  rd_FullDiff :: bool

record DeltaState =
  NeedsReset :: bool
  LastStoredID :: int
  SendNextID :: int
  HintError :: "string option"

record ext =
  float_text :: "string \<Rightarrow> string option"
  CreateMergePatch :: "string \<Rightarrow> string \<Rightarrow> string option"

definition delta_json :: "RawDelta \<Rightarrow> json" where
  "delta_json d =
     JObj [(''source'', JStr (rd_Source d)), (''id'', JNum (int_str (rd_ID d))), (''timestamp'', JNum (int_str (rd_Timestamp d))),
       (''diff'', rd_Diff d), (''full_diff'', JBool (rd_FullDiff d))]"

definition object_value :: "ext \<Rightarrow> json \<Rightarrow> json option" where
  "object_value x j = (case j of JNull \<Rightarrow> Some JNull | JObj ms \<Rightarrow> json_value (float_text x) (JObj ms) | _ \<Rightarrow> None)"

definition json_delta :: "ext \<Rightarrow> json \<Rightarrow> RawDelta option" where
  "json_delta x j =
     (case j of JObj ms \<Rightarrow>
        (case (str_field ''source'' ms, int_field ''id'' ms, int_field ''timestamp'' ms, object_value x (json_field ''diff'' ms),
               bool_field ''full_diff'' ms) of
           (Some source, Some i, Some t, Some diff, Some fd) \<Rightarrow>
             Some \<lparr>rd_Source = source, rd_ID = i, rd_Timestamp = t, rd_Diff = diff, rd_FullDiff = fd\<rparr>
         | _ \<Rightarrow> None)
      | _ \<Rightarrow> None)"

fun all_some :: "'a option list \<Rightarrow> 'a list option" where
  "all_some [] = Some []"
| "all_some (x # xs) = (case (x, all_some xs) of (Some y, Some ys) \<Rightarrow> Some (y # ys) | _ \<Rightarrow> None)"

definition unmarshal_deltas :: "ext \<Rightarrow> string \<Rightarrow> RawDelta list option" where
  "unmarshal_deltas x s =
     (case json_parse s of Some (JArr js) \<Rightarrow> all_some (map (json_delta x) js) | Some JNull \<Rightarrow> Some [] | _ \<Rightarrow> None)"

definition unmarshal_delta :: "ext \<Rightarrow> string \<Rightarrow> RawDelta option" where
  "unmarshal_delta x s = (case json_parse s of Some j \<Rightarrow> json_delta x j | None \<Rightarrow> None)"

definition unmarshal_object :: "ext \<Rightarrow> string \<Rightarrow> json option" where
  "unmarshal_object x s = (case json_parse s of Some j \<Rightarrow> object_value x j | None \<Rightarrow> None)"

text \<open>The file of plugin identifiers.\<close>

definition entity_json :: "PIEntity \<Rightarrow> json" where
  "entity_json e = JObj [(''mru_id'', JNum (int_str (MostRecentID e))), (''last_sent_id'', JNum (int_str (LastSentID e)))]"

definition sort_map :: "(string, 'v) gomap \<Rightarrow> (string, 'v) gomap" where
  "sort_map m = fold (\<lambda>(k, v). put k v) m []"

definition plugin_json :: "PluginInfo \<Rightarrow> json" where
  "plugin_json p =
     JObj [(''source'', JStr (pi_Source p)), (''plugin'', JStr (pi_Plugin p)), (''filename'', JStr (pi_FileName p)),
       (''entities'', JObj (map (\<lambda>(k, e). (k, entity_json e)) (sort_map (pi_Entities p))))]"

definition plugins_json :: "(string, PluginInfo) gomap \<Rightarrow> json" where
  "plugins_json m = JObj (map (\<lambda>(k, p). (k, plugin_json p)) (sort_map m))"

text \<open>\<^verbatim>\<open>json.Unmarshal\<close> goes on after a value of the wrong type, which leaves what it should fill as it was, and
  reports the error at the end: the flags say whether there was none. A member of a struct that is null changes nothing.\<close>

definition fill_field :: "string \<Rightarrow> (json \<Rightarrow> 'v option) \<Rightarrow> 'v \<Rightarrow> (string \<times> json) list \<Rightarrow> 'v \<times> bool" where
  "fill_field name read zero ms =
     fold (\<lambda>(k, j) (v, ok). if to_lower k = name \<and> j \<noteq> JNull then (case read j of Some v' \<Rightarrow> (v', ok) | None \<Rightarrow> (v, False)) else (v, ok))
       ms (zero, True)"

definition json_int :: "json \<Rightarrow> int option" where
  "json_int j = (case j of JNum lit \<Rightarrow> parse_int lit | _ \<Rightarrow> None)"

definition json_string :: "json \<Rightarrow> string option" where
  "json_string j = (case j of JStr s \<Rightarrow> Some s | _ \<Rightarrow> None)"

definition json_entity :: "json \<Rightarrow> PIEntity \<times> bool" where
  "json_entity j =
     (case j of
        JObj ms \<Rightarrow> (let (a, ok1) = fill_field ''mru_id'' json_int 0 ms; (b, ok2) = fill_field ''last_sent_id'' json_int 0 ms
                     in (\<lparr>MostRecentID = a, LastSentID = b\<rparr>, ok1 \<and> ok2))
      | _ \<Rightarrow> (\<lparr>MostRecentID = 0, LastSentID = 0\<rparr>, j = JNull))"

text \<open>An object of the text fills a map: a later member replaces an earlier one of the same key. Null empties the map.\<close>

fun json_members_of :: "(json \<Rightarrow> 'v \<times> bool) \<Rightarrow> (string \<times> json) list \<Rightarrow> (string, 'v) gomap \<Rightarrow> (string, 'v) gomap \<times> bool" where
  "json_members_of f [] m = (m, True)"
| "json_members_of f ((k, j) # ms) m =
     (case f j of (v, ok) \<Rightarrow> case json_members_of f ms (AList.update k v m) of (m', ok') \<Rightarrow> (m', ok \<and> ok'))"

definition json_map :: "(json \<Rightarrow> 'v \<times> bool) \<Rightarrow> json \<Rightarrow> (string, 'v) gomap \<Rightarrow> (string, 'v) gomap \<times> bool" where
  "json_map f j m = (case j of JObj ms \<Rightarrow> json_members_of f ms m | JNull \<Rightarrow> ([], True) | _ \<Rightarrow> (m, False))"

definition json_entities :: "(string \<times> json) list \<Rightarrow> (string, PIEntity) gomap \<times> bool" where
  "json_entities ms =
     fold (\<lambda>(k, j) (m, ok). if to_lower k = ''entities'' then (case json_map json_entity j m of (m', ok') \<Rightarrow> (m', ok \<and> ok')) else (m, ok))
       ms ([], True)"

definition json_plugin :: "json \<Rightarrow> PluginInfo \<times> bool" where
  "json_plugin j =
     (case j of
        JObj ms \<Rightarrow>
          (let (source, ok1) = fill_field ''source'' json_string [] ms; (plugin, ok2) = fill_field ''plugin'' json_string [] ms;
               (filename, ok3) = fill_field ''filename'' json_string [] ms; (ents, ok4) = json_entities ms
           in (\<lparr>pi_Source = source, pi_Plugin = plugin, pi_FileName = filename, pi_Entities = ents\<rparr>, ok1 \<and> ok2 \<and> ok3 \<and> ok4))
      | _ \<Rightarrow> (\<lparr>pi_Source = [], pi_Plugin = [], pi_FileName = [], pi_Entities = []\<rparr>, j = JNull))"

definition json_plugins :: "json \<Rightarrow> (string, PluginInfo) gomap \<Rightarrow> (string, PluginInfo) gomap \<times> bool" where
  "json_plugins j m = json_map json_plugin j m"

fun removeNils :: "json \<Rightarrow> json"
and removeNils_list :: "json list \<Rightarrow> json list"
and removeNils_members :: "(string \<times> json) list \<Rightarrow> (string \<times> json) list" where
  "removeNils (JObj ms) = JObj (removeNils_members ms)"
| "removeNils (JArr xs) = JArr (removeNils_list xs)"
| "removeNils JNull = JNull"
| "removeNils (JBool b) = JBool b"
| "removeNils (JNum lit) = JNum lit"
| "removeNils (JStr s) = JStr s"
| "removeNils_list [] = []"
| "removeNils_list (x # xs) = removeNils x # removeNils_list xs"
| "removeNils_members [] = []"
| "removeNils_members ((k, v) # ms) =
     (if v = JNull then removeNils_members ms else (k, removeNils v) # removeNils_members ms)"

definition removeNilsFromMarshaledJSON :: "ext \<Rightarrow> string \<Rightarrow> string option" where
  "removeNilsFromMarshaledJSON x buf =
     (case json_parse buf of None \<Rightarrow> None
      | Some j \<Rightarrow> map_option (\<lambda>v. enc (removeNils v)) (json_value (float_text x) j))"

section \<open>The store\<close>

record Store =
  DataDir :: path
  CacheDir :: path
  maxInventorySize :: int
  defaultEntityKey :: string
  plugins :: "(string, PluginInfo) gomap"
  archiveEnabled :: bool
  st_disk :: disk

datatype store_error = DirUnreadable | MkdirFailed | OpenFailed | WriteFailed | ReadFailed | BadJson | TooLarge
  | CacheMissing | RemoveFailed | CopyFailed | SizeFailed | NoJournal

definition CACHE_DIR :: string where "CACHE_DIR = ''.delta_repo''"
definition SAMPLING_REPO :: string where "SAMPLING_REPO = ''.sampling_repo''"
definition CACHE_ID_FILE :: string where "CACHE_ID_FILE = ''delta_id_cache.json''"
definition UNSENT_DELTA_JOURNAL_EXT :: string where "UNSENT_DELTA_JOURNAL_EXT = ''.pending''"
definition ARCHIVE_DELTA_JOURNAL_EXT :: string where "ARCHIVE_DELTA_JOURNAL_EXT = ''.sent''"
definition localEntityFolder :: string where "localEntityFolder = ''__nria_localentity''"
definition DisableInventorySplit :: int where "DisableInventorySplit = 0"
definition lastSuccessSubmissionFolder :: string where "lastSuccessSubmissionFolder = ''last_success''"
definition lastEntityIDFolder :: string where "lastEntityIDFolder = ''last_entityID''"
definition EMPTY_DELTA :: string where "EMPTY_DELTA = ''{}''"
definition NULL_TEXT :: string where "NULL_TEXT = ''null''"

definition nonEntityFolders :: "string \<Rightarrow> bool" where
  "nonEntityFolders n \<longleftrightarrow> n \<in> {CACHE_DIR, SAMPLING_REPO, lastSuccessSubmissionFolder, lastEntityIDFolder}"

definition on_disk :: "(disk \<Rightarrow> disk \<times> bool) \<Rightarrow> Store \<Rightarrow> Store \<times> bool" where
  "on_disk f s = (case f (st_disk s) of (d, ok) \<Rightarrow> (s\<lparr>st_disk := d\<rparr>, ok))"

definition EntityFolder :: "Store \<Rightarrow> string \<Rightarrow> string" where
  "EntityFolder s entityKey =
     (if entityKey = [] \<or> entityKey = defaultEntityKey s then localEntityFolder else sanitize_runes entityKey)"

definition ChangeDefaultEntity :: "string \<Rightarrow> Store \<Rightarrow> Store" where
  "ChangeDefaultEntity newEntityKey s = s\<lparr>defaultEntityKey := newEntityKey\<rparr>"

definition cachedDirPath :: "Store \<Rightarrow> PluginInfo \<Rightarrow> string \<Rightarrow> path" where
  "cachedDirPath s p entityKey = fp_join (CacheDir s) [pi_Plugin p, EntityFolder s entityKey]"

definition cachedFilePath :: "Store \<Rightarrow> PluginInfo \<Rightarrow> string \<Rightarrow> path" where
  "cachedFilePath s p entityKey = fp_join (CacheDir s) [pi_Plugin p, EntityFolder s entityKey, pi_FileName p]"

definition SourceFilePath :: "Store \<Rightarrow> PluginInfo \<Rightarrow> string \<Rightarrow> path" where
  "SourceFilePath s p entityKey = fp_join (DataDir s) [pi_Plugin p, EntityFolder s entityKey, pi_FileName p]"

definition PluginDirPath :: "Store \<Rightarrow> string \<Rightarrow> string \<Rightarrow> path" where
  "PluginDirPath s pluginCategory entityKey = fp_join (DataDir s) [pluginCategory, EntityFolder s entityKey]"

text \<open>\<^verbatim>\<open>TrimSuffix(file, Ext(file)) + ext\<close> on the last name of a path.\<close>

definition with_ext :: "path \<Rightarrow> string \<Rightarrow> path" where
  "with_ext file e = (if file = [] then [e] else butlast file @ [trim_suffix (last file) (filepath_ext (last file)) @ e])"

definition archiveFilePath :: "Store \<Rightarrow> PluginInfo \<Rightarrow> string \<Rightarrow> path" where
  "archiveFilePath s p entityKey = with_ext (cachedFilePath s p entityKey) ARCHIVE_DELTA_JOURNAL_EXT"

definition DeltaFilePath :: "Store \<Rightarrow> PluginInfo \<Rightarrow> string \<Rightarrow> path" where
  "DeltaFilePath s p entityKey = with_ext (cachedFilePath s p entityKey) UNSENT_DELTA_JOURNAL_EXT"

definition clearPluginDeltaStore :: "PluginInfo \<Rightarrow> string \<Rightarrow> Store \<Rightarrow> Store" where
  "clearPluginDeltaStore p entityKey s =
     (let s1 = fst (on_disk (\<lambda>d. os_Remove d (cachedFilePath s p entityKey)) s);
          s2 = fst (on_disk (\<lambda>d. os_Remove d (DeltaFilePath s p entityKey)) s1)
      in fst (on_disk (\<lambda>d. os_Remove d (archiveFilePath s p entityKey)) s2))"

definition is_dir :: "Store \<Rightarrow> path \<Rightarrow> bool" where
  "is_dir s p \<longleftrightarrow> stat (st_disk s) p = Some Dir"

text \<open>The folders of a directory that belong to plugins.\<close>

definition plugin_dirs :: "Store \<Rightarrow> path \<Rightarrow> string list option" where
  "plugin_dirs s dir =
     map_option (filter (\<lambda>n. is_dir s (dir @ [n]) \<and> \<not> nonEntityFolders n)) (read_dir (st_disk s) dir)"

definition plugin_files :: "Store \<Rightarrow> path \<Rightarrow> string \<Rightarrow> string \<Rightarrow> PluginInfo list" where
  "plugin_files s dir entityFolder name =
     (case glob (st_disk s) (fp_join dir [name, entityFolder, ''*.json'']) of
        None \<Rightarrow> []
      | Some files \<Rightarrow> map (\<lambda>f. newPluginInfo name (last f)) files)"

definition collectPluginFiles :: "Store \<Rightarrow> path \<Rightarrow> string \<Rightarrow> PluginInfo list option" where
  "collectPluginFiles s dir entityKey =
     map_option (\<lambda>names. concat (map (plugin_files s dir (EntityFolder s entityKey)) names)) (plugin_dirs s dir)"

definition writePluginIDMap :: "Store \<Rightarrow> Store \<times> store_error option" where
  "writePluginIDMap s =
     (if stat (st_disk s) (CacheDir s) = None then (s, Some CacheMissing)
      else case on_disk (\<lambda>d. WriteFile d (fp_join (CacheDir s) [CACHE_ID_FILE]) (enc (plugins_json (plugins s)))) s of
             (s1, ok) \<Rightarrow> (s1, if ok then None else Some WriteFailed))"

definition SaveState :: "Store \<Rightarrow> Store \<times> store_error option" where
  "SaveState s = writePluginIDMap s"

text \<open>The store and whether it loaded. A text that is no JSON is found before anything is stored; a value of the wrong type is
  found on the way, and the other members are stored.\<close>

definition loadPluginIDMap :: "string \<Rightarrow> Store \<Rightarrow> Store \<times> bool" where
  "loadPluginIDMap deltaIDBytes s =
     (if deltaIDBytes = [] then (s, True)
      else case json_parse deltaIDBytes of None \<Rightarrow> (s, False)
           | Some j \<Rightarrow> (case json_plugins j (plugins s) of (m, ok) \<Rightarrow> (s\<lparr>plugins := m\<rparr>, ok)))"

text \<open>A file that cannot be read is passed over: the error of the inner scope is not returned.\<close>

definition readPluginIDMap :: "path \<Rightarrow> Store \<Rightarrow> Store \<times> bool" where
  "readPluginIDMap cachedDeltaPath s =
     (if stat (st_disk s) cachedDeltaPath = None then (s, True)
      else case read_file (st_disk s) cachedDeltaPath of None \<Rightarrow> (s, True) | Some deltaIDBytes \<Rightarrow> loadPluginIDMap deltaIDBytes s)"

definition createDataStore :: "Store \<Rightarrow> Store \<times> bool" where
  "createDataStore s =
     (case on_disk (\<lambda>d. MkdirAll d (DataDir s)) s of (s1, ok) \<Rightarrow>
        if \<not> ok then (s1, False)
        else if stat (st_disk s1) (CacheDir s) \<noteq> None then (s1, True)
        else case on_disk (\<lambda>d. MkdirAll d (CacheDir s)) s1 of (s2, ok2) \<Rightarrow>
               if \<not> ok2 then (s2, False)
               else on_disk (\<lambda>d. MkdirAll d (fp_join (DataDir s) [SAMPLING_REPO])) s2)"

definition NewStore :: "path \<Rightarrow> string \<Rightarrow> int \<Rightarrow> bool \<Rightarrow> disk \<Rightarrow> Store outcome" where
  "NewStore dataDir entityKey maxSize archive d =
     (if entityKey = [] then Panics
      else let s = \<lparr>DataDir = dataDir, CacheDir = fp_join dataDir [CACHE_DIR], maxInventorySize = maxSize,
                    defaultEntityKey = entityKey, plugins = [], archiveEnabled = archive, st_disk = d\<rparr>;
               cachedDeltaPath = fp_join (CacheDir s) [CACHE_ID_FILE]
           in case createDataStore s of (s1, ok) \<Rightarrow>
                if \<not> ok then Panics
                else (case readPluginIDMap cachedDeltaPath s1 of (s2, loaded) \<Rightarrow>
                        if loaded then Returns s2
                        else (case on_disk (\<lambda>d. os_Remove d cachedDeltaPath) s2 of
                                (s3, removed) \<Rightarrow> if removed then Returns s3 else Panics)))"

definition StorageSize :: "Store \<Rightarrow> path \<Rightarrow> nat option" where
  "StorageSize s p = walk_size (st_disk s) p"

definition remove_plugin :: "string \<Rightarrow> PluginInfo \<Rightarrow> Store \<Rightarrow> Store" where
  "remove_plugin entityKey p s =
     (let s1 = clearPluginDeltaStore p entityKey s in s1\<lparr>plugins := AList.delete (pi_Source p) (plugins s1)\<rparr>)"

definition compactCacheStorage :: "string \<Rightarrow> Store \<Rightarrow> Store" where
  "compactCacheStorage entityKey s =
     (case collectPluginFiles s (DataDir s) entityKey of None \<Rightarrow> s
      | Some activePlugins \<Rightarrow>
          (case collectPluginFiles s (CacheDir s) entityKey of None \<Rightarrow> s
           | Some reapedPlugins \<Rightarrow>
               (let removed0 = fold (\<lambda>p m. AList.update (pi_Source p) p m) reapedPlugins [];
                    removedPlugins = fold (\<lambda>p m. AList.delete (pi_Source p) m) activePlugins removed0;
                    s1 = fold (\<lambda>(k, p). remove_plugin entityKey p) removedPlugins s
                in fold (\<lambda>p st. fst (on_disk (\<lambda>d. os_Remove d (archiveFilePath st p entityKey)) st)) activePlugins s1)))"

definition CompactStorage :: "string \<Rightarrow> nat \<Rightarrow> Store \<Rightarrow> Store \<times> store_error option" where
  "CompactStorage entityKey threshold s =
     (case StorageSize s (CacheDir s) of None \<Rightarrow> (s, Some SizeFailed)
      | Some repoSize \<Rightarrow>
          if 0 < repoSize \<and> threshold < repoSize then
            (let s1 = compactCacheStorage entityKey s in
             case StorageSize s1 (CacheDir s1) of None \<Rightarrow> (s1, Some SizeFailed) | Some _ \<Rightarrow> SaveState s1)
          else (s, None))"

section \<open>Journals\<close>

definition wrapBuffer :: "string \<Rightarrow> char \<Rightarrow> char \<Rightarrow> string \<Rightarrow> string" where
  "wrapBuffer buf open_c close_c strip_set = [open_c] @ (if strip_set = [] then buf else trim_right buf strip_set) @ [close_c]"

text \<open>The journal, \<open>Inl\<close> an error; the file is missing or cannot be read.\<close>

definition readIndividualPluginDeltas :: "Store \<Rightarrow> PluginInfo \<Rightarrow> string \<Rightarrow> store_error + string" where
  "readIndividualPluginDeltas s p entityKey =
     (if stat (st_disk s) (DeltaFilePath s p entityKey) = None then Inl NoJournal
      else case read_file (st_disk s) (DeltaFilePath s p entityKey) of None \<Rightarrow> Inl ReadFailed | Some buf \<Rightarrow> Inr buf)"

definition writeDelta :: "path \<Rightarrow> string \<Rightarrow> Store \<Rightarrow> Store \<times> bool" where
  "writeDelta file deltaBuf s =
     (case on_disk (\<lambda>d. append_file d file deltaBuf) s of
        (s1, ok) \<Rightarrow> if ok then on_disk (\<lambda>d. append_file d file '','') s1 else (s1, False))"

definition trim_brackets :: "string \<Rightarrow> string" where
  "trim_brackets s = trim_right (trim_left s ''[]'') ''[]''"

definition rewriteDeltas :: "path \<Rightarrow> bool \<Rightarrow> RawDelta list \<Rightarrow> Store \<Rightarrow> Store \<times> store_error option" where
  "rewriteDeltas file trunc deltas s =
     (case on_disk (\<lambda>d. OpenFile d file trunc) s of
        (s1, ok) \<Rightarrow>
          if \<not> ok then (s1, Some OpenFailed)
          else if deltas = [] then (s1, None)
          else (case writeDelta file (trim_brackets (enc (JArr (map delta_json deltas)))) s1 of
                  (s2, ok2) \<Rightarrow> (s2, if ok2 then None else Some WriteFailed)))"

text \<open>Splitting the deltas reads the last identifier of the entity for each delta of a known plugin, which creates the
  entity when it is missing.\<close>

definition archivePlugin :: "ext \<Rightarrow> PluginInfo \<Rightarrow> string \<Rightarrow> Store \<Rightarrow> Store \<times> store_error option" where
  "archivePlugin x p entityKey s =
     (case readIndividualPluginDeltas s p entityKey of
        Inl e \<Rightarrow> (s, Some e)
      | Inr buf \<Rightarrow>
          (case unmarshal_deltas x (wrapBuffer buf CHR ''['' CHR '']'' '','') of
             None \<Rightarrow> (s, Some BadJson)
           | Some deltas \<Rightarrow>
               (let known = (map_of (plugins s) (pi_Source p) \<noteq> None);
                    s1 = (if known \<and> deltas \<noteq> [] then s\<lparr>plugins := AList.update (pi_Source p) (fst (lastSentID p entityKey)) (plugins s)\<rparr> else s);
                    sent = (\<lambda>d. known \<and> rd_ID d \<le> snd (lastSentID p entityKey));
                    keepDeltas = filter (\<lambda>d. \<not> sent d) deltas;
                    archiveDeltas = filter sent deltas
                in case (if archiveEnabled s1 then rewriteDeltas (archiveFilePath s1 p entityKey) False archiveDeltas s1 else (s1, None)) of
                     (s2, Some e) \<Rightarrow> (s2, Some e)
                   | (s2, None) \<Rightarrow> rewriteDeltas (DeltaFilePath s2 p entityKey) True keepDeltas s2)))"

definition ResetAllDeltas :: "string \<Rightarrow> Store \<Rightarrow> Store" where
  "ResetAllDeltas entityKey s = fold (\<lambda>(k, p). clearPluginDeltaStore p entityKey) (plugins s) s"

definition update_plugin :: "string \<Rightarrow> (PluginInfo \<Rightarrow> PluginInfo) \<Rightarrow> Store \<Rightarrow> Store" where
  "update_plugin source f s =
     (case map_of (plugins s) source of None \<Rightarrow> s | Some p \<Rightarrow> s\<lparr>plugins := AList.update source (f p) (plugins s)\<rparr>)"

definition reconciliateWithBackend :: "string \<Rightarrow> PluginInfo \<Rightarrow> string \<Rightarrow> DeltaState \<Rightarrow> Store \<Rightarrow> Store" where
  "reconciliateWithBackend source p entityKey hint s =
     update_plugin source (\<lambda>q. setDeltaID entityKey (LastStoredID hint) (setLastSentID entityKey (to_int64 (SendNextID hint - 1)) q))
       (clearPluginDeltaStore p entityKey s)"

definition updateLastDeltaSent :: "string \<Rightarrow> RawDelta \<Rightarrow> DeltaState option \<Rightarrow> Store \<Rightarrow> Store" where
  "updateLastDeltaSent entityKey dRaw resultHint s =
     (case map_of (plugins s) (rd_Source dRaw) of
        None \<Rightarrow> s
      | Some p \<Rightarrow>
          (case resultHint of
             Some hint \<Rightarrow>
               if NeedsReset hint then reconciliateWithBackend (rd_Source dRaw) p entityKey hint s
               else if SendNextID hint = to_int64 (rd_ID dRaw + 1) then update_plugin (rd_Source dRaw) (setLastSentID entityKey (rd_ID dRaw)) s
               else if SendNextID hint = 0 then clearPluginDeltaStore p entityKey s
               else if SendNextID hint \<noteq> rd_ID dRaw then reconciliateWithBackend (rd_Source dRaw) p entityKey hint s
               else update_plugin (rd_Source dRaw) (setLastSentID entityKey (to_int64 (rd_ID dRaw - 1))) s
           | None \<Rightarrow>
               (let s1 = update_plugin (rd_Source dRaw) (\<lambda>q. fst (lastSentID q entityKey)) s in
                if snd (lastSentID p entityKey) < rd_ID dRaw then update_plugin (rd_Source dRaw) (setLastSentID entityKey (rd_ID dRaw)) s1
                else s1)))"

text \<open>The list of sent plugins starts with as many empty names as there are deltas.\<close>

definition archive_source :: "ext \<Rightarrow> string \<Rightarrow> string \<Rightarrow> Store \<Rightarrow> Store" where
  "archive_source x entityKey source s =
     (case map_of (plugins s) source of None \<Rightarrow> s | Some p \<Rightarrow> fst (archivePlugin x p entityKey s))"

definition UpdateState :: "ext \<Rightarrow> string \<Rightarrow> RawDelta list \<Rightarrow> (string, DeltaState) gomap option \<Rightarrow> Store \<Rightarrow> Store" where
  "UpdateState x entityKey deltas deltaStateResults s =
     (let hint = (\<lambda>d. case deltaStateResults of None \<Rightarrow> None | Some m \<Rightarrow> map_of m (rd_Source d));
          s1 = fold (\<lambda>d. updateLastDeltaSent entityKey d (hint d)) deltas s;
          sentPlugins = replicate (length deltas) [] @ map rd_Source deltas
      in fold (archive_source x entityKey) sentPlugins s1)"

definition storeDelta :: "ext \<Rightarrow> int \<Rightarrow> PluginInfo \<Rightarrow> string \<Rightarrow> string \<times> bool \<Rightarrow> Store \<Rightarrow> Store \<times> store_error option" where
  "storeDelta x now p entityKey del s =
     (case on_disk (\<lambda>d. MkdirAll d (cachedDirPath s p entityKey)) s of
        (s1, ok) \<Rightarrow>
          if \<not> ok then (s1, Some MkdirFailed)
          else (let file = DeltaFilePath s1 p entityKey in
             case on_disk (\<lambda>d. OpenFile d file False) s1 of
               (s2, ok2) \<Rightarrow>
                 if \<not> ok2 then (s2, Some OpenFailed)
                 else (case unmarshal_object x (fst del) of
                         None \<Rightarrow> (s2, Some BadJson)
                       | Some diff \<Rightarrow>
                           (let q0 = (case map_of (plugins s2) (pi_Source p) of None \<Rightarrow> p | Some q \<Rightarrow> q);
                                q = increaseDeltaID entityKey q0;
                                s3 = s2\<lparr>plugins := AList.update (pi_Source p) q (plugins s2)\<rparr>;
                                dRaw = \<lparr>rd_Source = pi_Source p, rd_ID = snd (deltaID q entityKey), rd_Timestamp = now,
                                        rd_Diff = diff, rd_FullDiff = snd del\<rparr>
                            in case writeDelta file (enc (delta_json dRaw)) s3 of
                                 (s4, ok3) \<Rightarrow> (s4, if ok3 then None else Some WriteFailed)))))"

section \<open>Reading the deltas\<close>

text \<open>The journals in buffers of at most \<^verbatim>\<open>maxInventorySize\<close> bytes: \<open>bufs\<close> are those closed,
  \<open>buf\<close> is the open one.\<close>

fun split_journals :: "int \<Rightarrow> string list \<Rightarrow> string list \<Rightarrow> string \<Rightarrow> string list" where
  "split_journals maxSize [] bufs buf = (if buf \<noteq> [] then bufs @ [buf] else bufs)"
| "split_journals maxSize (diff # diffs) bufs buf =
     (if int (length buf) + int (length diff) > maxSize then split_journals maxSize diffs (bufs @ [buf]) diff
      else split_journals maxSize diffs bufs (buf @ diff))"

definition journals :: "Store \<Rightarrow> string \<Rightarrow> PluginInfo list \<Rightarrow> string list" where
  "journals s entityKey ps =
     concat (map (\<lambda>p. case readIndividualPluginDeltas s p entityKey of Inr diff \<Rightarrow> if diff \<noteq> [] then [diff] else [] | Inl _ \<Rightarrow> []) ps)"

definition readAllPluginDeltas :: "Store \<Rightarrow> PluginInfo list \<Rightarrow> string \<Rightarrow> string list" where
  "readAllPluginDeltas s ps entityKey = split_journals (maxInventorySize s) (journals s entityKey ps) [] []"

definition readAllPluginDeltasWithoutSplitting :: "Store \<Rightarrow> PluginInfo list \<Rightarrow> string \<Rightarrow> string" where
  "readAllPluginDeltasWithoutSplitting s ps entityKey = concat (journals s entityKey ps)"

fun cleanPluginDeltas :: "ext \<Rightarrow> PluginInfo list \<Rightarrow> string \<Rightarrow> Store \<Rightarrow> Store \<times> bool" where
  "cleanPluginDeltas x [] entityKey s = (s, True)"
| "cleanPluginDeltas x (p # ps) entityKey s =
     (case readIndividualPluginDeltas s p entityKey of
        Inl _ \<Rightarrow> cleanPluginDeltas x ps entityKey s
      | Inr buf \<Rightarrow>
          if unmarshal_delta x buf \<noteq> None then cleanPluginDeltas x ps entityKey s
          else (case on_disk (\<lambda>d. WriteFile d (DeltaFilePath s p entityKey) []) s of
                  (s1, ok) \<Rightarrow> if ok then cleanPluginDeltas x ps entityKey s1 else (s1, False)))"

definition ReadDeltas :: "ext \<Rightarrow> string \<Rightarrow> Store \<Rightarrow> Store \<times> (store_error + RawDelta list list)" where
  "ReadDeltas x entityKey s =
     (case collectPluginFiles s (CacheDir s) entityKey of
        None \<Rightarrow> (s, Inl DirUnreadable)
      | Some reapedPlugins \<Rightarrow>
          (let buffers = (if maxInventorySize s \<le> DisableInventorySplit then [readAllPluginDeltasWithoutSplitting s reapedPlugins entityKey]
                          else readAllPluginDeltas s reapedPlugins entityKey)
           in case all_some (map (\<lambda>buf. unmarshal_deltas x (wrapBuffer buf CHR ''['' CHR '']'' '','')) buffers) of
                Some blocks \<Rightarrow> (s, Inr blocks)
              | None \<Rightarrow> (fst (cleanPluginDeltas x reapedPlugins entityKey s), Inl BadJson)))"

section \<open>Entities\<close>

definition remove_entity_in :: "path \<Rightarrow> string \<Rightarrow> string \<Rightarrow> Store \<times> bool \<Rightarrow> Store \<times> bool" where
  "remove_entity_in dir entityFolder plugin acc =
     (case acc of (s, ok) \<Rightarrow>
        if is_dir s (dir @ [plugin]) \<and> \<not> nonEntityFolders plugin \<and> stat (st_disk s) (fp_join dir [plugin, entityFolder]) \<noteq> None
        then (case on_disk (\<lambda>d. os_RemoveAll d (fp_join dir [plugin, entityFolder])) s of (s1, ok1) \<Rightarrow> (s1, ok \<and> ok1))
        else (s, ok))"

definition removeEntityEntries :: "path \<Rightarrow> string \<Rightarrow> Store \<Rightarrow> Store \<times> bool" where
  "removeEntityEntries dir entityFolder s =
     (case read_dir (st_disk s) dir of
        None \<Rightarrow> (s, False)
      | Some names \<Rightarrow> fold (remove_entity_in dir entityFolder) names (s, True))"

definition RemoveEntityFolders :: "string \<Rightarrow> Store \<Rightarrow> Store \<times> store_error option" where
  "RemoveEntityFolders entityFolder s =
     (case removeEntityEntries (DataDir s) entityFolder s of (s1, ok1) \<Rightarrow>
      case removeEntityEntries (CacheDir s) entityFolder s1 of (s2, ok2) \<Rightarrow>
        (s2, if ok1 \<and> ok2 then None else Some RemoveFailed))"

definition RemoveEntity :: "string \<Rightarrow> Store \<Rightarrow> Store \<times> store_error option" where
  "RemoveEntity entityKey s = RemoveEntityFolders (EntityFolder s entityKey) s"

text \<open>The folders found so far, and whether every directory could be read.\<close>

fun fetch_folders :: "Store \<Rightarrow> path \<Rightarrow> string list \<Rightarrow> (string, bool) gomap \<Rightarrow> (string, bool) gomap \<times> bool" where
  "fetch_folders s dir [] entities = (entities, True)"
| "fetch_folders s dir (plugin # ps) entities =
     (case read_dir (st_disk s) (fp_join dir [plugin]) of
        None \<Rightarrow> (entities, False)
      | Some folders \<Rightarrow>
          fetch_folders s dir ps
            (fold (\<lambda>f m. AList.update f True m) (filter (\<lambda>f. is_dir s (fp_join dir [plugin] @ [f])) folders) entities))"

definition fetchEntities :: "Store \<Rightarrow> path \<Rightarrow> (string, bool) gomap option \<times> bool" where
  "fetchEntities s dir =
     (case plugin_dirs s dir of
        None \<Rightarrow> (None, False)
      | Some ps \<Rightarrow> (case fetch_folders s dir ps [] of (entities, ok) \<Rightarrow> (Some entities, ok)))"

definition ScanEntityFolders :: "Store \<Rightarrow> (string, bool) gomap option \<times> bool" where
  "ScanEntityFolders s =
     (case fetchEntities s (DataDir s) of
        (Some found, True) \<Rightarrow>
          (case fetchEntities s (CacheDir s) of
             (Some cached, True) \<Rightarrow> (Some (fold (\<lambda>(k, _) m. AList.update k True m) cached found), True)
           | _ \<Rightarrow> (Some found, False))
      | _ \<Rightarrow> (None, False))"

section \<open>Updating the cache\<close>

definition getDeltaFromJSON :: "ext \<Rightarrow> string \<Rightarrow> string \<Rightarrow> string option" where
  "getDeltaFromJSON x previous current = (if previous = current then Some EMPTY_DELTA else CreateMergePatch x previous current)"

definition newPluginDelta :: "ext \<Rightarrow> PluginInfo \<Rightarrow> string \<Rightarrow> Store \<Rightarrow> (string \<times> bool) option" where
  "newPluginDelta x p entityKey s =
     (case read_file (st_disk s) (SourceFilePath s p entityKey) of
        None \<Rightarrow> None
      | Some sourceB \<Rightarrow>
          if stat (st_disk s) (cachedFilePath s p entityKey) = None then Some (sourceB, True)
          else (case read_file (st_disk s) (cachedFilePath s p entityKey) of
                  None \<Rightarrow> None
                | Some cacheB \<Rightarrow> map_option (\<lambda>del. (del, False)) (getDeltaFromJSON x cacheB sourceB)))"

definition replacePluginCacheFileWithSource :: "PluginInfo \<Rightarrow> string \<Rightarrow> Store \<Rightarrow> Store \<times> bool" where
  "replacePluginCacheFileWithSource p entityKey s =
     on_disk (\<lambda>d. CopyFile d (SourceFilePath s p entityKey) (cachedFilePath s p entityKey)) s"

text \<open>An error of \<open>storeDelta\<close> is overwritten by the result of the copy.\<close>

definition updatePluginInventoryCache :: "ext \<Rightarrow> int \<Rightarrow> PluginInfo \<Rightarrow> string \<Rightarrow> Store \<Rightarrow> Store \<times> bool \<times> store_error option" where
  "updatePluginInventoryCache x now p entityKey s =
     (case newPluginDelta x p entityKey s of
        None \<Rightarrow> (let s1 = clearPluginDeltaStore p entityKey s
                in (fst (on_disk (\<lambda>d. os_RemoveAll d (SourceFilePath s p entityKey)) s1), True, Some ReadFailed))
      | Some del \<Rightarrow>
          if fst del = EMPTY_DELTA then (s, False, None)
          else (let s1 = fst (storeDelta x now p entityKey del s) in
                case replacePluginCacheFileWithSource p entityKey s1 of
                  (s2, ok) \<Rightarrow> (s2, True, if ok then None else Some CopyFailed)))"

definition update_caches :: "ext \<Rightarrow> (string \<Rightarrow> int) \<Rightarrow> string \<Rightarrow> PluginInfo list \<Rightarrow> Store \<Rightarrow> Store \<times> bool" where
  "update_caches x unix entityKey ps s =
     fold (\<lambda>p (st, save). case updatePluginInventoryCache x (unix (pi_Source p)) p entityKey st of
                            (st1, updated, _) \<Rightarrow> (st1, save \<or> updated)) ps (s, False)"

definition UpdatePluginsInventoryCache :: "ext \<Rightarrow> (string \<Rightarrow> int) \<Rightarrow> string \<Rightarrow> Store \<Rightarrow> Store \<times> store_error option" where
  "UpdatePluginsInventoryCache x unix entityKey s =
     (case collectPluginFiles s (DataDir s) entityKey of
        None \<Rightarrow> (s, Some DirUnreadable)
      | Some activePlugins \<Rightarrow>
          (case update_caches x unix entityKey activePlugins s of
             (s1, save) \<Rightarrow> if save then SaveState s1 else (s1, None)))"

text \<open>\<open>marshalled\<close> is the result of \<^verbatim>\<open>json.Marshal(source)\<close>.\<close>

definition contains :: "string \<Rightarrow> string \<Rightarrow> bool" where
  "contains s t \<longleftrightarrow> (\<exists>i \<in> set [0..<Suc (length s)]. take (length t) (drop i s) = t)"

definition SavePluginSource :: "ext \<Rightarrow> string \<Rightarrow> string \<Rightarrow> string \<Rightarrow> string option \<Rightarrow> Store \<Rightarrow> Store \<times> store_error option" where
  "SavePluginSource x entityKey category term marshalled s =
     (case on_disk (\<lambda>d. MkdirAll d (PluginDirPath s category entityKey)) s of
        (s1, ok) \<Rightarrow>
          if \<not> ok then (s1, Some MkdirFailed)
          else (case marshalled of
                  None \<Rightarrow> (s1, Some BadJson)
                | Some b \<Rightarrow>
                    (case (if contains b NULL_TEXT then removeNilsFromMarshaledJSON x b else Some b) of
                       None \<Rightarrow> (s1, Some BadJson)
                     | Some sourceB \<Rightarrow>
                         if int (length sourceB) > maxInventorySize s1 then (s1, Some TooLarge)
                         else (case on_disk (\<lambda>d. WriteFile d (fp_join (PluginDirPath s category entityKey) [term @ ''.json'']) sourceB) s1 of
                                 (s2, ok2) \<Rightarrow> (s2, if ok2 then None else Some WriteFailed)))))"

definition IsArchiveEnabled :: "Store \<Rightarrow> bool" where
  "IsArchiveEnabled s = archiveEnabled s"

definition SetArchiveEnabled :: "bool \<Rightarrow> Store \<Rightarrow> Store" where
  "SetArchiveEnabled b s = s\<lparr>archiveEnabled := b\<rparr>"

end
