(* ===== verification/Delta_Journal.thy ===== *)
theory Delta_Journal
  imports Delta_Store
begin

text \<open>
  What the inventory store guarantees about its journals.

  \<^item> \<open>journal_text\<close> is the text of a journal; \<open>holds\<close>, \<open>tracked\<close> and \<open>reads\<close> say that the journal of a plugin
    holds given deltas, \<open>slot_ready\<close> that nothing keeps the store from writing the files of the plugin.
  \<^item> Storing a delta appends it, archiving drops those sent, reading returns those pending: each operation is specified
    on the list of deltas, with the texts and the disk underneath.
  \<^item> The properties: \<^verbatim>\<open>UpdateState\<close> keeps what is not acknowledged, \<^verbatim>\<open>ReadDeltas\<close> returns
    everything pending in blocks of bounded size, an update makes the journal replay to the source of the plugin, and two ways
    to lose or repeat inventory.
  \<^item> \<open>ex_store\<close> is a store with one plugin and one entity, for examples.
\<close>

section \<open>Texts of deltas\<close>

definition rd_ok :: "ext \<Rightarrow> RawDelta \<Rightarrow> bool" where
  "rd_ok x d \<longleftrightarrow> in_int64 (rd_ID d) \<and> in_int64 (rd_Timestamp d) \<and>
     (rd_Diff d = JNull \<or> (\<exists>ms. rd_Diff d = JObj ms)) \<and> json_ok (float_text x) (rd_Diff d)"

definition journal_text :: "RawDelta list \<Rightarrow> string" where
  "journal_text ds = concat (map (\<lambda>d. enc (delta_json d) @ '','') ds)"

text \<open>A plugin and an entity whose names are names of files, and the journal they have.\<close>

definition slot_ok :: "Store \<Rightarrow> PluginInfo \<Rightarrow> string \<Rightarrow> bool" where
  "slot_ok s p key \<longleftrightarrow> plain (pi_Plugin p) \<and> plain (EntityFolder s key) \<and> plain (pi_FileName p) \<and> (\<exists>stem. pi_FileName p = stem @ ''.json'')"

definition holds :: "ext \<Rightarrow> Store \<Rightarrow> PluginInfo \<Rightarrow> string \<Rightarrow> RawDelta list \<Rightarrow> bool" where
  "holds x s p key ds \<longleftrightarrow> file_content (st_disk s) (DeltaFilePath s p key) = journal_text ds \<and> list_all (rd_ok x) ds"

text \<open>Nothing keeps the store from writing the files of the plugin.\<close>

definition file_ready :: "disk \<Rightarrow> path \<Rightarrow> bool" where
  "file_ready d p \<longleftrightarrow> \<not> denied d p \<and> \<not> full d p \<and> stat d p \<noteq> Some Dir"

definition dirs_ready :: "disk \<Rightarrow> path \<Rightarrow> bool" where
  "dirs_ready d p \<longleftrightarrow> (\<forall>q. q \<noteq> [] \<and> below q p \<longrightarrow> stat d q = Some Dir \<or> (stat d q = None \<and> \<not> denied d q))"

definition slot_ready :: "Store \<Rightarrow> PluginInfo \<Rightarrow> string \<Rightarrow> bool" where
  "slot_ready s p key \<longleftrightarrow> slot_ok s p key \<and> dirs_ready (st_disk s) (cachedDirPath s p key) \<and>
     file_ready (st_disk s) (cachedFilePath s p key) \<and> file_ready (st_disk s) (DeltaFilePath s p key) \<and>
     file_ready (st_disk s) (archiveFilePath s p key)"

definition known_plugin :: "Store \<Rightarrow> PluginInfo \<Rightarrow> PluginInfo" where
  "known_plugin s p = (case map_of (plugins s) (pi_Source p) of None \<Rightarrow> p | Some q \<Rightarrow> q)"

definition next_delta :: "Store \<Rightarrow> int \<Rightarrow> PluginInfo \<Rightarrow> string \<Rightarrow> json \<Rightarrow> bool \<Rightarrow> RawDelta" where
  "next_delta s now p key diff f =
     \<lparr>rd_Source = pi_Source p, rd_ID = to_int64 (snd (deltaID (known_plugin s p) key) + 1), rd_Timestamp = now, rd_Diff = diff, rd_FullDiff = f\<rparr>"

text \<open>Plugin information as \<open>newPluginInfo\<close> makes it, with identifiers of 64 bits.\<close>

definition plugin_ok :: "PluginInfo \<Rightarrow> bool" where
  "plugin_ok p \<longleftrightarrow> plain (pi_Plugin p) \<and> plain (pi_FileName p) \<and>
     (\<exists>stem. pi_FileName p = stem @ ''.json'' \<and> pi_Source p = pi_Plugin p @ ''/'' @ stem) \<and>
     gm_wf (pi_Entities p) \<and> (\<forall>(k, e) \<in> set (pi_Entities p). in_int64 (MostRecentID e) \<and> in_int64 (LastSentID e))"

definition plugins_ok :: "(string, PluginInfo) gomap \<Rightarrow> bool" where
  "plugins_ok m \<longleftrightarrow> gm_wf m \<and> (\<forall>(k, p) \<in> set m. pi_Source p = k \<and> plugin_ok p)"

text \<open>The journal of a known plugin holds \<open>ds\<close>, and its files can be written.\<close>

definition tracked :: "ext \<Rightarrow> string \<Rightarrow> Store \<Rightarrow> PluginInfo \<Rightarrow> RawDelta list \<Rightarrow> bool" where
  "tracked x key s p ds \<longleftrightarrow> slot_ready s p key \<and> stat (st_disk s) (cachedDirPath s p key) = Some Dir \<and>
     stat (st_disk s) (DeltaFilePath s p key) = Some (File (journal_text ds)) \<and> list_all (rd_ok x) ds \<and>
     map_of (plugins s) (pi_Source p) = Some p"

text \<open>The backend acknowledges a delta: it gives no hint, or asks for the next one.\<close>

definition settles :: "DeltaState option \<Rightarrow> RawDelta \<Rightarrow> bool" where
  "settles hint d \<longleftrightarrow> (case hint of None \<Rightarrow> True | Some h \<Rightarrow> \<not> NeedsReset h \<and> SendNextID h = to_int64 (rd_ID d + 1))"

definition ack :: "DeltaState option \<Rightarrow> RawDelta \<Rightarrow> int \<Rightarrow> int" where
  "ack hint d lastSent = (case hint of None \<Rightarrow> max lastSent (rd_ID d) | Some h \<Rightarrow> rd_ID d)"

definition hint_of :: "(string, DeltaState) gomap option \<Rightarrow> RawDelta \<Rightarrow> DeltaState option" where
  "hint_of results d = (case results of None \<Rightarrow> None | Some m \<Rightarrow> map_of m (rd_Source d))"

text \<open>The last identifier sent after the deltas of a source are acknowledged.\<close>

definition acked :: "(string, DeltaState) gomap option \<Rightarrow> string \<Rightarrow> RawDelta list \<Rightarrow> int \<Rightarrow> int" where
  "acked results source ds lastSent = fold (\<lambda>d. ack (hint_of results d) d) (filter (\<lambda>d. rd_Source d = source) ds) lastSent"

definition same_slot :: "PluginInfo \<Rightarrow> PluginInfo \<Rightarrow> bool" where
  "same_slot p q \<longleftrightarrow> pi_Source p = pi_Source q \<and> pi_Plugin p = pi_Plugin q \<and> pi_FileName p = pi_FileName q"

text \<open>What \<^verbatim>\<open>ReadDeltas\<close> reads for a plugin, and the plugins that have a cached inventory of the entity.\<close>

definition reads :: "ext \<Rightarrow> Store \<Rightarrow> string \<Rightarrow> PluginInfo \<Rightarrow> RawDelta list \<Rightarrow> bool" where
  "reads x s key p ds \<longleftrightarrow> list_all (rd_ok x) ds \<and>
     (case readIndividualPluginDeltas s p key of Inr buf \<Rightarrow> buf = journal_text ds | Inl _ \<Rightarrow> ds = [])"

definition reaped :: "Store \<Rightarrow> path \<Rightarrow> string \<Rightarrow> PluginInfo list" where
  "reaped s dir key =
     concat (map (\<lambda>n. let folder = dir @ [n, EntityFolder s key] in
         if stat (st_disk s) folder = Some Dir \<and> \<not> denied (st_disk s) folder
         then map (newPluginInfo n) (filter (\<lambda>f. has_suffix f ''.json'') (children (st_disk s) folder)) else [])
       (filter (\<lambda>n. is_dir s (dir @ [n]) \<and> \<not> nonEntityFolders n) (children (st_disk s) dir)))"

text \<open>The names on the disk and of the store are plain and have no metacharacters.\<close>

definition names_ok :: "Store \<Rightarrow> string \<Rightarrow> bool" where
  "names_ok s key \<longleftrightarrow> list_all meta_free (DataDir s) \<and> list_all meta_free (CacheDir s) \<and> plain (EntityFolder s key) \<and> meta_free (EntityFolder s key) \<and>
     (\<forall>p \<in> fst ` set (entries (st_disk s)). list_all plain p \<and> list_all meta_free p)"

text \<open>The inventory a backend has after it applied deltas, with \<open>patch\<close> applying a difference.\<close>

definition replay :: "(json \<Rightarrow> json \<Rightarrow> json) \<Rightarrow> RawDelta list \<Rightarrow> json \<Rightarrow> json" where
  "replay patch ds base = fold (\<lambda>d st. if rd_FullDiff d then rd_Diff d else patch st (rd_Diff d)) ds base"

text \<open>The package \<^verbatim>\<open>json-patch\<close>: the merge patch from one object to another is an object, and applying it to the
  first gives the second, provided the second has no null members, which a merge patch cannot express.\<close>

definition patch_law :: "ext \<Rightarrow> (json \<Rightarrow> json \<Rightarrow> json) \<Rightarrow> bool" where
  "patch_law x patch \<longleftrightarrow> (\<forall>a b pt ms ns. CreateMergePatch x a b = Some pt \<longrightarrow> unmarshal_object x a = Some (JObj ms) \<longrightarrow> unmarshal_object x b = Some (JObj ns) \<longrightarrow>
     removeNils (JObj ns) = JObj ns \<longrightarrow> (\<exists>diff. unmarshal_object x pt = Some diff \<and> patch (JObj ms) diff = JObj ns))"

text \<open>\<^verbatim>\<open>strconv\<close>: the text of a float64 is a number that reads as itself.\<close>

definition float_law :: "ext \<Rightarrow> bool" where
  "float_law x \<longleftrightarrow> (\<forall>lit l. float_text x lit = Some l \<longrightarrow> float_text x l = Some l \<and> valid_number l \<and> list_all num_char l)"

text \<open>The cached inventory, when there is one, is what the deltas sent and pending make of \<open>base\<close>.\<close>

definition cache_agrees :: "ext \<Rightarrow> (json \<Rightarrow> json \<Rightarrow> json) \<Rightarrow> Store \<Rightarrow> PluginInfo \<Rightarrow> string \<Rightarrow> RawDelta list \<Rightarrow> json \<Rightarrow> bool" where
  "cache_agrees x patch s p key ds base \<longleftrightarrow>
     (\<forall>a. stat (st_disk s) (cachedFilePath s p key) = Some (File a) \<longrightarrow> unmarshal_object x a = Some (replay patch ds base))"

section \<open>An example\<close>

text \<open>One plugin with the source \<^verbatim>\<open>p/a\<close> and the entity of the agent; its cached inventory is \<open>cached\<close>, its
  journal \<open>ds\<close> and its source \<open>src\<close>.\<close>

definition ex_ext :: "string \<Rightarrow> string \<Rightarrow> string \<Rightarrow> ext" where
  "ex_ext a b patch =
     \<lparr>float_text = (\<lambda>lit. if valid_number lit \<and> list_all num_char lit then Some lit else None),
      CreateMergePatch = (\<lambda>a' b'. if a' = a \<and> b' = b then Some patch else None)\<rparr>"

definition ex_key :: string where "ex_key = ''me''"

definition ex_plugin :: PluginInfo where
  "ex_plugin = \<lparr>pi_Source = ''p/a'', pi_Plugin = ''p'', pi_FileName = ''a.json'', pi_Entities = [(ex_key, \<lparr>MostRecentID = 2, LastSentID = 0\<rparr>)]\<rparr>"

definition ex_cache_dir :: path where "ex_cache_dir = [''d'', CACHE_DIR]"

definition ex_disk :: "string \<Rightarrow> RawDelta list \<Rightarrow> string \<Rightarrow> disk" where
  "ex_disk cached ds src =
     \<lparr>entries =
        [([''d''], Dir), (ex_cache_dir, Dir), (ex_cache_dir @ [''p''], Dir), (ex_cache_dir @ [''p'', localEntityFolder], Dir),
         (ex_cache_dir @ [''p'', localEntityFolder, ''a.json''], File cached),
         (ex_cache_dir @ [''p'', localEntityFolder, ''a.pending''], File (journal_text ds)),
         ([''d'', ''p''], Dir), ([''d'', ''p'', localEntityFolder], Dir), ([''d'', ''p'', localEntityFolder, ''a.json''], File src)],
      denied = (\<lambda>_. False), full = (\<lambda>_. False)\<rparr>"

definition ex_store :: "string \<Rightarrow> RawDelta list \<Rightarrow> string \<Rightarrow> Store" where
  "ex_store cached ds src =
     \<lparr>DataDir = [''d''], CacheDir = ex_cache_dir, maxInventorySize = 1000, defaultEntityKey = ex_key,
      plugins = [(''p/a'', ex_plugin)], archiveEnabled = True, st_disk = ex_disk cached ds src\<rparr>"

definition ex_object :: "string \<Rightarrow> json" where
  "ex_object v = JObj [(''v'', JStr v)]"

definition ex_delta :: "int \<Rightarrow> string \<Rightarrow> RawDelta" where
  "ex_delta i v = \<lparr>rd_Source = ''p/a'', rd_ID = i, rd_Timestamp = 0, rd_Diff = ex_object v, rd_FullDiff = False\<rparr>"

text \<open>Applying a merge patch to a flat object.\<close>

definition ex_patch :: "json \<Rightarrow> json \<Rightarrow> json" where
  "ex_patch a d =
     (case (a, d) of
        (JObj ms, JObj ps) \<Rightarrow> JObj (fold (\<lambda>(k, v) m. if v = JNull then AList.delete k m else put k v m) ps ms)
      | _ \<Rightarrow> d)"

section \<open>Lemmas on texts\<close>

lemma journal_text_append [simp]: "journal_text (ds @ es) = journal_text ds @ journal_text es"
  by (simp add: journal_text_def)

lemma journal_text_Nil [simp]: "journal_text [] = []"
  by (simp add: journal_text_def)

lemma journal_text_eq_Nil [simp]: "journal_text ds = [] \<longleftrightarrow> ds = []"
  by (cases ds) (simp_all add: journal_text_def)

lemma join_comma: "xs \<noteq> [] \<Longrightarrow> join '','' xs @ '','' = concat (map (\<lambda>s. s @ '','') xs)"
  by (induction xs rule: induct_list012) simp_all

lemma journal_join: "ds \<noteq> [] \<Longrightarrow> journal_text ds = join '','' (map (\<lambda>d. enc (delta_json d)) ds) @ '',''"
  using join_comma [of "map (\<lambda>d. enc (delta_json d)) ds"] by (simp add: journal_text_def comp_def)

lemma to_lower_names [simp]:
  "to_lower ''source'' = ''source''" "to_lower ''id'' = ''id''" "to_lower ''timestamp'' = ''timestamp''"
  "to_lower ''diff'' = ''diff''" "to_lower ''full_diff'' = ''full_diff''" "to_lower ''mru_id'' = ''mru_id''"
  "to_lower ''last_sent_id'' = ''last_sent_id''" "to_lower ''plugin'' = ''plugin''" "to_lower ''filename'' = ''filename''"
  "to_lower ''entities'' = ''entities''"
  by code_simp+

lemma object_value_ok: "rd_ok x d \<Longrightarrow> object_value x (rd_Diff d) = Some (rd_Diff d)"
  using json_value_ok [of "float_text x" "rd_Diff d"] by (auto simp: rd_ok_def object_value_def simp del: json_value.simps json_ok.simps)

lemma json_delta_json:
  assumes "rd_ok x d"
  shows "json_delta x (delta_json d) = Some d"
proof -
  have "json_field ''diff'' [(''source'', JStr (rd_Source d)), (''id'', JNum (int_str (rd_ID d))),
      (''timestamp'', JNum (int_str (rd_Timestamp d))), (''diff'', rd_Diff d), (''full_diff'', JBool (rd_FullDiff d))] = rd_Diff d"
    by (cases "rd_Diff d") (simp_all add: json_field_def)
  then show ?thesis
    using assms object_value_ok [OF assms]
    by (simp add: json_delta_def delta_json_def rd_ok_def str_field_def int_field_def bool_field_def parse_int_str)
      (simp add: json_field_def parse_int_str)
qed

lemma delta_json_nums: "rd_ok x d \<Longrightarrow> nums_ok (delta_json d)"
  using int_str_number by (auto simp: delta_json_def rd_ok_def dest: json_ok_nums)

lemma enc_delta_ends: "\<exists>t. enc (delta_json d) = CHR ''{'' # t @ ''}''"
  by (auto simp: delta_json_def)

lemma join_ends: "ds \<noteq> [] \<Longrightarrow> \<exists>t. join '','' (map (\<lambda>d. enc (delta_json d)) ds) = CHR ''{'' # t @ ''}''"
proof (induction ds)
  case (Cons d ds)
  obtain t where t: "enc (delta_json d) = CHR ''{'' # t @ ''}''" using enc_delta_ends by blast
  show ?case
  proof (cases ds)
    case (Cons e es)
    with Cons.IH obtain u where "join '','' (map (\<lambda>d. enc (delta_json d)) ds) = CHR ''{'' # u @ ''}''" by auto
    then show ?thesis using Cons t by simp
  qed (simp add: t)
qed simp

lemma all_some_map: "(\<And>y. y \<in> set ys \<Longrightarrow> f y = Some (g y)) \<Longrightarrow> all_some (map f ys) = Some (map g ys)"
  by (induction ys) auto

lemma unmarshal_journal:
  assumes "list_all (rd_ok x) ds"
  shows "unmarshal_deltas x (wrapBuffer (journal_text ds) CHR ''['' CHR '']'' '','') = Some ds"
proof -
  have "wrapBuffer (journal_text ds) CHR ''['' CHR '']'' '','' = enc (JArr (map delta_json ds))"
  proof (cases "ds = []")
    case False
    then obtain t where "join '','' (map (\<lambda>d. enc (delta_json d)) ds) = CHR ''{'' # t @ ''}''" using join_ends by blast
    then show ?thesis using journal_join [OF False] by (simp add: wrapBuffer_def trim_right_def comp_def)
  qed (simp add: wrapBuffer_def trim_right_def)
  moreover have "nums_ok (JArr (map delta_json ds))" using assms by (auto simp: list_all_iff delta_json_nums)
  ultimately have "json_parse (wrapBuffer (journal_text ds) CHR ''['' CHR '']'' '','') = Some (JArr (map delta_json ds))"
    using json_parse_enc by presburger
  moreover have "all_some (map (json_delta x) (map delta_json ds)) = Some ds"
    using assms all_some_map [of ds "\<lambda>d. json_delta x (delta_json d)" "\<lambda>d. d"] by (simp add: list_all_iff json_delta_json comp_def)
  ultimately show ?thesis by (simp add: unmarshal_deltas_def)
qed

lemma rewrite_text: "ds \<noteq> [] \<Longrightarrow> trim_brackets (enc (JArr (map delta_json ds))) @ '','' = journal_text ds"
proof -
  assume "ds \<noteq> []"
  then obtain t where t: "join '','' (map (\<lambda>d. enc (delta_json d)) ds) = CHR ''{'' # t @ ''}''" using join_ends by blast
  then show ?thesis
    using journal_join [OF \<open>ds \<noteq> []\<close>] by (simp add: trim_brackets_def trim_left_def trim_right_def comp_def)
qed

section \<open>Lemmas on paths\<close>

lemma EntityFolder_frame [simp]:
  "EntityFolder (s\<lparr>st_disk := d\<rparr>) = EntityFolder s" "EntityFolder (s\<lparr>plugins := m\<rparr>) = EntityFolder s"
  by (simp_all add: EntityFolder_def fun_eq_iff)

lemma path_frame [simp]:
  "cachedDirPath (s\<lparr>st_disk := d\<rparr>) = cachedDirPath s" "cachedDirPath (s\<lparr>plugins := m\<rparr>) = cachedDirPath s"
  "cachedFilePath (s\<lparr>st_disk := d\<rparr>) = cachedFilePath s" "cachedFilePath (s\<lparr>plugins := m\<rparr>) = cachedFilePath s"
  "SourceFilePath (s\<lparr>st_disk := d\<rparr>) = SourceFilePath s" "SourceFilePath (s\<lparr>plugins := m\<rparr>) = SourceFilePath s"
  "DeltaFilePath (s\<lparr>st_disk := d\<rparr>) = DeltaFilePath s" "DeltaFilePath (s\<lparr>plugins := m\<rparr>) = DeltaFilePath s"
  "archiveFilePath (s\<lparr>st_disk := d\<rparr>) = archiveFilePath s" "archiveFilePath (s\<lparr>plugins := m\<rparr>) = archiveFilePath s"
  by (simp_all add: cachedDirPath_def cachedFilePath_def SourceFilePath_def DeltaFilePath_def archiveFilePath_def fun_eq_iff)

lemma store_swap [simp]: "s\<lparr>st_disk := d, plugins := m\<rparr> = s\<lparr>plugins := m, st_disk := d\<rparr>"
  by (cases s) simp

lemma on_disk_simps [simp]:
  "fst (on_disk f s) = s\<lparr>st_disk := fst (f (st_disk s))\<rparr>" "snd (on_disk f s) = snd (f (st_disk s))"
  by (simp_all add: on_disk_def split_beta)

lemma ext_json: "filepath_ext (stem @ ''.json'') = ''.json''"
  by (simp add: filepath_ext_def)

lemma trim_json: "trim_suffix (stem @ ''.json'') ''.json'' = stem"
  by (simp add: trim_suffix_def has_suffix_def)

lemma slot_paths:
  assumes "slot_ok s p key"
  obtains stem where "pi_FileName p = stem @ ''.json''"
    "cachedDirPath s p key = CacheDir s @ [pi_Plugin p, EntityFolder s key]"
    "cachedFilePath s p key = CacheDir s @ [pi_Plugin p, EntityFolder s key, stem @ ''.json'']"
    "SourceFilePath s p key = DataDir s @ [pi_Plugin p, EntityFolder s key, stem @ ''.json'']"
    "DeltaFilePath s p key = CacheDir s @ [pi_Plugin p, EntityFolder s key, stem @ ''.pending'']"
    "archiveFilePath s p key = CacheDir s @ [pi_Plugin p, EntityFolder s key, stem @ ''.sent'']"
proof -
  obtain stem where stem: "pi_FileName p = stem @ ''.json''" using assms by (auto simp: slot_ok_def)
  have "with_ext (CacheDir s @ [pi_Plugin p, EntityFolder s key, stem @ ''.json'']) e = CacheDir s @ [pi_Plugin p, EntityFolder s key, stem @ e]" for e
    by (simp add: with_ext_def butlast_append ext_json trim_json)
  then show thesis
    using assms stem
    by (intro that [of stem])
      (simp_all add: slot_ok_def cachedDirPath_def cachedFilePath_def SourceFilePath_def DeltaFilePath_def archiveFilePath_def fp_join_plain
        UNSENT_DELTA_JOURNAL_EXT_def ARCHIVE_DELTA_JOURNAL_EXT_def)
qed

lemma slot_distinct:
  assumes "slot_ok s p key"
  shows "cachedFilePath s p key \<noteq> DeltaFilePath s p key" "archiveFilePath s p key \<noteq> DeltaFilePath s p key"
    "cachedFilePath s p key \<noteq> archiveFilePath s p key"
    "butlast (DeltaFilePath s p key) = cachedDirPath s p key" "butlast (cachedFilePath s p key) = cachedDirPath s p key"
    "butlast (archiveFilePath s p key) = cachedDirPath s p key" "DeltaFilePath s p key \<noteq> []"
    "cachedFilePath s p key \<noteq> []" "archiveFilePath s p key \<noteq> []"
  by (rule slot_paths [OF assms], simp add: butlast_append)+

section \<open>Lemmas on entities\<close>

lemma deltaID_increase [simp]: "snd (deltaID (increaseDeltaID key p) key) = to_int64 (snd (deltaID p key) + 1)"
  by (simp add: increaseDeltaID_def deltaID_def pi_entity_def Let_def gomap_simps split_beta split: option.splits)

lemma increase_fields [simp]:
  "pi_Source (increaseDeltaID key p) = pi_Source p" "snd (lastSentID (increaseDeltaID key p) k) = snd (lastSentID p k)"
  "k \<noteq> key \<Longrightarrow> snd (deltaID (increaseDeltaID key p) k) = snd (deltaID p k)"
  by (simp_all add: increaseDeltaID_def deltaID_def lastSentID_def pi_entity_def Let_def gomap_simps split_beta split: option.splits)

section \<open>Storing a delta\<close>

lemma dirs_ready_Mkdir: "dirs_ready d p \<Longrightarrow> snd (MkdirAll d p)"
  by (rule Mkdir_succeeds) (auto simp: dirs_ready_def)

lemma file_ready_Mkdir: "q \<noteq> p \<Longrightarrow> \<not> below q p \<Longrightarrow> file_ready d q \<Longrightarrow> file_ready (fst (MkdirAll d p)) q"
proof -
  assume a: "q \<noteq> p" "\<not> below q p" "file_ready d q"
  have "q \<notin> set (map (\<lambda>i. take (Suc i) p) [0..<length p])" using a(2) by (auto simp: below_def min.absorb2 Suc_le_eq)
  then have "stat d q = None \<Longrightarrow> stat (fst (MkdirAll d p)) q = None"
    unfolding MkdirAll_def using make_dirs_new [OF mkdir_prefixes [of p], of d q] by blast
  then show ?thesis using a(3) by (cases "stat d q") (auto simp: file_ready_def disk_simps)
qed

lemma file_not_below: "butlast q = p \<Longrightarrow> q \<noteq> [] \<Longrightarrow> q \<noteq> p \<and> \<not> below q p"
  by (metis append_butlast_last_id below_def length_append_singleton length_take lessI min.cobounded1 not_le append_self_conv list.distinct(1))

lemma content_Mkdir [simp]: "file_content (fst (MkdirAll d p)) q = file_content d q"
proof (cases "\<exists>c. stat d q = Some (File c)")
  case True
  then obtain c where "stat d q = Some (File c)" by blast
  then show ?thesis using stat_Mkdir_file [of d p q c] by (simp add: file_content_def)
next
  case False
  then have "\<nexists>c. stat (fst (MkdirAll d p)) q = Some (File c)" using stat_Mkdir_file [of d p q] by simp
  with False show ?thesis by (auto simp: file_content_def split: option.splits node.splits)
qed

lemma content_append: "p \<noteq> [] \<Longrightarrow> file_content (fst (append_file d p t)) q = (if \<not> full d p \<and> q = p then file_content d p @ t else file_content d q)"
  by (simp add: file_content_def [of "fst (append_file d p t)"] stat_append) (simp add: file_content_def)

lemma writeDelta_spec:
  assumes "file \<noteq> []" "\<not> full (st_disk s) file"
  shows "\<exists>d'. writeDelta file buf s = (s\<lparr>st_disk := d'\<rparr>, True) \<and>
    (\<forall>q. stat d' q = (if q = file then Some (File (file_content (st_disk s) file @ buf @ '','')) else stat (st_disk s) q)) \<and>
    denied d' = denied (st_disk s) \<and> full d' = full (st_disk s)"
proof -
  let ?d1 = "fst (append_file (st_disk s) file buf)"
  let ?d2 = "fst (append_file ?d1 file '','')"
  have "writeDelta file buf s = (s\<lparr>st_disk := ?d2\<rparr>, True)"
    using assms by (simp add: writeDelta_def on_disk_def split_beta append_ok)
  moreover have "stat ?d2 q = (if q = file then Some (File (file_content (st_disk s) file @ buf @ '','')) else stat (st_disk s) q)" for q
    using assms by (simp add: stat_append content_append)
  ultimately show ?thesis by (intro exI [of _ ?d2]) simp
qed

lemma storeDelta_spec:
  assumes ready: "slot_ready s p key" and diff: "unmarshal_object x txt = Some diff"
  shows "\<exists>d'. storeDelta x now p key (txt, f) s =
       (s\<lparr>plugins := AList.update (pi_Source p) (increaseDeltaID key (known_plugin s p)) (plugins s), st_disk := d'\<rparr>, None) \<and>
    (\<forall>q. stat d' q = (if q = DeltaFilePath s p key
       then Some (File (file_content (st_disk s) (DeltaFilePath s p key) @ enc (delta_json (next_delta s now p key diff f)) @ '',''))
       else stat (fst (MkdirAll (st_disk s) (cachedDirPath s p key))) q)) \<and>
    denied d' = denied (st_disk s) \<and> full d' = full (st_disk s)"
proof -
  let ?dir = "cachedDirPath s p key" and ?file = "DeltaFilePath s p key"
  let ?d1 = "fst (MkdirAll (st_disk s) ?dir)"
  let ?d2 = "fst (OpenFile ?d1 ?file False)"
  let ?q = "increaseDeltaID key (known_plugin s p)"
  let ?s3 = "s\<lparr>plugins := AList.update (pi_Source p) ?q (plugins s), st_disk := ?d2\<rparr>"
  have ok: "slot_ok s p key" and mk: "snd (MkdirAll (st_disk s) ?dir)" and fr: "file_ready (st_disk s) ?file"
    using ready dirs_ready_Mkdir by (simp_all add: slot_ready_def)
  note ds = slot_distinct [OF ok]
  have fr1: "file_ready ?d1 ?file" using file_ready_Mkdir [OF _ _ fr, of ?dir] file_not_below [OF ds(4,7)] by simp
  then have open1: "can_open ?d1 ?file" using ds(4,7) Mkdir_ok [OF mk] by (simp add: can_open_def file_ready_def)
  have sel: "st_disk ?s3 = ?d2" by simp
  have "\<not> full ?d2 ?file" using fr by (simp add: file_ready_def)
  then obtain d' where w: "writeDelta ?file (enc (delta_json (next_delta s now p key diff f))) ?s3 = (?s3\<lparr>st_disk := d'\<rparr>, True)"
      "\<And>q. stat d' q = (if q = ?file then Some (File (file_content ?d2 ?file @ enc (delta_json (next_delta s now p key diff f)) @ '','')) else stat ?d2 q)"
      "denied d' = denied ?d2" "full d' = full ?d2"
    using writeDelta_spec [OF ds(7), of ?s3 "enc (delta_json (next_delta s now p key diff f))", unfolded sel] by blast
  have "file_content ?d2 ?file = file_content (st_disk s) ?file"
    using open1 content_Mkdir [of "st_disk s" ?dir ?file] by (simp add: file_content_def [of ?d2] stat_Open)
  moreover have "storeDelta x now p key (txt, f) s = (?s3\<lparr>st_disk := d'\<rparr>, None)"
    using w(1) mk open1 diff
    by (simp add: storeDelta_def on_disk_def split_beta Open_ok Let_def known_plugin_def next_delta_def)
  ultimately show ?thesis using w open1 by (intro exI [of _ d']) (simp add: stat_Open)
qed

section \<open>Archiving\<close>

lemma rewriteDeltas_spec:
  assumes "can_open (st_disk s) file" "\<not> full (st_disk s) file"
  shows "\<exists>d'. rewriteDeltas file trunc ds s = (s\<lparr>st_disk := d'\<rparr>, None) \<and>
    (\<forall>q. stat d' q = (if q = file then Some (File ((if trunc then [] else file_content (st_disk s) file) @ journal_text ds)) else stat (st_disk s) q)) \<and>
    denied d' = denied (st_disk s) \<and> full d' = full (st_disk s)"
proof -
  let ?d1 = "fst (OpenFile (st_disk s) file trunc)"
  have nonempty: "file \<noteq> []" using assms(1) by (simp add: can_open_def)
  have content: "file_content ?d1 file = (if trunc then [] else file_content (st_disk s) file)"
    using assms(1) by (simp add: file_content_def [of ?d1] stat_Open)
  show ?thesis
  proof (cases "ds = []")
    case True
    then show ?thesis
      using assms by (intro exI [of _ ?d1]) (simp add: rewriteDeltas_def on_disk_def split_beta Open_ok stat_Open)
  next
    case False
    let ?t = "trim_brackets (enc (JArr (map delta_json ds)))"
    have sel: "st_disk (s\<lparr>st_disk := ?d1\<rparr>) = ?d1" by simp
    obtain d' where d': "writeDelta file ?t (s\<lparr>st_disk := ?d1\<rparr>) = (s\<lparr>st_disk := ?d1\<rparr>\<lparr>st_disk := d'\<rparr>, True)"
        "\<And>q. stat d' q = (if q = file then Some (File (file_content ?d1 file @ ?t @ '','')) else stat ?d1 q)"
        "denied d' = denied ?d1" "full d' = full ?d1"
      using writeDelta_spec [OF nonempty, of "s\<lparr>st_disk := ?d1\<rparr>" ?t, unfolded sel] assms(2) by auto
    have "rewriteDeltas file trunc ds s = (s\<lparr>st_disk := d'\<rparr>, None)"
      using d'(1) assms(1) False by (simp add: rewriteDeltas_def on_disk_def split_beta Open_ok)
    moreover have "stat d' q = (if q = file then Some (File ((if trunc then [] else file_content (st_disk s) file) @ journal_text ds)) else stat (st_disk s) q)" for q
      unfolding d'(2) content rewrite_text [OF False] using assms(1) by (simp add: stat_Open)
    ultimately show ?thesis using d'(3,4) by auto
  qed
qed

lemma file_ready_frame: "\<lbrakk>file_ready d q; denied d' = denied d; full d' = full d; stat d' q = stat d q\<rbrakk> \<Longrightarrow> file_ready d' q"
  by (simp add: file_ready_def)

lemma archivePlugin_spec:
  assumes ready: "slot_ready s p key" and dir: "stat (st_disk s) (cachedDirPath s p key) = Some Dir"
    and journal: "stat (st_disk s) (DeltaFilePath s p key) = Some (File (journal_text ds))" "list_all (rd_ok x) ds"
    and known: "map_of (plugins s) (pi_Source p) = Some p"
  defines "sent \<equiv> \<lambda>d. rd_ID d \<le> snd (lastSentID p key)"
  shows "\<exists>d'. archivePlugin x p key s =
      (s\<lparr>plugins := (if ds = [] then plugins s else AList.update (pi_Source p) (fst (lastSentID p key)) (plugins s)), st_disk := d'\<rparr>, None) \<and>
    (\<forall>q. stat d' q =
       (if q = DeltaFilePath s p key then Some (File (journal_text (filter (\<lambda>d. \<not> sent d) ds)))
        else if q = archiveFilePath s p key \<and> archiveEnabled s
          then Some (File (file_content (st_disk s) (archiveFilePath s p key) @ journal_text (filter sent ds)))
        else stat (st_disk s) q)) \<and>
    denied d' = denied (st_disk s) \<and> full d' = full (st_disk s)"
proof -
  let ?f = "DeltaFilePath s p key" and ?a = "archiveFilePath s p key"
  have ok: "slot_ok s p key" and fr: "file_ready (st_disk s) ?f" "file_ready (st_disk s) ?a" using ready by (simp_all add: slot_ready_def)
  note ds = slot_distinct [OF ok]
  define s1 where "s1 = s\<lparr>plugins := (if ds = [] then plugins s else AList.update (pi_Source p) (fst (lastSentID p key)) (plugins s))\<rparr>"
  have s1: "st_disk s1 = st_disk s" "archiveEnabled s1 = archiveEnabled s" "DeltaFilePath s1 p key = ?f" "archiveFilePath s1 p key = ?a"
    by (simp_all add: s1_def)
  have openable: "can_open d q" if "butlast q = cachedDirPath s p key" "q \<noteq> []" "file_ready d q" "stat d (cachedDirPath s p key) = Some Dir" for d q
    using that by (simp add: can_open_def file_ready_def)
  have "\<exists>d2. (if archiveEnabled s1 then rewriteDeltas ?a False (filter sent ds) s1 else (s1, None)) = (s1\<lparr>st_disk := d2\<rparr>, None) \<and>
    (\<forall>q. stat d2 q = (if q = ?a \<and> archiveEnabled s then Some (File (file_content (st_disk s) ?a @ journal_text (filter sent ds))) else stat (st_disk s) q)) \<and>
    denied d2 = denied (st_disk s) \<and> full d2 = full (st_disk s)"
  proof (cases "archiveEnabled s")
    case True
    then show ?thesis
      using rewriteDeltas_spec [of s1 ?a False "filter sent ds"] openable [OF ds(6,9) fr(2) dir] fr(2) by (auto simp: s1 file_ready_def)
  next
    case False
    have "s1\<lparr>st_disk := st_disk s\<rparr> = s1" by (simp add: s1_def)
    with False show ?thesis by (intro exI [of _ "st_disk s"]) (simp add: s1)
  qed
  then obtain d2 where d2: "(if archiveEnabled s1 then rewriteDeltas ?a False (filter sent ds) s1 else (s1, None)) = (s1\<lparr>st_disk := d2\<rparr>, None)"
      "\<And>q. stat d2 q = (if q = ?a \<and> archiveEnabled s then Some (File (file_content (st_disk s) ?a @ journal_text (filter sent ds))) else stat (st_disk s) q)"
      "denied d2 = denied (st_disk s)" "full d2 = full (st_disk s)" by blast
  have dir2: "stat d2 (cachedDirPath s p key) = Some Dir"
    using dir ds(6,9) by (simp add: d2(2)) (metis append_butlast_last_id append_self_conv list.distinct(1))
  have fr2: "file_ready d2 ?f" by (rule file_ready_frame [OF fr(1) d2(3,4)]) (use ds(2) in \<open>simp add: d2(2)\<close>)
  obtain d' where d': "rewriteDeltas ?f True (filter (\<lambda>d. \<not> sent d) ds) (s1\<lparr>st_disk := d2\<rparr>) = (s1\<lparr>st_disk := d'\<rparr>, None)"
      "\<And>q. stat d' q = (if q = ?f then Some (File (journal_text (filter (\<lambda>d. \<not> sent d) ds))) else stat d2 q)"
      "denied d' = denied d2" "full d' = full d2"
    using rewriteDeltas_spec [of "s1\<lparr>st_disk := d2\<rparr>" ?f True "filter (\<lambda>d. \<not> sent d) ds"] openable [OF ds(4,7) fr2 dir2] fr2
    by (auto simp: file_ready_def)
  have read: "readIndividualPluginDeltas s p key = Inr (journal_text ds)"
    using journal(1) fr(1) by (simp add: readIndividualPluginDeltas_def read_file_def file_ready_def)
  have "archivePlugin x p key s = (s1\<lparr>st_disk := d'\<rparr>, None)"
    using d2(1) d'(1) known unmarshal_journal [OF journal(2)]
    by (simp add: archivePlugin_def read Let_def sent_def s1_def split: if_splits)
  then show ?thesis using d'(2-4) d2(2-4) by (intro exI [of _ d']) (simp add: s1_def)
qed

section \<open>Acknowledging\<close>

lemma entity_fields [simp]:
  "same_slot (fst (lastSentID p key)) p" "same_slot (setLastSentID key v p) p" "same_slot (setDeltaID key v p) p" "same_slot (increaseDeltaID key p) p"
  by (simp_all add: same_slot_def lastSentID_def setLastSentID_def setDeltaID_def increaseDeltaID_def pi_entity_def Let_def split_beta split: option.splits)

lemma lastSent_simps [simp]:
  "snd (lastSentID (fst (lastSentID p key)) k) = snd (lastSentID p k)"
  "snd (lastSentID (setLastSentID key v p) key) = v"
  by (simp_all add: lastSentID_def setLastSentID_def pi_entity_def Let_def split_beta gomap_simps split: option.splits)

lemma same_slot_refl [simp]: "same_slot p p"
  by (simp add: same_slot_def)

lemma same_slot_trans: "same_slot p q \<Longrightarrow> same_slot q r \<Longrightarrow> same_slot p r"
  by (simp add: same_slot_def)

lemma same_slot_paths:
  assumes "same_slot p q"
  shows "cachedDirPath s p = cachedDirPath s q" "cachedFilePath s p = cachedFilePath s q" "SourceFilePath s p = SourceFilePath s q"
    "DeltaFilePath s p = DeltaFilePath s q" "archiveFilePath s p = archiveFilePath s q" "slot_ok s p key = slot_ok s q key"
  using assms
  by (simp_all add: same_slot_def cachedDirPath_def cachedFilePath_def SourceFilePath_def DeltaFilePath_def archiveFilePath_def slot_ok_def fun_eq_iff)

lemma slot_ok_frame [simp]:
  "slot_ok (s\<lparr>st_disk := d\<rparr>) p key = slot_ok s p key" "slot_ok (s\<lparr>plugins := m\<rparr>) p key = slot_ok s p key"
  by (simp_all add: slot_ok_def)

lemma slot_ready_frame:
  assumes ready: "slot_ready s p key" and same: "same_slot q p"
    and frame: "\<And>f. f \<notin> {cachedFilePath s p key, DeltaFilePath s p key, archiveFilePath s p key} \<Longrightarrow> stat d' f = stat (st_disk s) f"
    and files: "\<And>f. f \<in> {cachedFilePath s p key, DeltaFilePath s p key, archiveFilePath s p key} \<Longrightarrow> stat d' f \<noteq> Some Dir"
    and env: "denied d' = denied (st_disk s)" "full d' = full (st_disk s)"
  shows "slot_ready (s\<lparr>plugins := m, st_disk := d'\<rparr>) q key"
proof -
  note sp = same_slot_paths [OF same]
  have ok: "slot_ok s p key" using ready by (simp add: slot_ready_def)
  note ds = slot_distinct [OF ok]
  have "dirs_ready d' (cachedDirPath s p key)"
    unfolding dirs_ready_def
  proof (intro allI impI)
    fix f
    assume f: "f \<noteq> [] \<and> below f (cachedDirPath s p key)"
    have "f \<notin> {cachedFilePath s p key, DeltaFilePath s p key, archiveFilePath s p key}"
      using f file_not_below [OF ds(4,7)] file_not_below [OF ds(5,8)] file_not_below [OF ds(6,9)] by auto
    then show "stat d' f = Some Dir \<or> (stat d' f = None \<and> \<not> denied d' f)"
      using frame [of f] ready f env by (auto simp: slot_ready_def dirs_ready_def)
  qed
  moreover have "file_ready d' f" if "f \<in> {cachedFilePath s p key, DeltaFilePath s p key, archiveFilePath s p key}" for f
    using that files [OF that] ready env by (auto simp: slot_ready_def file_ready_def)
  ultimately show ?thesis using ok by (simp add: slot_ready_def sp)
qed

lemma dir_not_file:
  assumes "slot_ok s p key"
  shows "cachedDirPath s p key \<notin> {cachedFilePath s p key, DeltaFilePath s p key, archiveFilePath s p key}"
  using slot_distinct [OF assms] file_not_below by (metis empty_iff insert_iff)

lemma tracked_plugin:
  assumes "tracked x key s p ds" "same_slot q p"
  shows "tracked x key (s\<lparr>plugins := AList.update (pi_Source p) q (plugins s)\<rparr>) q ds"
proof -
  have "slot_ready (s\<lparr>plugins := AList.update (pi_Source p) q (plugins s), st_disk := st_disk s\<rparr>) q key"
    by (rule slot_ready_frame [OF _ assms(2)]) (use assms(1) in \<open>auto simp: tracked_def slot_ready_def file_ready_def\<close>)
  then show ?thesis
    using assms same_slot_paths [OF assms(2)] by (simp add: tracked_def gomap_simps same_slot_def)
qed

lemma archive_tracked:
  assumes tr: "tracked x key s p ds"
  shows "\<exists>p'. tracked x key (archive_source x key (pi_Source p) s) p' (filter (\<lambda>d. snd (lastSentID p key) < rd_ID d) ds) \<and>
    same_slot p' p \<and> snd (lastSentID p' key) = snd (lastSentID p key) \<and>
    stat (st_disk (archive_source x key (pi_Source p) s)) (cachedFilePath s p key) = stat (st_disk s) (cachedFilePath s p key)"
proof -
  have ready: "slot_ready s p key" using tr by (simp add: tracked_def)
  then have ok: "slot_ok s p key" by (simp add: slot_ready_def)
  note ds = slot_distinct [OF ok]
  let ?p = "if ds = [] then p else fst (lastSentID p key)"
  let ?m = "if ds = [] then plugins s else AList.update (pi_Source p) (fst (lastSentID p key)) (plugins s)"
  let ?un = "filter (\<lambda>d. \<not> rd_ID d \<le> snd (lastSentID p key)) ds"
  obtain d' where d': "archivePlugin x p key s = (s\<lparr>plugins := ?m, st_disk := d'\<rparr>, None)"
    "\<And>q. stat d' q = (if q = DeltaFilePath s p key then Some (File (journal_text ?un))
        else if q = archiveFilePath s p key \<and> archiveEnabled s
          then Some (File (file_content (st_disk s) (archiveFilePath s p key) @ journal_text (filter (\<lambda>d. rd_ID d \<le> snd (lastSentID p key)) ds)))
        else stat (st_disk s) q)"
    "denied d' = denied (st_disk s)" "full d' = full (st_disk s)"
    using archivePlugin_spec [of s p key ds x] tr unfolding tracked_def by blast
  have same: "same_slot ?p p" by simp
  have "slot_ready (s\<lparr>plugins := ?m, st_disk := d'\<rparr>) ?p key"
    by (rule slot_ready_frame [OF ready same]) (use ds ready d' in \<open>auto simp: slot_ready_def file_ready_def\<close>)
  moreover have "stat d' (cachedDirPath s p key) = Some Dir" using dir_not_file [OF ok] tr by (auto simp: d'(2) tracked_def)
  moreover have "map_of ?m (pi_Source ?p) = Some ?p" using tr same by (auto simp: tracked_def gomap_simps same_slot_def)
  ultimately have "tracked x key (s\<lparr>plugins := ?m, st_disk := d'\<rparr>) ?p ?un"
    using tr same_slot_paths [OF same] by (simp add: tracked_def d'(2)) (auto simp: list_all_iff)
  moreover have "archive_source x key (pi_Source p) s = s\<lparr>plugins := ?m, st_disk := d'\<rparr>"
    using tr d'(1) by (simp add: archive_source_def tracked_def)
  moreover have "stat d' (cachedFilePath s p key) = stat (st_disk s) (cachedFilePath s p key)" using ds by (simp add: d'(2))
  ultimately show ?thesis using same by (intro exI [of _ ?p]) (simp add: not_le)
qed

section \<open>Plugins do not share files\<close>

lemma plugin_ok_same:
  assumes "plugin_ok p" "plugin_ok q" "pi_Plugin p = pi_Plugin q" "pi_FileName p = pi_FileName q"
  shows "pi_Source p = pi_Source q"
  using assms by (auto simp: plugin_ok_def)

lemma plugin_ok_slot: "plugin_ok p \<Longrightarrow> plain (EntityFolder s key) \<Longrightarrow> slot_ok s p key"
  by (auto simp: plugin_ok_def slot_ok_def)

lemma slot_files_differ:
  assumes p: "plugin_ok p" "slot_ok s p key" and q: "plugin_ok q" "slot_ok s q key" and ne: "pi_Source p \<noteq> pi_Source q"
    and f: "f \<in> {cachedFilePath s p key, DeltaFilePath s p key, archiveFilePath s p key}"
    and g: "g \<in> {cachedFilePath s q key, DeltaFilePath s q key, archiveFilePath s q key}"
  shows "f \<noteq> g"
proof
  assume eq: "f = g"
  obtain a where a: "pi_FileName p = a @ ''.json''" "cachedFilePath s p key = CacheDir s @ [pi_Plugin p, EntityFolder s key, a @ ''.json'']"
      "DeltaFilePath s p key = CacheDir s @ [pi_Plugin p, EntityFolder s key, a @ ''.pending'']"
      "archiveFilePath s p key = CacheDir s @ [pi_Plugin p, EntityFolder s key, a @ ''.sent'']"
    using p(2) by (rule slot_paths)
  obtain b where b: "pi_FileName q = b @ ''.json''" "cachedFilePath s q key = CacheDir s @ [pi_Plugin q, EntityFolder s key, b @ ''.json'']"
      "DeltaFilePath s q key = CacheDir s @ [pi_Plugin q, EntityFolder s key, b @ ''.pending'']"
      "archiveFilePath s q key = CacheDir s @ [pi_Plugin q, EntityFolder s key, b @ ''.sent'']"
    using q(2) by (rule slot_paths)
  obtain e where e: "f = CacheDir s @ [pi_Plugin p, EntityFolder s key, a @ e]" "e \<in> {''.json'', ''.pending'', ''.sent''}"
    using f a by auto
  obtain e' where e': "g = CacheDir s @ [pi_Plugin q, EntityFolder s key, b @ e']" "e' \<in> {''.json'', ''.pending'', ''.sent''}"
    using g b by auto
  have eqs: "pi_Plugin p = pi_Plugin q" "a @ e = b @ e'" using eq e(1) e'(1) by auto
  have "last e = last e'" using eqs(2) e(2) e'(2) by (metis insertE last_appendR list.distinct(1) singletonD)
  then have "e = e'" using e(2) e'(2) by auto
  then have "a = b" using eqs(2) by simp
  then show False using plugin_ok_same [OF p(1) q(1) eqs(1)] a(1) b(1) ne by simp
qed

lemma file_not_dir_other:
  assumes "slot_ok s p key" "slot_ok s q key" "f \<in> {cachedFilePath s q key, DeltaFilePath s q key, archiveFilePath s q key}"
  shows "f \<noteq> cachedDirPath s p key" "\<not> below f (cachedDirPath s p key)"
proof -
  have "length (cachedDirPath s p key) = length (CacheDir s) + 2" by (rule slot_paths [OF assms(1)]) simp
  moreover have "length f = length (CacheDir s) + 3" by (rule slot_paths [OF assms(2)]) (use assms(3) in auto)
  ultimately show "f \<noteq> cachedDirPath s p key" "\<not> below f (cachedDirPath s p key)"
    by (auto simp: below_def dest: arg_cong [of _ _ length])
qed

lemma tracked_frame:
  assumes tr: "tracked x key s p ds"
    and files: "\<And>f. stat d' f \<noteq> stat (st_disk s) f \<Longrightarrow> f \<in> F"
    and apart: "\<And>f. f \<in> F \<Longrightarrow> f \<notin> {cachedFilePath s p key, DeltaFilePath s p key, archiveFilePath s p key}
      \<and> f \<noteq> cachedDirPath s p key \<and> \<not> below f (cachedDirPath s p key)"
    and env: "denied d' = denied (st_disk s)" "full d' = full (st_disk s)"
    and map: "map_of m (pi_Source p) = map_of (plugins s) (pi_Source p)"
  shows "tracked x key (s\<lparr>plugins := m, st_disk := d'\<rparr>) p ds"
proof -
  have same: "stat d' f = stat (st_disk s) f"
    if "f \<in> {cachedFilePath s p key, DeltaFilePath s p key, archiveFilePath s p key, cachedDirPath s p key} \<or> below f (cachedDirPath s p key)" for f
    using files [of f] apart [of f] that by blast
  then have "dirs_ready d' (cachedDirPath s p key)" "file_ready d' (cachedFilePath s p key)" "file_ready d' (DeltaFilePath s p key)"
    "file_ready d' (archiveFilePath s p key)"
    using tr env by (auto simp: tracked_def slot_ready_def dirs_ready_def file_ready_def)
  then show ?thesis using tr same map by (simp add: tracked_def slot_ready_def)
qed

lemma writeDelta_frame:
  assumes "file \<noteq> []"
  shows "\<exists>d'. fst (writeDelta file buf s) = s\<lparr>st_disk := d'\<rparr> \<and> (\<forall>f. f \<noteq> file \<longrightarrow> stat d' f = stat (st_disk s) f) \<and>
    denied d' = denied (st_disk s) \<and> full d' = full (st_disk s)"
  using assms by (auto simp: writeDelta_def on_disk_def split_beta stat_append)

lemma rewriteDeltas_frame:
  "\<exists>d'. fst (rewriteDeltas file trunc ds s) = s\<lparr>st_disk := d'\<rparr> \<and> (\<forall>f. f \<noteq> file \<longrightarrow> stat d' f = stat (st_disk s) f) \<and>
    denied d' = denied (st_disk s) \<and> full d' = full (st_disk s)"
proof (cases "can_open (st_disk s) file \<and> ds \<noteq> []")
  case True
  let ?s1 = "s\<lparr>st_disk := fst (OpenFile (st_disk s) file trunc)\<rparr>"
  have "file \<noteq> []" using True by (simp add: can_open_def)
  from writeDelta_frame [OF this, of "trim_brackets (enc (JArr (map delta_json ds)))" ?s1]
  show ?thesis using True by (auto simp: rewriteDeltas_def on_disk_def split_beta Open_ok stat_Open)
next
  case False
  then show ?thesis
    by (intro exI [of _ "fst (OpenFile (st_disk s) file trunc)"]) (auto simp: rewriteDeltas_def on_disk_def split_beta Open_ok stat_Open)
qed

lemma archivePlugin_frame:
  "\<exists>d' m. fst (archivePlugin x q key s) = s\<lparr>plugins := m, st_disk := d'\<rparr> \<and>
    (\<forall>f. f \<noteq> DeltaFilePath s q key \<and> f \<noteq> archiveFilePath s q key \<longrightarrow> stat d' f = stat (st_disk s) f) \<and>
    denied d' = denied (st_disk s) \<and> full d' = full (st_disk s) \<and>
    m \<in> {plugins s, AList.update (pi_Source q) (fst (lastSentID q key)) (plugins s)}"
proof -
  have self: "s = s\<lparr>plugins := plugins s, st_disk := st_disk s\<rparr>" by simp
  show ?thesis
  proof (cases "\<exists>buf deltas. readIndividualPluginDeltas s q key = Inr buf \<and> unmarshal_deltas x (wrapBuffer buf CHR ''['' CHR '']'' '','') = Some deltas")
    case False
    then have "fst (archivePlugin x q key s) = s"
      by (auto simp: archivePlugin_def split: sum.splits option.splits)
    then show ?thesis using self by (intro exI [of _ "st_disk s"] exI [of _ "plugins s"]) simp
  next
    case True
    then obtain buf deltas where b: "readIndividualPluginDeltas s q key = Inr buf"
      "unmarshal_deltas x (wrapBuffer buf CHR ''['' CHR '']'' '','') = Some deltas" by blast
    define known where "known = (map_of (plugins s) (pi_Source q) \<noteq> None)"
    define m where "m = (if known \<and> deltas \<noteq> [] then AList.update (pi_Source q) (fst (lastSentID q key)) (plugins s) else plugins s)"
    define s1 where "s1 = s\<lparr>plugins := m\<rparr>"
    define sent where "sent = (\<lambda>d :: RawDelta. known \<and> rd_ID d \<le> snd (lastSentID q key))"
    define r where "r = (if archiveEnabled s1 then rewriteDeltas (archiveFilePath s1 q key) False (filter sent deltas) s1 else (s1, None))"
    have "archivePlugin x q key s = (case r of (s2, Some e) \<Rightarrow> (s2, Some e)
        | (s2, None) \<Rightarrow> rewriteDeltas (DeltaFilePath s2 q key) True (filter (\<lambda>d. \<not> sent d) deltas) s2)"
    proof -
      have s1_alt: "s1 = (if known \<and> deltas \<noteq> [] then s\<lparr>plugins := AList.update (pi_Source q) (fst (lastSentID q key)) (plugins s)\<rparr> else s)"
        by (simp add: s1_def m_def)
      show ?thesis unfolding archivePlugin_def r_def s1_alt sent_def known_def Let_def by (simp only: b sum.case option.case)
    qed
    moreover have "\<exists>d2. fst r = s1\<lparr>st_disk := d2\<rparr> \<and> (\<forall>f. f \<noteq> archiveFilePath s q key \<longrightarrow> stat d2 f = stat (st_disk s) f) \<and>
        denied d2 = denied (st_disk s) \<and> full d2 = full (st_disk s)"
      using rewriteDeltas_frame [of "archiveFilePath s q key" False "filter sent deltas" s1]
      by (cases "archiveEnabled s1") (auto simp: r_def s1_def intro: exI [of _ "st_disk s"])
    then obtain d2 where d2: "fst r = s1\<lparr>st_disk := d2\<rparr>" "\<And>f. f \<noteq> archiveFilePath s q key \<Longrightarrow> stat d2 f = stat (st_disk s) f"
        "denied d2 = denied (st_disk s)" "full d2 = full (st_disk s)" by blast
    ultimately have "fst (archivePlugin x q key s) = s1\<lparr>st_disk := d2\<rparr> \<or>
        fst (archivePlugin x q key s) = fst (rewriteDeltas (DeltaFilePath s q key) True (filter (\<lambda>d. \<not> sent d) deltas) (s1\<lparr>st_disk := d2\<rparr>))"
      by (cases r; cases "snd r") (auto simp: s1_def)
    then have "\<exists>d'. fst (archivePlugin x q key s) = s1\<lparr>st_disk := d'\<rparr> \<and> (\<forall>f. f \<noteq> DeltaFilePath s q key \<and> f \<noteq> archiveFilePath s q key \<longrightarrow>
        stat d' f = stat (st_disk s) f) \<and> denied d' = denied (st_disk s) \<and> full d' = full (st_disk s)"
      using rewriteDeltas_frame [of "DeltaFilePath s q key" True "filter (\<lambda>d. \<not> sent d) deltas" "s1\<lparr>st_disk := d2\<rparr>"] d2(2-4)
      by (elim disjE) auto
    moreover have "m \<in> {plugins s, AList.update (pi_Source q) (fst (lastSentID q key)) (plugins s)}" by (simp add: m_def)
    ultimately show ?thesis unfolding s1_def by blast
  qed
qed

lemma archive_other:
  assumes tr: "tracked x key s p ds" and ok: "plugins_ok (plugins s)" and folder: "plain (EntityFolder s key)" and ne: "source \<noteq> pi_Source p"
  shows "tracked x key (archive_source x key source s) p ds" "plugins_ok (plugins (archive_source x key source s))"
    "EntityFolder (archive_source x key source s) = EntityFolder s"
    "stat (st_disk (archive_source x key source s)) (cachedFilePath s p key) = stat (st_disk s) (cachedFilePath s p key)"
proof -
  have "tracked x key (archive_source x key source s) p ds \<and> plugins_ok (plugins (archive_source x key source s)) \<and>
    EntityFolder (archive_source x key source s) = EntityFolder s \<and>
    stat (st_disk (archive_source x key source s)) (cachedFilePath s p key) = stat (st_disk s) (cachedFilePath s p key)"
  proof (cases "map_of (plugins s) source")
    case None
    then show ?thesis using tr ok by (simp add: archive_source_def)
  next
    case (Some q)
    then have q: "plugin_ok q" "pi_Source q = source" using ok by (auto simp: plugins_ok_def dest: map_of_SomeD)
    have p: "plugin_ok p" using tr ok by (auto simp: plugins_ok_def tracked_def dest: map_of_SomeD)
    have slots: "slot_ok s p key" "slot_ok s q key" using p q(1) folder by (simp_all add: plugin_ok_slot)
    obtain d' m where f: "fst (archivePlugin x q key s) = s\<lparr>plugins := m, st_disk := d'\<rparr>"
      "\<And>f. f \<noteq> DeltaFilePath s q key \<and> f \<noteq> archiveFilePath s q key \<Longrightarrow> stat d' f = stat (st_disk s) f"
      "denied d' = denied (st_disk s)" "full d' = full (st_disk s)"
      "m \<in> {plugins s, AList.update (pi_Source q) (fst (lastSentID q key)) (plugins s)}"
      using archivePlugin_frame [of x q key s] by blast
    have tracked: "tracked x key (s\<lparr>plugins := m, st_disk := d'\<rparr>) p ds"
    proof (rule tracked_frame [OF tr _ _ f(3,4), where F = "{DeltaFilePath s q key, archiveFilePath s q key}"])
      show "f \<in> {DeltaFilePath s q key, archiveFilePath s q key}" if "stat d' f \<noteq> stat (st_disk s) f" for f using that f(2) by blast
      show "f \<notin> {cachedFilePath s p key, DeltaFilePath s p key, archiveFilePath s p key} \<and> f \<noteq> cachedDirPath s p key \<and> \<not> below f (cachedDirPath s p key)"
        if "f \<in> {DeltaFilePath s q key, archiveFilePath s q key}" for f
      proof -
        have f3: "f \<in> {cachedFilePath s q key, DeltaFilePath s q key, archiveFilePath s q key}" using that by simp
        have ne': "pi_Source p \<noteq> pi_Source q" using ne q(2) by simp
        show ?thesis using slot_files_differ [OF p slots(1) q(1) slots(2) ne' _ f3] file_not_dir_other [OF slots f3] by auto
      qed
      show "map_of m (pi_Source p) = map_of (plugins s) (pi_Source p)" using f(5) ne q(2) by (auto simp: gomap_simps)
    qed
    have "plugin_ok (fst (lastSentID q key))"
      using q(1) by (auto simp: plugin_ok_def lastSentID_def pi_entity_def Let_def in_int64_def min_int64_def max_int64_def dest!: in_updateD split: option.splits)
    then have "plugins_ok m"
      using f(5) ok q(2) entity_fields(1) [of q key] by (auto simp: plugins_ok_def same_slot_def dest!: in_updateD)
    moreover have "stat d' (cachedFilePath s p key) = stat (st_disk s) (cachedFilePath s p key)"
      using slot_files_differ [OF p slots(1) q(1) slots(2), of "cachedFilePath s p key"] ne q(2) by (intro f(2)) auto
    ultimately show ?thesis using f(1) Some tracked by (simp add: archive_source_def)
  qed
  then show "tracked x key (archive_source x key source s) p ds" "plugins_ok (plugins (archive_source x key source s))"
    "EntityFolder (archive_source x key source s) = EntityFolder s"
    "stat (st_disk (archive_source x key source s)) (cachedFilePath s p key) = stat (st_disk s) (cachedFilePath s p key)" by blast+
qed

lemma update_twice: "AList.update k v (AList.update k w m) = AList.update k v m"
  by (induction m) auto

lemma plugin_ok_entity:
  assumes "plugin_ok q"
  shows "plugin_ok (fst (lastSentID q key))" "in_int64 v \<Longrightarrow> plugin_ok (setLastSentID key v q)" "in_int64 v \<Longrightarrow> plugin_ok (setDeltaID key v q)"
    "plugin_ok (increaseDeltaID key q)"
proof -
  have zero: "in_int64 0" by (simp add: in_int64_def min_int64_def max_int64_def)
  have ents: "in_int64 (MostRecentID e) \<and> in_int64 (LastSentID e)" if "map_of (pi_Entities q) k = Some e" for k e
    using assms that by (auto simp: plugin_ok_def dest: map_of_SomeD)
  show "plugin_ok (fst (lastSentID q key))" "in_int64 v \<Longrightarrow> plugin_ok (setLastSentID key v q)" "in_int64 v \<Longrightarrow> plugin_ok (setDeltaID key v q)"
    "plugin_ok (increaseDeltaID key q)"
    using assms zero ents to_int64_range
    by (auto simp: plugin_ok_def lastSentID_def setLastSentID_def setDeltaID_def increaseDeltaID_def pi_entity_def Let_def
        dest!: in_updateD split: option.splits)
qed

lemma plugins_ok_update: "\<lbrakk>plugins_ok m; plugin_ok q; pi_Source q = k\<rbrakk> \<Longrightarrow> plugins_ok (AList.update k q m)"
  by (auto simp: plugins_ok_def dest!: in_updateD)

lemma settles_update:
  assumes "map_of (plugins s) (rd_Source d) = Some q" "settles hint d"
  shows "\<exists>q'. updateLastDeltaSent key d hint s = s\<lparr>plugins := AList.update (rd_Source d) q' (plugins s)\<rparr> \<and> same_slot q' q \<and>
    (plugin_ok q \<longrightarrow> in_int64 (rd_ID d) \<longrightarrow> plugin_ok q') \<and> snd (lastSentID q' key) = ack hint d (snd (lastSentID q key))"
proof (cases hint)
  case None
  let ?q = "fst (lastSentID q key)"
  let ?q' = "if snd (lastSentID q key) < rd_ID d then setLastSentID key (rd_ID d) ?q else ?q"
  have "updateLastDeltaSent key d hint s = s\<lparr>plugins := AList.update (rd_Source d) ?q' (plugins s)\<rparr>"
    using assms(1) None by (simp add: updateLastDeltaSent_def update_plugin_def Let_def gomap_simps update_twice)
  moreover have "same_slot ?q' q" using same_slot_trans by (simp, metis entity_fields(1,2))
  moreover have "plugin_ok q \<longrightarrow> in_int64 (rd_ID d) \<longrightarrow> plugin_ok ?q'" by (simp add: plugin_ok_entity)
  ultimately show ?thesis using None by (intro exI [of _ ?q']) (simp add: ack_def)
next
  case (Some h)
  then have "\<not> NeedsReset h" "SendNextID h = to_int64 (rd_ID d + 1)" using assms(2) by (simp_all add: settles_def)
  then have "updateLastDeltaSent key d hint s = s\<lparr>plugins := AList.update (rd_Source d) (setLastSentID key (rd_ID d) q) (plugins s)\<rparr>"
    using assms(1) Some by (simp add: updateLastDeltaSent_def update_plugin_def)
  then show ?thesis using Some by (intro exI [of _ "setLastSentID key (rd_ID d) q"]) (simp add: ack_def plugin_ok_entity)
qed

lemma tracked_other_plugin:
  assumes "tracked x key s p ds" "k \<noteq> pi_Source p"
  shows "tracked x key (s\<lparr>plugins := AList.update k q (plugins s)\<rparr>) p ds"
proof -
  have "tracked x key (s\<lparr>plugins := AList.update k q (plugins s), st_disk := st_disk s\<rparr>) p ds"
    by (rule tracked_frame [OF assms(1), where F = "{}"]) (use assms(2) in \<open>auto simp: gomap_simps\<close>)
  then show ?thesis by simp
qed

lemma settle_step:
  assumes tr: "tracked x key s p ds" and ok: "plugins_ok (plugins s)" and d: "in_int64 (rd_ID d)" "settles hint d"
  shows "\<exists>p'. tracked x key (updateLastDeltaSent key d hint s) p' ds \<and> same_slot p' p \<and> plugins_ok (plugins (updateLastDeltaSent key d hint s)) \<and>
    snd (lastSentID p' key) = (if rd_Source d = pi_Source p then ack hint d (snd (lastSentID p key)) else snd (lastSentID p key)) \<and>
    st_disk (updateLastDeltaSent key d hint s) = st_disk s \<and> EntityFolder (updateLastDeltaSent key d hint s) = EntityFolder s \<and>
    CacheDir (updateLastDeltaSent key d hint s) = CacheDir s"
proof (cases "map_of (plugins s) (rd_Source d)")
  case None
  then have "updateLastDeltaSent key d hint s = s" by (simp add: updateLastDeltaSent_def)
  moreover have "rd_Source d \<noteq> pi_Source p" using None tr by (auto simp: tracked_def)
  ultimately show ?thesis using tr ok by auto
next
  case (Some q)
  have q: "plugin_ok q" "pi_Source q = rd_Source d" using ok Some by (auto simp: plugins_ok_def dest: map_of_SomeD)
  obtain q' where q': "updateLastDeltaSent key d hint s = s\<lparr>plugins := AList.update (rd_Source d) q' (plugins s)\<rparr>" "same_slot q' q"
      "plugin_ok q'" "snd (lastSentID q' key) = ack hint d (snd (lastSentID q key))"
    using settles_update [OF Some d(2), of key] q(1) d(1) by auto
  have ok': "plugins_ok (AList.update (rd_Source d) q' (plugins s))"
    using plugins_ok_update [OF ok q'(3)] q'(2) q(2) by (simp add: same_slot_def)
  show ?thesis
  proof (cases "rd_Source d = pi_Source p")
    case True
    then have "q = p" using Some tr by (simp add: tracked_def)
    then show ?thesis using tracked_plugin [OF tr, of q'] q' ok' True by (intro exI [of _ q']) simp
  next
    case False
    then show ?thesis using tracked_other_plugin [OF tr False, of q'] q'(1) ok' by (intro exI [of _ p]) simp
  qed
qed

lemma settle_fold:
  assumes "tracked x key s p ds" "plugins_ok (plugins s)" "\<forall>d \<in> set sent. in_int64 (rd_ID d) \<and> settles (hint_of results d) d"
  shows "\<exists>p' s'. fold (\<lambda>d. updateLastDeltaSent key d (hint_of results d)) sent s = s' \<and> tracked x key s' p' ds \<and> same_slot p' p \<and>
    plugins_ok (plugins s') \<and> snd (lastSentID p' key) = acked results (pi_Source p) sent (snd (lastSentID p key)) \<and>
    st_disk s' = st_disk s \<and> EntityFolder s' = EntityFolder s \<and> CacheDir s' = CacheDir s"
  using assms
proof (induction sent arbitrary: s p)
  case Nil
  then show ?case by (auto simp: acked_def)
next
  case (Cons d sent)
  let ?s1 = "updateLastDeltaSent key d (hint_of results d) s"
  obtain p1 where p1: "tracked x key ?s1 p1 ds" "same_slot p1 p" "plugins_ok (plugins ?s1)"
    "snd (lastSentID p1 key) = (if rd_Source d = pi_Source p then ack (hint_of results d) d (snd (lastSentID p key)) else snd (lastSentID p key))"
    "st_disk ?s1 = st_disk s" "EntityFolder ?s1 = EntityFolder s" "CacheDir ?s1 = CacheDir s"
    using settle_step [OF Cons.prems(1,2), of d "hint_of results d"] Cons.prems(3) by auto
  obtain p2 s2 where p2: "fold (\<lambda>d. updateLastDeltaSent key d (hint_of results d)) sent ?s1 = s2" "tracked x key s2 p2 ds" "same_slot p2 p1"
    "plugins_ok (plugins s2)" "snd (lastSentID p2 key) = acked results (pi_Source p1) sent (snd (lastSentID p1 key))"
    "st_disk s2 = st_disk ?s1" "EntityFolder s2 = EntityFolder ?s1" "CacheDir s2 = CacheDir ?s1"
    using Cons.IH [OF p1(1,3)] Cons.prems(3) by auto
  have "pi_Source p1 = pi_Source p" using p1(2) by (simp add: same_slot_def)
  then have "snd (lastSentID p2 key) = acked results (pi_Source p) (d # sent) (snd (lastSentID p key))"
    using p2(5) p1(4) by (simp add: acked_def)
  then show ?case using p2 p1(2,5-7) same_slot_trans [OF p2(3) p1(2)] by (intro exI [of _ p2] exI [of _ s2]) simp
qed

lemma archive_ok:
  assumes "plugins_ok (plugins s)"
  shows "plugins_ok (plugins (archive_source x key source s))" "EntityFolder (archive_source x key source s) = EntityFolder s"
proof -
  have "plugins_ok (plugins (archive_source x key source s)) \<and> EntityFolder (archive_source x key source s) = EntityFolder s"
  proof (cases "map_of (plugins s) source")
    case (Some q)
    then have q: "plugin_ok q" using assms by (auto simp: plugins_ok_def dest: map_of_SomeD)
    obtain d' m where "fst (archivePlugin x q key s) = s\<lparr>plugins := m, st_disk := d'\<rparr>"
      "m \<in> {plugins s, AList.update (pi_Source q) (fst (lastSentID q key)) (plugins s)}"
      using archivePlugin_frame [of x q key s] by blast
    moreover have "plugins_ok (AList.update (pi_Source q) (fst (lastSentID q key)) (plugins s))"
      using plugins_ok_update [OF assms plugin_ok_entity(1) [OF q, of key]] entity_fields(1) [of q key] by (simp add: same_slot_def)
    ultimately show ?thesis using Some assms by (auto simp: archive_source_def)
  qed (use assms in \<open>simp add: archive_source_def\<close>)
  then show "plugins_ok (plugins (archive_source x key source s))" "EntityFolder (archive_source x key source s) = EntityFolder s" by simp_all
qed

lemma archive_frame_paths: "CacheDir (archive_source x key source s) = CacheDir s" "DataDir (archive_source x key source s) = DataDir s"
proof -
  have "CacheDir (archive_source x key source s) = CacheDir s \<and> DataDir (archive_source x key source s) = DataDir s"
  proof (cases "map_of (plugins s) source")
    case (Some q)
    obtain d' m where "fst (archivePlugin x q key s) = s\<lparr>plugins := m, st_disk := d'\<rparr>"
      using archivePlugin_frame [of x q key s] by blast
    with Some show ?thesis by (simp add: archive_source_def)
  qed (simp add: archive_source_def)
  then show "CacheDir (archive_source x key source s) = CacheDir s" "DataDir (archive_source x key source s) = DataDir s" by simp_all
qed

lemma archive_fold:
  assumes "tracked x key s p ds" "plugins_ok (plugins s)" "plain (EntityFolder s key)"
  shows "\<exists>p'. tracked x key (fold (archive_source x key) srcs s) p'
      (if pi_Source p \<in> set srcs then filter (\<lambda>d. snd (lastSentID p key) < rd_ID d) ds else ds) \<and> same_slot p' p \<and>
    snd (lastSentID p' key) = snd (lastSentID p key) \<and>
    stat (st_disk (fold (archive_source x key) srcs s)) (cachedFilePath s p key) = stat (st_disk s) (cachedFilePath s p key)"
  using assms
proof (induction srcs arbitrary: s p ds)
  case (Cons source srcs)
  let ?s1 = "archive_source x key source s"
  have ok1: "plugins_ok (plugins ?s1)" "plain (EntityFolder ?s1 key)" using archive_ok [OF Cons.prems(2)] Cons.prems(3) by simp_all
  let ?ds1 = "if source = pi_Source p then filter (\<lambda>d. snd (lastSentID p key) < rd_ID d) ds else ds"
  obtain p1 where p1: "tracked x key ?s1 p1 ?ds1" "same_slot p1 p" "snd (lastSentID p1 key) = snd (lastSentID p key)"
    "stat (st_disk ?s1) (cachedFilePath s p key) = stat (st_disk s) (cachedFilePath s p key)"
  proof (cases "source = pi_Source p")
    case True
    then show thesis using archive_tracked [OF Cons.prems(1)] that by auto
  next
    case False
    show thesis by (rule that [of p]) (use archive_other [OF Cons.prems False] False in simp_all)
  qed
  have path: "cachedFilePath ?s1 p1 key = cachedFilePath s p key"
    using same_slot_paths(2) [OF p1(2)] archive_ok(2) [OF Cons.prems(2)] by (simp add: cachedFilePath_def archive_frame_paths)
  have src: "pi_Source p1 = pi_Source p" using p1(2) by (simp add: same_slot_def)
  from Cons.IH [OF p1(1) ok1] obtain p2 where p2: "tracked x key (fold (archive_source x key) srcs ?s1) p2
      (if pi_Source p1 \<in> set srcs then filter (\<lambda>d. snd (lastSentID p1 key) < rd_ID d) ?ds1 else ?ds1)" "same_slot p2 p1"
    "snd (lastSentID p2 key) = snd (lastSentID p1 key)"
    "stat (st_disk (fold (archive_source x key) srcs ?s1)) (cachedFilePath ?s1 p1 key) = stat (st_disk ?s1) (cachedFilePath ?s1 p1 key)" by blast
  have "(if pi_Source p1 \<in> set srcs then filter (\<lambda>d. snd (lastSentID p1 key) < rd_ID d) ?ds1 else ?ds1) =
      (if pi_Source p \<in> set (source # srcs) then filter (\<lambda>d. snd (lastSentID p key) < rd_ID d) ds else ds)"
    using src p1(3) by auto
  then show ?case using p2 p1(3,4) path same_slot_trans [OF p2(2) p1(2)] by (intro exI [of _ p2]) simp
qed auto

lemma plugin_ok_source: "plugins_ok m \<Longrightarrow> map_of m [] = None"
  by (auto simp: plugins_ok_def plugin_ok_def map_of_eq_None_iff)

section \<open>Reading the journals\<close>

lemma split_journals_spec:
  assumes "\<forall>j \<in> set js. j \<noteq> []" "0 \<le> maxSize" "int (length (journal_text b)) \<le> maxSize \<or> b \<in> A" "set js \<subseteq> A"
  shows "\<exists>blocks. split_journals maxSize (map journal_text js) (map journal_text B) (journal_text b) = map journal_text (B @ blocks) \<and>
    concat blocks = b @ concat js \<and> (\<forall>k \<in> set blocks. int (length (journal_text k)) \<le> maxSize \<or> k \<in> A)"
  using assms
proof (induction js arbitrary: B b)
  case Nil
  then show ?case by (cases "b = []") (auto intro: exI [of _ "[]"] exI [of _ "[b]"])
next
  case (Cons j js)
  show ?case
  proof (cases "int (length (journal_text b)) + int (length (journal_text j)) > maxSize")
    case True
    have "\<exists>blocks. split_journals maxSize (map journal_text js) (map journal_text (B @ [b])) (journal_text j) = map journal_text ((B @ [b]) @ blocks) \<and>
        concat blocks = j @ concat js \<and> (\<forall>k \<in> set blocks. int (length (journal_text k)) \<le> maxSize \<or> k \<in> A)"
      using Cons.prems by (intro Cons.IH) auto
    then obtain blocks where bl: "split_journals maxSize (map journal_text js) (map journal_text (B @ [b])) (journal_text j) = map journal_text ((B @ [b]) @ blocks)"
        "concat blocks = j @ concat js" "\<forall>k \<in> set blocks. int (length (journal_text k)) \<le> maxSize \<or> k \<in> A" by blast
    then show ?thesis using True Cons.prems(3) by (intro exI [of _ "b # blocks"]) simp
  next
    case False
    have "\<exists>blocks. split_journals maxSize (map journal_text js) (map journal_text B) (journal_text (b @ j)) = map journal_text (B @ blocks) \<and>
        concat blocks = (b @ j) @ concat js \<and> (\<forall>k \<in> set blocks. int (length (journal_text k)) \<le> maxSize \<or> k \<in> A)"
      using Cons.prems False by (intro Cons.IH) auto
    then show ?thesis using False by simp
  qed
qed

lemma journals_spec:
  "\<forall>p \<in> set ps. reads x s key p (J p) \<Longrightarrow> journals s key ps = map journal_text (filter (\<lambda>ds. ds \<noteq> []) (map J ps))"
  unfolding journals_def
  by (induction ps) (auto simp: reads_def split: sum.splits)

lemma concat_filter_nonempty: "concat (filter (\<lambda>ds. ds \<noteq> []) xs) = concat xs"
  by (induction xs) auto

lemma concat_journal_text: "concat (map journal_text js) = journal_text (concat js)"
  by (induction js) simp_all

lemma unmarshal_blocks:
  "\<forall>b \<in> set blocks. list_all (rd_ok x) b \<Longrightarrow>
    all_some (map (\<lambda>buf. unmarshal_deltas x (wrapBuffer buf CHR ''['' CHR '']'' '','')) (map journal_text blocks)) = Some blocks"
  using all_some_map [of blocks "\<lambda>b. unmarshal_deltas x (wrapBuffer (journal_text b) CHR ''['' CHR '']'' '','')" "\<lambda>b. b"]
  by (simp add: unmarshal_journal comp_def)

lemma child_plain:
  assumes "names_ok s key" "n \<in> set (children (st_disk s) dir)"
  shows "plain n \<and> meta_free n"
proof -
  have "dir @ [n] \<in> fst ` set (entries (st_disk s))" using assms(2) by (simp only: child_iff)
  then have "list_all plain (dir @ [n]) \<and> list_all meta_free (dir @ [n])" using assms(1) by (simp only: names_ok_def)
  then show ?thesis by simp
qed

lemma plugin_files_spec:
  assumes "list_all meta_free dir" "plain n" "meta_free n" "plain folder" "meta_free folder"
  shows "plugin_files s dir folder n =
    (if stat (st_disk s) (dir @ [n, folder]) = Some Dir \<and> \<not> denied (st_disk s) (dir @ [n, folder])
     then map (newPluginInfo n) (filter (\<lambda>f. has_suffix f ''.json'') (children (st_disk s) (dir @ [n, folder]))) else [])"
proof -
  have "plain ''*.json''" by (simp add: plain_def)
  then have "fp_join dir [n, folder, ''*.json''] = (dir @ [n, folder]) @ [''*.json'']" using assms by (simp add: fp_join_plain)
  moreover have "list_all meta_free (dir @ [n, folder])" using assms by simp
  ultimately show ?thesis unfolding plugin_files_def using glob_json [of "dir @ [n, folder]" "st_disk s"] by (simp add: comp_def)
qed

lemma collectPluginFiles_spec:
  assumes "names_ok s key" "list_all meta_free dir"
  shows "collectPluginFiles s dir key = (if stat (st_disk s) dir = Some Dir \<and> \<not> denied (st_disk s) dir then Some (reaped s dir key) else None)"
proof -
  have "plugin_files s dir (EntityFolder s key) n = (let folder = dir @ [n, EntityFolder s key] in
         if stat (st_disk s) folder = Some Dir \<and> \<not> denied (st_disk s) folder
         then map (newPluginInfo n) (filter (\<lambda>f. has_suffix f ''.json'') (children (st_disk s) folder)) else [])"
    if "n \<in> set (children (st_disk s) dir)" for n
    using plugin_files_spec [OF assms(2)] child_plain [OF assms(1) that] assms(1) by (simp add: names_ok_def Let_def)
  then show ?thesis
    by (auto simp: collectPluginFiles_def plugin_dirs_def read_dir_def reaped_def intro!: arg_cong [of _ _ concat])
qed

section \<open>Clearing a plugin\<close>

lemma remove_ready:
  assumes "file_ready d p" "p \<noteq> []"
  shows "stat (fst (os_Remove d p)) q = (if q = p then None else stat d q)"
  using assms by (auto simp: stat_Remove Remove_ok file_ready_def)

lemma clear_spec:
  assumes "slot_ready s p key"
  shows "\<exists>d'. clearPluginDeltaStore p key s = s\<lparr>st_disk := d'\<rparr> \<and>
    (\<forall>q. stat d' q = (if q \<in> {cachedFilePath s p key, DeltaFilePath s p key, archiveFilePath s p key} then None else stat (st_disk s) q)) \<and>
    denied d' = denied (st_disk s) \<and> full d' = full (st_disk s)"
proof -
  let ?c = "cachedFilePath s p key" and ?f = "DeltaFilePath s p key" and ?a = "archiveFilePath s p key"
  have ok: "slot_ok s p key" and fr: "file_ready (st_disk s) ?c" "file_ready (st_disk s) ?f" "file_ready (st_disk s) ?a"
    using assms by (simp_all add: slot_ready_def)
  note ds = slot_distinct [OF ok]
  let ?d1 = "fst (os_Remove (st_disk s) ?c)"
  let ?d2 = "fst (os_Remove ?d1 ?f)"
  let ?d3 = "fst (os_Remove ?d2 ?a)"
  have 1: "stat ?d1 q = (if q = ?c then None else stat (st_disk s) q)" for q by (rule remove_ready [OF fr(1) ds(8)])
  have "file_ready ?d1 ?f" by (rule file_ready_frame [OF fr(2)]) (use ds(1) in \<open>simp_all add: 1\<close>)
  then have 2: "stat ?d2 q = (if q = ?f then None else stat ?d1 q)" for q by (rule remove_ready [OF _ ds(7)])
  have "file_ready ?d2 ?a" by (rule file_ready_frame [OF fr(3)]) (use ds(2,3) in \<open>simp_all add: 1 2\<close>)
  then have 3: "stat ?d3 q = (if q = ?a then None else stat ?d2 q)" for q by (rule remove_ready [OF _ ds(9)])
  have "clearPluginDeltaStore p key s = s\<lparr>st_disk := ?d3\<rparr>" by (simp add: clearPluginDeltaStore_def Let_def)
  then show ?thesis by (intro exI [of _ ?d3]) (simp add: 1 2 3)
qed

section \<open>Values that were read\<close>

lemma put_keys: "fst ` set (put k v m) = insert k (fst ` set m)"
proof (induction m)
  case (Cons e m)
  then show ?case by (cases e) (simp add: insert_commute)
qed simp

lemma put_sorted: "sorted_wrt (<) (map fst m) \<Longrightarrow> sorted_wrt (<) (map fst (put k v m))"
proof (induction m)
  case (Cons e m)
  obtain k' v' where e: "e = (k', v')" by force
  have m: "\<forall>y \<in> fst ` set m. k' < y" "sorted_wrt (<) (map fst m)" using Cons.prems by (simp_all add: e)
  consider "k < k'" | "k = k'" | "k' < k" by force
  then show ?case
  proof cases
    case 1
    have "\<forall>y \<in> fst ` set m. k < y" using m(1) less_trans [OF 1] by blast
    then show ?thesis using 1 m by (simp add: e)
  next
    case 2
    then show ?thesis using m by (simp add: e)
  next
    case 3
    have "\<forall>y \<in> fst ` set (put k v m). k' < y" unfolding put_keys using m(1) 3 by simp
    then show ?thesis using 3 Cons.IH [OF m(2)] by (simp add: e order_less_not_sym)
  qed
qed simp

lemma put_all: "list_all (\<lambda>(k, v). P v) m \<Longrightarrow> P v \<Longrightarrow> list_all (\<lambda>(k, v). P v) (put k v m)"
  by (induction m) auto

lemma json_value_canon:
  assumes law: "\<forall>lit l. canon lit = Some l \<longrightarrow> canon l = Some l \<and> valid_number l \<and> list_all num_char l"
  shows "\<And>v. json_value canon j = Some v \<Longrightarrow> json_ok canon v"
    and "\<And>vs. json_values canon js = Some vs \<Longrightarrow> list_all (json_ok canon) vs"
    and "\<And>m'. \<lbrakk>json_members canon ms m = Some m'; sorted_wrt (<) (map fst m); list_all (\<lambda>(k, v). json_ok canon v) m\<rbrakk> \<Longrightarrow>
      sorted_wrt (<) (map fst m') \<and> list_all (\<lambda>(k, v). json_ok canon v) m'"
  using law
proof (induction canon j and canon js and canon ms m rule: json_value_json_values_json_members.induct)
  case (3 canon lit)
  then obtain l where "canon lit = Some l" "v = JNum l" by auto
  then show ?case using "3.prems"(2) by simp
next
  case (5 canon xs)
  then obtain vs where "json_values canon xs = Some vs" "v = JArr vs" by auto
  then show ?case using "5.IH" "5.prems"(2) by simp
next
  case (6 canon ms)
  then obtain m' where "json_members canon ms [] = Some m'" "v = JObj m'" by auto
  then show ?case using "6.IH" [of m'] "6.prems"(2) by simp
next
  case (8 canon x xs)
  then obtain u us where "json_value canon x = Some u" "json_values canon xs = Some us" "vs = u # us" by (auto split: option.splits)
  then show ?case using "8.IH" "8.prems"(2) by simp
next
  case (10 canon k x ms m)
  then obtain u where u: "json_value canon x = Some u" "json_members canon ms (put k u m) = Some m'" by (auto split: option.splits)
  have "json_ok canon u" by (rule "10.IH"(1) [OF u(1) "10.prems"(4)])
  then show ?case using "10.IH"(2) [OF u put_sorted [OF "10.prems"(2)] put_all [OF "10.prems"(3)] "10.prems"(4)] by blast
qed simp_all

lemma json_value_is_ok: "float_law x \<Longrightarrow> json_value (float_text x) j = Some v \<Longrightarrow> json_ok (float_text x) v"
  by (rule json_value_canon(1)) (auto simp: float_law_def)

lemma object_is_ok:
  assumes "float_law x" "unmarshal_object x t = Some v"
  shows "(v = JNull \<or> (\<exists>ms. v = JObj ms)) \<and> json_ok (float_text x) v"
proof -
  obtain j where j: "object_value x j = Some v" using assms(2) by (auto simp: unmarshal_object_def split: option.splits)
  show ?thesis
  proof (cases j)
    case (JObj ms)
    then have v: "json_value (float_text x) (JObj ms) = Some v" using j by (simp add: object_value_def)
    then show ?thesis using json_value_is_ok [OF assms(1) v] by (auto simp del: json_ok.simps)
  qed (use j in \<open>auto simp: object_value_def\<close>)
qed

lemma next_delta_ok:
  "\<lbrakk>float_law x; unmarshal_object x t = Some diff; in_int64 now\<rbrakk> \<Longrightarrow> rd_ok x (next_delta s now p key diff f)"
  using object_is_ok [of x t diff] by (simp add: rd_ok_def next_delta_def to_int64_range)

section \<open>Updating the cache\<close>

lemma read_file_eq: "stat d1 q = stat d q \<Longrightarrow> denied d1 = denied d \<Longrightarrow> read_file d1 q = read_file d q"
  by (simp add: read_file_def split: option.splits node.splits)

lemma read_file_Some: "read_file d q = Some c \<longleftrightarrow> stat d q = Some (File c) \<and> \<not> denied d q"
  by (auto simp: read_file_def split: option.splits node.splits)

lemma json_not_cache: "stem @ ''.json'' \<noteq> CACHE_DIR"
  by (rule notI, drule arg_cong [of _ _ last]) (simp add: CACHE_DIR_def)

lemma source_not_slot:
  assumes "slot_ok s p key" "CacheDir s = DataDir s @ [CACHE_DIR]"
  shows "SourceFilePath s p key \<notin> {cachedFilePath s p key, DeltaFilePath s p key, archiveFilePath s p key, cachedDirPath s p key}"
  by (rule slot_paths [OF assms(1)]) (auto simp: assms(2) json_not_cache)

lemma update_spec:
  assumes ready: "slot_ready s p key" and dirs: "CacheDir s = DataDir s @ [CACHE_DIR]"
    and source: "read_file (st_disk s) (SourceFilePath s p key) = Some b"
    and del: "newPluginDelta x p key s = Some (t, f)" "t \<noteq> EMPTY_DELTA" "unmarshal_object x t = Some diff"
  shows "\<exists>d'. updatePluginInventoryCache x now p key s =
      (s\<lparr>plugins := AList.update (pi_Source p) (increaseDeltaID key (known_plugin s p)) (plugins s), st_disk := d'\<rparr>, True, None) \<and>
    stat d' (DeltaFilePath s p key) =
      Some (File (file_content (st_disk s) (DeltaFilePath s p key) @ enc (delta_json (next_delta s now p key diff f)) @ '','')) \<and>
    stat d' (cachedFilePath s p key) = Some (File b) \<and>
    (\<forall>q. q \<notin> {DeltaFilePath s p key, cachedFilePath s p key} \<longrightarrow> stat d' q = stat (fst (MkdirAll (st_disk s) (cachedDirPath s p key))) q) \<and>
    denied d' = denied (st_disk s) \<and> full d' = full (st_disk s)"
proof -
  let ?c = "cachedFilePath s p key" and ?f = "DeltaFilePath s p key" and ?src = "SourceFilePath s p key" and ?dir = "cachedDirPath s p key"
  have ok: "slot_ok s p key" and fr: "file_ready (st_disk s) ?c" and mk: "snd (MkdirAll (st_disk s) ?dir)"
    using ready dirs_ready_Mkdir by (simp_all add: slot_ready_def)
  note ds = slot_distinct [OF ok] and sn = source_not_slot [OF ok dirs]
  obtain d1 where d1: "storeDelta x now p key (t, f) s =
      (s\<lparr>plugins := AList.update (pi_Source p) (increaseDeltaID key (known_plugin s p)) (plugins s), st_disk := d1\<rparr>, None)"
    "\<And>q. stat d1 q = (if q = ?f then Some (File (file_content (st_disk s) ?f @ enc (delta_json (next_delta s now p key diff f)) @ '',''))
       else stat (fst (MkdirAll (st_disk s) ?dir)) q)"
    "denied d1 = denied (st_disk s)" "full d1 = full (st_disk s)"
    using storeDelta_spec [OF ready del(3), of now f] by blast
  have src: "stat d1 ?src = Some (File b)" "\<not> denied d1 ?src"
    using source sn d1(2,3) by (auto simp: read_file_Some stat_Mkdir_file)
  have dir: "stat d1 (butlast ?c) = Some Dir"
    using Mkdir_ok [OF mk] dir_not_file [OF ok] ds(5) by (auto simp: d1(2))
  have "file_ready (fst (MkdirAll (st_disk s) ?dir)) ?c" using file_ready_Mkdir [OF _ _ fr, of ?dir] file_not_below [OF ds(5,8)] by simp
  then have fr1: "file_ready d1 ?c" by (rule file_ready_frame) (use d1(2-4) ds(1) in simp_all)
  have copy: "snd (CopyFile d1 ?src ?c)" "stat (fst (CopyFile d1 ?src ?c)) ?c = Some (File b)"
    using Copy_ok [OF src(1) _ dir] src(2) fr1 sn by (auto simp: file_ready_def)
  have "stat (fst (CopyFile d1 ?src ?c)) ?f = stat d1 ?f" by (rule stat_Copy_other) (use ds(1) in simp)
  then show ?thesis
    using copy del(1,2) d1
    by (intro exI [of _ "fst (CopyFile d1 ?src ?c)"])
      (simp add: updatePluginInventoryCache_def replacePluginCacheFileWithSource_def on_disk_def split_beta stat_Copy_other)
qed

section \<open>Properties\<close>

lemma UpdateState_tracked:
  assumes "tracked x key s p ds" "plugins_ok (plugins s)" "plain (EntityFolder s key)"
    and "\<forall>d \<in> set sent. in_int64 (rd_ID d) \<and> settles (hint_of results d) d"
  shows "\<exists>p'. tracked x key (UpdateState x key sent results s) p'
      (if pi_Source p \<in> rd_Source ` set sent then filter (\<lambda>d. acked results (pi_Source p) sent (snd (lastSentID p key)) < rd_ID d) ds else ds)
    \<and> same_slot p' p \<and> snd (lastSentID p' key) = acked results (pi_Source p) sent (snd (lastSentID p key))
    \<and> stat (st_disk (UpdateState x key sent results s)) (cachedFilePath s p key) = stat (st_disk s) (cachedFilePath s p key)"
proof -
  obtain p1 s1 where p1: "fold (\<lambda>d. updateLastDeltaSent key d (hint_of results d)) sent s = s1" "tracked x key s1 p1 ds" "same_slot p1 p"
    "plugins_ok (plugins s1)" "snd (lastSentID p1 key) = acked results (pi_Source p) sent (snd (lastSentID p key))"
    "st_disk s1 = st_disk s" "EntityFolder s1 = EntityFolder s" "CacheDir s1 = CacheDir s"
    using settle_fold [OF assms(1,2,4)] by blast
  let ?srcs = "replicate (length sent) [] @ map rd_Source sent"
  have src: "pi_Source p1 = pi_Source p" "pi_Source p \<noteq> []"
    using p1(3) assms(1,2) plugin_ok_source by (auto simp: same_slot_def tracked_def)
  have path: "cachedFilePath s1 p1 key = cachedFilePath s p key"
    using p1(3,7,8) by (simp add: cachedFilePath_def same_slot_def)
  have "plain (EntityFolder s1 key)" using assms(3) p1(7) by simp
  from archive_fold [OF p1(2,4) this, of ?srcs] obtain p2 where p2: "tracked x key (fold (archive_source x key) ?srcs s1) p2
      (if pi_Source p1 \<in> set ?srcs then filter (\<lambda>d. snd (lastSentID p1 key) < rd_ID d) ds else ds)" "same_slot p2 p1"
    "snd (lastSentID p2 key) = snd (lastSentID p1 key)"
    "stat (st_disk (fold (archive_source x key) ?srcs s1)) (cachedFilePath s1 p1 key) = stat (st_disk s1) (cachedFilePath s1 p1 key)" by blast
  have eq: "fold (archive_source x key) ?srcs s1 = UpdateState x key sent results s"
    using p1(1) by (simp add: UpdateState_def Let_def hint_of_def [abs_def])
  have mem: "pi_Source p1 \<in> set ?srcs \<longleftrightarrow> pi_Source p \<in> rd_Source ` set sent" using src by auto
  show ?thesis
    using p2(1,3,4) [unfolded eq mem p1(5,6) path] same_slot_trans [OF p2(2) p1(3)] by blast
qed

text \<open>
  C4. When the backend acknowledges the deltas of a block, whatever plugins they come from, \<^verbatim>\<open>UpdateState\<close>
  leaves in the journal of every plugin exactly the deltas above the last identifier acknowledged for it, in their order,
  records that identifier, and does not touch the cached inventory.
\<close>

theorem UpdateState_keeps_unsent:
  assumes "tracked x key s p ds" "plugins_ok (plugins s)" "plain (EntityFolder s key)"
    and "\<forall>d \<in> set sent. in_int64 (rd_ID d) \<and> settles (hint_of results d) d"
  shows "\<exists>p'. tracked x key (UpdateState x key sent results s) p'
      (if pi_Source p \<in> rd_Source ` set sent then filter (\<lambda>d. acked results (pi_Source p) sent (snd (lastSentID p key)) < rd_ID d) ds else ds)
    \<and> same_slot p' p \<and> snd (lastSentID p' key) = acked results (pi_Source p) sent (snd (lastSentID p key))
    \<and> stat (st_disk (UpdateState x key sent results s)) (cachedFilePath s p key) = stat (st_disk s) (cachedFilePath s p key)"
  using assms by (rule UpdateState_tracked)

lemma ReadDeltas_pending:
  assumes "names_ok s key" "stat (st_disk s) (CacheDir s) = Some Dir" "\<not> denied (st_disk s) (CacheDir s)"
    and "\<forall>p \<in> set (reaped s (CacheDir s) key). reads x s key p (J p)"
  shows "\<exists>blocks. ReadDeltas x key s = (s, Inr blocks) \<and> concat blocks = concat (map J (reaped s (CacheDir s) key)) \<and>
    (0 < maxInventorySize s \<longrightarrow> (\<forall>b \<in> set blocks. int (length (journal_text b)) \<le> maxInventorySize s \<or> b \<in> J ` set (reaped s (CacheDir s) key)))"
proof -
  let ?ps = "reaped s (CacheDir s) key"
  have collect: "collectPluginFiles s (CacheDir s) key = Some ?ps"
    using collectPluginFiles_spec [OF assms(1)] assms(1-3) by (simp add: names_ok_def)
  let ?js = "filter (\<lambda>ds. ds \<noteq> []) (map J ?ps)"
  have js: "journals s key ?ps = map journal_text ?js" by (rule journals_spec [OF assms(4)])
  have ok: "list_all (rd_ok x) (concat (map J ?ps))" using assms(4) by (auto simp: reads_def list_all_iff)
  show ?thesis
  proof (cases "0 < maxInventorySize s")
    case True
    obtain blocks where bl: "split_journals (maxInventorySize s) (map journal_text ?js) [] [] = map journal_text blocks"
        "concat blocks = concat ?js" "\<forall>b \<in> set blocks. int (length (journal_text b)) \<le> maxInventorySize s \<or> b \<in> J ` set ?ps"
      using split_journals_spec [of ?js "maxInventorySize s" "[]" "J ` set ?ps" "[]"] True by auto
    have "concat blocks = concat (map J ?ps)" using bl(2) by (simp add: concat_filter_nonempty)
    moreover have "\<forall>b \<in> set blocks. list_all (rd_ok x) b"
    proof -
      have "list_all (rd_ok x) (concat blocks)" using ok calculation by (simp only:)
      then show ?thesis by (auto simp: list_all_iff)
    qed
    ultimately show ?thesis
      using True bl(1,3) unmarshal_blocks [of blocks x]
      by (intro exI [of _ blocks]) (simp add: ReadDeltas_def collect DisableInventorySplit_def readAllPluginDeltas_def js)
  next
    case False
    have "concat (journals s key ?ps) = journal_text (concat (map J ?ps))"
      unfolding js concat_journal_text concat_filter_nonempty ..
    then show ?thesis
      using False unmarshal_journal [OF ok]
      by (intro exI [of _ "[concat (map J ?ps)]"])
        (simp add: ReadDeltas_def collect DisableInventorySplit_def readAllPluginDeltasWithoutSplitting_def)
  qed
qed

text \<open>
  C9. \<^verbatim>\<open>ReadDeltas\<close> returns every pending delta of every plugin with a cached inventory of the entity, in the
  order of the plugins and of their journals. With splitting, a block takes at most \<^verbatim>\<open>maxInventorySize\<close> bytes,
  or is the journal of one plugin that takes more.
\<close>

theorem ReadDeltas_all_pending:
  assumes "names_ok s key" "stat (st_disk s) (CacheDir s) = Some Dir" "\<not> denied (st_disk s) (CacheDir s)"
    and "\<forall>p \<in> set (reaped s (CacheDir s) key). reads x s key p (J p)"
  shows "\<exists>blocks. ReadDeltas x key s = (s, Inr blocks) \<and> concat blocks = concat (map J (reaped s (CacheDir s) key)) \<and>
    (0 < maxInventorySize s \<longrightarrow> (\<forall>b \<in> set blocks. int (length (journal_text b)) \<le> maxInventorySize s \<or> b \<in> J ` set (reaped s (CacheDir s) key)))"
  using assms by (rule ReadDeltas_pending)

text \<open>
  C28. If the backend answers a block that holds the deltas \<open>i\<close> and \<open>i + 1\<close> of a plugin by asking for \<open>i + 2\<close>, the
  store takes the hint for a gap at the first of them: it deletes the journal and the cached inventory of the plugin, so the
  next update sends the whole inventory again.
\<close>

theorem UpdateState_two_deltas_reset:
  assumes ready: "slot_ready s p key" and known: "map_of (plugins s) (pi_Source p) = Some p" "pi_Source p \<noteq> []" "map_of (plugins s) [] = None"
    and ds: "rd_Source d = pi_Source p" "rd_Source e = pi_Source p" "0 < rd_ID d" "rd_ID e = rd_ID d + 1" "rd_ID d + 2 \<le> max_int64"
    and hint: "map_of m (pi_Source p) = Some h" "\<not> NeedsReset h" "SendNextID h = rd_ID d + 2"
    and source: "CacheDir s = DataDir s @ [CACHE_DIR]" "read_file (st_disk s) (SourceFilePath s p key) = Some b"
  shows "stat (st_disk (UpdateState x key [d, e] (Some m) s)) (DeltaFilePath s p key) = None \<and>
    stat (st_disk (UpdateState x key [d, e] (Some m) s)) (cachedFilePath s p key) = None \<and>
    newPluginDelta x p key (UpdateState x key [d, e] (Some m) s) = Some (b, True)"
proof -
  have ok: "slot_ok s p key" using ready by (simp add: slot_ready_def)
  obtain d1 where d1: "clearPluginDeltaStore p key s = s\<lparr>st_disk := d1\<rparr>"
    "\<And>q. stat d1 q = (if q \<in> {cachedFilePath s p key, DeltaFilePath s p key, archiveFilePath s p key} then None else stat (st_disk s) q)"
    "denied d1 = denied (st_disk s)"
    using clear_spec [OF ready] by blast
  have ids: "to_int64 (rd_ID d + 1) = rd_ID d + 1" "to_int64 (rd_ID e + 1) = rd_ID d + 2"
    using ds by (simp_all add: to_int64_id in_int64_def min_int64_def max_int64_def)
  let ?q = "setDeltaID key (LastStoredID h) (setLastSentID key (to_int64 (SendNextID h - 1)) p)"
  let ?s1 = "s\<lparr>plugins := AList.update (pi_Source p) ?q (plugins s), st_disk := d1\<rparr>"
  have 1: "updateLastDeltaSent key d (Some h) s = ?s1"
    using known(1) ds hint ids d1(1) by (simp add: updateLastDeltaSent_def reconciliateWithBackend_def update_plugin_def)
  let ?s2 = "s\<lparr>plugins := AList.update (pi_Source p) (setLastSentID key (rd_ID e) ?q) (plugins s), st_disk := d1\<rparr>"
  have 2: "updateLastDeltaSent key e (Some h) ?s1 = ?s2"
    using ds hint ids by (simp add: updateLastDeltaSent_def update_plugin_def gomap_simps update_twice)
  let ?q2 = "setLastSentID key (rd_ID e) ?q"
  have same: "same_slot ?q2 p" using same_slot_trans by (metis entity_fields(2,3))
  have journal: "stat d1 (DeltaFilePath s p key) = None" by (simp add: d1(2))
  have 3: "archive_source x key source ?s2 = ?s2" if "source = [] \<or> source = pi_Source p" for source
    using that known(2,3) journal same_slot_paths(4) [OF same, of s]
    by (auto simp: archive_source_def gomap_simps archivePlugin_def readIndividualPluginDeltas_def)
  have u: "UpdateState x key [d, e] (Some m) s = ?s2"
    using 1 2 3 ds(1,2) hint(1) by (simp add: UpdateState_def)
  have "SourceFilePath s p key \<notin> {cachedFilePath s p key, DeltaFilePath s p key, archiveFilePath s p key}"
    by (rule slot_paths [OF ok]) (auto simp: source(1))
  then have "read_file d1 (SourceFilePath s p key) = Some b"
    using source(2) read_file_eq [of d1 "SourceFilePath s p key" "st_disk s"] d1(2,3) by simp
  then show ?thesis unfolding u by (simp add: newPluginDelta_def d1(2))
qed

lemma update_journal:
  assumes "float_law x" "patch_law x patch" "in_int64 now"
    and "slot_ready s p key" "CacheDir s = DataDir s @ [CACHE_DIR]"
    and "holds x s p key ds" "cache_agrees x patch s p key ds base"
    and "read_file (st_disk s) (SourceFilePath s p key) = Some b" "unmarshal_object x b = Some vb"
    and "newPluginDelta x p key s = Some (t, f)" "t \<noteq> EMPTY_DELTA" "removeNils vb = vb"
    and "f \<or> (\<exists>ms ns. replay patch ds base = JObj ms \<and> vb = JObj ns)"
  shows "\<exists>s' diff. updatePluginInventoryCache x now p key s = (s', True, None) \<and>
    holds x s' p key (ds @ [next_delta s now p key diff f]) \<and> replay patch (ds @ [next_delta s now p key diff f]) base = vb \<and>
    stat (st_disk s') (cachedFilePath s p key) = Some (File b)"
proof -
  have "\<exists>diff. unmarshal_object x t = Some diff \<and> (if f then diff else patch (replay patch ds base) diff) = vb"
  proof (cases "stat (st_disk s) (cachedFilePath s p key) = None")
    case True
    then have "t = b" "f" using assms(8,10) by (auto simp: newPluginDelta_def)
    then show ?thesis using assms(9) by simp
  next
    case False
    then obtain a where a: "read_file (st_disk s) (cachedFilePath s p key) = Some a" "getDeltaFromJSON x a b = Some t" "\<not> f"
      using assms(8,10) by (auto simp: newPluginDelta_def split: option.splits)
    then have "CreateMergePatch x a b = Some t" using assms(11) by (simp add: getDeltaFromJSON_def split: if_splits)
    moreover have "unmarshal_object x a = Some (replay patch ds base)" using a(1) assms(7) by (simp add: cache_agrees_def read_file_Some)
    ultimately show ?thesis using assms(2,9,12,13) a(3) unfolding patch_law_def by (metis (no_types))
  qed
  then obtain diff where diff: "unmarshal_object x t = Some diff" "(if f then diff else patch (replay patch ds base) diff) = vb" by blast
  obtain d' where d': "updatePluginInventoryCache x now p key s =
      (s\<lparr>plugins := AList.update (pi_Source p) (increaseDeltaID key (known_plugin s p)) (plugins s), st_disk := d'\<rparr>, True, None)"
    "stat d' (DeltaFilePath s p key) = Some (File (file_content (st_disk s) (DeltaFilePath s p key) @ enc (delta_json (next_delta s now p key diff f)) @ '',''))"
    "stat d' (cachedFilePath s p key) = Some (File b)"
    using update_spec [OF assms(4,5,8,10,11) diff(1), of now] by blast
  have "holds x (s\<lparr>plugins := AList.update (pi_Source p) (increaseDeltaID key (known_plugin s p)) (plugins s), st_disk := d'\<rparr>) p key
      (ds @ [next_delta s now p key diff f])"
    using assms(6) d'(2) next_delta_ok [OF assms(1) diff(1) assms(3)] by (simp add: holds_def file_content_def journal_text_def)
  moreover have "replay patch (ds @ [next_delta s now p key diff f]) base = vb"
    using diff(2) by (cases f) (simp_all add: replay_def next_delta_def)
  ultimately show ?thesis using d'(1,3) by (intro exI conjI) auto
qed

text \<open>
  C3. When the source of a plugin changed, the update appends one delta to its journal, numbered after the last, and makes the
  source the cached inventory. A backend that applies the journal to the inventory it had then has the inventory of the
  source, whether the delta is a merge patch, between objects, or, without a cached inventory, the whole source.
\<close>

theorem update_journal_replays:
  assumes "float_law x" "patch_law x patch" "in_int64 now"
    and "slot_ready s p key" "CacheDir s = DataDir s @ [CACHE_DIR]"
    and "holds x s p key ds" "cache_agrees x patch s p key ds base"
    and "read_file (st_disk s) (SourceFilePath s p key) = Some b" "unmarshal_object x b = Some vb"
    and "newPluginDelta x p key s = Some (t, f)" "t \<noteq> EMPTY_DELTA" "removeNils vb = vb"
    and "f \<or> (\<exists>ms ns. replay patch ds base = JObj ms \<and> vb = JObj ns)"
  shows "\<exists>s' diff. updatePluginInventoryCache x now p key s = (s', True, None) \<and>
    holds x s' p key (ds @ [next_delta s now p key diff f]) \<and> replay patch (ds @ [next_delta s now p key diff f]) base = vb \<and>
    stat (st_disk s') (cachedFilePath s p key) = Some (File b)"
  using assms by (rule update_journal)

text \<open>
  C29. When the delta of a changed source cannot be stored but the source can be copied, the update reports no error, and the
  next update finds nothing to do: the change never reaches the journal.
\<close>

theorem failed_delta_is_lost:
  assumes "newPluginDelta x p key s = Some del" "fst del \<noteq> EMPTY_DELTA"
    and "storeDelta x now p key del s = (s1, Some e)"
    and "replacePluginCacheFileWithSource p key s1 = (s2, True)"
    and "SourceFilePath s1 p key \<noteq> cachedFilePath s1 p key" "\<not> denied (st_disk s1) (cachedFilePath s1 p key)"
  shows "updatePluginInventoryCache x now p key s = (s2, True, None) \<and> updatePluginInventoryCache x later p key s2 = (s2, False, None)"
proof
  show "updatePluginInventoryCache x now p key s = (s2, True, None)" using assms(1-4) by (simp add: updatePluginInventoryCache_def)
  let ?src = "SourceFilePath s1 p key" and ?c = "cachedFilePath s1 p key"
  have s2: "s2 = s1\<lparr>st_disk := fst (CopyFile (st_disk s1) ?src ?c)\<rparr>" "snd (CopyFile (st_disk s1) ?src ?c)"
    using assms(4) by (auto simp: replacePluginCacheFileWithSource_def on_disk_def split_beta)
  obtain b where b: "stat (st_disk s2) ?src = Some (File b)" "stat (st_disk s2) ?c = Some (File b)" "\<not> denied (st_disk s2) ?src"
    using Copy_success [OF s2(2) assms(5)] s2(1) by auto
  have "read_file (st_disk s2) ?src = Some b" "read_file (st_disk s2) ?c = Some b"
    using b assms(6) s2(1) by (simp_all add: read_file_Some)
  then show "updatePluginInventoryCache x later p key s2 = (s2, False, None)"
    using b(2) s2(1) by (simp add: updatePluginInventoryCache_def newPluginDelta_def getDeltaFromJSON_def)
qed

section \<open>Witnesses\<close>

lemma ex_fields [simp]:
  "DataDir (ex_store c ds b) = [''d'']" "CacheDir (ex_store c ds b) = ex_cache_dir" "plugins (ex_store c ds b) = [(''p/a'', ex_plugin)]"
  "st_disk (ex_store c ds b) = ex_disk c ds b" "denied (ex_disk c ds b) q = False" "full (ex_disk c ds b) q = False"
  "EntityFolder (ex_store c ds b) ex_key = localEntityFolder" "maxInventorySize (ex_store c ds b) = 1000"
  "pi_Source ex_plugin = ''p/a''" "snd (lastSentID ex_plugin ex_key) = 0"
  by (simp_all add: ex_store_def ex_disk_def EntityFolder_def ex_plugin_def lastSentID_def pi_entity_def)

lemma ex_plain: "list_all plain [''p'', localEntityFolder, ''a.json'']" "list_all plain [''p'', localEntityFolder]"
  by code_simp+

lemma ex_paths:
  "cachedFilePath (ex_store c ds b) ex_plugin ex_key = ex_cache_dir @ [''p'', localEntityFolder, ''a.json'']"
  "cachedDirPath (ex_store c ds b) ex_plugin ex_key = ex_cache_dir @ [''p'', localEntityFolder]"
  "SourceFilePath (ex_store c ds b) ex_plugin ex_key = [''d'', ''p'', localEntityFolder, ''a.json'']"
  "DeltaFilePath (ex_store c ds b) ex_plugin ex_key = ex_cache_dir @ [''p'', localEntityFolder, ''a.pending'']"
  "archiveFilePath (ex_store c ds b) ex_plugin ex_key = ex_cache_dir @ [''p'', localEntityFolder, ''a.sent'']"
proof -
  have pl: "pi_Plugin ex_plugin = ''p''" "pi_FileName ex_plugin = ''a.json''" by (simp_all add: ex_plugin_def)
  show c: "cachedFilePath (ex_store c ds b) ex_plugin ex_key = ex_cache_dir @ [''p'', localEntityFolder, ''a.json'']"
    unfolding cachedFilePath_def pl ex_fields by (rule fp_join_plain [OF ex_plain(1)])
  show "cachedDirPath (ex_store c ds b) ex_plugin ex_key = ex_cache_dir @ [''p'', localEntityFolder]"
    unfolding cachedDirPath_def pl ex_fields by (rule fp_join_plain [OF ex_plain(2)])
  show "SourceFilePath (ex_store c ds b) ex_plugin ex_key = [''d'', ''p'', localEntityFolder, ''a.json'']"
    unfolding SourceFilePath_def pl ex_fields using fp_join_plain [OF ex_plain(1), of "[''d'']"] by simp
  have e: "trim_suffix ''a.json'' (filepath_ext ''a.json'') = ''a''" by code_simp
  show "DeltaFilePath (ex_store c ds b) ex_plugin ex_key = ex_cache_dir @ [''p'', localEntityFolder, ''a.pending'']"
    "archiveFilePath (ex_store c ds b) ex_plugin ex_key = ex_cache_dir @ [''p'', localEntityFolder, ''a.sent'']"
    by (simp_all add: DeltaFilePath_def archiveFilePath_def c with_ext_def e UNSENT_DELTA_JOURNAL_EXT_def ARCHIVE_DELTA_JOURNAL_EXT_def butlast_append)
qed

lemmas ex_names = ex_cache_dir_def CACHE_DIR_def localEntityFolder_def

lemma ex_stat:
  "stat (ex_disk c ds b) [''d''] = Some Dir" "stat (ex_disk c ds b) ex_cache_dir = Some Dir"
  "stat (ex_disk c ds b) (ex_cache_dir @ [''p'']) = Some Dir" "stat (ex_disk c ds b) (ex_cache_dir @ [''p'', localEntityFolder]) = Some Dir"
  "stat (ex_disk c ds b) (ex_cache_dir @ [''p'', localEntityFolder, ''a.json'']) = Some (File c)"
  "stat (ex_disk c ds b) (ex_cache_dir @ [''p'', localEntityFolder, ''a.pending'']) = Some (File (journal_text ds))"
  "stat (ex_disk c ds b) (ex_cache_dir @ [''p'', localEntityFolder, ''a.sent'']) = None"
  "stat (ex_disk c ds b) [''d'', ''p'', localEntityFolder, ''a.json''] = Some (File b)"
  by (simp_all add: ex_disk_def stat_def ex_names)

lemma ex_ready: "slot_ready (ex_store c ds b) ex_plugin ex_key"
proof -
  have "stat (ex_disk c ds b) q = Some Dir" if q: "below q (ex_cache_dir @ [''p'', localEntityFolder])" "q \<noteq> []" for q
  proof -
    have "q \<in> (\<lambda>n. take n (ex_cache_dir @ [''p'', localEntityFolder])) ` {1..4}"
    proof -
      have t: "q = take (length q) (ex_cache_dir @ [''p'', localEntityFolder])" using q(1) by (simp add: below_def)
      moreover have "length q \<le> length (ex_cache_dir @ [''p'', localEntityFolder])" by (subst t) simp
      moreover have "1 \<le> length q" using q(2) by (cases q) auto
      ultimately show ?thesis by (auto simp: ex_cache_dir_def)
    qed
    moreover have "{1..4} = {1, 2, 3, 4 :: nat}" by auto
    ultimately show ?thesis using ex_stat(1-4) [of c ds b] by (auto simp: ex_cache_dir_def)
  qed
  moreover have "slot_ok (ex_store c ds b) ex_plugin ex_key" using ex_plain(1) by (simp add: slot_ok_def ex_plugin_def)
  ultimately show ?thesis by (auto simp: slot_ready_def dirs_ready_def file_ready_def ex_paths ex_stat)
qed

lemma ex_plugins_ok: "plugins_ok [(''p/a'', ex_plugin)]"
proof -
  have "plain ''p''" "plain ''a.json''" using ex_plain(1) by simp_all
  then show ?thesis by (simp add: plugins_ok_def plugin_ok_def ex_plugin_def gm_wf_def in_int64_def min_int64_def max_int64_def)
qed

lemma ex_object_value: "unmarshal_object (ex_ext a b t) (enc (ex_object v)) = Some (ex_object v)"
proof -
  have "json_parse (enc (ex_object v)) = Some (ex_object v)" by (rule json_parse_enc) (simp add: ex_object_def)
  then show ?thesis by (simp add: unmarshal_object_def object_value_def ex_object_def)
qed

lemma ex_delta_ok: "in_int64 i \<Longrightarrow> rd_ok (ex_ext a b t) (ex_delta i v)"
  by (simp add: rd_ok_def ex_delta_def ex_object_def in_int64_def min_int64_def max_int64_def)

lemma ex_delta_fields [simp]: "rd_Source (ex_delta i v) = ''p/a''" "rd_ID (ex_delta i v) = i" "rd_Diff (ex_delta i v) = ex_object v"
  "rd_FullDiff (ex_delta i v) = False"
  by (simp_all add: ex_delta_def)

lemma ex_tracked: "list_all (rd_ok x) ds \<Longrightarrow> tracked x ex_key (ex_store c ds b) ex_plugin ds"
  by (simp add: tracked_def ex_ready ex_paths ex_stat)

lemma ex_ids: "in_int64 1" "in_int64 2" "in_int64 0"
  by (simp_all add: in_int64_def min_int64_def max_int64_def)

theorem UpdateState_keeps_unsent_witness:
  "\<exists>p'. tracked (ex_ext [] [] []) ex_key
      (UpdateState (ex_ext [] [] []) ex_key [ex_delta 1 ''x''] None (ex_store ''{}'' [ex_delta 1 ''x'', ex_delta 2 ''y''] ''{}'')) p' [ex_delta 2 ''y'']
    \<and> snd (lastSentID p' ex_key) = 1"
  using UpdateState_keeps_unsent [of "ex_ext [] [] []" ex_key "ex_store ''{}'' [ex_delta 1 ''x'', ex_delta 2 ''y''] ''{}''" ex_plugin
      "[ex_delta 1 ''x'', ex_delta 2 ''y'']" "[ex_delta 1 ''x'']" None] ex_plain(1)
  by (auto simp: ex_tracked ex_delta_ok ex_ids ex_plugins_ok settles_def hint_of_def acked_def ack_def)

lemma ex_reaped: "reaped (ex_store c ds b) ex_cache_dir ex_key = [ex_plugin\<lparr>pi_Entities := []\<rparr>]"
proof -
  have "children (ex_disk c ds b) ex_cache_dir = [''p'']" by (simp add: children_def ex_disk_def ex_names)
  moreover have "children (ex_disk c ds b) (ex_cache_dir @ [''p'', localEntityFolder]) = sort [''a.json'', ''a.pending'']"
    by (simp add: children_def ex_disk_def ex_names)
  moreover have "filter (\<lambda>f. has_suffix f ''.json'') (sort [''a.json'', ''a.pending'']) = [''a.json'']" "\<not> nonEntityFolders ''p''" by code_simp+
  moreover have "newPluginInfo ''p'' ''a.json'' = ex_plugin\<lparr>pi_Entities := []\<rparr>" by code_simp
  ultimately show ?thesis by (simp add: reaped_def Let_def is_dir_def ex_stat)
qed

lemma ex_names_ok: "names_ok (ex_store c ds b) ex_key"
proof -
  have "list_all (\<lambda>n. plain n \<and> meta_free n) [''d'', CACHE_DIR, ''p'', localEntityFolder, ''a.json'', ''a.pending'']" by code_simp
  then show ?thesis by (simp add: names_ok_def ex_disk_def ex_cache_dir_def)
qed

theorem ReadDeltas_all_pending_witness:
  "\<exists>blocks. ReadDeltas (ex_ext [] [] []) ex_key (ex_store ''{}'' [ex_delta 1 ''x'', ex_delta 2 ''y''] ''{}'') =
      (ex_store ''{}'' [ex_delta 1 ''x'', ex_delta 2 ''y''] ''{}'', Inr blocks) \<and> concat blocks = [ex_delta 1 ''x'', ex_delta 2 ''y'']"
proof -
  let ?ds = "[ex_delta 1 ''x'', ex_delta 2 ''y'']" and ?x = "ex_ext [] [] []"
  have "DeltaFilePath s (ex_plugin\<lparr>pi_Entities := []\<rparr>) key = DeltaFilePath s ex_plugin key" for s key
    by (simp add: DeltaFilePath_def cachedFilePath_def)
  then have "reads ?x (ex_store ''{}'' ?ds ''{}'') ex_key (ex_plugin\<lparr>pi_Entities := []\<rparr>) ?ds"
    by (simp add: reads_def readIndividualPluginDeltas_def ex_paths ex_stat read_file_def ex_delta_ok ex_ids)
  then show ?thesis
    using ReadDeltas_all_pending [OF ex_names_ok, of "''{}''" ?ds "''{}''" ?x "\<lambda>_. ?ds"] by (auto simp: ex_reaped ex_stat)
qed

theorem UpdateState_two_deltas_reset_witness:
  "let s = ex_store ''{}'' [ex_delta 1 ''x'', ex_delta 2 ''y''] ''{}'';
       s' = UpdateState (ex_ext [] [] []) ex_key [ex_delta 1 ''x'', ex_delta 2 ''y'']
         (Some [(''p/a'', \<lparr>NeedsReset = False, LastStoredID = 2, SendNextID = 3, HintError = None\<rparr>)]) s
   in stat (st_disk s') (DeltaFilePath s ex_plugin ex_key) = None \<and> newPluginDelta (ex_ext [] [] []) ex_plugin ex_key s' = Some (''{}'', True)"
  unfolding Let_def
  using UpdateState_two_deltas_reset [OF ex_ready, of "''{}''" "[ex_delta 1 ''x'', ex_delta 2 ''y'']" "''{}''" "ex_delta 1 ''x''" "ex_delta 2 ''y''"
      "[(''p/a'', \<lparr>NeedsReset = False, LastStoredID = 2, SendNextID = 3, HintError = None\<rparr>)]"
      "\<lparr>NeedsReset = False, LastStoredID = 2, SendNextID = 3, HintError = None\<rparr>" "''{}''" "ex_ext [] [] []"]
  by (simp add: max_int64_def read_file_def ex_paths ex_stat) (simp add: ex_cache_dir_def)

lemma ex_float_law: "float_law (ex_ext a b t)"
  by (simp add: float_law_def ex_ext_def)

lemma ex_patch_law: "patch_law (ex_ext (enc (ex_object v)) (enc (ex_object w)) (enc (ex_object w))) ex_patch"
proof -
  have "CreateMergePatch (ex_ext a b t) a' b' = Some t' \<longleftrightarrow> a' = a \<and> b' = b \<and> t' = t" for a b t a' b' t'
    by (auto simp: ex_ext_def)
  moreover have "ex_patch (ex_object v) (ex_object w) = ex_object w" by (simp add: ex_patch_def ex_object_def)
  ultimately show ?thesis unfolding patch_law_def using ex_object_value by (auto simp: ex_object_def)
qed

theorem update_journal_replays_witness:
  "let x = ex_ext (enc (ex_object ''x'')) (enc (ex_object ''y'')) (enc (ex_object ''y''));
       s = ex_store (enc (ex_object ''x'')) [ex_delta 1 ''x''] (enc (ex_object ''y''))
   in \<exists>s' diff. updatePluginInventoryCache x 0 ex_plugin ex_key s = (s', True, None) \<and>
        holds x s' ex_plugin ex_key [ex_delta 1 ''x'', next_delta s 0 ex_plugin ex_key diff False] \<and>
        replay ex_patch [ex_delta 1 ''x'', next_delta s 0 ex_plugin ex_key diff False] (JObj []) = ex_object ''y''"
proof -
  let ?x = "ex_ext (enc (ex_object ''x'')) (enc (ex_object ''y'')) (enc (ex_object ''y''))"
  let ?s = "ex_store (enc (ex_object ''x'')) [ex_delta 1 ''x''] (enc (ex_object ''y''))"
  have agrees: "cache_agrees ?x ex_patch ?s ex_plugin ex_key [ex_delta 1 ''x''] (JObj [])"
    using ex_object_value [of _ _ _ "''x''"] by (simp add: cache_agrees_def ex_paths ex_stat replay_def) (simp add: ex_patch_def ex_object_def)
  have "enc (ex_object ''x'') \<noteq> enc (ex_object ''y'')" by code_simp
  then have new: "newPluginDelta ?x ex_plugin ex_key ?s = Some (enc (ex_object ''y''), False)"
    by (simp add: newPluginDelta_def read_file_def ex_paths ex_stat getDeltaFromJSON_def) (simp add: ex_ext_def)
  have holds: "holds ?x ?s ex_plugin ex_key [ex_delta 1 ''x'']"
    by (simp add: holds_def file_content_def ex_paths ex_stat ex_delta_ok ex_ids)
  have source: "read_file (st_disk ?s) (SourceFilePath ?s ex_plugin ex_key) = Some (enc (ex_object ''y''))"
    by (simp add: read_file_def ex_paths ex_stat)
  have "enc (ex_object ''y'') \<noteq> EMPTY_DELTA" "removeNils (ex_object ''y'') = ex_object ''y''" "CacheDir ?s = DataDir ?s @ [CACHE_DIR]"
    by code_simp+
  moreover have "replay ex_patch [ex_delta 1 ''x''] (JObj []) = ex_object ''x''" by (simp add: replay_def ex_delta_def ex_patch_def ex_object_def)
  then have "\<exists>ms ns. replay ex_patch [ex_delta 1 ''x''] (JObj []) = JObj ms \<and> ex_object ''y'' = JObj ns" by (simp add: ex_object_def)
  ultimately show ?thesis
    using update_journal_replays [OF ex_float_law ex_patch_law ex_ids(3) ex_ready _ holds agrees source ex_object_value new]
    unfolding Let_def append_Cons append_Nil by blast
qed

text \<open>The source is an array, whose merge patch is no object.\<close>

lemma ex_storeDelta_fails:
  defines "s \<equiv> ex_store ''{}'' [] ''[1]''"
  shows "\<exists>d2. storeDelta (ex_ext ''{}'' ''[1]'' ''[1]'') 0 ex_plugin ex_key (''[1]'', False) s = (s\<lparr>st_disk := d2\<rparr>, Some BadJson) \<and>
    (\<forall>q. stat (st_disk s) q \<noteq> None \<longrightarrow> stat d2 q = stat (st_disk s) q) \<and> denied d2 = (\<lambda>_. False) \<and> full d2 = (\<lambda>_. False)"
proof -
  let ?file = "DeltaFilePath s ex_plugin ex_key" and ?dir = "cachedDirPath s ex_plugin ex_key"
  have "dirs_ready (st_disk s) ?dir" using ex_ready by (simp only: slot_ready_def s_def)
  then have "snd (MkdirAll (st_disk s) ?dir)" unfolding dirs_ready_def by (intro Mkdir_succeeds) blast
  then obtain d1 where d1: "MkdirAll (st_disk s) ?dir = (d1, True)" by (cases "MkdirAll (st_disk s) ?dir") simp
  then have old: "stat d1 q = stat (st_disk s) q" if "stat (st_disk s) q \<noteq> None" for q using stat_Mkdir_old [OF that, of ?dir] by simp
  have fields: "denied d1 = (\<lambda>_. False)" "full d1 = (\<lambda>_. False)"
    using MkdirAll_fields [of "st_disk s" ?dir] unfolding d1 by (simp_all add: s_def fun_eq_iff)
  have journal: "stat d1 ?file = Some (File [])" "stat d1 (butlast ?file) = Some Dir"
    using old [of ?file] old [of "butlast ?file"] by (simp_all add: s_def ex_paths ex_stat butlast_append)
  then have opens: "can_open d1 ?file" by (auto simp: can_open_def fields)
  then obtain d2 where d2: "OpenFile d1 ?file False = (d2, True)" by (metis Open_ok surjective_pairing)
  have "unmarshal_object (ex_ext ''{}'' ''[1]'' ''[1]'') ''[1]'' = None"
  proof -
    have "json_parse ''[1]'' = Some (JArr [JNum ''1''])" by code_simp
    then show ?thesis by (simp add: unmarshal_object_def object_value_def)
  qed
  then have "storeDelta (ex_ext ''{}'' ''[1]'' ''[1]'') 0 ex_plugin ex_key (''[1]'', False) s = (s\<lparr>st_disk := d2\<rparr>, Some BadJson)"
    using d1 d2 by (simp add: storeDelta_def on_disk_def Let_def)
  moreover have "stat d2 q = stat d1 q" for q
    using stat_Open [of d1 ?file False q] d2 opens journal(1) by (simp add: file_content_def split: if_splits)
  ultimately show ?thesis using old fields OpenFile_fields [of d1 ?file False] d2 by auto
qed

theorem failed_delta_is_lost_witness:
  "let x = ex_ext ''{}'' ''[1]'' ''[1]''; s = ex_store ''{}'' [] ''[1]''
   in \<exists>s2. updatePluginInventoryCache x 0 ex_plugin ex_key s = (s2, True, None) \<and>
        updatePluginInventoryCache x 1 ex_plugin ex_key s2 = (s2, False, None)"
proof -
  let ?x = "ex_ext ''{}'' ''[1]'' ''[1]''" and ?s = "ex_store ''{}'' [] ''[1]''"
  let ?cached = "cachedFilePath ?s ex_plugin ex_key" and ?src = "SourceFilePath ?s ex_plugin ex_key"
  have new: "newPluginDelta ?x ex_plugin ex_key ?s = Some (''[1]'', False)"
    by (simp add: newPluginDelta_def read_file_def ex_paths ex_stat getDeltaFromJSON_def) (simp add: ex_ext_def)
  obtain d2 where d2: "storeDelta ?x 0 ex_plugin ex_key (''[1]'', False) ?s = (?s\<lparr>st_disk := d2\<rparr>, Some BadJson)"
    "stat (st_disk ?s) q \<noteq> None \<Longrightarrow> stat d2 q = stat (st_disk ?s) q" "denied d2 = (\<lambda>_. False)" "full d2 = (\<lambda>_. False)" for q
    using ex_storeDelta_fails by blast
  have ne: "?src \<noteq> ?cached" by (simp add: ex_paths ex_cache_dir_def)
  have "snd (CopyFile d2 ?src ?cached)"
    using d2(2) [of ?src] d2(2) [of ?cached] d2(2) [of "butlast ?cached"] ne
    by (intro Copy_ok(1) [of _ _ "''[1]''"]) (simp_all add: ex_paths ex_stat butlast_append d2(3,4))
  then obtain d3 where "CopyFile d2 ?src ?cached = (d3, True)" by (metis surjective_pairing)
  then have "replacePluginCacheFileWithSource ex_plugin ex_key (?s\<lparr>st_disk := d2\<rparr>) = (?s\<lparr>st_disk := d3\<rparr>, True)"
    by (simp add: replacePluginCacheFileWithSource_def on_disk_def)
  moreover have "fst (''[1]'', False) \<noteq> EMPTY_DELTA" by (simp add: EMPTY_DELTA_def)
  ultimately show ?thesis
    using failed_delta_is_lost [OF new _ d2(1), of "?s\<lparr>st_disk := d3\<rparr>" 1] ne d2(3) unfolding Let_def by auto
qed

end
