(* ===== verification/Delta_State.thy ===== *)
theory Delta_State
  imports Delta_Journal
begin

text \<open>
  The state of the inventory store across operations and restarts.

  \<^item> \<open>store_wf\<close>: the disk is a tree of plain names and every plugin is filed under its source with the
    information its files imply. \<open>store_step\<close> runs one operation; every operation keeps the invariant. What the
    disk functions share is the interface \<open>path_operation\<close>, with its client lemma for the store.
  \<^item> A store opened on a saved state has the identifiers it had.
  \<^item> What removing an entity can remove, and what a store without splitting can save.
\<close>

section \<open>Definitions\<close>

definition disk_ok :: "disk \<Rightarrow> bool" where
  "disk_ok d \<longleftrightarrow> disk_wf d \<and> (\<forall>p \<in> fst ` set (entries d). list_all plain p)"

definition store_wf :: "Store \<Rightarrow> bool" where
  "store_wf s \<longleftrightarrow> disk_ok (st_disk s) \<and> list_all plain (DataDir s) \<and> CacheDir s = DataDir s @ [CACHE_DIR] \<and> plugins_ok (plugins s)"

datatype store_op = SaveSource string string string "string option" | UpdateCache "string \<Rightarrow> int" string | Read string
  | UpdateSent string "RawDelta list" "(string, DeltaState) gomap option" | Save | Reset string | RemoveOne string
  | Compact string nat | ChangeDefault string | SetArchive bool

fun store_step :: "ext \<Rightarrow> store_op \<Rightarrow> Store \<Rightarrow> Store" where
  "store_step x (SaveSource key category t marshalled) s = fst (SavePluginSource x key category t marshalled s)"
| "store_step x (UpdateCache unix key) s = fst (UpdatePluginsInventoryCache x unix key s)"
| "store_step x (Read key) s = fst (ReadDeltas x key s)"
| "store_step x (UpdateSent key deltas results) s = UpdateState x key deltas results s"
| "store_step x Save s = fst (SaveState s)"
| "store_step x (Reset key) s = ResetAllDeltas key s"
| "store_step x (RemoveOne key) s = fst (RemoveEntity key s)"
| "store_step x (Compact key threshold) s = fst (CompactStorage key threshold s)"
| "store_step x (ChangeDefault key) s = ChangeDefaultEntity key s"
| "store_step x (SetArchive b) s = SetArchiveEnabled b s"

text \<open>The identifiers that come from outside are 64-bit integers.\<close>

fun op_ok :: "store_op \<Rightarrow> bool" where
  "op_ok (UpdateSent key deltas results) \<longleftrightarrow> list_all (\<lambda>d. in_int64 (rd_ID d)) deltas \<and>
     (case results of None \<Rightarrow> True | Some m \<Rightarrow> list_all (\<lambda>(k, h). in_int64 (LastStoredID h) \<and> in_int64 (SendNextID h)) m)"
| "op_ok _ \<longleftrightarrow> True"

text \<open>Two maps of plugins that hold the same, in whatever order.\<close>

definition same_info :: "PluginInfo \<Rightarrow> PluginInfo \<Rightarrow> bool" where
  "same_info p q \<longleftrightarrow> same_slot p q \<and> map_of (pi_Entities p) = map_of (pi_Entities q)"

definition same_plugins :: "(string, PluginInfo) gomap \<Rightarrow> (string, PluginInfo) gomap \<Rightarrow> bool" where
  "same_plugins m m' \<longleftrightarrow> (\<forall>source. rel_option same_info (map_of m source) (map_of m' source))"

text \<open>The files that belong to an entity: those in its folder of some plugin, in the data or the cache directory.\<close>

definition in_entity :: "Store \<Rightarrow> path \<Rightarrow> string \<Rightarrow> path \<Rightarrow> bool" where
  "in_entity s dir folder q \<longleftrightarrow> (\<exists>n. is_dir s (dir @ [n]) \<and> \<not> nonEntityFolders n \<and> below (dir @ [n, folder]) q)"

section \<open>What the disk functions share\<close>

locale path_operation =
  fixes f :: "path \<Rightarrow> disk \<Rightarrow> disk \<times> bool"
  assumes keeps: "list_all plain p \<Longrightarrow> disk_ok d \<Longrightarrow> disk_ok (fst (f p d))"
begin

lemma on_store: "list_all plain p \<Longrightarrow> store_wf s \<Longrightarrow> store_wf (fst (on_disk (f p) s))"
  by (simp add: store_wf_def keeps)

lemma on_store_fold: "\<forall>p \<in> set ps. list_all plain p \<Longrightarrow> store_wf s \<Longrightarrow> store_wf (fold (\<lambda>p s. fst (on_disk (f p) s)) ps s)"
proof (induction ps arbitrary: s)
  case (Cons p ps)
  have "store_wf (fst (on_disk (f p) s))" using Cons.prems by (intro on_store) auto
  then show ?case using Cons.IH Cons.prems(1) by simp
qed simp

end

section \<open>Lemmas\<close>

lemma disk_ok_put:
  assumes "disk_ok d" "disk_wf (put_node p n d)" "list_all plain p"
  shows "disk_ok (put_node p n d)"
proof -
  have sub: "fst ` set (entries (put_node p n d)) \<subseteq> insert p (fst ` set (entries d))"
    by (auto simp: put_node_entries dest!: in_updateD)
  have "list_all plain q" if "q \<in> fst ` set (entries (put_node p n d))" for q
    using subsetD [OF sub that] assms(1,3) by (elim insertE) (auto simp: disk_ok_def)
  then show ?thesis using assms(2) by (simp add: disk_ok_def)
qed

lemma disk_ok_subset: "\<lbrakk>disk_ok d; disk_wf d'; set (entries d') \<subseteq> set (entries d)\<rbrakk> \<Longrightarrow> disk_ok d'"
  by (auto simp: disk_ok_def)

lemma disk_ok_Open: "list_all plain p \<Longrightarrow> disk_ok d \<Longrightarrow> disk_ok (fst (OpenFile d p t))"
  using disk_wf_Open [of d p t] by (auto simp: OpenFile_def disk_ok_put disk_ok_def [of d] split: if_splits intro: disk_ok_put [of d])

lemma disk_ok_append:
  assumes "list_all plain p" "disk_ok d" "stat d p = Some (File c)"
  shows "disk_ok (fst (append_file d p s))"
proof -
  have "disk_wf (fst (append_file d p s))" using assms(2,3) disk_wf_append [of d p c s] by (simp add: disk_ok_def)
  then show ?thesis using assms(1,2) disk_ok_put [OF assms(2) _ assms(1)] by (auto simp: append_file_def split: if_splits)
qed

lemma disk_ok_Write: "list_all plain p \<Longrightarrow> disk_ok d \<Longrightarrow> disk_ok (fst (WriteFile d p s))"
proof (cases "can_open d p")
  case True
  assume "list_all plain p" "disk_ok d"
  moreover have "stat (fst (OpenFile d p True)) p = Some (File [])" using True by (simp add: stat_Open)
  ultimately show ?thesis using True disk_ok_append [OF _ disk_ok_Open] by (simp add: WriteFile_def split_beta Open_ok)
qed (simp add: WriteFile_def split_beta Open_ok disk_ok_Open)

lemma disk_ok_Remove: "disk_ok d \<Longrightarrow> disk_ok (fst (os_Remove d p))"
proof -
  assume d: "disk_ok d"
  have "set (entries (fst (os_Remove d p))) \<subseteq> set (entries d)" by (auto simp: os_Remove_def delete_node_def AList.delete_eq)
  then show ?thesis using d by (intro disk_ok_subset [OF d]) (auto simp: disk_ok_def)
qed

lemma disk_ok_RemoveAll: "disk_ok d \<Longrightarrow> disk_ok (fst (os_RemoveAll d p))"
proof -
  assume d: "disk_ok d"
  have "set (entries (fst (os_RemoveAll d p))) \<subseteq> set (entries d)" by (auto simp: os_RemoveAll_def)
  then show ?thesis using d by (intro disk_ok_subset [OF d]) (auto simp: disk_ok_def)
qed

lemma make_dirs_keys: "fst ` set (entries (fst (make_dirs ps d))) \<subseteq> set ps \<union> fst ` set (entries d)"
proof (induction ps d rule: make_dirs.induct)
  case (2 p ps d)
  have put: "fst ` set (entries (put_node p Dir d)) \<subseteq> insert p (fst ` set (entries d))"
    by (auto simp: put_node_entries dest!: in_updateD)
  show ?case
  proof (cases "stat d p")
    case None
    then show ?thesis using "2.IH" put by auto
  next
    case (Some n)
    then show ?thesis using "2.IH" by (cases n) auto
  qed
qed auto

lemma list_all_take: "list_all P xs \<Longrightarrow> list_all P (take n xs)"
  by (auto simp: list_all_iff dest: in_set_takeD)

lemma disk_ok_Mkdir:
  assumes "list_all plain p" "disk_ok d"
  shows "disk_ok (fst (MkdirAll d p))"
proof -
  have sub: "fst ` set (entries (fst (MkdirAll d p))) \<subseteq> (\<lambda>i. take (Suc i) p) ` {0..<length p} \<union> fst ` set (entries d)"
    using make_dirs_keys [of "map (\<lambda>i. take (Suc i) p) [0..<length p]" d] by (simp add: MkdirAll_def)
  have "list_all plain q" if "q \<in> fst ` set (entries (fst (MkdirAll d p)))" for q
    using subsetD [OF sub that] assms(2) by (elim UnE) (auto simp: disk_ok_def list_all_take [OF assms(1)])
  then show ?thesis using assms(2) by (simp add: disk_ok_def)
qed

interpretation open_op: path_operation "\<lambda>p d. OpenFile d p t" for t
  by unfold_locales (rule disk_ok_Open)

interpretation write_op: path_operation "\<lambda>p d. WriteFile d p c" for c
  by unfold_locales (rule disk_ok_Write)

interpretation mkdir_op: path_operation "\<lambda>p d. MkdirAll d p"
  by unfold_locales (rule disk_ok_Mkdir)

interpretation remove_op: path_operation "\<lambda>p d. os_Remove d p"
  by unfold_locales (rule disk_ok_Remove)

interpretation remove_all_op: path_operation "\<lambda>p d. os_RemoveAll d p"
  by unfold_locales (rule disk_ok_RemoveAll)

lemma disk_ok_Copy:
  assumes p: "list_all plain dest" and d: "disk_ok d"
  shows "disk_ok (fst (CopyFile d src dest))"
proof -
  define d1 where "d1 = (if stat d dest = None then d else fst (os_Remove d dest))"
  have d1: "disk_ok d1" using d disk_ok_Remove by (simp add: d1_def)
  have "disk_ok (fst (append_file (fst (OpenFile d1 dest True)) dest c))" if "can_open d1 dest" for c
    using that d1 p by (intro disk_ok_append [of _ _ "[]"]) (simp_all add: disk_ok_Open stat_Open)
  then show ?thesis
    using Copy_cases [of d src dest] d d1 disk_ok_Open [OF p d1, of True] unfolding d1_def [symmetric] by fastforce
qed

interpretation copy_op: path_operation "\<lambda>p d. CopyFile d src p" for src
  by unfold_locales (rule disk_ok_Copy)

section \<open>Names\<close>

lemma split_slash_names: "n \<in> set (split_slash s) \<Longrightarrow> CHR ''/'' \<notin> set n"
  by (induction s arbitrary: n) (auto split: if_splits list.splits)

lemma list_all_butlast: "list_all P xs \<Longrightarrow> list_all P (butlast xs)"
  by (auto simp: list_all_iff dest: in_set_butlastD)

lemma fp_join_all_plain: "list_all plain base \<Longrightarrow> list_all plain (fp_join base elems)"
proof -
  have "list_all plain (foldl path_step p ns)" if "list_all plain p" "\<forall>n \<in> set ns. CHR ''/'' \<notin> set n" for p ns
    using that
  proof (induction ns arbitrary: p)
    case (Cons n ns)
    have "plain n \<or> n = [] \<or> n = ''.'' \<or> n = ''..''" using Cons.prems(2) by (auto simp: plain_def)
    then have "list_all plain (path_step p n)" using Cons.prems(1) by (auto simp: path_step_def list_all_butlast)
    then show ?case using Cons by simp
  qed simp
  then show "list_all plain base \<Longrightarrow> ?thesis" using split_slash_names by (auto simp: fp_join_def)
qed

lemma plain_long: "3 \<le> length w \<Longrightarrow> CHR ''/'' \<notin> set w \<Longrightarrow> plain w"
  by (auto simp: plain_def)

lemma plain_ext: "plain n \<Longrightarrow> e \<in> {''.pending'', ''.sent''} \<Longrightarrow> plain (trim_suffix n t @ e)"
proof -
  assume n: "plain n" "e \<in> {''.pending'', ''.sent''}"
  have "set (trim_suffix n t) \<subseteq> set n" by (auto simp: trim_suffix_def dest: in_set_takeD)
  then have "CHR ''/'' \<notin> set (trim_suffix n t @ e)" using n by (auto simp: plain_def)
  moreover have "3 \<le> length (trim_suffix n t @ e)" using n(2) by auto
  ultimately show ?thesis by (intro plain_long)
qed

lemma with_ext_plain: "list_all plain p \<Longrightarrow> e \<in> {''.pending'', ''.sent''} \<Longrightarrow> list_all plain (with_ext p e)"
  by (cases p rule: rev_cases) (auto simp: with_ext_def plain_ext, auto simp: plain_def)

lemma store_paths_plain:
  assumes "store_wf s"
  shows "list_all plain (DataDir s)" "list_all plain (CacheDir s)" "list_all plain (cachedDirPath s p key)" "list_all plain (cachedFilePath s p key)"
    "list_all plain (SourceFilePath s p key)" "list_all plain (DeltaFilePath s p key)" "list_all plain (archiveFilePath s p key)"
    "list_all plain (PluginDirPath s c key)"
proof -
  show d: "list_all plain (DataDir s)" and c: "list_all plain (CacheDir s)"
    using assms by (auto simp: store_wf_def CACHE_DIR_def plain_def)
  show "list_all plain (cachedDirPath s p key)" "list_all plain (SourceFilePath s p key)" "list_all plain (PluginDirPath s c key)"
    using d c by (simp_all add: cachedDirPath_def SourceFilePath_def PluginDirPath_def fp_join_all_plain)
  show f: "list_all plain (cachedFilePath s p key)" using c by (simp add: cachedFilePath_def fp_join_all_plain)
  show "list_all plain (DeltaFilePath s p key)" "list_all plain (archiveFilePath s p key)"
    using with_ext_plain [OF f] by (simp_all add: DeltaFilePath_def archiveFilePath_def UNSENT_DELTA_JOURNAL_EXT_def ARCHIVE_DELTA_JOURNAL_EXT_def)
qed

section \<open>Every operation keeps the invariant\<close>

lemma clear_wf: "store_wf s \<Longrightarrow> store_wf (clearPluginDeltaStore p key s)"
  unfolding clearPluginDeltaStore_def Let_def
  by (intro remove_op.on_store) (simp_all add: store_paths_plain)

lemma store_wf_plugins: "store_wf s \<Longrightarrow> plugins_ok m \<Longrightarrow> store_wf (s\<lparr>plugins := m\<rparr>)"
  by (simp add: store_wf_def)

lemma writeDelta_wf:
  assumes "store_wf s" "list_all plain file" "stat (st_disk s) file = Some (File c)"
  shows "store_wf (fst (writeDelta file buf s))"
proof -
  have ne: "file \<noteq> []" using assms(3) by auto
  let ?d1 = "fst (append_file (st_disk s) file buf)"
  have d1: "disk_ok ?d1" using assms by (intro disk_ok_append [of _ _ c]) (simp_all add: store_wf_def)
  have "\<exists>c'. stat ?d1 file = Some (File c')" using assms(3) ne by (auto simp: stat_append)
  then have "disk_ok (fst (append_file ?d1 file '',''))" using d1 disk_ok_append [OF assms(2) d1] by auto
  then show ?thesis using assms(1) d1 by (simp add: writeDelta_def on_disk_def split_beta store_wf_def)
qed

lemma rewriteDeltas_wf:
  assumes "store_wf s" "list_all plain file"
  shows "store_wf (fst (rewriteDeltas file trunc ds s))"
proof -
  let ?s1 = "fst (on_disk (\<lambda>d. OpenFile d file trunc) s)"
  have s1: "store_wf ?s1" by (rule open_op.on_store [OF assms(2,1)])
  show ?thesis
  proof (cases "can_open (st_disk s) file")
    case True
    then have "stat (st_disk ?s1) file = Some (File (if trunc then [] else file_content (st_disk s) file))" by (simp add: stat_Open)
    from writeDelta_wf [OF s1 assms(2) this] show ?thesis
      using s1 True by (simp add: rewriteDeltas_def on_disk_def split_beta Open_ok)
  next
    case False
    then show ?thesis using s1 by (simp add: rewriteDeltas_def on_disk_def split_beta Open_ok)
  qed
qed

lemma archivePlugin_wf:
  assumes wf: "store_wf s" and p: "plugin_ok p"
  shows "store_wf (fst (archivePlugin x p key s))"
proof (cases "\<exists>buf deltas. readIndividualPluginDeltas s p key = Inr buf \<and> unmarshal_deltas x (wrapBuffer buf CHR ''['' CHR '']'' '','') = Some deltas")
  case False
  then show ?thesis using wf by (auto simp: archivePlugin_def split: sum.splits option.splits)
next
  case True
  then obtain buf deltas where b: "readIndividualPluginDeltas s p key = Inr buf"
    "unmarshal_deltas x (wrapBuffer buf CHR ''['' CHR '']'' '','') = Some deltas" by blast
  define known where "known = (map_of (plugins s) (pi_Source p) \<noteq> None)"
  define s1 where "s1 = (if known \<and> deltas \<noteq> [] then s\<lparr>plugins := AList.update (pi_Source p) (fst (lastSentID p key)) (plugins s)\<rparr> else s)"
  define sent where "sent = (\<lambda>d :: RawDelta. known \<and> rd_ID d \<le> snd (lastSentID p key))"
  define r where "r = (if archiveEnabled s1 then rewriteDeltas (archiveFilePath s1 p key) False (filter sent deltas) s1 else (s1, None))"
  have eq: "archivePlugin x p key s = (case r of (s2, Some e) \<Rightarrow> (s2, Some e)
      | (s2, None) \<Rightarrow> rewriteDeltas (DeltaFilePath s2 p key) True (filter (\<lambda>d. \<not> sent d) deltas) s2)"
    unfolding archivePlugin_def r_def s1_def sent_def known_def Let_def by (simp only: b sum.case option.case)
  have "plugins_ok (AList.update (pi_Source p) (fst (lastSentID p key)) (plugins s))"
    using plugins_ok_update [OF _ plugin_ok_entity(1) [OF p, of key]] wf entity_fields(1) [of p key] by (simp add: same_slot_def store_wf_def)
  then have s1: "store_wf s1" using wf by (simp add: s1_def store_wf_plugins)
  then have r: "store_wf (fst r)" by (simp add: r_def rewriteDeltas_wf store_paths_plain)
  then show ?thesis
    by (cases r; cases "snd r") (simp_all add: eq rewriteDeltas_wf store_paths_plain)
qed

lemma archive_source_wf: "store_wf s \<Longrightarrow> store_wf (archive_source x key source s)"
  by (auto simp: archive_source_def store_wf_def plugins_ok_def dest!: map_of_SomeD split: option.splits
      intro!: archivePlugin_wf [unfolded store_wf_def plugins_ok_def])

lemma update_plugin_wf:
  assumes wf: "store_wf s" and f: "\<And>p. plugin_ok p \<Longrightarrow> plugin_ok (f p) \<and> pi_Source (f p) = pi_Source p"
  shows "store_wf (update_plugin source f s)"
proof (cases "map_of (plugins s) source")
  case (Some p)
  then have "plugin_ok p" "pi_Source p = source" using wf by (auto simp: store_wf_def plugins_ok_def dest: map_of_SomeD)
  then have "plugins_ok (AList.update source (f p) (plugins s))" using wf f [of p] by (intro plugins_ok_update) (simp_all add: store_wf_def)
  then show ?thesis using Some wf by (simp add: update_plugin_def store_wf_plugins)
qed (use wf in \<open>simp add: update_plugin_def\<close>)

lemma entity_source [simp]:
  "pi_Source (fst (lastSentID p key)) = pi_Source p" "pi_Source (setLastSentID key v p) = pi_Source p" "pi_Source (setDeltaID key v p) = pi_Source p"
  using entity_fields(1) [of p key] entity_fields(2,3) [of key v p] by (simp_all add: same_slot_def)

lemma reconciliate_wf:
  assumes "store_wf s" "in_int64 (LastStoredID h)"
  shows "store_wf (reconciliateWithBackend source p key h s)"
  unfolding reconciliateWithBackend_def
  by (rule update_plugin_wf [OF clear_wf [OF assms(1)]]) (simp add: plugin_ok_entity assms(2) to_int64_range)

lemma updateLastDeltaSent_wf:
  assumes wf: "store_wf s" and d: "in_int64 (rd_ID d)" and h: "\<And>h. hint = Some h \<Longrightarrow> in_int64 (LastStoredID h)"
  shows "store_wf (updateLastDeltaSent key d hint s)"
proof (cases "map_of (plugins s) (rd_Source d)")
  case (Some p)
  show ?thesis
  proof (cases hint)
    case None
    have "store_wf (update_plugin (rd_Source d) (\<lambda>q. fst (lastSentID q key)) s)"
      by (rule update_plugin_wf [OF wf]) (simp add: plugin_ok_entity)
    then show ?thesis using None Some d by (simp add: updateLastDeltaSent_def Let_def update_plugin_wf plugin_ok_entity)
  next
    case h': (Some h)
    have up: "in_int64 v \<Longrightarrow> store_wf (update_plugin source (setLastSentID key v) s)" for source v
      by (rule update_plugin_wf [OF wf]) (simp add: plugin_ok_entity)
    show ?thesis
      using h' Some wf up d reconciliate_wf [OF wf assms(3) [OF h']] by (simp add: updateLastDeltaSent_def clear_wf to_int64_range)
  qed
qed (use wf in \<open>simp add: updateLastDeltaSent_def\<close>)

lemma fold_wf: "(\<And>a s. a \<in> set as \<Longrightarrow> store_wf s \<Longrightarrow> store_wf (f a s)) \<Longrightarrow> store_wf s \<Longrightarrow> store_wf (fold f as s)"
  by (induction as arbitrary: s) auto

lemma UpdateState_wf:
  assumes wf: "store_wf s" and ok: "op_ok (UpdateSent key deltas results)"
  shows "store_wf (UpdateState x key deltas results s)"
proof -
  have "in_int64 (LastStoredID h)" if "results = Some m" "map_of m k = Some h" for m k h
    using ok that by (auto simp: list_all_iff dest!: map_of_SomeD)
  then have "store_wf (fold (\<lambda>d. updateLastDeltaSent key d (case results of None \<Rightarrow> None | Some m \<Rightarrow> map_of m (rd_Source d))) deltas s)"
    using ok wf by (intro fold_wf updateLastDeltaSent_wf) (auto simp: list_all_iff split: option.splits)
  then show ?thesis unfolding UpdateState_def Let_def by (rule fold_wf [rotated]) (rule archive_source_wf)
qed

lemma storeDelta_wf:
  assumes wf: "store_wf s" and p: "plugin_ok p"
  shows "store_wf (fst (storeDelta x now p key del s))"
proof -
  let ?file = "DeltaFilePath s p key"
  let ?s1 = "fst (on_disk (\<lambda>d. MkdirAll d (cachedDirPath s p key)) s)"
  let ?s2 = "fst (on_disk (\<lambda>d. OpenFile d ?file False) ?s1)"
  have s1: "store_wf ?s1" by (rule mkdir_op.on_store) (simp_all add: wf store_paths_plain)
  have s2: "store_wf ?s2" by (rule open_op.on_store) (simp_all only: s1 store_paths_plain [OF wf])
  define q where "q = increaseDeltaID key (known_plugin s p)"
  have "plugin_ok (known_plugin s p) \<and> pi_Source (known_plugin s p) = pi_Source p"
    using p wf by (auto simp: known_plugin_def store_wf_def plugins_ok_def dest!: map_of_SomeD split: option.splits)
  then have "plugins_ok (AList.update (pi_Source p) q (plugins s))"
    using wf by (intro plugins_ok_update) (simp_all add: q_def plugin_ok_entity store_wf_def)
  then have s3: "store_wf (?s2\<lparr>plugins := AList.update (pi_Source p) q (plugins s)\<rparr>)" by (rule store_wf_plugins [OF s2])
  show ?thesis
  proof (cases "snd (MkdirAll (st_disk s) (cachedDirPath s p key)) \<and> can_open (st_disk ?s1) ?file")
    case True
    let ?s3 = "?s2\<lparr>plugins := AList.update (pi_Source p) q (plugins s)\<rparr>"
    have "stat (st_disk ?s3) ?file = Some (File (file_content (st_disk ?s1) ?file))" using True by (simp add: stat_Open)
    from writeDelta_wf [OF s3 store_paths_plain(6) [OF wf] this]
    have "store_wf (fst (writeDelta ?file buf ?s3))" for buf by blast
    then show ?thesis
      using True s2 by (cases "unmarshal_object x (fst del)")
        (simp_all add: storeDelta_def on_disk_def split_beta Open_ok Let_def q_def known_plugin_def)
  next
    case False
    then show ?thesis using s1 s2 by (auto simp: storeDelta_def on_disk_def split_beta Open_ok Let_def)
  qed
qed

lemma has_suffix_stem: "has_suffix f t \<Longrightarrow> \<exists>stem. f = stem @ t"
  by (metis append_take_drop_id has_suffix_def)

lemma newPluginInfo_ok:
  assumes "plain n" "plain f" "has_suffix f ''.json''"
  shows "plugin_ok (newPluginInfo n f)"
proof -
  obtain stem where "f = stem @ ''.json''" using has_suffix_stem [OF assms(3)] by blast
  then show ?thesis using assms by (auto simp: plugin_ok_def newPluginInfo_def ext_json trim_json)
qed

lemma glob_json_names:
  assumes "glob d (p @ [''*.json'']) = Some fs" "f \<in> set fs"
  shows "\<exists>dir n. f = dir @ [n] \<and> n \<in> set (children d dir) \<and> has_suffix n ''.json''"
proof -
  have "has_meta ''*.json''" by (simp add: has_meta_def)
  then show ?thesis using assms by (auto simp: glob_def glob_dir_def json_match split: if_splits)
qed

lemma fp_join_last: "plain n \<Longrightarrow> fp_join dir (xs @ [n]) = fp_join dir xs @ [n]"
  by (simp add: fp_join_def split_slash_plain plain_def path_step_def)

lemma collect_plugin_ok:
  assumes "store_wf s" "collectPluginFiles s dir key = Some ps" "p \<in> set ps"
  shows "plugin_ok p"
proof -
  have names: "plain n" if "n \<in> set (children (st_disk s) q)" for n q
  proof -
    have "q @ [n] \<in> fst ` set (entries (st_disk s))" using that by (simp only: child_iff)
    then have "list_all plain (q @ [n])" using assms(1) by (simp only: store_wf_def disk_ok_def)
    then show ?thesis by simp
  qed
  obtain n where n: "n \<in> set (children (st_disk s) dir)" "p \<in> set (plugin_files s dir (EntityFolder s key) n)"
    using assms(2,3) by (auto simp: collectPluginFiles_def plugin_dirs_def read_dir_def split: if_splits)
  have join: "fp_join dir [n, EntityFolder s key, ''*.json''] = fp_join dir [n, EntityFolder s key] @ [''*.json'']"
    using fp_join_last [of "''*.json''" dir "[n, EntityFolder s key]"] by (simp add: plain_def)
  obtain fs where fs: "glob (st_disk s) (fp_join dir [n, EntityFolder s key] @ [''*.json'']) = Some fs"
      "p \<in> set (map (\<lambda>f. newPluginInfo n (last f)) fs)"
    using n(2) unfolding plugin_files_def join
    by (cases "glob (st_disk s) (fp_join dir [n, EntityFolder s key] @ [''*.json''])") simp_all
  then obtain f where f: "f \<in> set fs" "p = newPluginInfo n (last f)" by auto
  obtain q m where "f = q @ [m]" "m \<in> set (children (st_disk s) q)" "has_suffix m ''.json''" using glob_json_names [OF fs(1) f(1)] by blast
  then show ?thesis using f(2) newPluginInfo_ok [OF names [OF n(1)], of m] names by simp
qed

lemma updatePluginInventoryCache_wf:
  assumes wf: "store_wf s" and p: "plugin_ok p"
  shows "store_wf (fst (updatePluginInventoryCache x now p key s))"
proof (cases "newPluginDelta x p key s")
  case None
  have "store_wf (fst (on_disk (\<lambda>d. os_RemoveAll d (SourceFilePath s p key)) (clearPluginDeltaStore p key s)))"
    by (rule remove_all_op.on_store) (simp_all add: store_paths_plain clear_wf wf)
  then show ?thesis using None by (simp add: updatePluginInventoryCache_def Let_def)
next
  case (Some del)
  let ?s1 = "fst (storeDelta x now p key del s)"
  have s1: "store_wf ?s1" by (rule storeDelta_wf [OF wf p])
  have "store_wf (fst (on_disk (\<lambda>d. CopyFile d (SourceFilePath ?s1 p key) (cachedFilePath ?s1 p key)) ?s1))"
    by (rule copy_op.on_store) (simp_all only: store_paths_plain [OF s1] s1)
  then show ?thesis
    using Some wf by (simp add: updatePluginInventoryCache_def replacePluginCacheFileWithSource_def Let_def split_beta)
qed

lemma SaveState_wf: "store_wf s \<Longrightarrow> store_wf (fst (SaveState s))"
proof -
  assume wf: "store_wf s"
  have "store_wf (fst (on_disk (\<lambda>d. WriteFile d (fp_join (CacheDir s) [CACHE_ID_FILE]) (enc (plugins_json (plugins s)))) s))"
    by (rule write_op.on_store) (simp_all add: fp_join_all_plain store_paths_plain wf)
  then show ?thesis using wf by (simp add: SaveState_def writePluginIDMap_def split_beta)
qed

lemma UpdateCache_wf: "store_wf s \<Longrightarrow> store_wf (fst (UpdatePluginsInventoryCache x unix key s))"
proof (cases "collectPluginFiles s (DataDir s) key")
  case (Some ps)
  assume wf: "store_wf s"
  let ?f = "\<lambda>p (st, save). case updatePluginInventoryCache x (unix (pi_Source p)) p key st of (st1, updated, _) \<Rightarrow> (st1, save \<or> updated)"
  have "store_wf (fst (fold ?f qs (st, b)))" if "store_wf st" "\<forall>p \<in> set qs. plugin_ok p" for qs st b
    using that
  proof (induction qs arbitrary: st b)
    case (Cons p qs)
    have "store_wf (fst (updatePluginInventoryCache x (unix (pi_Source p)) p key st))"
      using Cons.prems by (intro updatePluginInventoryCache_wf) auto
    then show ?case using Cons.IH Cons.prems(2) by (simp add: split_beta)
  qed simp
  then have "store_wf (fst (update_caches x unix key ps s))"
    using wf collect_plugin_ok [OF wf Some] unfolding update_caches_def by blast
  then show ?thesis using Some SaveState_wf by (simp add: UpdatePluginsInventoryCache_def split_beta)
qed (simp add: UpdatePluginsInventoryCache_def)

lemma clean_wf: "store_wf s \<Longrightarrow> store_wf (fst (cleanPluginDeltas x ps key s))"
proof (induction ps arbitrary: s)
  case (Cons p ps)
  have "store_wf (fst (on_disk (\<lambda>d. WriteFile d (DeltaFilePath s p key) []) s))"
    by (rule write_op.on_store) (simp_all add: store_paths_plain Cons.prems)
  then show ?case using Cons by (auto simp: split_beta split: sum.splits)
qed simp

lemma ReadDeltas_wf: "store_wf s \<Longrightarrow> store_wf (fst (ReadDeltas x key s))"
  by (auto simp: ReadDeltas_def Let_def clean_wf split: option.splits)

lemma Reset_wf: "store_wf s \<Longrightarrow> store_wf (ResetAllDeltas key s)"
  unfolding ResetAllDeltas_def by (rule fold_wf) (auto simp: clear_wf split: prod.splits)

lemma removeEntityEntries_wf:
  assumes "store_wf s" "list_all plain dir"
  shows "store_wf (fst (removeEntityEntries dir folder s))"
proof -
  have "store_wf (fst (fold (remove_entity_in dir folder) ns (st, b)))" if "store_wf st" for ns st b
    using that
  proof (induction ns arbitrary: st b)
    case (Cons n ns)
    have "store_wf (fst (on_disk (\<lambda>d. os_RemoveAll d (fp_join dir [n, folder])) st))"
      by (rule remove_all_op.on_store) (simp_all add: fp_join_all_plain assms(2) Cons.prems)
    then show ?case using Cons by (simp add: remove_entity_in_def split_beta)
  qed simp
  then show ?thesis using assms(1) by (simp add: removeEntityEntries_def split: option.splits)
qed

lemma RemoveEntity_wf: "store_wf s \<Longrightarrow> store_wf (fst (RemoveEntity key s))"
proof -
  assume wf: "store_wf s"
  have "store_wf (fst (removeEntityEntries (CacheDir s) f (fst (removeEntityEntries (DataDir s) f s))))" for f
    by (intro removeEntityEntries_wf store_paths_plain wf)
  then show ?thesis by (simp add: RemoveEntity_def RemoveEntityFolders_def split_beta)
qed

lemma compact_wf: "store_wf s \<Longrightarrow> store_wf (compactCacheStorage key s)"
proof -
  assume wf: "store_wf s"
  have remove: "store_wf (remove_plugin key p st)" if "store_wf st" for p st
  proof -
    have "plugins_ok (AList.delete k m)" if "plugins_ok m" for k m using that by (auto simp: plugins_ok_def AList.delete_eq gm_wf_filter)
    then show ?thesis using clear_wf [OF that, of p key] by (simp add: remove_plugin_def Let_def store_wf_def)
  qed
  have archive: "store_wf (fst (on_disk (\<lambda>d. os_Remove d (archiveFilePath st p key)) st))" if "store_wf st" for p st
    by (rule remove_op.on_store) (simp_all add: store_paths_plain that)
  have "store_wf (fold (\<lambda>(k, p). remove_plugin key p) qs s)" for qs
    by (rule fold_wf [OF _ wf]) (auto simp: remove split: prod.splits)
  then have "store_wf (fold (\<lambda>p st. fst (on_disk (\<lambda>d. os_Remove d (archiveFilePath st p key)) st)) ps (fold (\<lambda>(k, p). remove_plugin key p) qs s))" for ps qs
    by (rule fold_wf [rotated]) (rule archive)
  then show ?thesis unfolding compactCacheStorage_def Let_def using wf by (auto split: option.splits)
qed

lemma CompactStorage_wf: "store_wf s \<Longrightarrow> store_wf (fst (CompactStorage key threshold s))"
  using SaveState_wf [OF compact_wf] compact_wf by (auto simp: CompactStorage_def Let_def split: option.splits)

lemma SavePluginSource_wf:
  assumes wf: "store_wf s"
  shows "store_wf (fst (SavePluginSource x key category t marshalled s))"
proof -
  let ?dir = "PluginDirPath s category key"
  let ?s1 = "fst (on_disk (\<lambda>d. MkdirAll d ?dir) s)"
  have s1: "store_wf ?s1" by (rule mkdir_op.on_store) (simp_all add: store_paths_plain wf)
  have "store_wf (fst (on_disk (\<lambda>d. WriteFile d (fp_join ?dir [t @ ''.json'']) b) ?s1))" for b
    by (rule write_op.on_store) (simp_all only: s1 fp_join_all_plain store_paths_plain [OF wf])
  then show ?thesis using s1 unfolding SavePluginSource_def split_beta Let_def by (auto split: option.splits)
qed

section \<open>The invariant\<close>

text \<open>
  C14. Whatever operation of the store runs, with whatever the plugins wrote, the backend answered and the disk refused, the
  store stays well formed: the disk is a tree whose files lie in directories, every plugin is filed under its own source,
  with a file name that gives that source, each entity once, and identifiers of 64 bits.
\<close>

theorem store_step_wf:
  assumes "store_wf s" "op_ok op"
  shows "store_wf (store_step x op s)"
proof (cases op)
  case (ChangeDefault key)
  then show ?thesis using assms(1) by (simp add: ChangeDefaultEntity_def store_wf_def)
next
  case (SetArchive b)
  then show ?thesis using assms(1) by (simp add: SetArchiveEnabled_def store_wf_def)
qed (use assms in \<open>simp_all add: SavePluginSource_wf UpdateCache_wf ReadDeltas_wf UpdateState_wf SaveState_wf Reset_wf
  RemoveEntity_wf CompactStorage_wf del: op_ok.simps\<close>)

section \<open>Restart\<close>

lemma map_of_put: "map_of (put k v m) = (map_of m)(k \<mapsto> v)"
  by (induction k v m rule: put.induct) auto

lemma set_put: "set (put k v m) \<subseteq> insert (k, v) (set m)"
  by (induction k v m rule: put.induct) auto

lemma sorted_put: "sorted_wrt (<) (map fst m) \<Longrightarrow> sorted_wrt (<) (map fst (put k v m))"
proof (induction k v m rule: put.induct)
  case (2 k v k' v' m)
  have "\<forall>x \<in> fst ` set (put k v m). k' < x" if "k' < k" using "2.prems" that set_put [of k v m] by fastforce
  then show ?case using 2 by auto
qed simp

lemma sort_map_fold:
  "map_of (fold (\<lambda>(k, v). put k v) m acc) = map_of acc ++ map_of (rev m)"
  "set (fold (\<lambda>(k, v). put k v) m acc) \<subseteq> set acc \<union> set m"
  "sorted_wrt (<) (map fst acc) \<Longrightarrow> sorted_wrt (<) (map fst (fold (\<lambda>(k, v). put k v) m acc))"
proof (induction m arbitrary: acc)
  case (Cons e m)
  { case 1 show ?case using Cons.IH(1) by (cases e) (auto simp: map_of_put map_add_def split: option.splits) }
  { case 2 show ?case using Cons.IH(2) [of "put (fst e) (snd e) acc"] set_put [of "fst e" "snd e" acc] by (cases e) auto }
  { case 3 then show ?case using Cons.IH(3) by (cases e) (simp add: sorted_put) }
qed simp_all

lemma map_of_rev: "gm_wf m \<Longrightarrow> map_of (rev m) = map_of m"
  by (rule map_of_inject_set [THEN iffD2]) (auto simp: gm_wf_def rev_map [symmetric])

lemma sort_map:
  assumes "gm_wf m"
  shows "map_of (sort_map m) = map_of m" "set (sort_map m) \<subseteq> set m" "distinct (map fst (sort_map m))"
proof -
  show "map_of (sort_map m) = map_of m" using sort_map_fold(1) [of m "[]"] by (simp add: sort_map_def map_of_rev [OF assms])
  show "set (sort_map m) \<subseteq> set m" using sort_map_fold(2) [of m "[]"] by (simp add: sort_map_def)
  have "sorted_wrt (<) (map fst (sort_map m))" using sort_map_fold(3) [of "[]" m] by (simp add: sort_map_def)
  then show "distinct (map fst (sort_map m))" by (simp add: strict_sorted_iff)
qed

lemma json_map_fold:
  "(\<And>k v. (k, v) \<in> set l \<Longrightarrow> f (g v) = (h v, True)) \<Longrightarrow>
     json_members_of f (map (\<lambda>(k, v). (k, g v)) l) acc = (fold (\<lambda>(k, v). AList.update k (h v)) l acc, True)"
proof (induction l arbitrary: acc)
  case (Cons e l)
  obtain a b where e: "e = (a, b)" by (cases e)
  have "f (g b) = (h b, True)" by (rule Cons.prems [of a]) (simp add: e)
  moreover have "json_members_of f (map (\<lambda>(k, v). (k, g v)) l) (AList.update a (h b) acc) =
      (fold (\<lambda>(k, v). AList.update k (h v)) l (AList.update a (h b) acc), True)"
    by (rule Cons.IH) (use Cons.prems in auto)
  ultimately show ?case by (simp add: e)
qed simp

lemma update_fold:
  assumes "distinct (map fst l)"
  shows "map_of (fold (\<lambda>(k, v). AList.update k (h v)) l acc) k = (case map_of l k of Some v \<Rightarrow> Some (h v) | None \<Rightarrow> map_of acc k)"
    and "gm_wf acc \<Longrightarrow> gm_wf (fold (\<lambda>(k, v). AList.update k (h v)) l acc)"
  using assms
proof (induction l arbitrary: acc)
  case (Cons e l)
  obtain a b where e: "e = (a, b)" by (cases e)
  { case 1
    have "map_of l a = None" using 1 e by (simp add: map_of_eq_None_iff)
    then show ?case using Cons.IH(1) [of "AList.update a (h b) acc"] 1 e by (auto simp: gomap_simps split: option.splits) }
  { case 2 then show ?case using Cons.IH(2) [of "AList.update a (h b) acc"] e by (simp add: gomap_simps) }
qed simp_all

text \<open>A plugin as the text gives it back.\<close>

lemma json_entity_json: "in_int64 (MostRecentID e) \<Longrightarrow> in_int64 (LastSentID e) \<Longrightarrow> json_entity (entity_json e) = (e, True)"
  by (simp add: json_entity_def entity_json_def fill_field_def json_int_def parse_int_str)

lemma json_plugin_json:
  assumes "plugin_ok p"
  shows "json_plugin (plugin_json p) = (p\<lparr>pi_Entities := fold (\<lambda>(k, v). AList.update k v) (sort_map (pi_Entities p)) []\<rparr>, True)"
proof -
  have wf: "gm_wf (pi_Entities p)" using assms by (simp add: plugin_ok_def)
  have "json_entity (entity_json v) = (v, True)" if "(k, v) \<in> set (sort_map (pi_Entities p))" for k v
    using that sort_map(2) [OF wf] assms by (intro json_entity_json) (auto simp: plugin_ok_def)
  note this [THEN json_map_fold [where g = entity_json and h = "\<lambda>v. v" and f = json_entity and acc = "[]"]]
  then show ?thesis by (simp add: json_plugin_def plugin_json_def fill_field_def json_string_def json_entities_def json_map_def)
qed

lemma plugin_again:
  assumes "plugin_ok p" "json_plugin (plugin_json p) = (q, ok)"
  shows "plugin_ok q" "same_info q p" "pi_Source q = pi_Source p"
proof -
  have wf: "gm_wf (pi_Entities p)" using assms by (simp add: plugin_ok_def)
  let ?m = "fold (\<lambda>(k, v). AList.update k v) (sort_map (pi_Entities p)) []"
  have q: "q = p\<lparr>pi_Entities := ?m\<rparr>" using json_plugin_json [OF assms(1)] assms(2) by simp
  have "map_of ?m k = map_of (pi_Entities p) k" for k
    using update_fold(1) [OF sort_map(3) [OF wf], of "\<lambda>v. v" "[]"] sort_map(1) [OF wf] by (simp split: option.splits)
  then have same: "map_of ?m = map_of (pi_Entities p)" by blast
  have gm: "gm_wf ?m" using update_fold(2) [OF sort_map(3) [OF wf], of "[]" "\<lambda>v. v"] by simp
  have "in_int64 (MostRecentID e) \<and> in_int64 (LastSentID e)" if "(k, e) \<in> set ?m" for k e
  proof -
    have "map_of ?m k = Some e" using gm that by (simp add: gm_wf_def)
    then have "(k, e) \<in> set (pi_Entities p)" using same by (simp add: map_of_SomeD)
    then show ?thesis using assms(1) by (auto simp: plugin_ok_def)
  qed
  then show "plugin_ok q" using assms(1) gm by (auto simp: q plugin_ok_def)
  show "same_info q p" "pi_Source q = pi_Source p" using same by (simp_all add: q same_info_def same_slot_def)
qed

lemma plugins_nums: "nums_ok (plugins_json m)"
  by (auto simp: plugins_json_def plugin_json_def entity_json_def list_all_iff int_str_number simp del: nums_ok.simps(1))

lemma plugins_again:
  assumes "plugins_ok m"
  shows "\<exists>m'. json_plugins (plugins_json m) [] = (m', True) \<and> plugins_ok m' \<and> same_plugins m' m"
proof -
  let ?h = "\<lambda>p. fst (json_plugin (plugin_json p))"
  let ?m = "fold (\<lambda>(k, v). AList.update k (?h v)) (sort_map m) []"
  have wf: "gm_wf m" and mem: "plugin_ok p \<and> pi_Source p = k" if "(k, p) \<in> set m" for k p
    using assms that by (auto simp: plugins_ok_def)
  have wf: "gm_wf m" using assms by (simp add: plugins_ok_def)
  have some: "json_plugin (plugin_json p) = (?h p, True)" if "(k, p) \<in> set m" for k p
    using json_plugin_json mem [OF that] by simp
  have "json_plugins (plugins_json m) [] = (?m, True)"
    using json_map_fold [where f = json_plugin and g = plugin_json and h = ?h and l = "sort_map m" and acc = "[]"] some sort_map(2) [OF wf]
    by (auto simp: json_plugins_def json_map_def plugins_json_def)
  moreover have look: "map_of ?m k = map_option ?h (map_of m k)" for k
    using update_fold(1) [OF sort_map(3) [OF wf], of ?h "[]" k] sort_map(1) [OF wf] by (simp split: option.splits)
  moreover have gm: "gm_wf ?m" using update_fold(2) [OF sort_map(3) [OF wf], of "[]" ?h] by simp
  moreover have "pi_Source q = k \<and> plugin_ok q" if "(k, q) \<in> set ?m" for k q
  proof -
    have "map_of ?m k = Some q" using gm that by (simp add: gm_wf_def)
    then obtain p where p: "(k, p) \<in> set m" "q = ?h p" using look [of k] by (auto dest: map_of_SomeD)
    then show ?thesis using plugin_again [of p q] some mem by metis
  qed
  moreover have "same_plugins ?m m"
  proof -
    have "same_info (?h p) p" if "map_of m k = Some p" for k p
      using plugin_again(2) some mem that by (meson map_of_SomeD)
    then show ?thesis by (auto simp: same_plugins_def look option.rel_map option.rel_sel)
  qed
  ultimately show ?thesis by (auto simp: plugins_ok_def)
qed

lemma SaveState_file:
  assumes wf: "store_wf s" and save: "SaveState s = (s', None)"
  defines "file_path \<equiv> CacheDir s @ [CACHE_ID_FILE]"
  shows "read_file (st_disk s') file_path = Some (enc (plugins_json (plugins s)))" "stat (st_disk s') (CacheDir s) = Some Dir"
    "DataDir s' = DataDir s" "CacheDir s' = CacheDir s" "plugins s' = plugins s" "disk_ok (st_disk s')"
proof -
  have plain: "plain CACHE_ID_FILE" by code_simp
  let ?w = "WriteFile (st_disk s) file_path (enc (plugins_json (plugins s)))"
  have s': "s' = s\<lparr>st_disk := fst ?w\<rparr>" and ok: "snd ?w"
    using save plain by (auto simp: SaveState_def writePluginIDMap_def on_disk_def fp_join_plain file_path_def split_beta split: if_splits)
  have opened: "can_open (st_disk s) file_path" "\<not> full (st_disk s) file_path" using ok by (simp_all add: Write_ok)
  then show "read_file (st_disk s') file_path = Some (enc (plugins_json (plugins s)))"
    by (simp add: s' read_file_def stat_Write can_open_def)
  show "stat (st_disk s') (CacheDir s) = Some Dir"
    using opened by (simp add: s' stat_Write can_open_def file_path_def)
  show "DataDir s' = DataDir s" "CacheDir s' = CacheDir s" "plugins s' = plugins s" by (simp_all add: s')
  show "disk_ok (st_disk s')" using SaveState_wf [OF wf] save by (simp add: store_wf_def)
qed

text \<open>
  C13. A store opened on the disk of a saved store has every plugin of the saved one, with its name, its file and, for each
  entity, the identifier of the latest delta and of the last one sent. Opening it changes nothing on the disk, so the
  journals and the cached inventories are those of the saved store as well.
\<close>

theorem restart_keeps_identifiers:
  assumes wf: "store_wf s" and save: "SaveState s = (s', None)" and key: "key \<noteq> []"
  shows "\<exists>t. NewStore (DataDir s) key maxSize archive (st_disk s') = Returns t \<and> same_plugins (plugins t) (plugins s) \<and>
    st_disk t = st_disk s' \<and> DataDir t = DataDir s \<and> CacheDir t = CacheDir s \<and> store_wf t"
proof -
  note saved = SaveState_file [OF wf save]
  obtain m where m: "json_plugins (plugins_json (plugins s)) [] = (m, True)" "plugins_ok m" "same_plugins m (plugins s)"
    using plugins_again wf unfolding store_wf_def by blast
  let ?t = "\<lparr>DataDir = DataDir s, CacheDir = CacheDir s, maxInventorySize = maxSize, defaultEntityKey = key, plugins = [],
    archiveEnabled = archive, st_disk = st_disk s'\<rparr>"
  have plain: "plain CACHE_DIR" "plain CACHE_ID_FILE" by code_simp+
  have cache: "CacheDir s = DataDir s @ [CACHE_DIR]" using wf by (simp add: store_wf_def)
  have dwf: "disk_wf (st_disk s')" using saved(6) by (simp add: disk_ok_def)
  have "stat (st_disk s') (DataDir s) = Some Dir" using disk_wf_parent [OF dwf, of "CacheDir s"] saved(2) cache by simp
  then have "createDataStore ?t = (?t, True)"
    using saved(2) by (simp add: createDataStore_def on_disk_def Mkdir_old [OF dwf])
  moreover have "readPluginIDMap (CacheDir s @ [CACHE_ID_FILE]) ?t = (?t\<lparr>plugins := m\<rparr>, True)"
    using saved(1) m(1) json_parse_enc [OF plugins_nums, of "plugins s"]
    by (auto simp: readPluginIDMap_def loadPluginIDMap_def read_file_def plugins_json_def split: option.splits)
  ultimately have "NewStore (DataDir s) key maxSize archive (st_disk s') = Returns (?t\<lparr>plugins := m\<rparr>)"
    using key plain by (simp add: NewStore_def Let_def fp_join_plain cache [symmetric])
  then show ?thesis using m wf saved(6) by (simp add: store_wf_def)
qed

section \<open>Removing an entity\<close>

lemma below_same: "below (dir @ [n, folder]) (dir @ [m]) \<longleftrightarrow> False" "below (dir @ [n, folder]) dir \<longleftrightarrow> False"
  by (simp_all add: below_def)

lemma RemoveAll_allowed: "\<forall>q. \<not> denied d q \<Longrightarrow> p \<noteq> [] \<Longrightarrow> snd (os_RemoveAll d p)"
  by (auto simp: os_RemoveAll_def)

lemma remove_entity_step:
  assumes "\<forall>q. \<not> denied (st_disk s) q" "plain folder" "plain n" "disk_wf (st_disk s)"
  shows "\<exists>d. remove_entity_in dir folder n (s, True) = (s\<lparr>st_disk := d\<rparr>, True) \<and> denied d = denied (st_disk s) \<and> disk_wf d \<and>
    (\<forall>q. stat d q = (if is_dir s (dir @ [n]) \<and> \<not> nonEntityFolders n \<and> below (dir @ [n, folder]) q then None else stat (st_disk s) q))"
proof -
  have path: "fp_join dir [n, folder] = dir @ [n, folder]" using assms(2,3) by (simp add: fp_join_plain)
  show ?thesis
  proof (cases "is_dir s (dir @ [n]) \<and> \<not> nonEntityFolders n \<and> stat (st_disk s) (dir @ [n, folder]) \<noteq> None")
    case True
    obtain d where d: "os_RemoveAll (st_disk s) (dir @ [n, folder]) = (d, True)"
      using RemoveAll_allowed [OF assms(1), of "dir @ [n, folder]"] by (cases "os_RemoveAll (st_disk s) (dir @ [n, folder])") simp
    have "remove_entity_in dir folder n (s, True) = (s\<lparr>st_disk := d\<rparr>, True)"
      using True d by (simp add: remove_entity_in_def path on_disk_def)
    moreover have "stat d q = (if is_dir s (dir @ [n]) \<and> \<not> nonEntityFolders n \<and> below (dir @ [n, folder]) q then None else stat (st_disk s) q)" for q
      using stat_RemoveAll [of "dir @ [n, folder]" "st_disk s" q] True unfolding d by simp
    moreover have "denied d = denied (st_disk s)" using RemoveAll_fields(1) [of "st_disk s" "dir @ [n, folder]"] d by simp
    moreover have "disk_wf d" using disk_wf_RemoveAll [OF assms(4), of "dir @ [n, folder]"] d by simp
    ultimately show ?thesis by blast
  next
    case False
    then have "remove_entity_in dir folder n (s, True) = (s\<lparr>st_disk := st_disk s\<rparr>, True)"
      by (auto simp: remove_entity_in_def path)
    moreover have "stat (st_disk s) q = (if is_dir s (dir @ [n]) \<and> \<not> nonEntityFolders n \<and> below (dir @ [n, folder]) q then None else stat (st_disk s) q)" for q
      using False missing_below [OF assms(4)] by auto
    ultimately show ?thesis using assms(4) by blast
  qed
qed

lemma remove_entity_fold:
  assumes "\<forall>q. \<not> denied (st_disk s) q" "plain folder" "\<forall>n \<in> set ns. plain n" "disk_wf (st_disk s)"
  shows "\<exists>d. fold (remove_entity_in dir folder) ns (s, True) = (s\<lparr>st_disk := d\<rparr>, True) \<and> denied d = denied (st_disk s) \<and> disk_wf d \<and>
    (\<forall>q. stat d q = (if \<exists>n \<in> set ns. is_dir s (dir @ [n]) \<and> \<not> nonEntityFolders n \<and> below (dir @ [n, folder]) q then None
      else stat (st_disk s) q))"
  using assms
proof (induction ns arbitrary: s)
  case (Cons n ns)
  obtain d where d: "remove_entity_in dir folder n (s, True) = (s\<lparr>st_disk := d\<rparr>, True)" "denied d = denied (st_disk s)" "disk_wf d"
    "\<And>q. stat d q = (if is_dir s (dir @ [n]) \<and> \<not> nonEntityFolders n \<and> below (dir @ [n, folder]) q then None else stat (st_disk s) q)"
    using remove_entity_step [of s folder n dir] Cons.prems by auto
  have dirs: "is_dir (s\<lparr>st_disk := d\<rparr>) (dir @ [m]) = is_dir s (dir @ [m])" for m
    using d(4) [of "dir @ [m]"] by (simp add: is_dir_def below_same)
  have sel: "st_disk (s\<lparr>st_disk := d\<rparr>) = d" and upd: "s\<lparr>st_disk := d, st_disk := e\<rparr> = s\<lparr>st_disk := e\<rparr>" for e by simp_all
  have prem: "\<forall>q. \<not> denied d q" "\<forall>n \<in> set ns. plain n" using Cons.prems(1,3) d(2) by simp_all
  obtain e where e: "fold (remove_entity_in dir folder) ns (s\<lparr>st_disk := d\<rparr>, True) = (s\<lparr>st_disk := e\<rparr>, True)" "denied e = denied d" "disk_wf e"
    "\<And>q. stat e q = (if \<exists>n \<in> set ns. is_dir s (dir @ [n]) \<and> \<not> nonEntityFolders n \<and> below (dir @ [n, folder]) q then None else stat d q)"
    using Cons.IH [of "s\<lparr>st_disk := d\<rparr>", unfolded sel upd dirs, OF prem(1) Cons.prems(2) prem(2) d(3)] by blast
  have "stat e q = (if \<exists>m \<in> set (n # ns). is_dir s (dir @ [m]) \<and> \<not> nonEntityFolders m \<and> below (dir @ [m, folder]) q then None
      else stat (st_disk s) q)" for q
    unfolding e(4) d(4) by auto
  moreover have "fold (remove_entity_in dir folder) (n # ns) (s, True) = (s\<lparr>st_disk := e\<rparr>, True)" using d(1) e(1) by simp
  ultimately show ?case using d(2) e(2,3) by (metis (no_types, lifting))
qed (auto intro!: exI [of _ "st_disk s" for s])

lemma removeEntityEntries_spec:
  assumes "\<forall>q. \<not> denied (st_disk s) q" "plain folder" "disk_ok (st_disk s)" "stat (st_disk s) dir = Some Dir"
  shows "\<exists>d. removeEntityEntries dir folder s = (s\<lparr>st_disk := d\<rparr>, True) \<and> denied d = denied (st_disk s) \<and> disk_wf d \<and>
    (\<forall>q. stat d q = (if in_entity s dir folder q then None else stat (st_disk s) q))"
proof -
  let ?ns = "children (st_disk s) dir"
  have "plain n" if "n \<in> set ?ns" for n using that assms(3) by (force simp: child_iff disk_ok_def)
  moreover have "in_entity s dir folder q \<longleftrightarrow> (\<exists>n \<in> set ?ns. is_dir s (dir @ [n]) \<and> \<not> nonEntityFolders n \<and> below (dir @ [n, folder]) q)" for q
    by (auto simp: in_entity_def is_dir_def child_stat)
  ultimately show ?thesis
    using remove_entity_fold [OF assms(1,2), of ?ns dir] assms by (simp add: removeEntityEntries_def read_dir_def disk_ok_def)
qed

text \<open>
  Removing an entity whose folder has a plain name deletes, for every plugin and in both directories, the folder of the
  entity with everything in it, and nothing else: no other entity, no identifier and no file of the store. It reports no
  error when nothing is protected.
\<close>

lemma RemoveEntity_exact:
  assumes wf: "store_wf s" and plain: "plain (EntityFolder s key)" and free: "\<forall>q. \<not> denied (st_disk s) q"
    and cache: "stat (st_disk s) (CacheDir s) = Some Dir"
  shows "\<exists>d. RemoveEntity key s = (s\<lparr>st_disk := d\<rparr>, None) \<and>
    (\<forall>q. stat d q = (if in_entity s (DataDir s) (EntityFolder s key) q \<or> in_entity s (CacheDir s) (EntityFolder s key) q then None
      else stat (st_disk s) q))"
proof -
  let ?f = "EntityFolder s key"
  have ok: "disk_ok (st_disk s)" and dirs: "CacheDir s = DataDir s @ [CACHE_DIR]" using wf by (simp_all add: store_wf_def)
  have "stat (st_disk s) (DataDir s) = Some Dir" using disk_wf_parent [of "st_disk s" "CacheDir s"] ok cache dirs by (simp add: disk_ok_def)
  from removeEntityEntries_spec [OF free plain ok this] obtain d where d:
    "removeEntityEntries (DataDir s) ?f s = (s\<lparr>st_disk := d\<rparr>, True)" "denied d = denied (st_disk s)"
    "\<And>q. stat d q = (if in_entity s (DataDir s) ?f q then None else stat (st_disk s) q)" by blast
  have sel: "st_disk (s\<lparr>st_disk := d\<rparr>) = d" and upd: "s\<lparr>st_disk := d, st_disk := e\<rparr> = s\<lparr>st_disk := e\<rparr>" for e by simp_all
  have kept: "\<not> in_entity s (DataDir s) ?f (CacheDir s @ [n])" "\<not> in_entity s (DataDir s) ?f (CacheDir s)" for n
    by (auto simp: in_entity_def dirs below_def nonEntityFolders_def)
  have same: "in_entity (s\<lparr>st_disk := d\<rparr>) (CacheDir s) ?f q = in_entity s (CacheDir s) ?f q" for q
    using kept by (simp add: in_entity_def [of _ "CacheDir s"] is_dir_def d(3))
  have "disk_ok d" using removeEntityEntries_wf [OF wf, of "DataDir s" ?f] wf d(1) by (simp add: store_wf_def)
  moreover have "stat d (CacheDir s) = Some Dir" "\<forall>q. \<not> denied d q" using kept d(2,3) cache free by simp_all
  ultimately obtain e where e: "removeEntityEntries (CacheDir s) ?f (s\<lparr>st_disk := d\<rparr>) = (s\<lparr>st_disk := e\<rparr>, True)"
    "\<And>q. stat e q = (if in_entity s (CacheDir s) ?f q then None else stat d q)"
    using removeEntityEntries_spec [of "s\<lparr>st_disk := d\<rparr>" ?f "CacheDir s", unfolded sel upd same] plain by blast
  have "RemoveEntity key s = (s\<lparr>st_disk := e\<rparr>, None)" using d(1) e(1) by (simp add: RemoveEntity_def RemoveEntityFolders_def)
  then show ?thesis using d(3) e(2) by (intro exI [of _ e]) auto
qed

lemma RemoveAll_none: "stat d q = None \<Longrightarrow> stat (fst (os_RemoveAll d p)) q = None"
  by (cases "p = []") (simp add: os_RemoveAll_def, simp add: stat_RemoveAll)

lemma remove_entity_none:
  "stat (st_disk (fst acc)) q = None \<Longrightarrow> stat (st_disk (fst (remove_entity_in dir folder n acc))) q = None"
  by (cases acc) (simp add: remove_entity_in_def on_disk_def split_beta RemoveAll_none)

lemma remove_entity_fold_none:
  "stat (st_disk (fst acc)) q = None \<Longrightarrow> stat (st_disk (fst (fold (remove_entity_in dir folder) ns acc))) q = None"
  by (induction ns arbitrary: acc) (simp_all add: remove_entity_none)

lemma removeEntityEntries_none: "stat (st_disk s) q = None \<Longrightarrow> stat (st_disk (fst (removeEntityEntries dir folder s))) q = None"
  using remove_entity_fold_none [of "(s, True)"] by (simp add: removeEntityEntries_def split: option.splits)

lemma parent_fold:
  assumes "\<forall>q. \<not> denied (st_disk s) q" "dir \<noteq> []" "stat (st_disk s) dir = Some Dir"
    and "\<forall>m \<in> set ns. plain m" "n \<in> set ns" "is_dir s (dir @ [n])" "\<not> nonEntityFolders n" "below dir q"
  shows "stat (st_disk (fst (fold (remove_entity_in dir ''..'') ns (s, ok)))) q = None"
  using assms(4,5)
proof (induction ns)
  case (Cons m ns)
  have path: "fp_join dir [m, ''..''] = dir" using Cons.prems(1) by (simp add: fp_join_def plain_def split_slash_plain path_step_def)
  show ?case
  proof (cases "is_dir s (dir @ [m]) \<and> \<not> nonEntityFolders m")
    case True
    have "stat (fst (os_RemoveAll (st_disk s) dir)) q = None"
      using stat_RemoveAll [OF assms(2), of "st_disk s" q] RemoveAll_allowed [OF assms(1,2)] assms(3,8) by simp
    then have "stat (st_disk (fst (remove_entity_in dir ''..'' m (s, ok)))) q = None"
      using True assms(3) by (simp add: remove_entity_in_def path on_disk_def split_beta)
    then show ?thesis by (simp add: remove_entity_fold_none)
  next
    case False
    then have "m \<noteq> n" "remove_entity_in dir ''..'' m (s, ok) = (s, ok)" using assms(6,7) by (auto simp: remove_entity_in_def)
    then show ?thesis using Cons by simp
  qed
qed simp

text \<open>
  C27. The key of an entity may sanitize to \<^verbatim>\<open>..\<close>, as \<^verbatim>\<open>.:.\<close> does. Removing such an entity deletes
  the whole data directory: the inventory, the journals and the identifiers of every entity.
\<close>

theorem RemoveEntity_parent_folder:
  assumes wf: "store_wf s" and folder: "EntityFolder s key = ''..''" and free: "\<forall>q. \<not> denied (st_disk s) q"
    and cache: "stat (st_disk s) (CacheDir s) = Some Dir" and data: "DataDir s \<noteq> []"
    and plugin: "stat (st_disk s) (DataDir s @ [n]) = Some Dir" "\<not> nonEntityFolders n"
  shows "below (DataDir s) q \<longrightarrow> stat (st_disk (fst (RemoveEntity key s))) q = None"
proof
  assume q: "below (DataDir s) q"
  let ?ns = "children (st_disk s) (DataDir s)"
  have ok: "disk_ok (st_disk s)" and dirs: "CacheDir s = DataDir s @ [CACHE_DIR]" using wf by (simp_all add: store_wf_def)
  have dir: "stat (st_disk s) (DataDir s) = Some Dir" using disk_wf_parent [of "st_disk s" "CacheDir s"] ok cache dirs by (simp add: disk_ok_def)
  have "\<forall>m \<in> set ?ns. plain m" using ok by (force simp: child_iff disk_ok_def)
  moreover have "n \<in> set ?ns" using plugin(1) by (simp add: child_stat)
  ultimately have "stat (st_disk (fst (removeEntityEntries (DataDir s) ''..'' s))) q = None"
    using parent_fold [OF free data dir, of ?ns n q True] plugin q dir free by (simp add: removeEntityEntries_def read_dir_def is_dir_def)
  then show "stat (st_disk (fst (RemoveEntity key s))) q = None"
    using removeEntityEntries_none folder by (simp add: RemoveEntity_def RemoveEntityFolders_def split_beta)
qed

section \<open>Witnesses\<close>

lemma ex_store_wf: "store_wf (ex_store c ds b)"
proof -
  have "list_all plain [''d'', CACHE_DIR, ''p'', localEntityFolder, ''a.json'', ''a.pending'']" by code_simp
  moreover have "disk_wf (ex_disk c ds b)"
    by (simp add: disk_wf_def ex_disk_def gm_wf_def stat_def ex_names)
  ultimately show ?thesis by (simp add: store_wf_def disk_ok_def ex_plugins_ok ex_disk_def ex_cache_dir_def)
qed

theorem store_step_wf_witness:
  "store_wf (store_step (ex_ext [] [] []) (UpdateSent ex_key [ex_delta 1 ''x''] None) (ex_store ''{}'' [ex_delta 1 ''x''] ''{}''))"
  using store_step_wf [OF ex_store_wf, of "UpdateSent ex_key [ex_delta 1 ''x''] None"] by (simp add: ex_ids)

theorem restart_keeps_identifiers_witness:
  "\<exists>s' t p. SaveState (ex_store ''{}'' [] ''{}'') = (s', None) \<and> NewStore [''d''] ex_key 1000 True (st_disk s') = Returns t \<and>
     map_of (plugins t) ''p/a'' = Some p \<and> map_of (pi_Entities p) ex_key = Some \<lparr>MostRecentID = 2, LastSentID = 0\<rparr>"
proof -
  let ?s = "ex_store ''{}'' [] ''{}''"
  have "plain CACHE_ID_FILE" by code_simp
  moreover have "stat (ex_disk ''{}'' [] ''{}'') (ex_cache_dir @ [CACHE_ID_FILE]) = None"
    by (simp add: ex_disk_def stat_def ex_names CACHE_ID_FILE_def)
  ultimately have "snd (SaveState ?s) = None"
    by (simp add: SaveState_def writePluginIDMap_def on_disk_def fp_join_plain split_beta Write_ok can_open_def ex_stat)
  then have save: "SaveState ?s = (fst (SaveState ?s), None)" by (cases "SaveState ?s") simp
  have "ex_key \<noteq> []" by (simp add: ex_key_def)
  from restart_keeps_identifiers [OF ex_store_wf save this, of 1000 True] obtain t where t:
    "NewStore [''d''] ex_key 1000 True (st_disk (fst (SaveState ?s))) = Returns t" "same_plugins (plugins t) [(''p/a'', ex_plugin)]" by auto
  then have "rel_option same_info (map_of (plugins t) ''p/a'') (Some ex_plugin)" by (auto simp: same_plugins_def split: if_splits)
  then show ?thesis using save t(1) by (auto simp: option_rel_Some2 same_info_def ex_plugin_def)
qed

theorem RemoveEntity_parent_folder_witness:
  "stat (st_disk (fst (RemoveEntity ''.:.'' (ex_store ''{}'' [] ''{}'')))) [''d''] = None"
proof -
  have "EntityFolder (ex_store ''{}'' [] ''{}'') ''.:.'' = ''..''" "\<not> nonEntityFolders ''p''" by code_simp+
  moreover have "stat (ex_disk ''{}'' [] ''{}'') [''d'', ''p''] = Some Dir" by (simp add: ex_disk_def stat_def ex_names)
  moreover have "below [''d''] [''d'']" by (simp add: below_def)
  ultimately show ?thesis
    using RemoveEntity_parent_folder [OF ex_store_wf, of "''{}''" "[]" "''{}''" "''.:.''" "''p''" "[''d'']"] by (simp add: ex_stat)
qed

end
