(* ===== verification/Time_Text.thy ===== *)
theory Time_Text
  imports Json_Text "HOL-Library.Monad_Syntax"
begin

text \<open>
  The text of a \<^verbatim>\<open>time.Time\<close>, as \<^verbatim>\<open>MarshalText\<close> and \<^verbatim>\<open>UnmarshalText\<close> of the package
  \<^verbatim>\<open>time\<close> write and read it (RFC 3339 with nanoseconds), for the times the inventory sender keeps on disk.

  \<^item> A time is its nanoseconds since January 1 of the year 1; the zone in which it is written is an argument, as its offset
    from UTC in minutes. The year 0 is a leap year of 366 days, so days are counted from its start.
  \<^item> \<open>year_day\<close> and \<open>month_day\<close> turn days into a date by taking off whole years and whole months.
  \<^item> \<open>time_text_roundtrip\<close>: reading what was written gives the same instant, whatever the zone.
\<close>

section \<open>Definitions\<close>

definition leap :: "nat \<Rightarrow> bool" where
  "leap y \<longleftrightarrow> (y mod 4 = 0 \<and> y mod 100 \<noteq> 0) \<or> y mod 400 = 0"

definition year_days :: "nat \<Rightarrow> nat" where
  "year_days y = (if leap y then 366 else 365)"

definition month_lengths :: "nat \<Rightarrow> nat list" where
  "month_lengths y = [31, if leap y then 29 else 28, 31, 30, 31, 30, 31, 31, 30, 31, 30, 31]"

text \<open>The days of the years before \<open>y\<close>, and the year and the day in it of a number of days.\<close>

primrec days_to :: "nat \<Rightarrow> nat" where
  "days_to 0 = 0"
| "days_to (Suc y) = days_to y + year_days y"

function year_day :: "nat \<Rightarrow> nat \<Rightarrow> nat \<times> nat" where
  "year_day y d = (if d < year_days y then (y, d) else year_day (Suc y) (d - year_days y))"
  by pat_completeness auto
termination by (relation "measure snd") (auto simp: year_days_def)

fun month_day :: "nat list \<Rightarrow> nat \<Rightarrow> nat \<times> nat" where
  "month_day [] d = (0, d)"
| "month_day (n # ns) d = (if d < n then (0, d) else case month_day ns (d - n) of (m, r) \<Rightarrow> (Suc m, r))"

text \<open>A number with leading zeros.\<close>

primrec pad :: "nat \<Rightarrow> nat \<Rightarrow> string" where
  "pad 0 n = []"
| "pad (Suc k) n = pad k (n div 10) @ [digit (n mod 10)]"

definition fraction_text :: "nat \<Rightarrow> string" where
  "fraction_text ns = (if ns = 0 then [] else CHR ''.'' # trim_right (pad 9 ns) ''0'')"

definition zone_text :: "int \<Rightarrow> string" where
  "zone_text off =
     (if off = 0 then ''Z''
      else (if off < 0 then CHR ''-'' else CHR ''+'') # pad 2 (nat \<bar>off\<bar> div 60) @ CHR '':'' # pad 2 (nat \<bar>off\<bar> mod 60))"

definition day_seconds :: nat where "day_seconds = 86400"

definition nanos :: nat where "nanos = 1000000000"

definition clock_text :: "nat \<Rightarrow> string" where
  "clock_text s = pad 2 (s div 3600) @ CHR '':'' # pad 2 (s div 60 mod 60) @ CHR '':'' # pad 2 (s mod 60)"

definition date_text :: "nat \<Rightarrow> string" where
  "date_text days =
     (case year_day 0 days of (y, r) \<Rightarrow> case month_day (month_lengths y) r of (m, d) \<Rightarrow>
        pad 4 y @ CHR ''-'' # pad 2 (Suc m) @ CHR ''-'' # pad 2 (Suc d))"

text \<open>The nanoseconds on the clock of the zone since the start of the year 0.\<close>

definition wall :: "int \<Rightarrow> time \<Rightarrow> int" where
  "wall off t = t + off * 60 * int nanos + int (year_days 0 * day_seconds * nanos)"

definition MarshalText :: "int \<Rightarrow> time \<Rightarrow> string option" where
  "MarshalText off t =
     (if wall off t < 0 then None
      else let w = nat (wall off t); s = w div nanos; days = s div day_seconds in
           if 10000 \<le> fst (year_day 0 days) then None
           else Some (date_text days @ CHR ''T'' # clock_text (s mod day_seconds) @ fraction_text (w mod nanos) @ zone_text off))"

definition num :: "nat \<Rightarrow> string \<Rightarrow> (nat \<times> string) option" where
  "num k s = (if length s < k then None else map_option (\<lambda>n. (n, drop k s)) (parse_digits 0 (take k s)))"

definition lit :: "char \<Rightarrow> string \<Rightarrow> string option" where
  "lit c s = (case s of [] \<Rightarrow> None | c' # r \<Rightarrow> if c' = c then Some r else None)"

definition fraction :: "string \<Rightarrow> (nat \<times> string) option" where
  "fraction s =
     (case s of
        [] \<Rightarrow> Some (0, [])
      | c # r \<Rightarrow>
          if c = CHR ''.'' then
            (let ds = takeWhile is_digit r in
             if ds = [] then None
             else map_option (\<lambda>n. (n, dropWhile is_digit r)) (parse_digits 0 (take 9 (ds @ replicate 9 CHR ''0''))))
          else Some (0, s))"

definition zone :: "string \<Rightarrow> int option" where
  "zone s =
     (if s = ''Z'' then Some 0
      else case s of
             [] \<Rightarrow> None
           | c # r \<Rightarrow>
               if c \<noteq> CHR ''+'' \<and> c \<noteq> CHR ''-'' then None
               else do {
                 (h, r) \<leftarrow> num 2 r;
                 r \<leftarrow> lit CHR '':'' r;
                 (m, r) \<leftarrow> num 2 r;
                 if r \<noteq> [] \<or> 24 \<le> h \<or> 60 \<le> m then None
                 else Some ((if c = CHR ''-'' then - 1 else 1) * int (60 * h + m))
               })"

definition UnmarshalText :: "string \<Rightarrow> time option" where
  "UnmarshalText s =
     do {
       (y, s) \<leftarrow> num 4 s;
       s \<leftarrow> lit CHR ''-'' s;
       (mo, s) \<leftarrow> num 2 s;
       s \<leftarrow> lit CHR ''-'' s;
       (d, s) \<leftarrow> num 2 s;
       s \<leftarrow> lit CHR ''T'' s;
       (h, s) \<leftarrow> num 2 s;
       s \<leftarrow> lit CHR '':'' s;
       (mi, s) \<leftarrow> num 2 s;
       s \<leftarrow> lit CHR '':'' s;
       (sec, s) \<leftarrow> num 2 s;
       (ns, s) \<leftarrow> fraction s;
       off \<leftarrow> zone s;
       if mo < 1 \<or> 12 < mo \<or> d < 1 \<or> month_lengths y ! (mo - 1) < d \<or> 24 \<le> h \<or> 60 \<le> mi \<or> 60 \<le> sec then None
       else let days = days_to y + sum_list (take (mo - 1) (month_lengths y)) + (d - 1) in
            Some (int ((days * day_seconds + (h * 3600 + mi * 60 + sec)) * nanos + ns) - off * 60 * int nanos
              - int (year_days 0 * day_seconds * nanos))
     }"

section \<open>Lemmas\<close>

declare year_day.simps [simp del]

lemma year_day_spec: "year_day y d = (y', r) \<Longrightarrow> days_to y + d = days_to y' + r \<and> r < year_days y'"
proof (induction y d rule: year_day.induct)
  case (1 y d)
  then show ?case by (cases "d < year_days y") (auto simp: year_day.simps [of y d])
qed

lemma month_day_spec: "month_day ns d = (m, r) \<Longrightarrow> d < sum_list ns \<Longrightarrow> d = sum_list (take m ns) + r \<and> m < length ns \<and> r < ns ! m"
proof (induction ns d arbitrary: m rule: month_day.induct)
  case (2 n ns d)
  then show ?case by (auto split: if_splits prod.splits) fastforce+
qed simp

lemma sum_month_lengths: "sum_list (month_lengths y) = year_days y"
  by (simp add: month_lengths_def year_days_def)

lemma month_length_le: "m < 12 \<Longrightarrow> month_lengths y ! m \<le> 31"
  by (auto simp: month_lengths_def nth_Cons' numeral_eq_Suc less_Suc_eq)

lemma pad_length [simp]: "length (pad k n) = k"
  by (induction k arbitrary: n) simp_all

lemma pad_digits: "list_all is_digit (pad k n)"
  by (induction k arbitrary: n) simp_all

lemma parse_pad: "n < 10 ^ k \<Longrightarrow> parse_digits 0 (pad k n) = Some n"
proof (induction k arbitrary: n)
  case (Suc k)
  then have "n div 10 < 10 ^ k" by (simp add: less_mult_imp_div_less mult.commute)
  then show ?case using Suc.IH by (simp add: parse_digits_append)
qed simp

lemma num_pad [simp]: "n < 10 ^ k \<Longrightarrow> num k (pad k n @ r) = Some (n, r)"
  by (simp add: num_def parse_pad)

lemma lit_Cons [simp]: "lit c (c # r) = Some r"
  by (simp add: lit_def)

lemma zone_roundtrip: "\<bar>off\<bar> < 1440 \<Longrightarrow> zone (zone_text off) = Some off"
proof -
  assume off: "\<bar>off\<bar> < 1440"
  have bounds: "nat \<bar>off\<bar> div 60 < 24" "nat \<bar>off\<bar> mod 60 < 60" using off by simp_all
  then have nums: "num 2 (pad 2 (nat \<bar>off\<bar> div 60) @ r) = Some (nat \<bar>off\<bar> div 60, r)" "num 2 (pad 2 (nat \<bar>off\<bar> mod 60)) = Some (nat \<bar>off\<bar> mod 60, [])" for r
    using num_pad [of "nat \<bar>off\<bar> mod 60" 2 "[]"] by simp_all
  have "60 * (nat \<bar>off\<bar> div 60) + nat \<bar>off\<bar> mod 60 = nat \<bar>off\<bar>" by simp
  then have "int (60 * (nat \<bar>off\<bar> div 60) + nat \<bar>off\<bar> mod 60) = \<bar>off\<bar>" by simp
  then show ?thesis using bounds by (auto simp: zone_def zone_text_def nums)
qed

lemma trim_right_replicate: "s = trim_right s [c] @ replicate (length s - length (trim_right s [c])) c"
proof -
  have "takeWhile (\<lambda>x. x = c) (rev s) = replicate (length (takeWhile (\<lambda>x. x = c) (rev s))) c"
    by (rule replicate_eqI) (auto dest: set_takeWhileD)
  moreover have "rev s = takeWhile (\<lambda>x. x = c) (rev s) @ dropWhile (\<lambda>x. x = c) (rev s)" by simp
  ultimately have "rev s = replicate (length (takeWhile (\<lambda>x. x = c) (rev s))) c @ dropWhile (\<lambda>x. x = c) (rev s)" by metis
  then have split: "s = rev (dropWhile (\<lambda>x. x = c) (rev s)) @ replicate (length (takeWhile (\<lambda>x. x = c) (rev s))) c"
    by (metis rev_append rev_replicate rev_rev_ident)
  have "trim_right s [c] = rev (dropWhile (\<lambda>x. x = c) (rev s))" by (simp add: trim_right_def)
  then show ?thesis using split by (metis add_diff_cancel_left' length_append length_replicate)
qed

lemma pad_zero: "n < 10 ^ k \<Longrightarrow> (\<forall>c \<in> set (pad k n). c = CHR ''0'') \<longleftrightarrow> n = 0"
proof -
  assume n: "n < 10 ^ k"
  have zero: "parse_digits 0 (replicate m CHR ''0'') = Some 0" for m
    using digit_val_digit [of 0] digit_0 by (induction m) simp_all
  have "n = 0" if "\<forall>c \<in> set (pad k n). c = CHR ''0''"
  proof -
    have "pad k n = replicate k CHR ''0''" using that by (metis pad_length replicate_length_same)
    then show ?thesis using parse_pad [OF n] zero by simp
  qed
  moreover have "pad k 0 = replicate k CHR ''0''" by (induction k) (simp_all add: digit_0 replicate_append_same)
  ultimately show ?thesis by auto
qed

lemma fraction_roundtrip:
  assumes "ns < nanos" "z \<noteq> []" "\<not> is_digit (hd z)" "hd z \<noteq> CHR ''.''"
  shows "fraction (fraction_text ns @ z) = Some (ns, z)"
proof (cases "ns = 0")
  case True
  then show ?thesis using assms by (cases z) (simp_all add: fraction_def fraction_text_def)
next
  case False
  let ?ds = "trim_right (pad 9 ns) ''0''"
  have ns: "ns < 10 ^ 9" using assms(1) by (simp add: nanos_def)
  have split: "pad 9 ns = ?ds @ replicate (9 - length ?ds) CHR ''0''" using trim_right_replicate [of "pad 9 ns" "CHR ''0''"] by simp
  then have len: "length ?ds \<le> 9" by (metis pad_length length_append le_add1)
  have nonempty: "?ds \<noteq> []" using split pad_zero [OF ns] False by (metis append_Nil in_set_replicate)
  have "list_all is_digit ?ds" using pad_digits [of 9 ns] split by (metis list_all_append)
  then have digits: "\<forall>c \<in> set ?ds. is_digit c" by (simp add: list_all_iff)
  have "takeWhile is_digit (?ds @ z) = ?ds" "dropWhile is_digit (?ds @ z) = z"
    using digits assms(2,3) by (simp_all add: takeWhile_append dropWhile_append takeWhile_eq_Nil_iff dropWhile_eq_self_iff)
  moreover have "take 9 (?ds @ replicate 9 CHR ''0'') = pad 9 ns"
    using len split by (simp add: min_def)
  ultimately show ?thesis
    using False nonempty parse_pad [OF ns] by (simp add: fraction_def fraction_text_def)
qed

lemma zone_text_head: "zone_text off \<noteq> []" "\<not> is_digit (hd (zone_text off))" "hd (zone_text off) \<noteq> CHR ''.''"
  by (simp_all add: zone_text_def is_digit_def digit_val_def)

lemma date_bounds:
  assumes "year_day 0 days = (y, r)" "month_day (month_lengths y) r = (m, d)"
  shows "days = days_to y + sum_list (take m (month_lengths y)) + d" "m < 12" "d < month_lengths y ! m" "d < 31"
proof -
  have y: "days = days_to y + r" "r < year_days y" using year_day_spec [OF assms(1)] by simp_all
  have "length (month_lengths y) = 12" by (simp add: month_lengths_def)
  then have m: "r = sum_list (take m (month_lengths y)) + d" "m < 12" "d < month_lengths y ! m"
    using month_day_spec [OF assms(2)] y(2) sum_month_lengths by simp_all
  then show "days = days_to y + sum_list (take m (month_lengths y)) + d" "m < 12" "d < month_lengths y ! m" "d < 31"
    using y(1) month_length_le [OF m(2), of y] by simp_all
qed

lemma clock_bounds:
  fixes s :: nat
  assumes "s < day_seconds"
  shows "s div 3600 < 24" "s div 60 mod 60 < 60" "s mod 60 < 60" "s div 3600 * 3600 + s div 60 mod 60 * 60 + s mod 60 = s"
proof -
  show "s div 3600 < 24" using assms by (simp add: day_seconds_def less_mult_imp_div_less)
  have "s div 3600 = s div 60 div 60" by (simp add: div_mult2_eq [symmetric])
  then have "s div 3600 * 60 + s div 60 mod 60 = s div 60" by simp
  then have "(s div 3600 * 60 + s div 60 mod 60) * 60 + s mod 60 = s" by simp
  then show "s div 3600 * 3600 + s div 60 mod 60 * 60 + s mod 60 = s" by (simp add: algebra_simps)
qed simp_all

text \<open>Reading a time gives the instant that was written.\<close>

lemma time_text_roundtrip:
  assumes written: "MarshalText off t = Some s" and off: "\<bar>off\<bar> < 1440"
  shows "UnmarshalText s = Some t"
proof -
  define w where "w = nat (wall off t)"
  define sec where "sec = w div nanos"
  define days where "days = sec div day_seconds"
  obtain y r where y: "year_day 0 days = (y, r)" by force
  obtain m d where m: "month_day (month_lengths y) r = (m, d)" by force
  have w0: "0 \<le> wall off t" and y4: "y < 10000"
    and s: "s = date_text days @ CHR ''T'' # clock_text (sec mod day_seconds) @ fraction_text (w mod nanos) @ zone_text off"
    using written y by (auto simp: MarshalText_def Let_def w_def sec_def days_def split: if_splits)
  note date = date_bounds [OF y m]
  have pos: "0 < nanos" "0 < day_seconds" by (simp_all add: nanos_def day_seconds_def)
  note clock = clock_bounds [OF mod_less_divisor [OF pos(2), of sec]]
  have frac: "fraction (fraction_text (w mod nanos) @ zone_text off) = Some (w mod nanos, zone_text off)"
    using pos zone_text_head by (intro fraction_roundtrip) simp_all
  have total: "int ((days * day_seconds + sec mod day_seconds) * nanos + w mod nanos) = wall off t"
    using w0 by (simp add: days_def sec_def w_def)
  have "UnmarshalText s = Some (int ((days * day_seconds + sec mod day_seconds) * nanos + w mod nanos) - off * 60 * int nanos
      - int (year_days 0 * day_seconds * nanos))"
    using date clock y4 unfolding s date_text_def y m prod.case clock_text_def UnmarshalText_def
    by (simp add: frac zone_roundtrip [OF off] algebra_simps not_le)
  then show ?thesis unfolding total by (simp add: wall_def)
qed

end
