(* ===== verification/Entity_Persist.thy ===== *)
theory Entity_Persist
  imports Time_Text Delta_Store
begin

text \<open>
  What the inventory sender keeps on disk beside the store: the identifier of the agent entity
  (\<^verbatim>\<open>internal/agent/delta/last_entityId.go\<close>) and the time of the last submission
  (\<^verbatim>\<open>last_submission.go\<close>, with its variant in memory, \<^verbatim>\<open>last_submission_inmemory.go\<close>).

  \<^item> Both keep a value in memory and in a file of their own folder of the data directory. An operation takes the disk and
    returns it. An identifier of \<open>0\<close> and the zero time mean that there is none.
  \<^item> The clock and the offset of the local zone are arguments.
  \<^item> \<open>persisted_value\<close> is the contract both give the sender: what was saved is read back, also by a new instance.
\<close>

section \<open>The entity identifier\<close>

datatype persist_error = PersistRead | PersistParse | PersistMkdir | PersistWrite | NoPreviousSubmission | BadTime

definition EmptyID :: int where "EmptyID = 0"

definition ID_String :: "int \<Rightarrow> string" where
  "ID_String i = int_str i"

record EntityIDFilePersist =
  ep_filePath :: path
  ep_lastEntityID :: int

definition NewEntityIDFilePersist :: "path \<Rightarrow> string \<Rightarrow> EntityIDFilePersist" where
  "NewEntityIDFilePersist dataDir fileName =
     \<lparr>ep_filePath = fp_join dataDir [lastEntityIDFolder, sanitize_runes fileName], ep_lastEntityID = EmptyID\<rparr>"

definition readFileFn :: "disk \<Rightarrow> path \<Rightarrow> int \<times> persist_error option" where
  "readFileFn d filePath =
     (if stat d filePath = None then (EmptyID, None)
      else case read_file d filePath of
             None \<Rightarrow> (EmptyID, Some PersistRead)
           | Some buf \<Rightarrow> (case parse_int buf of None \<Rightarrow> (EmptyID, Some PersistParse) | Some v \<Rightarrow> (v, None)))"

text \<open>Write a file, after its directory has been made when it is missing.\<close>

definition save_file :: "disk \<Rightarrow> path \<Rightarrow> string \<Rightarrow> disk \<times> persist_error option" where
  "save_file d filePath content =
     (let dir = butlast filePath;
          (d1, made) = (if stat d dir = None then MkdirAll d dir else (d, True))
      in if \<not> made then (d1, Some PersistMkdir)
         else case WriteFile d1 filePath content of (d2, ok) \<Rightarrow> (d2, if ok then None else Some PersistWrite))"

definition writeFileFn :: "disk \<Rightarrow> int \<Rightarrow> path \<Rightarrow> disk \<times> persist_error option" where
  "writeFileFn d content filePath = save_file d filePath (ID_String content)"

definition GetEntityID :: "disk \<Rightarrow> EntityIDFilePersist \<Rightarrow> EntityIDFilePersist \<times> int \<times> persist_error option" where
  "GetEntityID d e =
     (if ep_lastEntityID e = EmptyID then
        (case readFileFn d (ep_filePath e) of (i, err) \<Rightarrow> (e\<lparr>ep_lastEntityID := i\<rparr>, i, err))
      else (e, ep_lastEntityID e, None))"

definition UpdateEntityID :: "disk \<Rightarrow> int \<Rightarrow> EntityIDFilePersist \<Rightarrow> disk \<times> EntityIDFilePersist \<times> persist_error option" where
  "UpdateEntityID d i e = (case writeFileFn d i (ep_filePath e) of (d1, err) \<Rightarrow> (d1, e\<lparr>ep_lastEntityID := i\<rparr>, err))"

section \<open>The time of the last submission\<close>

record LastSubmissionFileStore =
  ls_file :: path
  ls_t :: time

definition NewLastSubmissionStore :: "path \<Rightarrow> string \<Rightarrow> LastSubmissionFileStore" where
  "NewLastSubmissionStore dataDir fileName =
     \<lparr>ls_file = fp_join dataDir [lastSuccessSubmissionFolder, sanitize_runes fileName], ls_t = 0\<rparr>"

definition updateLastSuccessSubmission :: "time \<Rightarrow> LastSubmissionFileStore \<Rightarrow> LastSubmissionFileStore" where
  "updateLastSuccessSubmission t l = l\<lparr>ls_t := t\<rparr>"

definition saveLastSuccessSubmission :: "int \<Rightarrow> disk \<Rightarrow> LastSubmissionFileStore \<Rightarrow> disk \<times> persist_error option" where
  "saveLastSuccessSubmission off d l =
     (case MarshalText off (ls_t l) of None \<Rightarrow> (d, Some BadTime) | Some serialised \<Rightarrow> save_file d (ls_file l) serialised)"

definition UpdateTime :: "int \<Rightarrow> disk \<Rightarrow> time \<Rightarrow> LastSubmissionFileStore \<Rightarrow> disk \<times> LastSubmissionFileStore \<times> persist_error option" where
  "UpdateTime off d t l =
     (let l1 = updateLastSuccessSubmission t l in
      case saveLastSuccessSubmission off d l1 of (d1, err) \<Rightarrow> (d1, l1, err))"

text \<open>\<^verbatim>\<open>Time\<close>, at the clock reading \<open>now\<close>.\<close>

definition LastSubmission_Time ::
    "int \<Rightarrow> time \<Rightarrow> disk \<Rightarrow> LastSubmissionFileStore \<Rightarrow> disk \<times> LastSubmissionFileStore \<times> time \<times> persist_error option" where
  "LastSubmission_Time off now d l =
     (if ls_t l \<noteq> 0 then (d, l, ls_t l, None)
      else case read_file d (ls_file l) of
             None \<Rightarrow> (case UpdateTime off d now l of (d1, l1, err) \<Rightarrow> (d1, l1, ls_t l1, err))
           | Some content \<Rightarrow>
               (case UnmarshalText content of
                  None \<Rightarrow> (d, l\<lparr>ls_t := 0\<rparr>, 0, Some BadTime)
                | Some t \<Rightarrow> if t \<noteq> 0 then (d, l\<lparr>ls_t := t\<rparr>, t, None) else (d, l\<lparr>ls_t := t\<rparr>, 0, Some NoPreviousSubmission)))"

record LastSubmissionInMemory =
  lm_t :: time

definition NewLastSubmissionInMemory :: "time \<Rightarrow> LastSubmissionInMemory" where
  "NewLastSubmissionInMemory now = \<lparr>lm_t = now\<rparr>"

definition InMemory_Time :: "LastSubmissionInMemory \<Rightarrow> time \<times> persist_error option" where
  "InMemory_Time l = (lm_t l, None)"

definition InMemory_UpdateTime :: "time \<Rightarrow> LastSubmissionInMemory \<Rightarrow> LastSubmissionInMemory \<times> persist_error option" where
  "InMemory_UpdateTime t l = (l\<lparr>lm_t := t\<rparr>, None)"

text \<open>What a caller learns from \<^verbatim>\<open>Time\<close>.\<close>

definition load_time :: "int \<Rightarrow> time \<Rightarrow> disk \<Rightarrow> LastSubmissionFileStore \<Rightarrow> LastSubmissionFileStore \<times> time \<times> persist_error option" where
  "load_time off now d l = snd (LastSubmission_Time off now d l)"

section \<open>The contract\<close>

text \<open>A value that is saved to a file and loaded from it: \<open>none\<close> is the value in memory before the first load,
  \<open>storable\<close> are the values the file can hold.\<close>

locale persisted_value =
  fixes save :: "disk \<Rightarrow> 'v \<Rightarrow> 's \<Rightarrow> disk \<times> 's \<times> persist_error option"
    and load :: "disk \<Rightarrow> 's \<Rightarrow> 's \<times> 'v \<times> persist_error option"
    and file_of :: "'s \<Rightarrow> path" and fresh :: "path \<Rightarrow> 's" and storable :: "'v \<Rightarrow> bool"
  assumes save_file_of: "save d v s = (d', s', err) \<Longrightarrow> file_of s' = file_of s"
    and load_memory: "save d v s = (d', s', err) \<Longrightarrow> storable v \<Longrightarrow> load d'' s' = (s', v, None)"
    and load_file: "save d v s = (d', s', None) \<Longrightarrow> storable v \<Longrightarrow> stat d'' (file_of s) = stat d' (file_of s) \<Longrightarrow>
      denied d'' = denied d' \<Longrightarrow> \<exists>s''. load d'' (fresh (file_of s)) = (s'', v, None)"
begin

text \<open>After a save, the instance and a new one on its file agree, as long as the file is left alone.\<close>

lemma fresh_agrees:
  assumes "save d v s = (d', s', None)" "storable v"
  shows "\<exists>s''. load d' s' = (s', v, None) \<and> load d' (fresh (file_of s')) = (s'', v, None)"
proof -
  have "load d' s' = (s', v, None)" using assms by (rule load_memory)
  moreover have "\<exists>s''. load d' (fresh (file_of s)) = (s'', v, None)" using assms by (intro load_file) simp_all
  ultimately show ?thesis using save_file_of [OF assms(1)] by simp
qed

end

section \<open>Lemmas\<close>

lemma save_file_read:
  assumes "save_file d p c = (d', None)"
  shows "read_file d' p = Some c"
proof -
  obtain d1 where "WriteFile d1 p c = (d', True)"
    using assms by (auto simp: save_file_def Let_def split_beta prod_eq_iff split: if_splits)
  then have w: "fst (WriteFile d1 p c) = d'" "snd (WriteFile d1 p c)" by simp_all
  then have "can_open d1 p" "\<not> full d1 p" by (simp_all add: Write_ok)
  then show ?thesis using w(1) stat_Write [of d1 p c p] WriteFile_fields [of d1 p c]
    by (auto simp: read_file_def can_open_def)
qed

lemma read_file_cong: "stat d p = stat d' p \<Longrightarrow> denied d = denied d' \<Longrightarrow> read_file d p = read_file d' p"
  by (simp add: read_file_def split: option.split node.split)

lemma read_file_stat: "read_file d p = Some c \<Longrightarrow> stat d p \<noteq> None"
  by (auto simp: read_file_def split: option.splits)

lemma save_file_fields [simp]: "denied (fst (save_file d p c)) = denied d" "full (fst (save_file d p c)) = full d"
  by (simp_all add: save_file_def Let_def split_beta)

lemma save_file_old: "q \<noteq> p \<Longrightarrow> stat d q \<noteq> None \<Longrightarrow> stat (fst (save_file d p c)) q = stat d q"
  by (simp add: save_file_def Let_def split_beta stat_Write stat_Mkdir_old)

lemma save_file_ok:
  assumes free: "\<forall>q. \<not> denied d q \<and> \<not> full d q" and p: "p \<noteq> []" "stat d p \<noteq> Some Dir"
    and dirs: "\<And>q. q \<noteq> [] \<Longrightarrow> below q (butlast p) \<Longrightarrow> stat d q \<in> {None, Some Dir}"
  shows "snd (save_file d p c) = None"
proof -
  let ?dir = "butlast p"
  have mk: "snd (MkdirAll d ?dir)" using dirs free by (intro Mkdir_succeeds) blast
  have dir: "stat d ?dir \<in> {None, Some Dir}" using dirs [of ?dir] by (cases "?dir = []") (auto simp: below_def)
  have "length (take n ?dir) < length p" for n using p(1) by (cases p) auto
  then have "p \<notin> set (map (\<lambda>i. take (Suc i) ?dir) [0..<length ?dir])" by (metis (no_types, lifting) ex_map_conv less_irrefl)
  then have "stat (fst (MkdirAll d ?dir)) p = stat d p"
    using make_dirs_new [OF mkdir_prefixes, of d p ?dir] stat_Mkdir_old [of d p ?dir] by (cases "stat d p") (auto simp: MkdirAll_def)
  then have "can_open (fst (MkdirAll d ?dir)) p" using free p Mkdir_ok [OF mk] by (simp add: can_open_def)
  moreover have "can_open d p" if "stat d ?dir \<noteq> None" using that dir free p by (auto simp: can_open_def)
  ultimately show ?thesis using mk free by (auto simp: save_file_def Let_def split_beta Write_ok)
qed

interpretation entity_id: persisted_value UpdateEntityID GetEntityID ep_filePath
  "\<lambda>p. \<lparr>ep_filePath = p, ep_lastEntityID = EmptyID\<rparr>" "\<lambda>v. v \<noteq> EmptyID \<and> in_int64 v"
proof
  fix d v s d' s' err and d'' :: disk
  assume "UpdateEntityID d v s = (d', s', err)"
  then have s': "s' = s\<lparr>ep_lastEntityID := v\<rparr>" and save: "save_file d (ep_filePath s) (int_str v) = (d', err)"
    by (auto simp: UpdateEntityID_def writeFileFn_def ID_String_def split: prod.splits)
  show "ep_filePath s' = ep_filePath s" by (simp add: s')
  show "GetEntityID d'' s' = (s', v, None)" if "v \<noteq> EmptyID \<and> in_int64 v" using that by (simp add: GetEntityID_def s')
next
  fix d v s d' s' and d'' :: disk
  assume "UpdateEntityID d v s = (d', s', None)" and v: "v \<noteq> EmptyID \<and> in_int64 v"
    and same: "stat d'' (ep_filePath s) = stat d' (ep_filePath s)" "denied d'' = denied d'"
  then have "save_file d (ep_filePath s) (int_str v) = (d', None)"
    by (auto simp: UpdateEntityID_def writeFileFn_def ID_String_def split: prod.splits)
  then have r: "read_file d'' (ep_filePath s) = Some (int_str v)" using save_file_read read_file_cong [OF same] by simp
  show "\<exists>s''. GetEntityID d'' \<lparr>ep_filePath = ep_filePath s, ep_lastEntityID = EmptyID\<rparr> = (s'', v, None)"
    using r read_file_stat [OF r] v by (simp add: GetEntityID_def readFileFn_def parse_int_str)
qed

interpretation submission: persisted_value "UpdateTime off" "load_time off now" ls_file
  "\<lambda>p. \<lparr>ls_file = p, ls_t = 0\<rparr>" "\<lambda>t. t \<noteq> 0 \<and> \<bar>off\<bar> < 1440" for off now
proof
  fix d v s d' s' err and d'' :: disk
  assume "UpdateTime off d v s = (d', s', err)"
  then have s': "s' = s\<lparr>ls_t := v\<rparr>" by (auto simp: UpdateTime_def updateLastSuccessSubmission_def Let_def split: prod.splits)
  show "ls_file s' = ls_file s" by (simp add: s')
  show "load_time off now d'' s' = (s', v, None)" if "v \<noteq> 0 \<and> \<bar>off\<bar> < 1440"
    using that by (simp add: load_time_def LastSubmission_Time_def s')
next
  fix d v s d' s' and d'' :: disk
  assume "UpdateTime off d v s = (d', s', None)" and v: "v \<noteq> 0 \<and> \<bar>off\<bar> < 1440"
    and same: "stat d'' (ls_file s) = stat d' (ls_file s)" "denied d'' = denied d'"
  then obtain c where c: "MarshalText off v = Some c" "save_file d (ls_file s) c = (d', None)"
    by (auto simp: UpdateTime_def saveLastSuccessSubmission_def updateLastSuccessSubmission_def Let_def split: prod.splits option.splits)
  have "read_file d'' (ls_file s) = Some c" using save_file_read [OF c(2)] read_file_cong [OF same] by simp
  then show "\<exists>s''. load_time off now d'' \<lparr>ls_file = ls_file s, ls_t = 0\<rparr> = (s'', v, None)"
    using v time_text_roundtrip [OF c(1)] by (simp add: load_time_def LastSubmission_Time_def)
qed

section \<open>Properties\<close>

text \<open>
  C30. What the sender remembers survives a restart of the agent: after the entity identifier and the submission time were
  saved without error, new instances on the same files read the identifier and, to the nanosecond and in whatever zone it was
  written, the time.
\<close>

theorem persisted_across_restart:
  assumes id: "UpdateEntityID d i e = (d1, e1, None)" "i \<noteq> EmptyID" "in_int64 i"
    and time: "UpdateTime off d1 t l = (d2, l1, None)" "t \<noteq> 0" "\<bar>off\<bar> < 1440" and files: "ls_file l \<noteq> ep_filePath e"
  shows "(\<exists>e'. GetEntityID d2 \<lparr>ep_filePath = ep_filePath e, ep_lastEntityID = EmptyID\<rparr> = (e', i, None)) \<and>
    (\<exists>l'. LastSubmission_Time off now d2 \<lparr>ls_file = ls_file l, ls_t = 0\<rparr> = (d2, l', t, None))"
proof
  have saved: "save_file d (ep_filePath e) (int_str i) = (d1, None)"
    using id(1) by (auto simp: UpdateEntityID_def writeFileFn_def ID_String_def split: prod.splits)
  obtain c where c: "save_file d1 (ls_file l) c = (d2, None)"
    using time(1) by (auto simp: UpdateTime_def saveLastSuccessSubmission_def updateLastSuccessSubmission_def Let_def split: prod.splits option.splits)
  have "stat d2 (ep_filePath e) = stat d1 (ep_filePath e)"
    using save_file_old [of "ep_filePath e" "ls_file l" d1 c] read_file_stat [OF save_file_read [OF saved]] files c by simp
  moreover have "denied d2 = denied d1" using save_file_fields(1) [of d1 "ls_file l" c] c by simp
  ultimately show "\<exists>e'. GetEntityID d2 \<lparr>ep_filePath = ep_filePath e, ep_lastEntityID = EmptyID\<rparr> = (e', i, None)"
    using entity_id.load_file [OF id(1)] id(2,3) by blast
  obtain l' where l': "load_time off now d2 \<lparr>ls_file = ls_file l, ls_t = 0\<rparr> = (l', t, None)"
    using submission.load_file [OF time(1), of d2 now] time(2,3) by auto
  moreover have "fst (LastSubmission_Time off now d2 \<lparr>ls_file = ls_file l, ls_t = 0\<rparr>) = d2"
    using save_file_read [OF c] by (simp add: LastSubmission_Time_def split: option.splits)
  ultimately show "\<exists>l'. LastSubmission_Time off now d2 \<lparr>ls_file = ls_file l, ls_t = 0\<rparr> = (d2, l', t, None)"
    by (auto simp: load_time_def prod_eq_iff)
qed

theorem persisted_across_restart_witness:
  "let d = \<lparr>entries = [], denied = (\<lambda>_. False), full = (\<lambda>_. False)\<rparr>;
       e = NewEntityIDFilePersist [''d''] ''k''; l = NewLastSubmissionStore [''d''] ''k'';
       d1 = fst (UpdateEntityID d 7 e); d2 = fst (UpdateTime 60 d1 90061000000005 l)
   in (\<exists>e'. GetEntityID d2 \<lparr>ep_filePath = ep_filePath e, ep_lastEntityID = EmptyID\<rparr> = (e', 7, None)) \<and>
      (\<exists>l'. LastSubmission_Time 60 9 d2 \<lparr>ls_file = ls_file l, ls_t = 0\<rparr> = (d2, l', 90061000000005, None))"
proof -
  let ?d = "\<lparr>entries = [], denied = (\<lambda>_. False), full = (\<lambda>_. False)\<rparr>"
  let ?e = "NewEntityIDFilePersist [''d''] ''k''" and ?l = "NewLastSubmissionStore [''d''] ''k''"
  have files: "ep_filePath ?e = [''d'', ''last_entityID'', ''k'']" "ls_file ?l = [''d'', ''last_success'', ''k'']"
    by code_simp+
  define d1 where "d1 = fst (UpdateEntityID ?d 7 ?e)"
  have d1: "d1 = fst (save_file ?d [''d'', ''last_entityID'', ''k''] ''7'')"
  proof -
    have "ID_String 7 = ''7''" by code_simp
    then show ?thesis by (simp add: d1_def UpdateEntityID_def writeFileFn_def files split_beta)
  qed
  have stats: "stat d1 [''d''] = Some Dir" "stat d1 [''d'', ''last_success''] = None" "stat d1 [''d'', ''last_success'', ''k''] = None"
    unfolding d1 by code_simp+
  have two: "q = [a] \<or> q = [a, b]" if "below q [a, b]" "q \<noteq> []" for q :: path and a b
    using that by (cases q rule: list.exhaust [case_names _ Cons]; cases "tl q") (auto simp: below_def)
  have first: "snd (save_file ?d [''d'', ''last_entityID'', ''k''] c) = None" for c
    by (rule save_file_ok) (auto simp: stat_def)
  have second: "snd (save_file d1 [''d'', ''last_success'', ''k''] c) = None" for c
  proof (rule save_file_ok)
    show "\<forall>q. \<not> denied d1 q \<and> \<not> full d1 q" by (simp add: d1)
    show "stat d1 q \<in> {None, Some Dir}" if "q \<noteq> []" "below q (butlast [''d'', ''last_success'', ''k''])" for q
      using two [of q] that stats by auto
  qed (simp_all add: stats)
  have year: "year_day 0 367 = (1, 1)" by (simp add: year_day.simps year_days_def leap_def)
  have "MarshalText 60 90061000000005 \<noteq> None"
    by (simp add: MarshalText_def Let_def wall_def nanos_def day_seconds_def year_days_def [of 0] leap_def [of 0] year)
  then have "snd (snd (UpdateTime 60 d1 90061000000005 ?l)) = None"
    using second by (auto simp: UpdateTime_def saveLastSuccessSubmission_def updateLastSuccessSubmission_def Let_def split_beta files)
  moreover have "snd (snd (UpdateEntityID ?d 7 ?e)) = None" using first by (simp add: UpdateEntityID_def writeFileFn_def split_beta files)
  moreover have "ls_file ?l \<noteq> ep_filePath ?e" "in_int64 7" "7 \<noteq> EmptyID"
    by (simp_all add: files in_int64_def min_int64_def max_int64_def EmptyID_def)
  ultimately show ?thesis unfolding d1_def
    using persisted_across_restart [of ?d 7 ?e "fst (UpdateEntityID ?d 7 ?e)" "fst (snd (UpdateEntityID ?d 7 ?e))" 60 90061000000005 ?l
        "fst (UpdateTime 60 (fst (UpdateEntityID ?d 7 ?e)) 90061000000005 ?l)" "fst (snd (UpdateTime 60 (fst (UpdateEntityID ?d 7 ?e)) 90061000000005 ?l))" 9]
    unfolding Let_def by (simp add: prod_eq_iff)
qed

end
