(* ===== verification/Entity_Key.thy ===== *)
theory Entity_Key
  imports Entity_Persist "HOL-Library.Multiset"
begin

text \<open>
  Entities and their keys (\<^verbatim>\<open>pkg/entity/id.go\<close>): the record of an entity, its constructors, and the key that
  an integration's entity gets from its type, its name and its identifying attributes.

  \<^item> \<^verbatim>\<open>sort.Sort\<close> orders the attributes by their key and leaves the order of equal keys open; it is the argument
    \<open>sorter\<close>, with \<open>sorts\<close> as what the library promises.
  \<^item> \<open>removeEmptyAndDups\<close> has the loop of the source with its index \<^verbatim>\<open>i-1\<close> into the shorter slice: an index
    out of range is \<open>Panics\<close>.
  \<^item> \<^verbatim>\<open>strings.ToLower\<close> is modelled on ASCII text.
\<close>

section \<open>Entities\<close>

record Entity =
  en_Key :: string
  en_ID :: int

definition EmptyKey :: string where "EmptyKey = []"

definition New_entity :: "string \<Rightarrow> int \<Rightarrow> Entity" where
  "New_entity entityKey entityID = \<lparr>en_Key = entityKey, en_ID = entityID\<rparr>"

definition NewWithoutID :: "string \<Rightarrow> Entity" where
  "NewWithoutID entityKey = \<lparr>en_Key = entityKey, en_ID = EmptyID\<rparr>"

definition NewFromNameWithoutID :: "string \<Rightarrow> Entity" where
  "NewFromNameWithoutID entityName = \<lparr>en_Key = entityName, en_ID = EmptyID\<rparr>"

section \<open>Keys\<close>

record IDAttribute =
  at_Key :: string
  at_Value :: string

record Fields =
  fl_Name :: string
  fl_Type :: string
  fl_IDAttributes :: "IDAttribute list"

definition lower_char :: "char \<Rightarrow> char" where
  "lower_char c = (if CHR ''A'' \<le> c \<and> c \<le> CHR ''Z'' then char_of ((of_char c :: nat) + 32) else c)"

definition ToLower :: "string \<Rightarrow> string" where
  "ToLower = map lower_char"

definition sorts :: "(IDAttribute list \<Rightarrow> IDAttribute list) \<Rightarrow> bool" where
  "sorts sorter \<longleftrightarrow> (\<forall>a. mset (sorter a) = mset a \<and> sorted (map at_Key (sorter a)))"

fun dedup_loop :: "nat \<Rightarrow> string \<Rightarrow> IDAttribute list \<Rightarrow> IDAttribute list \<Rightarrow> IDAttribute list outcome" where
  "dedup_loop i prev [] uniques = Returns uniques"
| "dedup_loop i prev (attr # rest) uniques =
     (if prev \<noteq> at_Key attr \<and> at_Key attr \<noteq> [] then dedup_loop (Suc i) (at_Key attr) rest (uniques @ [attr])
      else if 1 \<le> length uniques then
        (if i - 1 < length uniques
         then dedup_loop (Suc i) (at_Key attr) rest (uniques[i - 1 := (uniques ! (i - 1))\<lparr>at_Value := at_Value attr\<rparr>])
         else Panics)
      else dedup_loop (Suc i) (at_Key attr) rest uniques)"

definition removeEmptyAndDups :: "IDAttribute list \<Rightarrow> IDAttribute list outcome" where
  "removeEmptyAndDups a = dedup_loop 0 [] a []"

definition IsAgent :: "Fields \<Rightarrow> bool" where
  "IsAgent f \<longleftrightarrow> length (fl_Name f) = 0"

datatype key_error = MissingType

definition attrs_text :: "IDAttribute list \<Rightarrow> string" where
  "attrs_text a = fold (\<lambda>attr s. s @ '':'' @ at_Key attr @ ''='' @ at_Value attr) a []"

text \<open>The attributes of the receiver are sorted and shortened in place.\<close>

definition Fields_Key :: "(IDAttribute list \<Rightarrow> IDAttribute list) \<Rightarrow> Fields \<Rightarrow> (Fields \<times> (key_error + string)) outcome" where
  "Fields_Key sorter f =
     (if length (fl_Name f) = 0 then Returns (f, Inr EmptyKey)
      else if fl_Type f = [] then Returns (f, Inl MissingType)
      else and_then (removeEmptyAndDups (sorter (fl_IDAttributes f)))
             (\<lambda>a. Returns (f\<lparr>fl_IDAttributes := a\<rparr>, Inr (fl_Type f @ '':'' @ fl_Name f @ ToLower (attrs_text a)))))"

section \<open>When a key is computed\<close>

text \<open>How often a key equals the one before it.\<close>

fun repeats :: "string \<Rightarrow> string list \<Rightarrow> nat" where
  "repeats p [] = 0"
| "repeats p (k # ks) = (if k = p then 1 else 0) + repeats k ks"

text \<open>The attributes without a key, and those whose key another one has already.\<close>

definition empties :: "IDAttribute list \<Rightarrow> nat" where
  "empties a = length (filter (\<lambda>x. at_Key x = []) a)"

definition duplicates :: "IDAttribute list \<Rightarrow> nat" where
  "duplicates a = length (filter (\<lambda>x. at_Key x \<noteq> []) a) - card (at_Key ` set a - {[]})"

lemma repeats_card: "sorted (p # ks) \<Longrightarrow> length ks = repeats p ks + card (set ks - {p})"
proof (induction ks arbitrary: p)
  case (Cons k ks)
  then have ih: "length ks = repeats k ks + card (set ks - {k})" by simp
  show ?case
  proof (cases "k = p")
    case True
    have "set (k # ks) - {p} = set ks - {p}" using True by auto
    then show ?thesis using True ih by simp
  next
    case False
    have "p \<notin> set ks" using Cons.prems False by (auto dest: order_antisym)
    then have "set (k # ks) - {p} = insert k (set ks - {k})" using False by auto
    then show ?thesis using False ih by (simp add: card.insert_remove)
  qed
qed simp

lemma dedup_behind:
  assumes "sorted (p # map at_Key a)" "p \<noteq> []" "u \<noteq> []" "length u < i"
  shows "dedup_loop i p a u = Panics \<longleftrightarrow> 0 < repeats p (map at_Key a)"
  using assms
proof (induction a arbitrary: i p u)
  case (Cons x a)
  have ne: "at_Key x \<noteq> []" using Cons.prems(1,2) by (cases "at_Key x") auto
  show ?case using Cons ne by (cases "at_Key x = p") (auto simp: Suc_le_eq)
qed simp

lemma dedup_level:
  assumes "sorted (p # map at_Key a)" "p \<noteq> []" "u \<noteq> []" "length u = i"
  shows "dedup_loop i p a u = Panics \<longleftrightarrow> 2 \<le> repeats p (map at_Key a)"
  using assms
proof (induction a arbitrary: i p u)
  case (Cons x a)
  have ne: "at_Key x \<noteq> []" using Cons.prems(1,2) by (cases "at_Key x") auto
  show ?case
  proof (cases "at_Key x = p")
    case True
    then show ?thesis using Cons.prems dedup_behind [of p a "u[i - 1 := (u ! (i - 1))\<lparr>at_Value := at_Value x\<rparr>]" "Suc i"] by (auto simp: Suc_le_eq)
  next
    case False
    then show ?thesis using Cons.prems Cons.IH [of "at_Key x" "u @ [x]" "Suc i"] ne by auto
  qed
qed simp

lemma dedup_start:
  assumes "sorted (map at_Key a)"
  shows "dedup_loop i [] a [] = Panics \<longleftrightarrow> 1 \<le> duplicates a \<and> 2 \<le> duplicates a + empties a + i"
  using assms
proof (induction a arbitrary: i)
  case Nil
  show ?case by (simp add: duplicates_def)
next
  case (Cons x a)
  show ?case
  proof (cases "at_Key x = []")
    case True
    then have "duplicates (x # a) = duplicates a" "empties (x # a) = Suc (empties a)" by (simp_all add: duplicates_def empties_def insert_Diff_if)
    then show ?thesis using True Cons by auto
  next
    case False
    have ne: "\<forall>y \<in> set a. at_Key y \<noteq> []"
    proof
      fix y assume "y \<in> set a"
      then have "at_Key x \<le> at_Key y" using Cons.prems by simp
      then show "at_Key y \<noteq> []" using False by (cases "at_Key y") auto
    qed
    have rep: "length (map at_Key a) = repeats (at_Key x) (map at_Key a) + card (set (map at_Key a) - {at_Key x})"
      using Cons.prems by (intro repeats_card) simp
    have keys: "at_Key ` set (x # a) - {[]} = insert (at_Key x) (at_Key ` set a - {at_Key x})" using False ne by auto
    have "duplicates (x # a) = repeats (at_Key x) (map at_Key a)" "empties (x # a) = 0"
      unfolding duplicates_def keys empties_def using False ne rep by (auto simp: filter_id_conv card.insert_remove)
    moreover have "dedup_loop i [] (x # a) [] = Panics \<longleftrightarrow> (if i = 0 then 2 \<le> repeats (at_Key x) (map at_Key a) else 0 < repeats (at_Key x) (map at_Key a))"
      using False dedup_level [of "at_Key x" a "[x]" "Suc i"] dedup_behind [of "at_Key x" a "[x]" "Suc i"] Cons.prems by auto
    ultimately show ?thesis by auto
  qed
qed

lemma dedup_distinct:
  assumes "distinct (p # map at_Key a)" "[] \<notin> at_Key ` set a"
  shows "dedup_loop i p a u = Returns (u @ a)"
  using assms by (induction a arbitrary: i p u) auto

lemma filter_key: "distinct (map at_Key a) \<Longrightarrow> x \<in> set a \<Longrightarrow> filter (\<lambda>y. at_Key x = at_Key y) a = [x]"
  by (induction a) (auto simp: filter_empty_conv image_iff)

lemma sorted_attrs:
  assumes "mset b = mset a" "sorted (map at_Key b)" "distinct (map at_Key a)"
  shows "sort_key at_Key a = b"
proof (rule properties_for_sort_key [OF assms(1) _ assms(2)])
  fix k assume k: "k \<in> set b"
  have "mset (map at_Key b) = mset (map at_Key a)" using assms(1) by simp
  then have "distinct (map at_Key b)" using assms(3) by (metis mset_eq_imp_distinct_iff)
  then show "filter (\<lambda>x. at_Key k = at_Key x) b = filter (\<lambda>x. at_Key k = at_Key x) a"
    using filter_key k assms mset_eq_setD by metis
qed

text \<open>
  C31. The key of an entity whose attributes have distinct, non-empty keys is made of its type, its name and the attributes in
  the order of their keys: it does not depend on the order in which the integration gave them, nor on how the library sorts.
\<close>

theorem Fields_Key_canonical:
  assumes "sorts sorter" "fl_Name f \<noteq> []" "fl_Type f \<noteq> []"
    and "distinct (map at_Key (fl_IDAttributes f))" "[] \<notin> at_Key ` set (fl_IDAttributes f)"
    and "mset a = mset (fl_IDAttributes f)" "sorted (map at_Key a)"
  shows "Fields_Key sorter f = Returns (f\<lparr>fl_IDAttributes := a\<rparr>, Inr (fl_Type f @ '':'' @ fl_Name f @ ToLower (attrs_text a)))"
proof -
  let ?a = "fl_IDAttributes f"
  have sorter: "mset (sorter ?a) = mset ?a" "sorted (map at_Key (sorter ?a))" using assms(1) by (simp_all add: sorts_def)
  have eq: "sorter ?a = a" using sorted_attrs [OF sorter assms(4)] sorted_attrs [OF assms(6,7,4)] by simp
  have "distinct (map at_Key a)" "set a = set ?a" using assms(4,6) by (metis mset_eq_imp_distinct_iff mset_map, metis mset_eq_setD)
  then have "removeEmptyAndDups a = Returns a" unfolding removeEmptyAndDups_def using dedup_distinct [of "[]" a 0 "[]"] assms(5) by simp
  then show ?thesis using assms(2,3) by (simp add: Fields_Key_def eq)
qed

text \<open>
  C32. Computing the key of an entity panics exactly if an attribute repeats the key of another one and, besides this one,
  there is a second repetition or an attribute without a key: the loop that merges repeated attributes writes at an index of
  the input into the shorter output.
\<close>

theorem Fields_Key_panics:
  assumes "sorts sorter" "fl_Name f \<noteq> []" "fl_Type f \<noteq> []"
  shows "Fields_Key sorter f = Panics \<longleftrightarrow>
    1 \<le> duplicates (fl_IDAttributes f) \<and> 2 \<le> duplicates (fl_IDAttributes f) + empties (fl_IDAttributes f)"
proof -
  let ?a = "fl_IDAttributes f"
  have sorter: "mset (sorter ?a) = mset ?a" "sorted (map at_Key (sorter ?a))" using assms(1) by (simp_all add: sorts_def)
  have "length (filter P (sorter ?a)) = length (filter P ?a)" for P by (metis sorter(1) mset_filter size_mset)
  then have "duplicates (sorter ?a) = duplicates ?a" "empties (sorter ?a) = empties ?a"
    using mset_eq_setD [OF sorter(1)] by (simp_all add: duplicates_def empties_def)
  then have "removeEmptyAndDups (sorter ?a) = Panics \<longleftrightarrow> 1 \<le> duplicates ?a \<and> 2 \<le> duplicates ?a + empties ?a"
    using dedup_start [OF sorter(2), of 0] by (simp add: removeEmptyAndDups_def)
  then show ?thesis using assms(2,3) by (cases "removeEmptyAndDups (sorter ?a)") (auto simp: Fields_Key_def)
qed

text \<open>Two attributes in the wrong order; three attributes with one key.\<close>

lemma ex_sorts: "sorts (sort_key at_Key)"
  by (simp add: sorts_def)

theorem Fields_Key_canonical_witness:
  "Fields_Key (sort_key at_Key) \<lparr>fl_Name = ''n'', fl_Type = ''t'', fl_IDAttributes = [\<lparr>at_Key = ''Env'', at_Value = ''P''\<rparr>, \<lparr>at_Key = ''A'', at_Value = ''x''\<rparr>]\<rparr> =
     Returns (\<lparr>fl_Name = ''n'', fl_Type = ''t'', fl_IDAttributes = [\<lparr>at_Key = ''A'', at_Value = ''x''\<rparr>, \<lparr>at_Key = ''Env'', at_Value = ''P''\<rparr>]\<rparr>, Inr ''t:n:a=x:env=p'')"
proof -
  let ?f = "\<lparr>fl_Name = ''n'', fl_Type = ''t'', fl_IDAttributes = [\<lparr>at_Key = ''Env'', at_Value = ''P''\<rparr>, \<lparr>at_Key = ''A'', at_Value = ''x''\<rparr>]\<rparr>"
  let ?a = "[\<lparr>at_Key = ''A'', at_Value = ''x''\<rparr>, \<lparr>at_Key = ''Env'', at_Value = ''P''\<rparr>]"
  have "ToLower (attrs_text ?a) = '':a=x:env=p''" "sorted (map at_Key ?a)" by code_simp+
  moreover have "distinct (map at_Key (fl_IDAttributes ?f))" "[] \<notin> at_Key ` set (fl_IDAttributes ?f)" "mset ?a = mset (fl_IDAttributes ?f)" by simp_all
  ultimately show ?thesis using Fields_Key_canonical [OF ex_sorts, of ?f ?a] by simp
qed

theorem Fields_Key_panics_witness:
  "Fields_Key (sort_key at_Key) \<lparr>fl_Name = ''n'', fl_Type = ''t'', fl_IDAttributes = replicate 3 \<lparr>at_Key = ''k'', at_Value = ''v''\<rparr>\<rparr> = Panics"
proof -
  let ?f = "\<lparr>fl_Name = ''n'', fl_Type = ''t'', fl_IDAttributes = replicate 3 \<lparr>at_Key = ''k'', at_Value = ''v''\<rparr>\<rparr>"
  have "duplicates (fl_IDAttributes ?f) = 2" by (simp add: duplicates_def insert_Diff_if)
  then show ?thesis using Fields_Key_panics [OF ex_sorts, of ?f] by simp
qed

end
