(* ===== verification/Patch_Sender.thy ===== *)
theory Patch_Sender
  imports Delta_State Entity_Key
begin

text \<open>
  The inventory sender: the client of the ingest service (\<^verbatim>\<open>pkg/backend/inventoryapi/ingestapi.go\<close> with the types of
  \<^verbatim>\<open>ingestapi_types.go\<close>) and the patch sender of \<^verbatim>\<open>internal/agent/patch_sender.go\<close>, which reads
  the journals of an entity from the store, posts them block by block and records the answers.

  \<^item> \<open>post\<close> is the ingest service behind the HTTP client: it takes its own state and the body of a request, and
    answers. \<open>http_answer\<close> lists what the client tells apart: no connection, a status other than 202, a body that is not
    the expected JSON, or a payload, which may be missing.
  \<^item> \<^verbatim>\<open>PostDeltas\<close> filters the deltas in the slice it was given, so the array of the caller changes;
    \<open>filterDeltas\<close> returns the result and that array.
  \<^item> \<open>AgentContext\<close> holds what the sender sees of the agent: its entity key, its identity and how often
    \<^verbatim>\<open>Reconnect\<close> was called.
  \<^item> Readings of the clock and the zone are in \<open>clocks\<close>: the start of \<^verbatim>\<open>Process\<close>, the reading of
    \<^verbatim>\<open>Time\<close>, and one for each block sent.
  \<^item> Compression, headers, the address of the service and logging are left out.
\<close>

section \<open>The ingest client\<close>

definition ResetAll :: string where "ResetAll = ''all''"

definition MaxSourceLen :: nat where "MaxSourceLen = 100"

record PostDeltaBody =
  pb_EntityID :: int
  pb_ExternalKeys :: "string list"
  pb_IsAgent :: bool
  pb_Deltas :: "RawDelta list"

record PostDeltaResponse =
  pr_StateMap :: "(string, DeltaState) gomap"
  pr_Reset :: string

datatype http_answer = NoConnection | NotAccepted int | BadBody | Accepted "PostDeltaResponse option"

datatype ingest_error = EmptyAgentID | Unreachable | IngestError int | BadResponse

definition rd_validate :: "RawDelta \<Rightarrow> bool" where
  "rd_validate d \<longleftrightarrow> length (rd_Source d) \<le> MaxSourceLen"

definition filterDeltas :: "RawDelta list \<Rightarrow> RawDelta list \<times> RawDelta list" where
  "filterDeltas deltas = (let result = filter rd_validate deltas in (result, result @ drop (length result) deltas))"

record IngestClient =
  ic_connectEnabled :: bool
  ic_agentID :: int

definition NewIngestClient :: "int \<Rightarrow> int \<Rightarrow> bool \<Rightarrow> IngestClient option" where
  "NewIngestClient compressionLevel agentID connectEnabled =
     (if compressionLevel < 0 \<or> 9 < compressionLevel then None
      else Some \<lparr>ic_connectEnabled = connectEnabled, ic_agentID = agentID\<rparr>)"

text \<open>\<^verbatim>\<open>Do\<close>: a client that connects refuses to send without an agent identifier.\<close>

definition client_Do :: "IngestClient \<Rightarrow> ('b \<Rightarrow> PostDeltaBody \<Rightarrow> 'b \<times> http_answer) \<Rightarrow> 'b \<Rightarrow> PostDeltaBody \<Rightarrow> 'b \<times> (ingest_error + http_answer)" where
  "client_Do ic post b body =
     (if ic_connectEnabled ic \<and> ic_agentID ic = EmptyID then (b, Inl EmptyAgentID)
      else case post b body of
             (b1, NoConnection) \<Rightarrow> (b1, Inl Unreachable)
           | (b1, a) \<Rightarrow> (b1, Inr a))"

definition PostDeltas ::
    "IngestClient \<Rightarrow> ('b \<Rightarrow> PostDeltaBody \<Rightarrow> 'b \<times> http_answer) \<Rightarrow> string list \<Rightarrow> int \<Rightarrow> bool \<Rightarrow> RawDelta list \<Rightarrow> 'b \<Rightarrow>
     'b \<times> RawDelta list \<times> (ingest_error + PostDeltaResponse option)" where
  "PostDeltas ic post entityKeys entityID isAgent deltas0 b =
     (case filterDeltas deltas0 of (deltas, arr) \<Rightarrow>
        let body = \<lparr>pb_EntityID = (if \<not> isAgent \<and> entityID \<noteq> EmptyID then entityID
                                  else if ic_connectEnabled ic \<and> isAgent then ic_agentID ic else EmptyID),
                    pb_ExternalKeys = entityKeys, pb_IsAgent = isAgent, pb_Deltas = deltas\<rparr>
        in case client_Do ic post b body of
             (b1, Inl e) \<Rightarrow> (b1, arr, Inl e)
           | (b1, Inr (NotAccepted status)) \<Rightarrow> (b1, arr, Inl (IngestError status))
           | (b1, Inr (Accepted payload)) \<Rightarrow> (b1, arr, Inr payload)
           | (b1, Inr _) \<Rightarrow> (b1, arr, Inl BadResponse))"

text \<open>
  Several entities in one request. The loop works on copies of the requests, so the identifier of the agent is not set; the
  filter writes into the array of each request, which keeps its length: invalid deltas give way to copies of valid ones.
\<close>

definition PostDeltasBulk ::
    "IngestClient \<Rightarrow> ('b \<Rightarrow> PostDeltaBody list \<Rightarrow> 'b \<times> (ingest_error + 'r)) \<Rightarrow> PostDeltaBody list \<Rightarrow> 'b \<Rightarrow> 'b \<times> PostDeltaBody list \<times> (ingest_error + 'r)" where
  "PostDeltasBulk ic post_bulk reqs b =
     (let sent = map (\<lambda>r. r\<lparr>pb_Deltas := snd (filterDeltas (pb_Deltas r))\<rparr>) reqs
      in if ic_connectEnabled ic \<and> ic_agentID ic = EmptyID then (b, sent, Inl EmptyAgentID)
         else case post_bulk b sent of (b1, r) \<Rightarrow> (b1, sent, r))"

section \<open>The sender\<close>

record AgentContext =
  ac_EntityKey :: string
  ac_agentID :: int
  ac_reconnects :: nat

definition Reconnect :: "AgentContext \<Rightarrow> AgentContext" where
  "Reconnect c = c\<lparr>ac_reconnects := Suc (ac_reconnects c)\<rparr>"

record patchSenderIngest =
  ps_Key :: string
  ps_ID :: int
  ps_client :: IngestClient
  ps_lastSubmission :: LastSubmissionFileStore
  ps_lastEntityID :: EntityIDFilePersist
  ps_compactEnabled :: bool
  ps_compactThreshold :: nat
  ps_OfflineLoggingMode :: bool
  ps_lastDeltaRemoval :: time
  ps_resetIfOffline :: duration

text \<open>
  The settings a sender is made from; \<open>sc_OfflineTimeToReset\<close> is the configured text, parsed as a duration. If it is not one,
  the default takes its place but the error is returned all the same, beside the sender.
\<close>

record SenderConfig =
  sc_ConnectEnabled :: bool
  sc_PayloadCompressionLevel :: int
  sc_CompactEnabled :: bool
  sc_CompactThreshold :: nat
  sc_OfflineLoggingMode :: bool
  sc_OfflineTimeToReset :: "duration option"

datatype sender_error = BadCompression | BadDuration

definition newPatchSender ::
    "SenderConfig \<Rightarrow> int \<Rightarrow> Entity \<Rightarrow> LastSubmissionFileStore \<Rightarrow> EntityIDFilePersist \<Rightarrow> patchSenderIngest option \<times> sender_error option" where
  "newPatchSender cfg agentID entityInfo lastSubmission lastEntityID =
     (case NewIngestClient (sc_PayloadCompressionLevel cfg) agentID (sc_ConnectEnabled cfg) of
        None \<Rightarrow> (None, Some BadCompression)
      | Some client \<Rightarrow>
          (Some \<lparr>ps_Key = en_Key entityInfo, ps_ID = en_ID entityInfo, ps_client = client, ps_lastSubmission = lastSubmission,
                 ps_lastEntityID = lastEntityID, ps_compactEnabled = sc_CompactEnabled cfg, ps_compactThreshold = sc_CompactThreshold cfg,
                 ps_OfflineLoggingMode = sc_OfflineLoggingMode cfg, ps_lastDeltaRemoval = 0,
                 ps_resetIfOffline = (case sc_OfflineTimeToReset cfg of Some t \<Rightarrow> t | None \<Rightarrow> 24 * 3600 * second)\<rparr>,
           if sc_OfflineTimeToReset cfg = None then Some BadDuration else None))"

text \<open>The sender of an entity of the agent, with its two files in the data directory.\<close>

definition newPatchSender_agent :: "SenderConfig \<Rightarrow> int \<Rightarrow> Store \<Rightarrow> Entity \<Rightarrow> patchSenderIngest option \<times> sender_error option" where
  "newPatchSender_agent cfg agentID s entity =
     (let fileName = EntityFolder s (en_Key entity) in
      newPatchSender cfg agentID entity (NewLastSubmissionStore (DataDir s) fileName) (NewEntityIDFilePersist (DataDir s) fileName))"

text \<open>What a sender works on: itself, the store it shares with the other senders, the agent and the service.\<close>

record 'b sending =
  sn_sender :: patchSenderIngest
  sn_store :: Store
  sn_ctx :: AgentContext
  sn_backend :: 'b

record clocks =
  ck_now :: time
  ck_time :: time
  ck_block :: "nat \<Rightarrow> time"
  ck_zone :: int

datatype process_error = ReadError store_error | RemoveCache | SendError ingest_error

definition set_disk :: "disk \<Rightarrow> 'b sending \<Rightarrow> 'b sending" where
  "set_disk d w = w\<lparr>sn_store := (sn_store w)\<lparr>st_disk := d\<rparr>\<rparr>"

text \<open>The key under which deltas are sent: an empty key belongs to the agent.\<close>

definition send_key :: "'b sending \<Rightarrow> string" where
  "send_key w = (if ps_Key (sn_sender w) = [] then ac_EntityKey (sn_ctx w) else ps_Key (sn_sender w))"

definition save_submission :: "clocks \<Rightarrow> nat \<Rightarrow> 'b sending \<Rightarrow> 'b sending" where
  "save_submission ck n w =
     (if ps_Key (sn_sender w) = [] then w
      else case UpdateTime (ck_zone ck) (st_disk (sn_store w)) (ck_block ck n) (ps_lastSubmission (sn_sender w)) of
             (d, l, _) \<Rightarrow> set_disk d (w\<lparr>sn_sender := (sn_sender w)\<lparr>ps_lastSubmission := l\<rparr>\<rparr>))"

text \<open>The loop over the blocks: the state, whether a reset was requested and the error that ended it. The answer is
  dereferenced, so a missing payload panics.\<close>

fun send_blocks ::
    "ext \<Rightarrow> ('b \<Rightarrow> PostDeltaBody \<Rightarrow> 'b \<times> http_answer) \<Rightarrow> clocks \<Rightarrow> nat \<Rightarrow> RawDelta list list \<Rightarrow> 'b sending \<Rightarrow> bool \<Rightarrow>
     ('b sending \<times> bool \<times> ingest_error option) outcome" where
  "send_blocks x post ck n [] w reset = Returns (w, reset, None)"
| "send_blocks x post ck n (deltas # rest) w reset =
     (case PostDeltas (ps_client (sn_sender w)) post [send_key w] (ps_ID (sn_sender w)) (send_key w = ac_EntityKey (sn_ctx w)) deltas (sn_backend w) of
        (b, _, Inl e) \<Rightarrow> Returns (w\<lparr>sn_backend := b\<rparr>, reset, Some e)
      | (b, arr, Inr payload) \<Rightarrow>
          let w1 = save_submission ck n (w\<lparr>sn_backend := b\<rparr>) in
          (case payload of
             None \<Rightarrow> Panics
           | Some r \<Rightarrow>
               if pr_Reset r = ResetAll then send_blocks x post ck (Suc n) rest w1 True
               else send_blocks x post ck (Suc n) rest
                      (w1\<lparr>sn_store := UpdateState x (send_key w) arr (Some (pr_StateMap r)) (sn_store w1)\<rparr>) reset))"

text \<open>The deferred function: a requested reset is carried out however the loop ends.\<close>

definition full_reset :: "'b sending \<Rightarrow> 'b sending" where
  "full_reset w =
     (let s1 = ResetAllDeltas (send_key w) (sn_store w);
          c1 = (if send_key w = ac_EntityKey (sn_ctx w) then Reconnect (sn_ctx w) else sn_ctx w)
      in w\<lparr>sn_store := fst (SaveState s1), sn_ctx := c1\<rparr>)"

definition sendAllDeltas ::
    "ext \<Rightarrow> ('b \<Rightarrow> PostDeltaBody \<Rightarrow> 'b \<times> http_answer) \<Rightarrow> clocks \<Rightarrow> RawDelta list list \<Rightarrow> 'b sending \<Rightarrow>
     ('b sending \<times> ingest_error option) outcome" where
  "sendAllDeltas x post ck allDeltas w =
     and_then (send_blocks x post ck 0 allDeltas w False)
       (\<lambda>(w1, reset, err). Returns (if reset then full_reset w1 else w1, err))"

definition isLastSubmissionTimeExceeded :: "clocks \<Rightarrow> 'b sending \<Rightarrow> 'b sending \<times> bool" where
  "isLastSubmissionTimeExceeded ck w =
     (if ps_Key (sn_sender w) = [] then (w, False)
      else case LastSubmission_Time (ck_zone ck) (ck_time ck) (st_disk (sn_store w)) (ps_lastSubmission (sn_sender w)) of
             (d, l, lastConn, _) \<Rightarrow>
               (set_disk d (w\<lparr>sn_sender := (sn_sender w)\<lparr>ps_lastSubmission := l\<rparr>\<rparr>),
                lastConn + ps_resetIfOffline (sn_sender w) < ck_now ck))"

definition update_entity_id :: "'b sending \<Rightarrow> 'b sending" where
  "update_entity_id w =
     (case UpdateEntityID (st_disk (sn_store w)) (ac_agentID (sn_ctx w)) (ps_lastEntityID (sn_sender w)) of
        (d, e, _) \<Rightarrow> set_disk d (w\<lparr>sn_sender := (sn_sender w)\<lparr>ps_lastEntityID := e\<rparr>\<rparr>))"

definition agentEntityIDChanged :: "'b sending \<Rightarrow> 'b sending \<times> bool" where
  "agentEntityIDChanged w =
     (case GetEntityID (st_disk (sn_store w)) (ps_lastEntityID (sn_sender w)) of
        (e, lastEntityID, _) \<Rightarrow>
          let w1 = w\<lparr>sn_sender := (sn_sender w)\<lparr>ps_lastEntityID := e\<rparr>\<rparr> in
          if lastEntityID = EmptyID then (update_entity_id w1, False)
          else (w1, lastEntityID \<noteq> ac_agentID (sn_ctx w)))"

text \<open>The inventory of the entity is removed, so that it is sent afresh.\<close>

definition remove_cache :: "clocks \<Rightarrow> bool \<Rightarrow> 'b sending \<Rightarrow> 'b sending" where
  "remove_cache ck changed w =
     (let key = ps_Key (sn_sender w);
          w1 = w\<lparr>sn_store := fst (RemoveEntity key (sn_store w)),
                 sn_ctx := (if ac_EntityKey (sn_ctx w) = key then Reconnect (sn_ctx w) else sn_ctx w),
                 sn_sender := (sn_sender w)\<lparr>ps_lastDeltaRemoval := ck_now ck\<rparr>\<rparr>
      in if changed then update_entity_id w1 else w1)"

definition compact :: "'b sending \<Rightarrow> 'b sending" where
  "compact w =
     (if IsArchiveEnabled (sn_store w) \<and> ps_compactEnabled (sn_sender w)
      then w\<lparr>sn_store := fst (CompactStorage (ps_Key (sn_sender w)) (ps_compactThreshold (sn_sender w)) (sn_store w))\<rparr> else w)"

definition Process ::
    "ext \<Rightarrow> ('b \<Rightarrow> PostDeltaBody \<Rightarrow> 'b \<times> http_answer) \<Rightarrow> clocks \<Rightarrow> 'b sending \<Rightarrow> ('b sending \<times> process_error option) outcome" where
  "Process x post ck w =
     (case ReadDeltas x (ps_Key (sn_sender w)) (sn_store w) of
        (s, Inl e) \<Rightarrow> Returns (w\<lparr>sn_store := s\<rparr>, Some (ReadError e))
      | (s, Inr deltas) \<Rightarrow>
          (case isLastSubmissionTimeExceeded ck (w\<lparr>sn_store := s\<rparr>) of (w1, exceeded) \<Rightarrow>
             let disconnected = (exceeded \<and> ps_lastDeltaRemoval (sn_sender w1) + ps_resetIfOffline (sn_sender w1) < ck_now ck) in
             case agentEntityIDChanged w1 of (w2, changed) \<Rightarrow>
               if disconnected \<or> changed then Returns (remove_cache ck changed w2, Some RemoveCache)
               else if deltas = [] then Returns (w2, None)
               else if ps_OfflineLoggingMode (sn_sender w2) then Returns (compact w2, None)
               else and_then (sendAllDeltas x post ck deltas w2)
                      (\<lambda>(w3, err). Returns (compact w3, map_option SendError err))))"

section \<open>What a delivery means\<close>

text \<open>A service that takes every request, asks for no reset and acknowledges what it got. It acknowledges a delta by leaving its source
  out of the answer, or by naming the identifier after it as the next to send. One hint cannot do the latter for two deltas of a source, so a
  service that always answers with hints is none of these: it may give a hint to a source that has one delta in the request, and to no other.\<close>

definition accepts :: "('b \<Rightarrow> PostDeltaBody \<Rightarrow> 'b \<times> http_answer) \<Rightarrow> bool" where
  "accepts post \<longleftrightarrow> (\<forall>b body. \<exists>b' r. post b body = (b', Accepted (Some r)) \<and> pr_Reset r \<noteq> ResetAll \<and>
     list_all (\<lambda>(k, h). in_int64 (LastStoredID h) \<and> in_int64 (SendNextID h)) (pr_StateMap r) \<and>
     (\<forall>d \<in> set (pb_Deltas body). settles (map_of (pr_StateMap r) (rd_Source d)) d))"

text \<open>A service together with the requests it got.\<close>

definition logged :: "('b \<Rightarrow> PostDeltaBody \<Rightarrow> 'b \<times> http_answer) \<Rightarrow> 'b \<times> PostDeltaBody list \<Rightarrow> PostDeltaBody \<Rightarrow> ('b \<times> PostDeltaBody list) \<times> http_answer" where
  "logged post b body = (case post (fst b) body of (b', a) \<Rightarrow> ((b', snd b @ [body]), a))"

text \<open>The state of a sender in normal operation: it submitted in time, and the agent is who it was.\<close>

definition steady :: "clocks \<Rightarrow> 'b sending \<Rightarrow> bool" where
  "steady ck w \<longleftrightarrow> ps_Key (sn_sender w) \<noteq> [] \<and> ls_t (ps_lastSubmission (sn_sender w)) \<noteq> 0 \<and>
     ck_now ck \<le> ls_t (ps_lastSubmission (sn_sender w)) + ps_resetIfOffline (sn_sender w) \<and>
     ep_lastEntityID (ps_lastEntityID (sn_sender w)) \<noteq> EmptyID \<and> ep_lastEntityID (ps_lastEntityID (sn_sender w)) = ac_agentID (sn_ctx w) \<and>
     ic_agentID (ps_client (sn_sender w)) \<noteq> EmptyID \<and> \<not> ps_OfflineLoggingMode (sn_sender w) \<and>
     (\<exists>name. plain name \<and> ls_file (ps_lastSubmission (sn_sender w)) = DataDir (sn_store w) @ [lastSuccessSubmissionFolder, name])"

text \<open>A journal whose deltas are new: numbered upwards from the last one sent, with a source the service takes.\<close>

definition fresh_journal :: "string \<Rightarrow> PluginInfo \<Rightarrow> RawDelta list \<Rightarrow> bool" where
  "fresh_journal key q ds \<longleftrightarrow> sorted_wrt (<) (snd (lastSentID q key) # map rd_ID ds) \<and>
     list_all (\<lambda>d. rd_Source d = pi_Source q \<and> rd_validate d) ds"

definition pending :: "ext \<Rightarrow> string \<Rightarrow> Store \<Rightarrow> PluginInfo \<Rightarrow> RawDelta list \<Rightarrow> bool" where
  "pending x key s r ds \<longleftrightarrow> (\<exists>q. same_slot q r \<and> tracked x key s q ds \<and> fresh_journal key q ds)"

text \<open>What stays the same while blocks are sent.\<close>

definition same_sending :: "'b sending \<Rightarrow> 'b sending \<Rightarrow> bool" where
  "same_sending w w' \<longleftrightarrow> (\<exists>m d l b. w' = w\<lparr>sn_store := (sn_store w)\<lparr>plugins := m, st_disk := d\<rparr>,
     sn_sender := (sn_sender w)\<lparr>ps_lastSubmission := l\<rparr>, sn_backend := b\<rparr> \<and> ls_file l = ls_file (ps_lastSubmission (sn_sender w)))"

text \<open>The journals of a store \<open>s\<close> whose deltas are new, after \<open>sent\<close> was sent: what is not above the last delta of
  the plugin in \<open>sent\<close> is gone.\<close>

definition fresh :: "string \<Rightarrow> PluginInfo \<Rightarrow> RawDelta list \<Rightarrow> bool" where
  "fresh key q sent \<longleftrightarrow> sorted_wrt (<) (snd (lastSentID q key) # map rd_ID (filter (\<lambda>d. rd_Source d = pi_Source q) sent))"

definition settled :: "ext \<Rightarrow> string \<Rightarrow> RawDelta list \<Rightarrow> Store \<Rightarrow> Store \<Rightarrow> bool" where
  "settled x key sent s s' \<longleftrightarrow> (\<forall>q ds. tracked x key s q ds \<longrightarrow> fresh key q sent \<longrightarrow> (\<forall>d \<in> set ds. snd (lastSentID q key) < rd_ID d) \<longrightarrow>
     (\<exists>q'. same_slot q' q \<and> snd (lastSentID q' key) = last (snd (lastSentID q key) # map rd_ID (filter (\<lambda>d. rd_Source d = pi_Source q) sent)) \<and>
        tracked x key s' q' (filter (\<lambda>d. snd (lastSentID q' key) < rd_ID d) ds)))"

text \<open>A change of the disk that touches nothing in or above the cache directory.\<close>

definition beside :: "path \<Rightarrow> disk \<Rightarrow> disk \<Rightarrow> bool" where
  "beside dir d d' \<longleftrightarrow> denied d' = denied d \<and> full d' = full d \<and>
     (\<forall>f. stat d' f \<noteq> stat d f \<longrightarrow> \<not> below f dir \<and> \<not> below dir f)"

text \<open>The sender of the example, one day after its last submission.\<close>

definition ex_service :: "unit \<Rightarrow> PostDeltaBody \<Rightarrow> unit \<times> http_answer" where
  "ex_service b body = (b, Accepted (Some \<lparr>pr_StateMap = [], pr_Reset = []\<rparr>))"

definition ex_clocks :: clocks where
  "ex_clocks = \<lparr>ck_now = 86401 * second, ck_time = 86401 * second, ck_block = (\<lambda>n. 86401 * second), ck_zone = 0\<rparr>"

definition ex_sending :: "RawDelta list \<Rightarrow> (unit \<times> PostDeltaBody list) sending" where
  "ex_sending ds =
     \<lparr>sn_sender = \<lparr>ps_Key = ex_key, ps_ID = EmptyID, ps_client = \<lparr>ic_connectEnabled = True, ic_agentID = 7\<rparr>,
        ps_lastSubmission = \<lparr>ls_file = [''d'', lastSuccessSubmissionFolder, ex_key], ls_t = second\<rparr>,
        ps_lastEntityID = \<lparr>ep_filePath = [''d'', ''id''], ep_lastEntityID = 7\<rparr>, ps_compactEnabled = True, ps_compactThreshold = 20,
        ps_OfflineLoggingMode = False, ps_lastDeltaRemoval = 0, ps_resetIfOffline = 86400 * second\<rparr>,
      sn_store = ex_store ''{}'' ds ''{}'', sn_ctx = \<lparr>ac_EntityKey = ex_key, ac_agentID = 7, ac_reconnects = 0\<rparr>, sn_backend = ((), [])\<rparr>"

section \<open>Files beside the cache\<close>

lemma below_cases: "below f (dir @ ns) \<Longrightarrow> below f dir \<or> below dir f"
  by (auto simp: below_def take_append) (metis append_take_drop_id nle_le take_all_iff take_append append_Nil2 diff_is_0_eq take0)

lemma tracked_beside:
  assumes tr: "tracked x key s p ds" and side: "beside (CacheDir s) (st_disk s) d'"
  shows "tracked x key (s\<lparr>st_disk := d'\<rparr>) p ds"
proof -
  have ok: "slot_ok s p key" using tr by (simp add: tracked_def slot_ready_def)
  have in_cache: "below (CacheDir s) f" if "f \<in> {cachedFilePath s p key, DeltaFilePath s p key, archiveFilePath s p key, cachedDirPath s p key}" for f
    using that by (rule_tac slot_paths [OF ok]) (auto simp: below_def)
  have "cachedDirPath s p key = CacheDir s @ [pi_Plugin p, EntityFolder s key]" by (rule slot_paths [OF ok])
  then have "below f (CacheDir s) \<or> below (CacheDir s) f" if "below f (cachedDirPath s p key)" for f
    using that below_cases by metis
  then have "tracked x key (s\<lparr>plugins := plugins s, st_disk := d'\<rparr>) p ds"
    using side in_cache by (intro tracked_frame [OF tr, where F = "{f. \<not> below f (CacheDir s) \<and> \<not> below (CacheDir s) f}"]) (auto simp: beside_def)
  then show ?thesis by simp
qed

lemma Mkdir_new: "stat (fst (MkdirAll d p)) f \<noteq> stat d f \<Longrightarrow> stat d f = None \<and> below f p"
proof -
  assume f: "stat (fst (MkdirAll d p)) f \<noteq> stat d f"
  then have none: "stat d f = None" using stat_Mkdir_old [of d f p] by blast
  then have "f \<in> set (map (\<lambda>i. take (Suc i) p) [0..<length p])"
    using f make_dirs_new [OF mkdir_prefixes [of p] none] by (auto simp: MkdirAll_def)
  then show ?thesis using none by (auto simp: below_def)
qed

lemma disk_ok_save:
  assumes "list_all plain p" "disk_ok d"
  shows "disk_ok (fst (save_file d p c))"
  using assms disk_ok_Mkdir [of "butlast p" d] disk_ok_Write [OF assms(1)] list_all_butlast [OF assms(1)]
  by (simp add: save_file_def Let_def split_beta)

lemma save_file_beside:
  assumes wf: "disk_wf d" and dir: "stat d (base @ [c]) = Some Dir" and names: "folder \<noteq> c"
  shows "beside (base @ [c]) d (fst (save_file d (base @ [folder, name]) t))"
proof -
  have base: "stat d base = Some Dir" using disk_wf_parent [OF wf, of "base @ [c]"] dir by simp
  have "f \<in> {base @ [folder, name], base @ [folder]}" if "stat (fst (save_file d (base @ [folder, name]) t)) f \<noteq> stat d f" for f
  proof (cases "f = base @ [folder, name]")
    case False
    then have "stat (fst (MkdirAll d (base @ [folder]))) f \<noteq> stat d f"
      using that by (auto simp: save_file_def Let_def split_beta stat_Write butlast_append split: if_splits)
    then have f: "stat d f = None" "below f (base @ [folder])" using Mkdir_new by blast+
    have "\<not> below f base" using f(1) ancestor_dir [OF wf base, of "length f"] by (auto simp: below_def)
    then have "f = base @ [folder]" using f(2) by (auto simp: below_def) (metis Suc_leI append_Nil2 append_eq_append_conv_if le_Suc_eq length_append_singleton take_all_iff take_append not_le diff_is_0_eq take0 nle_le)
    then show ?thesis by simp
  qed simp
  moreover have "\<not> below f (base @ [c]) \<and> \<not> below (base @ [c]) f" if "f \<in> {base @ [folder, name], base @ [folder]}" for f
    using that names by (auto simp: below_def)
  ultimately show ?thesis unfolding beside_def by (metis save_file_fields)
qed

lemma UpdateTime_cases:
  "\<exists>d err. UpdateTime off d0 t l = (d, l\<lparr>ls_t := t\<rparr>, err) \<and> (d = d0 \<or> (\<exists>c. d = fst (save_file d0 (ls_file l) c)))"
  by (auto simp: UpdateTime_def saveLastSuccessSubmission_def updateLastSuccessSubmission_def Let_def split_beta split: option.splits)

lemma save_submission_frame:
  assumes wf: "store_wf (sn_store w)" and cache: "stat (st_disk (sn_store w)) (CacheDir (sn_store w)) = Some Dir"
    and name: "plain name" "ls_file (ps_lastSubmission (sn_sender w)) = DataDir (sn_store w) @ [lastSuccessSubmissionFolder, name]"
  shows "\<exists>d l. save_submission ck n w = set_disk d (w\<lparr>sn_sender := (sn_sender w)\<lparr>ps_lastSubmission := l\<rparr>\<rparr>) \<and>
    ls_file l = ls_file (ps_lastSubmission (sn_sender w)) \<and> beside (CacheDir (sn_store w)) (st_disk (sn_store w)) d \<and>
    store_wf ((sn_store w)\<lparr>st_disk := d\<rparr>)"
proof -
  let ?s = "sn_store w" and ?l = "ps_lastSubmission (sn_sender w)"
  have disk: "disk_ok (st_disk ?s)" "disk_wf (st_disk ?s)" and dirs: "CacheDir ?s = DataDir ?s @ [CACHE_DIR]" "list_all plain (DataDir ?s)"
    using wf by (simp_all add: store_wf_def disk_ok_def)
  have "plain lastSuccessSubmissionFolder" "lastSuccessSubmissionFolder \<noteq> CACHE_DIR" by code_simp+
  then have path: "list_all plain (ls_file ?l)" and side: "beside (CacheDir ?s) (st_disk ?s) (fst (save_file (st_disk ?s) (ls_file ?l) c))" for c
    using name dirs save_file_beside [OF disk(2)] cache by simp_all
  have self: "beside (CacheDir ?s) (st_disk ?s) (st_disk ?s)" by (simp add: beside_def)
  have wf': "store_wf (?s\<lparr>st_disk := fst (save_file (st_disk ?s) (ls_file ?l) c)\<rparr>)" for c
    using wf disk_ok_save [OF path disk(1)] by (simp add: store_wf_def)
  show ?thesis
  proof (cases "ps_Key (sn_sender w) = []")
    case True
    then show ?thesis using wf self by (intro exI [of _ "st_disk ?s"] exI [of _ ?l]) (simp add: save_submission_def set_disk_def)
  next
    case False
    let ?t = "ck_block ck n"
    obtain d err where u: "UpdateTime (ck_zone ck) (st_disk ?s) ?t ?l = (d, ?l\<lparr>ls_t := ?t\<rparr>, err)"
      "d = st_disk ?s \<or> (\<exists>c. d = fst (save_file (st_disk ?s) (ls_file ?l) c))" using UpdateTime_cases by blast
    then have "save_submission ck n w = set_disk d (w\<lparr>sn_sender := (sn_sender w)\<lparr>ps_lastSubmission := ?l\<lparr>ls_t := ?t\<rparr>\<rparr>\<rparr>)"
      using False by (simp add: save_submission_def)
    moreover have "beside (CacheDir ?s) (st_disk ?s) d" "store_wf (?s\<lparr>st_disk := d\<rparr>)" using u(2) self side wf wf' by auto
    ultimately show ?thesis by (intro exI [of _ d] exI [of _ "?l\<lparr>ls_t := ?t\<rparr>"]) simp
  qed
qed

section \<open>Delivery\<close>

lemma filterDeltas_valid: "list_all rd_validate ds \<Longrightarrow> filterDeltas ds = (ds, ds)"
  by (simp add: filterDeltas_def Let_def list_all_iff)

text \<open>Identifiers that grow from the last one sent are acknowledged up to the last of them.\<close>

lemma acked_fresh:
  assumes "sorted_wrt (<) (last_sent # map rd_ID (filter (\<lambda>d. rd_Source d = source) ds))"
  shows "acked results source ds last_sent = last (last_sent # map rd_ID (filter (\<lambda>d. rd_Source d = source) ds))"
proof -
  have "fold (\<lambda>d. ack (hint_of results d) d) es l = last (l # map rd_ID es)" if "sorted_wrt (<) (l # map rd_ID es)" for es l
    using that
  proof (induction es arbitrary: l)
    case (Cons e es)
    have "ack (hint_of results e) e l = rd_ID e" using Cons.prems by (auto simp: ack_def split: option.splits)
    then show ?case using Cons by simp
  qed simp
  then show ?thesis using assms by (simp add: acked_def)
qed

lemma sorted_last_ge: "sorted_wrt (<) (l # xs) \<Longrightarrow> (x :: int) \<in> set (l # xs) \<Longrightarrow> x \<le> last (l # xs)"
proof (induction xs arbitrary: l)
  case (Cons y ys)
  then show ?case by (cases "x = l") (auto intro: order_trans [of l y])
qed simp

lemma only_data_fold:
  assumes "\<And>a s :: Store. \<exists>m d. f a s = s\<lparr>plugins := m, st_disk := d\<rparr>"
  shows "\<exists>m d. fold f as s = s\<lparr>plugins := m, st_disk := d\<rparr>"
proof (induction as arbitrary: s)
  case Nil
  show ?case by (intro exI [of _ "plugins s"] exI [of _ "st_disk s"]) simp
next
  case (Cons a as)
  obtain m d where "f a s = s\<lparr>plugins := m, st_disk := d\<rparr>" using assms by blast
  then show ?case using Cons.IH [of "f a s"] by auto
qed

lemma updateLastDeltaSent_frame: "\<exists>m d. updateLastDeltaSent key e hint s = s\<lparr>plugins := m, st_disk := d\<rparr>"
proof -
  have clear: "\<exists>d. clearPluginDeltaStore p key s = s\<lparr>st_disk := d\<rparr>" for p s
    by (simp add: clearPluginDeltaStore_def Let_def on_disk_def split_beta) blast
  have update: "\<exists>m. update_plugin source f s = s\<lparr>plugins := m\<rparr>" for source f s
    by (cases "map_of (plugins s) source") (simp add: update_plugin_def exI [of _ "plugins s"], auto simp: update_plugin_def)
  have both: "\<exists>m d. update_plugin source f (clearPluginDeltaStore p key s) = s\<lparr>plugins := m, st_disk := d\<rparr>"
    and one: "\<exists>m d. update_plugin source f s = s\<lparr>plugins := m, st_disk := d\<rparr>"
    and gone: "\<exists>m d. clearPluginDeltaStore p key s = s\<lparr>plugins := m, st_disk := d\<rparr>"
    and self: "\<exists>m d. s = s\<lparr>plugins := m, st_disk := d\<rparr>" for source f p s
  proof -
    obtain d where d: "clearPluginDeltaStore p key s = s\<lparr>st_disk := d\<rparr>" using clear by blast
    obtain m where m: "update_plugin source f (s\<lparr>st_disk := d\<rparr>) = s\<lparr>st_disk := d, plugins := m\<rparr>" using update by blast
    obtain m' where m': "update_plugin source f s = s\<lparr>plugins := m'\<rparr>" using update by blast
    show "\<exists>m d. update_plugin source f (clearPluginDeltaStore p key s) = s\<lparr>plugins := m, st_disk := d\<rparr>" unfolding d m by (intro exI [of _ m] exI [of _ d]) simp
    show "\<exists>m d. update_plugin source f s = s\<lparr>plugins := m, st_disk := d\<rparr>" unfolding m' by (intro exI [of _ m'] exI [of _ "st_disk s"]) simp
    show "\<exists>m d. clearPluginDeltaStore p key s = s\<lparr>plugins := m, st_disk := d\<rparr>" unfolding d by (intro exI [of _ "plugins s"] exI [of _ d]) simp
    show "\<exists>m d. s = s\<lparr>plugins := m, st_disk := d\<rparr>" by (intro exI [of _ "plugins s"] exI [of _ "st_disk s"]) simp
  qed
  have twice: "\<exists>m d. update_plugin source f (update_plugin source' g s) = s\<lparr>plugins := m, st_disk := d\<rparr>" for source f source' g s
  proof -
    obtain m' where m': "update_plugin source' g s = s\<lparr>plugins := m'\<rparr>" using update by blast
    then show ?thesis using one [of source f "s\<lparr>plugins := m'\<rparr>"] by auto
  qed
  show ?thesis
  proof (cases "map_of (plugins s) (rd_Source e)")
    case None
    then show ?thesis using self [of s] by (simp add: updateLastDeltaSent_def)
  next
    case (Some p)
    show ?thesis
    proof (cases hint)
      case None
      show ?thesis using one twice unfolding updateLastDeltaSent_def Let_def Some None option.case by (rule_tac [!] if_split [THEN iffD2]) blast
    next
      case hint: (Some h)
      show ?thesis unfolding updateLastDeltaSent_def reconciliateWithBackend_def Some hint option.case
        using both [of "rd_Source e"] one [of "rd_Source e"] gone [of p] by (cases "NeedsReset h"; cases "SendNextID h = to_int64 (rd_ID e + 1)";
          cases "SendNextID h = 0"; cases "SendNextID h = rd_ID e") simp_all
    qed
  qed
qed

lemma UpdateState_frame: "\<exists>m d. UpdateState x key ds results s = s\<lparr>plugins := m, st_disk := d\<rparr>"
proof -
  have archive: "\<exists>m d. archive_source x key source s = s\<lparr>plugins := m, st_disk := d\<rparr>" for source s
  proof (cases "map_of (plugins s) source")
    case None
    then show ?thesis by (intro exI [of _ "plugins s"] exI [of _ "st_disk s"]) (simp add: archive_source_def)
  next
    case (Some q)
    then show ?thesis using archivePlugin_frame [of x q key s] by (auto simp: archive_source_def)
  qed
  obtain m d where md: "fold (\<lambda>e. updateLastDeltaSent key e (case results of None \<Rightarrow> None | Some m \<Rightarrow> map_of m (rd_Source e))) ds s = s\<lparr>plugins := m, st_disk := d\<rparr>"
    using only_data_fold [of "\<lambda>e. updateLastDeltaSent key e (case results of None \<Rightarrow> None | Some m \<Rightarrow> map_of m (rd_Source e))" ds s,
        OF updateLastDeltaSent_frame] by blast
  show ?thesis
    using only_data_fold [of "archive_source x key" "replicate (length ds) [] @ map rd_Source ds" "s\<lparr>plugins := m, st_disk := d\<rparr>", OF archive]
    unfolding UpdateState_def Let_def md by auto
qed

text \<open>One block: the request carries the block, and the journal of \<open>q\<close> keeps what is not acknowledged.\<close>

lemma block_delivered:
  assumes acc: "accepts post" and client: "ic_agentID (ps_client (sn_sender w)) \<noteq> EmptyID" and key: "ps_Key (sn_sender w) = key" "key \<noteq> []"
    and wf: "store_wf (sn_store w)" and folder: "plain (EntityFolder (sn_store w) key)"
    and name: "plain name" "ls_file (ps_lastSubmission (sn_sender w)) = DataDir (sn_store w) @ [lastSuccessSubmissionFolder, name]"
    and cache: "stat (st_disk (sn_store w)) (CacheDir (sn_store w)) = Some Dir"
    and valid: "\<forall>d \<in> set block. rd_validate d \<and> in_int64 (rd_ID d)"
  shows "\<exists>w' body. (\<forall>rest reset. send_blocks x (logged post) ck n (block # rest) w reset = send_blocks x (logged post) ck (Suc n) rest w' reset) \<and>
    snd (sn_backend w') = snd (sn_backend w) @ [body] \<and> pb_Deltas body = block \<and> same_sending w w' \<and> store_wf (sn_store w') \<and>
    settled x key block (sn_store w) (sn_store w')"
proof -
  let ?s = "sn_store w"
  define body where "body = \<lparr>pb_EntityID = (if key \<noteq> ac_EntityKey (sn_ctx w) \<and> ps_ID (sn_sender w) \<noteq> EmptyID then ps_ID (sn_sender w)
      else if ic_connectEnabled (ps_client (sn_sender w)) \<and> key = ac_EntityKey (sn_ctx w) then ic_agentID (ps_client (sn_sender w)) else EmptyID),
    pb_ExternalKeys = [key], pb_IsAgent = (key = ac_EntityKey (sn_ctx w)), pb_Deltas = block\<rparr>"
  have deltas: "pb_Deltas body = block" by (simp add: body_def)
  obtain b' r where post: "post (fst (sn_backend w)) body = (b', Accepted (Some r))" "pr_Reset r \<noteq> ResetAll"
      "list_all (\<lambda>(k, h). in_int64 (LastStoredID h) \<and> in_int64 (SendNextID h)) (pr_StateMap r)"
      "\<forall>d \<in> set block. settles (map_of (pr_StateMap r) (rd_Source d)) d"
    using acc [unfolded accepts_def, THEN spec [of _ "fst (sn_backend w)"], THEN spec [of _ body]] deltas by auto
  define w0 where "w0 = w\<lparr>sn_backend := (b', snd (sn_backend w) @ [body])\<rparr>"
  have skey: "send_key w = key" using key by (simp add: send_key_def)
  have "filterDeltas block = (block, block)" using valid by (intro filterDeltas_valid) (simp add: list_all_iff)
  then have posted: "PostDeltas (ps_client (sn_sender w)) (logged post) [key] (ps_ID (sn_sender w)) (key = ac_EntityKey (sn_ctx w)) block (sn_backend w) =
      ((b', snd (sn_backend w) @ [body]), block, Inr (Some r))"
    using client post(1) by (simp add: PostDeltas_def client_Do_def logged_def Let_def body_def)
  obtain d l where save: "save_submission ck n w0 = set_disk d (w0\<lparr>sn_sender := (sn_sender w)\<lparr>ps_lastSubmission := l\<rparr>\<rparr>)"
      "ls_file l = ls_file (ps_lastSubmission (sn_sender w))" "beside (CacheDir ?s) (st_disk ?s) d" "store_wf (?s\<lparr>st_disk := d\<rparr>)"
    using save_submission_frame [of w0 name ck n] wf cache name by (auto simp: w0_def)
  let ?s1 = "?s\<lparr>st_disk := d\<rparr>"
  let ?u = "UpdateState x key block (Some (pr_StateMap r)) ?s1"
  define w' where "w' = (set_disk d (w0\<lparr>sn_sender := (sn_sender w)\<lparr>ps_lastSubmission := l\<rparr>\<rparr>))\<lparr>sn_store := ?u\<rparr>"
  have "send_blocks x (logged post) ck n (block # rest) w reset = send_blocks x (logged post) ck (Suc n) rest w' reset" for rest reset
    using post(2) posted save(1) by (simp add: skey w0_def [symmetric] w'_def set_disk_def) (simp add: w0_def)
  moreover have "snd (sn_backend w') = snd (sn_backend w) @ [body]" "sn_store w' = ?u" by (simp_all add: w'_def w0_def set_disk_def)
  moreover have "same_sending w w'"
  proof -
    obtain m e where "?u = ?s1\<lparr>plugins := m, st_disk := e\<rparr>" using UpdateState_frame by blast
    then show ?thesis unfolding same_sending_def w'_def w0_def set_disk_def using save(2)
      by (intro exI [of _ m] exI [of _ e] exI [of _ l] exI [of _ "(b', snd (sn_backend w) @ [body])"]) simp
  qed
  moreover have "store_wf ?u" using save(4) valid post(3) by (intro UpdateState_wf) (simp_all add: list_all_iff)
  moreover have "settled x key block ?s ?u"
    unfolding settled_def fresh_def
  proof (intro allI impI)
    fix q ds
    assume tr: "tracked x key ?s q ds" and sorted: "sorted_wrt (<) (snd (lastSentID q key) # map rd_ID (filter (\<lambda>d. rd_Source d = pi_Source q) block))"
      and new: "\<forall>d \<in> set ds. snd (lastSentID q key) < rd_ID d"
    have "\<forall>d \<in> set block. in_int64 (rd_ID d) \<and> settles (hint_of (Some (pr_StateMap r)) d) d" using valid post(4) by (simp add: hint_of_def)
    from UpdateState_tracked [OF tracked_beside [OF tr save(3)] _ _ this] obtain q' where q':
      "tracked x key ?u q' (if pi_Source q \<in> rd_Source ` set block then filter (\<lambda>d. acked (Some (pr_StateMap r)) (pi_Source q) block (snd (lastSentID q key)) < rd_ID d) ds else ds)"
      "same_slot q' q" "snd (lastSentID q' key) = acked (Some (pr_StateMap r)) (pi_Source q) block (snd (lastSentID q key))"
      using save(4) folder by (auto simp: store_wf_def)
    note ack = acked_fresh [OF sorted, of "Some (pr_StateMap r)"]
    have "filter (\<lambda>d. rd_Source d = pi_Source q) block = []" if "pi_Source q \<notin> rd_Source ` set block" 
      using that by (intro filter_False ballI notI) (metis image_eqI)
    then have "(if pi_Source q \<in> rd_Source ` set block then filter (\<lambda>d. acked (Some (pr_StateMap r)) (pi_Source q) block (snd (lastSentID q key)) < rd_ID d) ds else ds)
        = filter (\<lambda>d. snd (lastSentID q' key) < rd_ID d) ds"
      using q'(3) ack new by (auto simp: filter_id_conv)
    then show "\<exists>q'. same_slot q' q \<and> snd (lastSentID q' key) = last (snd (lastSentID q key) # map rd_ID (filter (\<lambda>d. rd_Source d = pi_Source q) block)) \<and>
        tracked x key ?u q' (filter (\<lambda>d. snd (lastSentID q' key) < rd_ID d) ds)" using q' ack by auto
  qed
  ultimately show ?thesis using deltas by (intro exI [of _ w'] exI [of _ body]) simp
qed

lemma same_sending_trans:
  assumes "same_sending w w'" "same_sending w' w''"
  shows "same_sending w w''"
proof -
  obtain m d l b where w': "w' = w\<lparr>sn_store := (sn_store w)\<lparr>plugins := m, st_disk := d\<rparr>,
     sn_sender := (sn_sender w)\<lparr>ps_lastSubmission := l\<rparr>, sn_backend := b\<rparr>" "ls_file l = ls_file (ps_lastSubmission (sn_sender w))"
    using assms(1) by (auto simp: same_sending_def)
  obtain m' d' l' b' where w'': "w'' = w'\<lparr>sn_store := (sn_store w')\<lparr>plugins := m', st_disk := d'\<rparr>,
     sn_sender := (sn_sender w')\<lparr>ps_lastSubmission := l'\<rparr>, sn_backend := b'\<rparr>" "ls_file l' = ls_file (ps_lastSubmission (sn_sender w'))"
    using assms(2) unfolding same_sending_def by blast
  show ?thesis unfolding same_sending_def using w' w''
    by (intro exI [of _ m'] exI [of _ d'] exI [of _ l'] exI [of _ b']) simp
qed

lemma same_sending_refl: "same_sending w w"
  unfolding same_sending_def
  by (intro exI [of _ "plugins (sn_store w)"] exI [of _ "st_disk (sn_store w)"] exI [of _ "ps_lastSubmission (sn_sender w)"] exI [of _ "sn_backend w"]) simp

lemma same_sending_fields:
  assumes "same_sending w w'"
  shows "ps_client (sn_sender w') = ps_client (sn_sender w)" "ps_Key (sn_sender w') = ps_Key (sn_sender w)" "CacheDir (sn_store w') = CacheDir (sn_store w)"
    "DataDir (sn_store w') = DataDir (sn_store w)" "EntityFolder (sn_store w') = EntityFolder (sn_store w)"
    "ls_file (ps_lastSubmission (sn_sender w')) = ls_file (ps_lastSubmission (sn_sender w))"
  using assms by (auto simp: same_sending_def EntityFolder_def fun_eq_iff)

lemma sorted_split:
  assumes "sorted_wrt (<) (l # map f (xs @ ys))"
  shows "sorted_wrt (<) (l # map f xs)" "sorted_wrt (<) (last (l # map f xs) # map f ys)"
  using assms by (cases xs rule: rev_cases; simp add: sorted_wrt_append)+

lemma fresh_append:
  assumes "fresh key q (xs @ ys)"
  shows "fresh key q xs"
    and "same_slot q' q \<Longrightarrow> snd (lastSentID q' key) = last (snd (lastSentID q key) # map rd_ID (filter (\<lambda>d. rd_Source d = pi_Source q) xs)) \<Longrightarrow> fresh key q' ys"
  using sorted_split [of "snd (lastSentID q key)" rd_ID "filter (\<lambda>d. rd_Source d = pi_Source q) xs" "filter (\<lambda>d. rd_Source d = pi_Source q) ys"] assms
  unfolding fresh_def same_slot_def filter_append by simp_all

lemma settled_append:
  assumes one: "settled x key xs s s1" and two: "settled x key ys s1 s2"
  shows "settled x key (xs @ ys) s s2"
  unfolding settled_def
proof (intro allI impI)
  fix q ds
  assume tr: "tracked x key s q ds" and fresh: "fresh key q (xs @ ys)" and new: "\<forall>d \<in> set ds. snd (lastSentID q key) < rd_ID d"
  let ?f = "\<lambda>zs. map rd_ID (filter (\<lambda>d. rd_Source d = pi_Source q) zs)"
  obtain q1 where q1: "same_slot q1 q" "snd (lastSentID q1 key) = last (snd (lastSentID q key) # ?f xs)"
      "tracked x key s1 q1 (filter (\<lambda>d. snd (lastSentID q1 key) < rd_ID d) ds)"
    using one [unfolded settled_def, THEN spec [of _ q], THEN spec [of _ ds]] tr new fresh_append(1) [OF fresh] by auto
  note fresh1 = fresh_append(2) [OF fresh q1(1,2)]
  have src: "pi_Source q1 = pi_Source q" using q1(1) by (simp add: same_slot_def)
  obtain q2 where q2: "same_slot q2 q1" "snd (lastSentID q2 key) = last (snd (lastSentID q1 key) # ?f ys)"
      "tracked x key s2 q2 (filter (\<lambda>d. snd (lastSentID q2 key) < rd_ID d) (filter (\<lambda>d. snd (lastSentID q1 key) < rd_ID d) ds))"
    using two [unfolded settled_def, THEN spec [of _ q1], THEN spec [of _ "filter (\<lambda>d. snd (lastSentID q1 key) < rd_ID d) ds"]] q1(3) fresh1 src by auto
  have "snd (lastSentID q1 key) \<le> snd (lastSentID q2 key)"
    unfolding q2(2) using fresh1 [unfolded fresh_def src] by (rule sorted_last_ge) simp
  then have "filter (\<lambda>d. snd (lastSentID q2 key) < rd_ID d) (filter (\<lambda>d. snd (lastSentID q1 key) < rd_ID d) ds) = filter (\<lambda>d. snd (lastSentID q2 key) < rd_ID d) ds"
    by (auto intro: filter_cong)
  then show "\<exists>q'. same_slot q' q \<and> snd (lastSentID q' key) = last (snd (lastSentID q key) # ?f (xs @ ys)) \<and>
      tracked x key s2 q' (filter (\<lambda>d. snd (lastSentID q' key) < rd_ID d) ds)"
    using q1(1,2) q2 by (intro exI [of _ q2]) (simp add: same_slot_def)
qed

text \<open>All blocks: the requests carry them in order. A journal of the entity tells that the cache directory is there.\<close>

lemma tracked_cache:
  assumes "tracked x key s q ds" "store_wf s"
  shows "stat (st_disk s) (CacheDir s) = Some Dir"
proof -
  have slot: "slot_ok s q key" and dir: "stat (st_disk s) (cachedDirPath s q key) = Some Dir" using assms(1) unfolding tracked_def slot_ready_def by blast+
  have wf: "disk_wf (st_disk s)" using assms(2) unfolding store_wf_def disk_ok_def by blast
  have path: "cachedDirPath s q key = CacheDir s @ [pi_Plugin q, EntityFolder s key]" by (rule slot_paths [OF slot])
  show ?thesis using ancestor_dir [OF wf dir, of "length (CacheDir s)"] unfolding path by simp
qed

lemma blocks_delivered:
  assumes "accepts post" "key \<noteq> []" "plain name"
    and "ic_agentID (ps_client (sn_sender w)) \<noteq> EmptyID" "ps_Key (sn_sender w) = key" "store_wf (sn_store w)"
      "plain (EntityFolder (sn_store w) key)" "ls_file (ps_lastSubmission (sn_sender w)) = DataDir (sn_store w) @ [lastSuccessSubmissionFolder, name]"
    and "\<forall>d \<in> set (concat blocks). rd_validate d \<and> in_int64 (rd_ID d)"
    and "tracked x key (sn_store w) q ds" "fresh key q (concat blocks)" "\<forall>d \<in> set ds. snd (lastSentID q key) < rd_ID d"
  shows "\<exists>w' bodies. send_blocks x (logged post) ck n blocks w reset = Returns (w', reset, None) \<and>
    snd (sn_backend w') = snd (sn_backend w) @ bodies \<and> map pb_Deltas bodies = blocks \<and> same_sending w w' \<and> store_wf (sn_store w') \<and>
    settled x key (concat blocks) (sn_store w) (sn_store w')"
  using assms(4-)
proof (induction blocks arbitrary: w n q ds)
  case Nil
  have "settled x key [] (sn_store w) (sn_store w)"
    unfolding settled_def by (auto simp: same_slot_def filter_id_conv [THEN iffD2])
  then show ?case using Nil same_sending_refl by (intro exI [of _ w] exI [of _ "[]"]) simp
next
  case (Cons block blocks)
  have cache: "stat (st_disk (sn_store w)) (CacheDir (sn_store w)) = Some Dir" using tracked_cache [OF Cons.prems(7,3)] .
  obtain w1 body where w1: "\<forall>rest reset. send_blocks x (logged post) ck n (block # rest) w reset = send_blocks x (logged post) ck (Suc n) rest w1 reset"
      "snd (sn_backend w1) = snd (sn_backend w) @ [body]" "pb_Deltas body = block" "same_sending w w1" "store_wf (sn_store w1)"
      "settled x key block (sn_store w) (sn_store w1)"
    using block_delivered [OF assms(1) Cons.prems(1,2) assms(2) Cons.prems(3,4) assms(3) Cons.prems(5) cache, of block x ck n] Cons.prems(6) by auto
  note same = same_sending_fields [OF w1(4)]
  have fresh: "fresh key q (block @ concat blocks)" using Cons.prems(8) by simp
  obtain q1 where q1: "same_slot q1 q" "snd (lastSentID q1 key) = last (snd (lastSentID q key) # map rd_ID (filter (\<lambda>d. rd_Source d = pi_Source q) block))"
      "tracked x key (sn_store w1) q1 (filter (\<lambda>d. snd (lastSentID q1 key) < rd_ID d) ds)"
    using w1(6) [unfolded settled_def, THEN spec [of _ q], THEN spec [of _ ds]] Cons.prems(7,9) fresh_append(1) [OF fresh] by auto
  have prems: "ic_agentID (ps_client (sn_sender w1)) \<noteq> EmptyID" "ps_Key (sn_sender w1) = key" "plain (EntityFolder (sn_store w1) key)"
      "ls_file (ps_lastSubmission (sn_sender w1)) = DataDir (sn_store w1) @ [lastSuccessSubmissionFolder, name]"
    unfolding same using Cons.prems(1,2,4,5) by simp_all
  have valid: "\<forall>d \<in> set (concat blocks). rd_validate d \<and> in_int64 (rd_ID d)" using Cons.prems(6) by simp
  obtain w' bodies where w': "send_blocks x (logged post) ck (Suc n) blocks w1 reset = Returns (w', reset, None)"
      "snd (sn_backend w') = snd (sn_backend w1) @ bodies" "map pb_Deltas bodies = blocks" "same_sending w1 w'" "store_wf (sn_store w')"
      "settled x key (concat blocks) (sn_store w1) (sn_store w')"
    using Cons.IH [OF prems(1,2) w1(5) prems(3,4) valid q1(3) fresh_append(2) [OF fresh q1(1,2)], of "Suc n"] by auto
  show ?case using w1(1-3) w'(1-3,5) same_sending_trans [OF w1(4) w'(4)] settled_append [OF w1(6) w'(6)]
    by (intro exI [of _ w'] exI [of _ "body # bodies"]) simp
qed

section \<open>Compaction\<close>

text \<open>Compaction writes the file of the identifiers and removes others: an empty journal stays empty.\<close>

lemma fold_inv: "(\<And>a s. I s \<Longrightarrow> I (f a s)) \<Longrightarrow> I s \<Longrightarrow> I (fold f as s)"
  by (induction as arbitrary: s) auto

lemma Remove_content: "file_content d f = [] \<Longrightarrow> file_content (fst (os_Remove d q)) f = []"
  by (simp add: file_content_def stat_Remove)

lemma compact_content:
  assumes "file_content (st_disk s) f = []"
  shows "file_content (st_disk (compactCacheStorage key s)) f = [] \<and> CacheDir (compactCacheStorage key s) = CacheDir s"
proof -
  define I where "I t \<longleftrightarrow> file_content (st_disk t) f = [] \<and> CacheDir t = CacheDir s" for t :: Store
  have remove: "I (remove_plugin key p t)" if "I t" for p t
    using that by (simp add: I_def remove_plugin_def clearPluginDeltaStore_def on_disk_def Let_def split_beta Remove_content)
  have archive: "I (fst (on_disk (\<lambda>d. os_Remove d (archiveFilePath t p key)) t))" if "I t" for p t
    using that by (simp add: I_def on_disk_def split_beta Remove_content)
  have "I (fold (\<lambda>(k, p). remove_plugin key p) ps s)" for ps :: "(string, PluginInfo) gomap"
    using assms by (intro fold_inv [where I = I]) (auto simp: remove split_beta, simp add: I_def)
  then have "I (fold (\<lambda>p st. fst (on_disk (\<lambda>d. os_Remove d (archiveFilePath st p key)) st)) qs (fold (\<lambda>(k, p). remove_plugin key p) ps s))"
    for qs and ps :: "(string, PluginInfo) gomap" by (rule_tac fold_inv [where I = I]) (blast intro: archive)+
  moreover have "I s" using assms by (simp add: I_def)
  ultimately have "I (compactCacheStorage key s)" by (simp add: compactCacheStorage_def Let_def split: option.split)
  then show ?thesis by (simp add: I_def)
qed

lemma CompactStorage_content:
  assumes "file_content (st_disk s) f = []" "length (CacheDir s) + 2 \<le> length f"
  shows "file_content (st_disk (fst (CompactStorage key threshold s))) f = []"
proof -
  have "length (fp_join (CacheDir s) [CACHE_ID_FILE]) = Suc (length (CacheDir s))" by (simp add: fp_join_plain CACHE_ID_FILE_def plain_def)
  then have ne: "f \<noteq> fp_join (CacheDir s) [CACHE_ID_FILE]" using assms(2) by auto
  have "file_content (st_disk (fst (SaveState t))) f = []" if "file_content (st_disk t) f = []" "CacheDir t = CacheDir s" for t
    using that ne by (simp add: SaveState_def writePluginIDMap_def on_disk_def split_beta file_content_def stat_Write)
  then show ?thesis using assms(1) compact_content [OF assms(1), of key] by (simp add: CompactStorage_def Let_def split: option.split)
qed

section \<open>The plugins of an entity\<close>

lemma distinct_concat_map:
  assumes "distinct ns" "\<And>n. n \<in> set ns \<Longrightarrow> distinct (g n)" "\<And>n m. n \<in> set ns \<Longrightarrow> m \<in> set ns \<Longrightarrow> n \<noteq> m \<Longrightarrow> set (g n) \<inter> set (g m) = {}"
  shows "distinct (concat (map g ns))"
  using assms
proof (induction ns)
  case (Cons n ns)
  have "set (g n) \<inter> (\<Union>m \<in> set ns. set (g m)) = {}" using Cons.prems by fastforce
  then show ?case using Cons by simp
qed simp

lemma reaped_sources:
  assumes wf: "gm_wf (entries (st_disk s))" and names: "names_ok s key"
  shows "distinct (map pi_Source (reaped s dir key))"
proof -
  have child: "plain n" if "n \<in> set (children (st_disk s) q)" for n q
  proof -
    have "n \<in> last ` {c \<in> fst ` set (entries (st_disk s)). c \<noteq> [] \<and> butlast c = q}" using that by (simp add: children_def)
    then obtain c where c: "c \<in> fst ` set (entries (st_disk s))" "c \<noteq> []" "last c = n" by blast
    then have "list_all plain c" using names unfolding names_ok_def by blast
    then show ?thesis using c(2,3) last_in_set unfolding list_all_iff by blast
  qed
  define group where "group n = (let folder = dir @ [n, EntityFolder s key] in
      if stat (st_disk s) folder = Some Dir \<and> \<not> denied (st_disk s) folder
      then map (newPluginInfo n) (filter (\<lambda>f. has_suffix f ''.json'') (children (st_disk s) folder)) else [])" for n
  define ns where "ns = filter (\<lambda>n. is_dir s (dir @ [n]) \<and> \<not> nonEntityFolders n) (children (st_disk s) dir)"
  have inj: "inj_on (\<lambda>f. pi_Source (newPluginInfo n f)) {f. has_suffix f ''.json''}" for n
  proof (rule inj_onI)
    fix f g assume "f \<in> {f. has_suffix f ''.json''}" "g \<in> {f. has_suffix f ''.json''}" and eq: "pi_Source (newPluginInfo n f) = pi_Source (newPluginInfo n g)"
    then obtain a b where "f = a @ ''.json''" "g = b @ ''.json''" by (metis append_take_drop_id has_suffix_def mem_Collect_eq)
    then show "f = g" using eq by (simp add: newPluginInfo_def ext_json trim_json)
  qed
  have "distinct (map (\<lambda>f. pi_Source (newPluginInfo n f)) (filter (\<lambda>f. has_suffix f ''.json'') (children (st_disk s) folder)))" for n folder
    unfolding distinct_map using children_distinct [OF wf] inj_on_subset [OF inj] by (simp add: Collect_mono_iff subset_eq)
  then have one: "distinct (map pi_Source (group n))" for n by (simp add: group_def Let_def comp_def)
  have "takeWhile (\<lambda>c. c \<noteq> CHR ''/'') (n @ CHR ''/'' # u) = n" if "plain n" for n u using that by (subst takeWhile_append2) (auto simp: plain_def)
  then have apart: "n = m" if "plain n" "plain m" "n @ CHR ''/'' # u = m @ CHR ''/'' # v" for n m u v using that by metis
  have src: "\<exists>u. a = n @ CHR ''/'' # u" if "a \<in> set (map pi_Source (group n))" for a n
    using that by (auto simp: group_def Let_def newPluginInfo_def split: if_splits)
  have "distinct (concat (map (\<lambda>n. map pi_Source (group n)) ns))"
  proof (rule distinct_concat_map)
    show "distinct ns" using children_distinct [OF wf] by (simp add: ns_def)
    show "set (map pi_Source (group n)) \<inter> set (map pi_Source (group m)) = {}" if nm: "n \<in> set ns" "m \<in> set ns" "n \<noteq> m" for n m
    proof (rule ccontr)
      assume "set (map pi_Source (group n)) \<inter> set (map pi_Source (group m)) \<noteq> {}"
      then obtain u v where "n @ CHR ''/'' # u = m @ CHR ''/'' # v" using src by blast
      moreover have "plain n" "plain m" using nm child by (simp_all add: ns_def) blast+
      ultimately show False using apart nm(3) by blast
    qed
  qed (rule one)
  then show ?thesis unfolding reaped_def ns_def [symmetric] group_def [symmetric] by (simp add: map_concat comp_def)
qed

lemma filter_journals:
  assumes "distinct (map pi_Source rs)" "r \<in> set rs" "\<And>q d. q \<in> set rs \<Longrightarrow> d \<in> set (J q) \<Longrightarrow> rd_Source d = pi_Source q"
  shows "filter (\<lambda>d. rd_Source d = pi_Source r) (concat (map J rs)) = J r"
  using assms
proof (induction rs)
  case (Cons q rs)
  have own: "filter (\<lambda>d. rd_Source d = pi_Source q) (J q) = J q" using Cons.prems(3) by (auto intro: filter_True)
  have none: "filter (\<lambda>d. rd_Source d = pi_Source a) (concat (map J bs)) = []"
    if "\<forall>b \<in> set bs. pi_Source b \<noteq> pi_Source a \<and> (\<forall>d \<in> set (J b). rd_Source d = pi_Source b)" for a bs using that by (auto simp: filter_empty_conv)
  show ?case
  proof (cases "r = q")
    case True
    have "\<forall>b \<in> set rs. pi_Source b \<noteq> pi_Source q \<and> (\<forall>d \<in> set (J b). rd_Source d = pi_Source b)"
      using Cons.prems(1,3) by (auto simp: image_iff)
    then show ?thesis using True own none by simp
  next
    case False
    then have r: "r \<in> set rs" "pi_Source q \<noteq> pi_Source r" using Cons.prems(1,2) by (auto simp: image_iff)
    then have "filter (\<lambda>d. rd_Source d = pi_Source r) (J q) = []" using none [of "[q]" r] Cons.prems(3) by auto
    then show ?thesis using Cons.IH Cons.prems r by auto
  qed
qed simp

lemma pending_reads:
  assumes "pending x key s r ds"
  shows "reads x s key r ds"
proof -
  obtain q where q: "same_slot q r" "tracked x key s q ds" using assms by (auto simp: pending_def)
  then have "stat (st_disk s) (DeltaFilePath s r key) = Some (File (journal_text ds))" "\<not> denied (st_disk s) (DeltaFilePath s r key)" "list_all (rd_ok x) ds"
    by (simp_all add: tracked_def slot_ready_def file_ready_def same_slot_paths [OF q(1)])
  then show ?thesis by (simp add: reads_def readIndividualPluginDeltas_def read_file_def)
qed

text \<open>In normal operation neither of the two checks before sending does anything.\<close>

lemma steady_checks:
  assumes "steady ck w"
  shows "isLastSubmissionTimeExceeded ck w = (w, False)" "agentEntityIDChanged w = (w, False)"
  using assms by (simp_all add: steady_def isLastSubmissionTimeExceeded_def LastSubmission_Time_def agentEntityIDChanged_def GetEntityID_def set_disk_def Let_def)

lemma settled_empty:
  assumes settled: "settled x key sent s s'" and pend: "pending x key s r ds" and mine: "filter (\<lambda>d. rd_Source d = pi_Source r) sent = ds"
    and dirs: "CacheDir s' = CacheDir s" "EntityFolder s' = EntityFolder s"
  shows "file_content (st_disk s') (DeltaFilePath s r key) = []"
proof -
  obtain q where q: "same_slot q r" "tracked x key s q ds" "fresh_journal key q ds" using pend by (auto simp: pending_def)
  have src: "pi_Source q = pi_Source r" using q(1) by (simp add: same_slot_def)
  have sorted: "sorted_wrt (<) (snd (lastSentID q key) # map rd_ID ds)" using q(3) by (simp add: fresh_journal_def)
  obtain q' where q': "same_slot q' q" "snd (lastSentID q' key) = last (snd (lastSentID q key) # map rd_ID ds)"
      "tracked x key s' q' (filter (\<lambda>d. snd (lastSentID q' key) < rd_ID d) ds)"
    using settled [unfolded settled_def, THEN spec [of _ q], THEN spec [of _ ds]] q(2) sorted by (auto simp: fresh_def src mine)
  have "rd_ID d \<le> snd (lastSentID q' key)" if "d \<in> set ds" for d
    unfolding q'(2) using sorted by (rule sorted_last_ge) (use that in simp)
  then have "filter (\<lambda>d. snd (lastSentID q' key) < rd_ID d) ds = []" by (auto simp: filter_empty_conv not_less)
  then have "stat (st_disk s') (DeltaFilePath s' q' key) = Some (File [])" using q'(3) by (simp add: tracked_def journal_text_def)
  moreover have "DeltaFilePath s' q' = DeltaFilePath s r"
    using same_slot_paths(4) [OF same_slot_trans [OF q'(1) q(1)]] dirs by (simp add: DeltaFilePath_def cachedFilePath_def fun_eq_iff)
  ultimately show ?thesis by (simp add: file_content_def)
qed

lemma process_sends:
  assumes "steady ck w" "key = ps_Key (sn_sender w)" "ReadDeltas x key (sn_store w) = (sn_store w, Inr blocks)" "blocks \<noteq> []"
    and "send_blocks x post ck 0 blocks w False = Returns (w', False, None)"
  shows "Process x post ck w = Returns (compact w', None)"
  using assms steady_checks [OF assms(1)]
  by (simp add: Process_def sendAllDeltas_def Let_def steady_def)

lemma compact_empty:
  assumes "file_content (st_disk (sn_store w)) f = []" "length (CacheDir (sn_store w)) + 2 \<le> length f"
  shows "file_content (st_disk (sn_store (compact w))) f = []" "sn_backend (compact w) = sn_backend w"
  using assms CompactStorage_content by (simp_all add: compact_def)

lemma pending_delivered:
  assumes service: "accepts post" "sn_backend w = (b, [])" and steady: "steady ck w" and wf: "store_wf (sn_store w)"
    and key: "key = ps_Key (sn_sender w)" "names_ok (sn_store w) key"
    and cache: "\<not> denied (st_disk (sn_store w)) (CacheDir (sn_store w))"
    and plugins: "reaped (sn_store w) (CacheDir (sn_store w)) key = rs" "rs \<noteq> []" "\<forall>r \<in> set rs. pending x key (sn_store w) r (J r)"
  shows "\<exists>w' b' bodies. Process x (logged post) ck w = Returns (w', None) \<and> sn_backend w' = (b', bodies) \<and>
    concat (map pb_Deltas bodies) = concat (map J rs) \<and>
    (\<forall>r \<in> set rs. file_content (st_disk (sn_store w')) (DeltaFilePath (sn_store w) r key) = [])"
proof -
  let ?s = "sn_store w"
  obtain name where name: "plain name" "ls_file (ps_lastSubmission (sn_sender w)) = DataDir ?s @ [lastSuccessSubmissionFolder, name]"
    and client: "ic_agentID (ps_client (sn_sender w)) \<noteq> EmptyID" and nonempty: "key \<noteq> []" using steady key by (auto simp: steady_def)
  have folder: "plain (EntityFolder ?s key)" using key(2) by (simp add: names_ok_def)
  have distinct: "distinct (map pi_Source rs)"
    using reaped_sources [OF _ key(2), of "CacheDir ?s"] wf plugins(1) by (simp add: store_wf_def disk_ok_def disk_wf_def)
  have J: "rd_Source d = pi_Source r" "rd_validate d" "in_int64 (rd_ID d)" if "r \<in> set rs" "d \<in> set (J r)" for r d
    using plugins(3) that by (force simp: pending_def fresh_journal_def same_slot_def list_all_iff tracked_def rd_ok_def)+
  have mine: "filter (\<lambda>d. rd_Source d = pi_Source r) (concat (map J rs)) = J r" if "r \<in> set rs" for r
    by (rule filter_journals [OF distinct that J(1)])
  obtain r where r: "r \<in> set rs" using plugins(2) by (cases rs) auto
  obtain q where q: "same_slot q r" "tracked x key ?s q (J r)" "fresh_journal key q (J r)" using plugins(3) r by (auto simp: pending_def)
  obtain blocks where blocks: "ReadDeltas x key ?s = (?s, Inr blocks)" "concat blocks = concat (map J rs)"
    using ReadDeltas_pending [OF key(2) tracked_cache [OF q(2) wf] cache, of x J] plugins pending_reads by auto
  show ?thesis
  proof (cases "blocks = []")
    case True
    have "Process x (logged post) ck w = Returns (w, None)" using True blocks(1) steady_checks [OF steady] key(1) by (simp add: Process_def Let_def)
    moreover have "J r = []" if "r \<in> set rs" for r using True blocks(2) that by simp
    then have "file_content (st_disk ?s) (DeltaFilePath ?s r key) = []" if "r \<in> set rs" for r
      using plugins(3) that by (force simp: pending_def tracked_def same_slot_paths file_content_def journal_text_def)
    ultimately show ?thesis using True blocks(2) service(2) by (intro exI [of _ w]) simp
  next
    case False
    have sorted: "sorted_wrt (<) (snd (lastSentID q key) # map rd_ID (J r))" and src: "pi_Source q = pi_Source r"
      using q by (simp_all add: fresh_journal_def same_slot_def)
    have fresh: "fresh key q (concat blocks)" using sorted unfolding fresh_def blocks(2) src mine [OF r] .
    have valid: "\<forall>d \<in> set (concat blocks). rd_validate d \<and> in_int64 (rd_ID d)" unfolding blocks(2) using J by auto
    have new: "\<forall>d \<in> set (J r). snd (lastSentID q key) < rd_ID d" using sorted by simp
    obtain w' bodies where w': "send_blocks x (logged post) ck 0 blocks w False = Returns (w', False, None)"
        "snd (sn_backend w') = bodies" "map pb_Deltas bodies = blocks" "same_sending w w'" "settled x key (concat blocks) ?s (sn_store w')"
      using blocks_delivered [OF service(1) nonempty name(1) client key(1) [symmetric] wf folder name(2) valid q(2) fresh new, where ck = ck and n = 0 and reset = False] service(2) by auto
    note same = same_sending_fields [OF w'(4)]
    have "file_content (st_disk (sn_store w')) (DeltaFilePath ?s r key) = []" "length (CacheDir (sn_store w')) + 2 \<le> length (DeltaFilePath ?s r key)" if mem: "r \<in> set rs" for r
    proof -
      show "file_content (st_disk (sn_store w')) (DeltaFilePath ?s r key) = []"
        using plugins(3) mem mine by (intro settled_empty [OF w'(5) _ _ same(3,5)]) (auto simp: blocks(2))
      obtain p where "same_slot p r" "tracked x key ?s p (J r)" using plugins(3) mem by (auto simp: pending_def)
      then have "slot_ok ?s r key" using same_slot_paths(6) by (simp add: tracked_def slot_ready_def)
      then show "length (CacheDir (sn_store w')) + 2 \<le> length (DeltaFilePath ?s r key)" unfolding same by (rule slot_paths) simp
    qed
    then have "\<forall>r \<in> set rs. file_content (st_disk (sn_store (compact w'))) (DeltaFilePath ?s r key) = []" using compact_empty(1) by blast
    moreover have "sn_backend (compact w') = sn_backend w'" by (simp add: compact_def)
    ultimately show ?thesis using process_sends [OF steady key(1) blocks(1) False w'(1)] w'(2,3) blocks(2)
      by (intro exI [of _ "compact w'"] exI [of _ "fst (sn_backend w')"] exI [of _ bodies]) auto
  qed
qed

text \<open>
  C2. If the service accepts what it gets and the sender is in normal operation, one call of \<^verbatim>\<open>Process\<close> sends
  every pending delta of the entity exactly once, plugin by plugin and in the order of the journals, and returns without an
  error. Afterwards the journal of every plugin is empty, so that the next call does not send these deltas again.
\<close>

theorem Process_delivers:
  assumes service: "accepts post" "sn_backend w = (b, [])" and steady: "steady ck w" and wf: "store_wf (sn_store w)"
    and key: "key = ps_Key (sn_sender w)" "names_ok (sn_store w) key"
    and cache: "\<not> denied (st_disk (sn_store w)) (CacheDir (sn_store w))"
    and plugins: "reaped (sn_store w) (CacheDir (sn_store w)) key = rs" "rs \<noteq> []" "\<forall>r \<in> set rs. pending x key (sn_store w) r (J r)"
  shows "\<exists>w' b' bodies. Process x (logged post) ck w = Returns (w', None) \<and> sn_backend w' = (b', bodies) \<and>
    concat (map pb_Deltas bodies) = concat (map J rs) \<and>
    (\<forall>r \<in> set rs. file_content (st_disk (sn_store w')) (DeltaFilePath (sn_store w) r key) = [])"
  using assms by (rule pending_delivered)

text \<open>An example: two deltas of a plugin, and a service that keeps nothing and answers without hints.\<close>

lemma ex_accepts: "accepts ex_service"
  by (simp add: accepts_def ex_service_def settles_def ResetAll_def)

lemma ex_pending: "pending (ex_ext [] [] []) ex_key (ex_store ''{}'' [ex_delta 1 ''x'', ex_delta 2 ''y''] ''{}'') (ex_plugin\<lparr>pi_Entities := []\<rparr>) [ex_delta 1 ''x'', ex_delta 2 ''y'']"
proof -
  have "snd (lastSentID ex_plugin ex_key) = 0" by code_simp
  then have "fresh_journal ex_key ex_plugin [ex_delta 1 ''x'', ex_delta 2 ''y'']"
    by (simp add: fresh_journal_def rd_validate_def MaxSourceLen_def)
  then show ?thesis unfolding pending_def
    by (intro exI [of _ ex_plugin] conjI ex_tracked) (simp_all add: same_slot_def ex_delta_ok ex_ids)
qed

theorem Process_delivers_witness:
  "\<exists>w' bodies. Process (ex_ext [] [] []) (logged ex_service) ex_clocks (ex_sending [ex_delta 1 ''x'', ex_delta 2 ''y'']) = Returns (w', None) \<and>
     sn_backend w' = ((), bodies) \<and> concat (map pb_Deltas bodies) = [ex_delta 1 ''x'', ex_delta 2 ''y''] \<and>
     file_content (st_disk (sn_store w')) (ex_cache_dir @ [''p'', localEntityFolder, ''a.pending'']) = []"
proof -
  let ?ds = "[ex_delta 1 ''x'', ex_delta 2 ''y'']" and ?x = "ex_ext [] [] []"
  let ?w = "ex_sending ?ds" and ?s = "ex_store ''{}'' ?ds ''{}''"
  have w: "sn_store ?w = ?s" "ps_Key (sn_sender ?w) = ex_key" "sn_backend ?w = ((), [])" by (simp_all add: ex_sending_def)
  have path: "DeltaFilePath ?s (ex_plugin\<lparr>pi_Entities := []\<rparr>) ex_key = ex_cache_dir @ [''p'', localEntityFolder, ''a.pending'']"
    using ex_paths [of "''{}''" ?ds "''{}''"] by (simp add: DeltaFilePath_def cachedFilePath_def)
  have "steady ex_clocks ?w" by (simp add: steady_def ex_sending_def ex_clocks_def ex_key_def EmptyID_def second_def plain_def)
  from Process_delivers [OF ex_accepts w(3) this, of ex_key "[ex_plugin\<lparr>pi_Entities := []\<rparr>]" ?x "\<lambda>_. ?ds"]
  show ?thesis unfolding w using ex_names_ok ex_store_wf ex_pending ex_reaped by (auto simp: path)
qed

end
