(* ===== verification/Entity_Patcher.thy ===== *)
theory Entity_Patcher
  imports Patch_Sender Helpers
begin

text \<open>
  The inventory of all entities: the patcher (\<^verbatim>\<open>internal/agent/inventory/patcher.go\<close> and
  \<^verbatim>\<open>entity_patcher.go\<close>), which saves what plugins report, turns it into deltas and sends them, and the handler
  (\<^verbatim>\<open>handler.go\<close>) that drives it with a queue and two timers. The types of \<^verbatim>\<open>types/plugin.go\<close> and
  \<^verbatim>\<open>plugins/ids\<close> are the input.

  \<^item> The senders of the entities are those of \<open>Patch_Sender\<close>, made by \<open>newPatchSender_agent\<close>; they share the store, the agent
    context and the service, which are fields of the patcher.
  \<^item> \<^verbatim>\<open>Reap\<close> and \<^verbatim>\<open>Save\<close> set \<^verbatim>\<open>needsReaping\<close> on a copy of the map's value, so the
    entry keeps the flag it has.
  \<^item> A value of a dataset is its sort key and its JSON, \<open>None\<close> if it has none. \<^verbatim>\<open>sort.Sort\<close> is the argument
    \<open>sorter\<close>; comparing a missing value panics.
  \<^item> Each operation of the patcher holds its lock; the senders run after it was released, one after the other.
\<close>

section \<open>Plugin outputs\<close>

record PluginID =
  id_Category :: string
  id_Term :: string

definition PluginID_String :: "PluginID \<Rightarrow> string" where
  "PluginID_String p = id_Category p @ ''/'' @ id_Term p"

record Sortable =
  so_SortKey :: string
  so_Marshal :: "json option"

record PluginOutput =
  po_Id :: PluginID
  po_Entity :: Entity
  po_Data :: "Sortable option list"
  po_NotApplicable :: bool

definition NewPluginOutput :: "PluginID \<Rightarrow> Entity \<Rightarrow> Sortable option list \<Rightarrow> PluginOutput" where
  "NewPluginOutput i entity data = \<lparr>po_Id = i, po_Entity = entity, po_Data = data, po_NotApplicable = False\<rparr>"

definition NewNotApplicableOutput :: "PluginID \<Rightarrow> PluginOutput" where
  "NewNotApplicableOutput i = \<lparr>po_Id = i, po_Entity = \<lparr>en_Key = EmptyKey, en_ID = EmptyID\<rparr>, po_Data = [], po_NotApplicable = True\<rparr>"

section \<open>The patcher\<close>

record PatcherConfig =
  pc_IgnoredPaths :: "(string, unit) gomap option"
  pc_AgentEntity :: Entity
  pc_RemoveEntitiesPeriod :: duration
  pc_Sender :: SenderConfig

record inventory_entry =
  ie_sender :: patchSenderIngest
  ie_needsReaping :: bool

record 'b EntityPatcher =
  pt_cfg :: PatcherConfig
  pt_lastClean :: time
  pt_entities :: "(string, inventory_entry) gomap"
  pt_seenEntities :: "(string, unit) gomap"
  pt_store :: Store
  pt_ctx :: AgentContext
  pt_backend :: 'b

datatype save_error = RegisterFailed sender_error | SaveFailed store_error

definition defaultRemoveEntitiesPeriod :: duration where
  "defaultRemoveEntitiesPeriod = 48 * 3600 * second"

text \<open>The clock is read twice, for the comparison and for the new time.\<close>

definition needsCleanup :: "time \<Rightarrow> time \<Rightarrow> 'b EntityPatcher \<Rightarrow> 'b EntityPatcher \<times> bool" where
  "needsCleanup now now2 p =
     (if pt_lastClean p = 0 then (p\<lparr>pt_lastClean := now\<rparr>, False)
      else let removePeriod = (if pc_RemoveEntitiesPeriod (pt_cfg p) \<le> 0 then defaultRemoveEntitiesPeriod else pc_RemoveEntitiesPeriod (pt_cfg p))
           in if pt_lastClean p + removePeriod < now then (p\<lparr>pt_lastClean := now2\<rparr>, True) else (p, False))"

definition isIgnored :: "PatcherConfig \<Rightarrow> string \<Rightarrow> bool" where
  "isIgnored cfg pluginSource =
     (case pc_IgnoredPaths cfg of None \<Rightarrow> False | Some m \<Rightarrow> map_of m (ToLower pluginSource) \<noteq> None)"

definition simplified :: "PatcherConfig \<Rightarrow> PluginID \<Rightarrow> Sortable option list \<Rightarrow> (string, Sortable) gomap" where
  "simplified cfg i data =
     fold (\<lambda>d m. case d of None \<Rightarrow> m
        | Some so \<Rightarrow> if isIgnored cfg (PluginID_String i @ ''/'' @ so_SortKey so) then m else AList.update (so_SortKey so) so m) data []"

text \<open>\<^verbatim>\<open>json.Marshal\<close> of the map: an object with sorted keys, or an error if a value has no JSON.\<close>

definition marshal_map :: "(string, Sortable) gomap \<Rightarrow> string option" where
  "marshal_map m =
     (if list_all (\<lambda>(k, so). so_Marshal so \<noteq> None) m
      then Some (enc (JObj (sort_key fst (map (\<lambda>(k, so). (k, the (so_Marshal so))) m)))) else None)"

definition BasePatcher_save ::
    "ext \<Rightarrow> (Sortable option list \<Rightarrow> Sortable option list) \<Rightarrow> PluginOutput \<Rightarrow> 'b EntityPatcher \<Rightarrow> ('b EntityPatcher \<times> store_error option) outcome" where
  "BasePatcher_save x sorter out p =
     (if 2 \<le> length (po_Data out) \<and> None \<in> set (po_Data out) then Panics
      else case SavePluginSource x (en_Key (po_Entity out)) (id_Category (po_Id out)) (id_Term (po_Id out))
                  (marshal_map (simplified (pt_cfg p) (po_Id out) (sorter (po_Data out)))) (pt_store p) of
             (s, err) \<Rightarrow> Returns (p\<lparr>pt_store := s\<rparr>, err))"

definition reapEntity :: "ext \<Rightarrow> (string \<Rightarrow> int) \<Rightarrow> string \<Rightarrow> 'b EntityPatcher \<Rightarrow> 'b EntityPatcher" where
  "reapEntity x unix key p = p\<lparr>pt_store := fst (UpdatePluginsInventoryCache x unix key (pt_store p))\<rparr>"

definition registerEntity :: "Entity \<Rightarrow> 'b EntityPatcher \<Rightarrow> 'b EntityPatcher \<times> sender_error option" where
  "registerEntity entity p =
     (if map_of (pt_entities p) (en_Key entity) \<noteq> None then (p, None)
      else case newPatchSender_agent (pc_Sender (pt_cfg p)) (ac_agentID (pt_ctx p)) (pt_store p) entity of
             (_, Some e) \<Rightarrow> (p, Some e)
           | (None, None) \<Rightarrow> (p, None)
           | (Some sender, None) \<Rightarrow>
               (p\<lparr>pt_entities := AList.update (en_Key entity) \<lparr>ie_sender = sender, ie_needsReaping = True\<rparr> (pt_entities p)\<rparr>, None))"

definition NewEntityPatcher :: "time \<Rightarrow> PatcherConfig \<Rightarrow> Store \<Rightarrow> AgentContext \<Rightarrow> 'b \<Rightarrow> 'b EntityPatcher" where
  "NewEntityPatcher now cfg s ctx b =
     fst (registerEntity (pc_AgentEntity cfg)
       \<lparr>pt_cfg = cfg, pt_lastClean = now, pt_entities = [], pt_seenEntities = [], pt_store = s, pt_ctx = ctx, pt_backend = b\<rparr>)"

definition unregisterEntity :: "string \<Rightarrow> 'b EntityPatcher \<Rightarrow> 'b EntityPatcher" where
  "unregisterEntity key p =
     p\<lparr>pt_entities := AList.delete key (pt_entities p), pt_store := fst (RemoveEntity key (pt_store p))\<rparr>"

definition cleanOutdatedEntities :: "'b EntityPatcher \<Rightarrow> 'b EntityPatcher" where
  "cleanOutdatedEntities p =
     (let entitiesToRemove = filter (\<lambda>k. k \<noteq> en_Key (pc_AgentEntity (pt_cfg p)) \<and> map_of (pt_seenEntities p) k = None) (map fst (pt_entities p));
          p1 = fold unregisterEntity entitiesToRemove p
      in case fst (ScanEntityFolders (pt_store p1)) of
           None \<Rightarrow> p1
         | Some found \<Rightarrow>
             let foldersToRemove = fold (\<lambda>key. AList.delete (sanitize_runes key)) (map fst (pt_entities p1)) found
             in p1\<lparr>pt_store := fold (\<lambda>folder s. fst (RemoveEntityFolders folder s)) (map fst foldersToRemove) (pt_store p1)\<rparr>)"

definition Save ::
    "ext \<Rightarrow> (Sortable option list \<Rightarrow> Sortable option list) \<Rightarrow> PluginOutput \<Rightarrow> 'b EntityPatcher \<Rightarrow> ('b EntityPatcher \<times> save_error option) outcome" where
  "Save x sorter data p =
     (if po_NotApplicable data then Returns (p, None)
      else case registerEntity (po_Entity data) p of
             (p1, Some e) \<Rightarrow> Returns (p1, Some (RegisterFailed e))
           | (p1, None) \<Rightarrow>
               and_then (BasePatcher_save x sorter data p1)
                 (\<lambda>(p2, err). case err of
                    Some e \<Rightarrow> Returns (p2, Some (SaveFailed e))
                  | None \<Rightarrow> Returns (p2\<lparr>pt_seenEntities := AList.update (en_Key (po_Entity data)) () (pt_seenEntities p2)\<rparr>, None)))"

definition Reap :: "ext \<Rightarrow> (string \<Rightarrow> int) \<Rightarrow> 'b EntityPatcher \<Rightarrow> 'b EntityPatcher" where
  "Reap x unix p = fold (\<lambda>(key, e) q. if ie_needsReaping e then reapEntity x unix key q else q) (pt_entities p) p"

text \<open>The senders run in turn until one fails.\<close>

definition run_sender ::
    "ext \<Rightarrow> ('b \<Rightarrow> PostDeltaBody \<Rightarrow> 'b \<times> http_answer) \<Rightarrow> clocks \<Rightarrow> string \<Rightarrow> inventory_entry \<Rightarrow> 'b EntityPatcher \<Rightarrow>
     ('b EntityPatcher \<times> process_error option) outcome" where
  "run_sender x post ck key e p =
     and_then (Process x post ck \<lparr>sn_sender = ie_sender e, sn_store = pt_store p, sn_ctx = pt_ctx p, sn_backend = pt_backend p\<rparr>)
       (\<lambda>(w, err). Returns (p\<lparr>pt_entities := AList.update key (e\<lparr>ie_sender := sn_sender w\<rparr>) (pt_entities p), pt_store := sn_store w,
                              pt_ctx := sn_ctx w, pt_backend := sn_backend w\<rparr>, err))"

fun run_senders ::
    "ext \<Rightarrow> ('b \<Rightarrow> PostDeltaBody \<Rightarrow> 'b \<times> http_answer) \<Rightarrow> (string \<Rightarrow> clocks) \<Rightarrow> (string, inventory_entry) gomap \<Rightarrow> 'b EntityPatcher \<Rightarrow>
     ('b EntityPatcher \<times> process_error option) outcome" where
  "run_senders x post ck [] p = Returns (p, None)"
| "run_senders x post ck ((key, e) # es) p =
     and_then (run_sender x post (ck key) key e p)
       (\<lambda>(p1, err). if err \<noteq> None then Returns (p1, err) else run_senders x post ck es p1)"

text \<open>A cleanup forgets the entities seen before it removes those that were not seen.\<close>

definition Send_cleanup :: "time \<Rightarrow> time \<Rightarrow> 'b EntityPatcher \<Rightarrow> 'b EntityPatcher" where
  "Send_cleanup now now2 p =
     (case needsCleanup now now2 p of
        (p1, needed) \<Rightarrow> if needed then cleanOutdatedEntities (p1\<lparr>pt_seenEntities := []\<rparr>) else p1)"

definition Send ::
    "ext \<Rightarrow> ('b \<Rightarrow> PostDeltaBody \<Rightarrow> 'b \<times> http_answer) \<Rightarrow> (string \<Rightarrow> clocks) \<Rightarrow> time \<Rightarrow> time \<Rightarrow> 'b EntityPatcher \<Rightarrow>
     ('b EntityPatcher \<times> process_error option) outcome" where
  "Send x post ck now now2 p = (let p1 = Send_cleanup now now2 p in run_senders x post ck (pt_entities p1) p1)"

section \<open>The handler\<close>

definition MAX_BACKOFF :: int where "MAX_BACKOFF = 120"

definition RATE_LIMITED_BACKOFF :: int where "RATE_LIMITED_BACKOFF = 3600"

record HandlerConfig =
  hc_FirstReapInterval :: duration
  hc_ReapInterval :: duration
  hc_SendInterval :: duration
  hc_InventoryQueueLen :: nat

text \<open>The timers are the durations they were last set to.\<close>

record 'b Handler =
  hd_cfg :: HandlerConfig
  hd_patcher :: "'b EntityPatcher"
  hd_initialReap :: bool
  hd_dataCh :: "PluginOutput list"
  hd_sendTimer :: duration
  hd_reapTimer :: duration
  hd_sendErrorCount :: "32 word"

definition NewInventoryHandler :: "HandlerConfig \<Rightarrow> 'b EntityPatcher \<Rightarrow> 'b Handler" where
  "NewInventoryHandler cfg patcher =
     \<lparr>hd_cfg = cfg, hd_patcher = patcher, hd_initialReap = True, hd_dataCh = [], hd_sendTimer = 0, hd_reapTimer = 0, hd_sendErrorCount = 0\<rparr>"

text \<open>\<^verbatim>\<open>Handle\<close> waits while the queue is full. The queue has room for one element at least: the agent replaces a
  length of zero by a default (\<^verbatim>\<open>internal/agent/agent.go\<close>, line 722), so the channel is never unbuffered.\<close>

definition Handle :: "PluginOutput \<Rightarrow> 'b Handler \<Rightarrow> 'b Handler outcome" where
  "Handle data h =
     (if length (hd_dataCh h) < hc_InventoryQueueLen (hd_cfg h) then Returns (h\<lparr>hd_dataCh := hd_dataCh h @ [data]\<rparr>) else Blocks)"

definition listenForData :: "ext \<Rightarrow> (Sortable option list \<Rightarrow> Sortable option list) \<Rightarrow> 'b Handler \<Rightarrow> 'b Handler outcome" where
  "listenForData x sorter h =
     (case hd_dataCh h of
        [] \<Rightarrow> Blocks
      | data # rest \<Rightarrow> and_then (Save x sorter data (hd_patcher h)) (\<lambda>(p, err). Returns (h\<lparr>hd_dataCh := rest, hd_patcher := p\<rparr>)))"

definition start_timers :: "'b Handler \<Rightarrow> 'b Handler" where
  "start_timers h = h\<lparr>hd_sendTimer := hc_SendInterval (hd_cfg h), hd_reapTimer := hc_FirstReapInterval (hd_cfg h)\<rparr>"

definition reap_tick :: "ext \<Rightarrow> (string \<Rightarrow> int) \<Rightarrow> 'b Handler \<Rightarrow> 'b Handler" where
  "reap_tick x unix h =
     (let h1 = (if hd_initialReap h then h\<lparr>hd_initialReap := False, hd_reapTimer := hc_ReapInterval (hd_cfg h)\<rparr> else h)
      in h1\<lparr>hd_patcher := Reap x unix (hd_patcher h1)\<rparr>)"

text \<open>The count of errors and the limit of the wait after the answer of \<^verbatim>\<open>Send\<close>.\<close>

definition send_result :: "process_error option \<Rightarrow> 32 word \<Rightarrow> 32 word \<times> int" where
  "send_result err errorCount =
     (if err = None then (0, MAX_BACKOFF)
      else if err = Some (SendError (IngestError 429)) then (of_nat MaxBackoffErrorCount, RATE_LIMITED_BACKOFF)
      else (errorCount + 1, MAX_BACKOFF))"

definition handler_send ::
    "ext \<Rightarrow> ('b \<Rightarrow> PostDeltaBody \<Rightarrow> 'b \<times> http_answer) \<Rightarrow> (string \<Rightarrow> clocks) \<Rightarrow> time \<Rightarrow> time \<Rightarrow> 'b Handler \<Rightarrow> 'b Handler outcome" where
  "handler_send x post ck now now2 h =
     and_then (Send x post ck now now2 (hd_patcher h))
       (\<lambda>(p, err). case send_result err (hd_sendErrorCount h) of (errorCount, backoffMax) \<Rightarrow>
          Returns (h\<lparr>hd_patcher := p, hd_sendErrorCount := errorCount,
                     hd_sendTimer := ExpBackoff (hc_SendInterval (hd_cfg h)) (backoffMax * second) errorCount\<rparr>))"

text \<open>What the goroutines of the handler do, one step at a time.\<close>

inductive handler_step :: "('b \<Rightarrow> PostDeltaBody \<Rightarrow> 'b \<times> http_answer) \<Rightarrow> 'b Handler \<Rightarrow> 'b Handler \<Rightarrow> bool" for post where
  handle: "Handle data h = Returns h' \<Longrightarrow> handler_step post h h'"
| listen: "listenForData x sorter h = Returns h' \<Longrightarrow> handler_step post h h'"
| reap: "handler_step post h (reap_tick x unix h)"
| send: "handler_send x post ck now now2 h = Returns h' \<Longrightarrow> handler_step post h h'"

inductive handler_reachable :: "('b \<Rightarrow> PostDeltaBody \<Rightarrow> 'b \<times> http_answer) \<Rightarrow> 'b Handler \<Rightarrow> 'b Handler \<Rightarrow> bool" for post h0 where
  start: "handler_reachable post h0 h0"
| step: "handler_reachable post h0 h \<Longrightarrow> handler_step post h h' \<Longrightarrow> handler_reachable post h0 h'"

text \<open>What holds of a patcher and of its handler at all times; \<open>agent\<close> is the key of the agent's entity.\<close>

definition entry_ok :: "string \<times> inventory_entry \<Rightarrow> bool" where
  "entry_ok ke \<longleftrightarrow> ie_needsReaping (snd ke) \<and> ps_Key (ie_sender (snd ke)) = fst ke"

definition patcher_ok :: "string \<Rightarrow> 'b EntityPatcher \<Rightarrow> bool" where
  "patcher_ok agent p \<longleftrightarrow> gm_wf (pt_entities p) \<and> en_Key (pc_AgentEntity (pt_cfg p)) = agent \<and> agent \<in> fst ` set (pt_entities p) \<and>
     list_all entry_ok (pt_entities p) \<and> fst ` set (pt_seenEntities p) \<subseteq> fst ` set (pt_entities p)"

definition handler_ok :: "string \<Rightarrow> 'b Handler \<Rightarrow> bool" where
  "handler_ok agent h \<longleftrightarrow> patcher_ok agent (hd_patcher h) \<and> length (hd_dataCh h) \<le> hc_InventoryQueueLen (hd_cfg h)"

text \<open>A disk from which paths were removed.\<close>

definition shrinks :: "disk \<Rightarrow> disk \<Rightarrow> bool" where
  "shrinks d d' \<longleftrightarrow> denied d' = denied d \<and> (\<forall>q. stat d' q = None \<or> stat d' q = stat d q)"

text \<open>An example: the agent and a second entity that has just reported.\<close>

definition ex_sender_cfg :: SenderConfig where
  "ex_sender_cfg = \<lparr>sc_ConnectEnabled = True, sc_PayloadCompressionLevel = 6, sc_CompactEnabled = True, sc_CompactThreshold = 20,
     sc_OfflineLoggingMode = False, sc_OfflineTimeToReset = Some (86400 * second)\<rparr>"

definition ex_patcher_cfg :: PatcherConfig where
  "ex_patcher_cfg = \<lparr>pc_IgnoredPaths = None, pc_AgentEntity = NewWithoutID ex_key, pc_RemoveEntitiesPeriod = 0, pc_Sender = ex_sender_cfg\<rparr>"

definition ex_other_store :: Store where
  "ex_other_store = (ex_store ''{}'' [ex_delta 1 ''x''] ''{}'')\<lparr>st_disk := fst (MkdirAll (ex_disk ''{}'' [ex_delta 1 ''x''] ''{}'') [''d'', ''p'', ''other''])\<rparr>"

definition ex_patcher :: "unit EntityPatcher" where
  "ex_patcher = \<lparr>pt_cfg = ex_patcher_cfg, pt_lastClean = second,
     pt_entities = [(ex_key, \<lparr>ie_sender = sn_sender (ex_sending []), ie_needsReaping = True\<rparr>),
       (''other'', \<lparr>ie_sender = (sn_sender (ex_sending []))\<lparr>ps_Key := ''other''\<rparr>, ie_needsReaping = True\<rparr>)],
     pt_seenEntities = [(''other'', ())], pt_store = ex_other_store, pt_ctx = sn_ctx (ex_sending []), pt_backend = ()\<rparr>"

definition ex_handler_cfg :: HandlerConfig where
  "ex_handler_cfg = \<lparr>hc_FirstReapInterval = second, hc_ReapInterval = 30 * second, hc_SendInterval = 60 * second, hc_InventoryQueueLen = 10\<rparr>"

section \<open>What a cleanup removes\<close>

lemma shrinks_refl [simp]: "shrinks d d"
  by (simp add: shrinks_def)

lemma shrinks_trans: "shrinks d d' \<Longrightarrow> shrinks d' d'' \<Longrightarrow> shrinks d d''"
  unfolding shrinks_def by metis

lemma shrinks_none: "shrinks d d' \<Longrightarrow> stat d q = None \<Longrightarrow> stat d' q = None"
  unfolding shrinks_def by metis

lemma shrinks_free: "shrinks d d' \<Longrightarrow> \<forall>q. \<not> denied d q \<Longrightarrow> \<forall>q. \<not> denied d' q"
  by (simp add: shrinks_def)

lemma shrinks_RemoveAll: "shrinks d (fst (os_RemoveAll d p))"
  by (cases "p = []") (simp add: os_RemoveAll_def, simp add: shrinks_def stat_RemoveAll)

lemma removeEntityEntries_frame: "\<exists>d. fst (removeEntityEntries dir folder s) = s\<lparr>st_disk := d\<rparr> \<and> shrinks (st_disk s) d"
proof -
  define I where "I a \<longleftrightarrow> (\<exists>d. fst a = s\<lparr>st_disk := d\<rparr> \<and> shrinks (st_disk s) d)" for a :: "Store \<times> bool"
  have "I (remove_entity_in dir folder n a)" if "I a" for n a
    using that shrinks_trans [OF _ shrinks_RemoveAll] unfolding I_def by (cases a) (auto simp: remove_entity_in_def on_disk_def split_beta)
  moreover have self: "I (s, b)" for b by (auto simp: I_def intro!: exI [of _ "st_disk s"])
  ultimately have "I (fold (remove_entity_in dir folder) ns (s, True))" for ns by (rule_tac fold_inv [where I = I]) blast+
  then have "I (removeEntityEntries dir folder s)" using self by (simp add: removeEntityEntries_def split: option.split)
  then show ?thesis by (simp add: I_def)
qed

lemma RemoveEntityFolders_frame: "\<exists>d. fst (RemoveEntityFolders folder s) = s\<lparr>st_disk := d\<rparr> \<and> shrinks (st_disk s) d"
proof -
  obtain d where d: "fst (removeEntityEntries (DataDir s) folder s) = s\<lparr>st_disk := d\<rparr>" "shrinks (st_disk s) d"
    using removeEntityEntries_frame by blast
  obtain e where "fst (removeEntityEntries (CacheDir s) folder (s\<lparr>st_disk := d\<rparr>)) = s\<lparr>st_disk := e\<rparr>" "shrinks d e"
    using removeEntityEntries_frame [of "CacheDir s" folder "s\<lparr>st_disk := d\<rparr>"] by auto
  then show ?thesis using d shrinks_trans by (intro exI [of _ e]) (auto simp: RemoveEntityFolders_def split_beta)
qed

lemma RemoveEntityFolders_wf: "store_wf s \<Longrightarrow> store_wf (fst (RemoveEntityFolders folder s))"
  using removeEntityEntries_wf [of "fst (removeEntityEntries (DataDir s) folder s)" "CacheDir s" folder] removeEntityEntries_wf [of s "DataDir s" folder]
  by (simp add: RemoveEntityFolders_def split_beta store_paths_plain)

lemma RemoveEntityFolders_gone:
  assumes wf: "store_wf s" and free: "\<forall>q. \<not> denied (st_disk s) q" and folder: "plain folder"
    and q: "in_entity s (DataDir s) folder q \<or> in_entity s (CacheDir s) folder q"
  shows "stat (st_disk (fst (RemoveEntityFolders folder s))) q = None"
proof -
  have ok: "disk_ok (st_disk s)" and dirs: "CacheDir s = DataDir s @ [CACHE_DIR]" using wf by (simp_all add: store_wf_def)
  have up: "stat (st_disk s) p = Some Dir" if "stat (st_disk s) (p @ [n]) = Some Dir" for p n
    using that disk_wf_parent [of "st_disk s" "p @ [n]"] ok by (simp add: disk_ok_def)
  have "stat (st_disk s) (DataDir s) = Some Dir" using q up [of "DataDir s"] up [of "CacheDir s"] unfolding in_entity_def is_dir_def dirs by blast
  from removeEntityEntries_spec [OF free folder ok this] obtain d where d:
    "removeEntityEntries (DataDir s) folder s = (s\<lparr>st_disk := d\<rparr>, True)" "denied d = denied (st_disk s)" "disk_wf d"
    "\<forall>q. stat d q = (if in_entity s (DataDir s) folder q then None else stat (st_disk s) q)" by blast
  let ?t = "s\<lparr>st_disk := d\<rparr>"
  have wf': "store_wf ?t" using removeEntityEntries_wf [OF wf, of "DataDir s" folder] d(1) wf by (simp add: store_paths_plain)
  have res: "fst (RemoveEntityFolders folder s) = fst (removeEntityEntries (CacheDir s) folder ?t)" using d(1) by (simp add: RemoveEntityFolders_def split_beta)
  show ?thesis
  proof (cases "in_entity s (DataDir s) folder q")
    case True
    then show ?thesis unfolding res using d(4) by (intro removeEntityEntries_none) simp
  next
    case False
    then obtain n where n: "stat (st_disk s) (CacheDir s @ [n]) = Some Dir" "\<not> nonEntityFolders n" "below (CacheDir s @ [n, folder]) q"
      using q by (auto simp: in_entity_def is_dir_def)
    have "\<not> in_entity s (DataDir s) folder (CacheDir s @ ns)" for ns
      by (auto simp: in_entity_def below_def dirs nonEntityFolders_def)
    from this [of "[n]"] this [of "[]"] have kept: "stat d (CacheDir s @ [n]) = Some Dir" "stat d (CacheDir s) = Some Dir" using d(4) n(1) up [OF n(1)] by simp_all
    then have "in_entity ?t (CacheDir s) folder q" using n by (auto simp: in_entity_def is_dir_def)
    then show ?thesis unfolding res
      using removeEntityEntries_spec [of ?t folder "CacheDir s"] free d(2) folder wf' kept(2) by (auto simp: store_wf_def)
  qed
qed

lemma fold_folders:
  assumes "store_wf s"
  shows "\<exists>d. fold (\<lambda>folder s. fst (RemoveEntityFolders folder s)) folders s = s\<lparr>st_disk := d\<rparr> \<and> store_wf (s\<lparr>st_disk := d\<rparr>) \<and> shrinks (st_disk s) d"
  using assms
proof (induction folders arbitrary: s)
  case Nil
  then show ?case by (intro exI [of _ "st_disk s"]) simp
next
  case (Cons a folders)
  obtain d where d: "fst (RemoveEntityFolders a s) = s\<lparr>st_disk := d\<rparr>" "shrinks (st_disk s) d" using RemoveEntityFolders_frame by blast
  then have "store_wf (s\<lparr>st_disk := d\<rparr>)" using RemoveEntityFolders_wf [OF Cons.prems(1), of a] by simp
  from Cons.IH [OF this] obtain e where "fold (\<lambda>folder s. fst (RemoveEntityFolders folder s)) folders (s\<lparr>st_disk := d\<rparr>) = s\<lparr>st_disk := e\<rparr>"
    "store_wf (s\<lparr>st_disk := e\<rparr>)" "shrinks d e" by auto
  then show ?case using d shrinks_trans by (intro exI [of _ e]) auto
qed

lemma fold_folders_gone:
  assumes "store_wf s" "\<forall>q. \<not> denied (st_disk s) q" "folder \<in> set folders" "plain folder"
    and "dir = DataDir s \<or> dir = CacheDir s" "\<not> nonEntityFolders n" "below (dir @ [n, folder]) q"
  shows "stat (st_disk (fold (\<lambda>folder s. fst (RemoveEntityFolders folder s)) folders s)) q = None"
proof -
  let ?run = "fold (\<lambda>folder s. fst (RemoveEntityFolders folder s))"
  obtain as bs where split: "folders = as @ folder # bs" using assms(3) by (metis split_list)
  obtain d where d: "?run as s = s\<lparr>st_disk := d\<rparr>" "store_wf (s\<lparr>st_disk := d\<rparr>)" "shrinks (st_disk s) d" using fold_folders [OF assms(1)] by blast
  let ?t = "fst (RemoveEntityFolders folder (s\<lparr>st_disk := d\<rparr>))"
  have gone: "stat (st_disk ?t) q = None"
  proof (cases "stat d q = None")
    case True
    then show ?thesis using RemoveEntityFolders_frame [of folder "s\<lparr>st_disk := d\<rparr>"] shrinks_none by auto
  next
    case False
    have wf: "disk_wf d" using d(2) by (simp add: store_wf_def disk_ok_def)
    have "stat d (dir @ [n, folder]) \<noteq> None" using False missing_below [OF wf _ assms(7)] by metis
    then have "stat d (dir @ [n]) = Some Dir" using disk_wf_parent [OF wf, of "dir @ [n, folder]"] by (simp add: butlast_append)
    then have "in_entity (s\<lparr>st_disk := d\<rparr>) dir folder q" using assms(6,7) by (auto simp: in_entity_def is_dir_def)
    then show ?thesis using RemoveEntityFolders_gone [OF d(2) _ assms(4), of q] shrinks_free [OF d(3) assms(2)] assms(5) by auto
  qed
  obtain e where "?run bs ?t = ?t\<lparr>st_disk := e\<rparr>" "shrinks (st_disk ?t) e" using fold_folders [OF RemoveEntityFolders_wf [OF d(2)]] by blast
  then show ?thesis using shrinks_none [OF _ gone] unfolding split by (simp add: d(1))
qed

text \<open>The scan finds the folder of an entity that any plugin has.\<close>

lemma fold_update_keys: "map_of (fold (\<lambda>f m. AList.update f True m) fs m) k = (if k \<in> set fs then Some True else map_of m k)"
  by (induction fs arbitrary: m) (auto simp: gomap_simps)

lemma fetch_folders_ok:
  assumes "\<forall>q. \<not> denied (st_disk s) q" "\<forall>n \<in> set ps. plain n \<and> is_dir s (dir @ [n])"
  shows "\<exists>m. fetch_folders s dir ps found = (m, True) \<and>
    (\<forall>f. map_of m f \<noteq> None \<longleftrightarrow> map_of found f \<noteq> None \<or> (\<exists>n \<in> set ps. is_dir s (dir @ [n, f])))"
  using assms(2)
proof (induction ps arbitrary: found)
  case (Cons n ps)
  let ?fs = "filter (\<lambda>f. is_dir s (dir @ [n, f])) (children (st_disk s) (dir @ [n]))"
  have path: "fp_join dir [n] = dir @ [n]" using Cons.prems by (simp add: fp_join_plain)
  have read: "read_dir (st_disk s) (dir @ [n]) = Some (children (st_disk s) (dir @ [n]))" using Cons.prems assms(1) by (simp add: read_dir_def is_dir_def)
  have fs: "f \<in> set ?fs \<longleftrightarrow> is_dir s (dir @ [n, f])" for f by (auto simp: child_stat is_dir_def)
  obtain m where "fetch_folders s dir ps (fold (\<lambda>f m. AList.update f True m) ?fs found) = (m, True)"
    "\<forall>f. map_of m f \<noteq> None \<longleftrightarrow> map_of (fold (\<lambda>f m. AList.update f True m) ?fs found) f \<noteq> None \<or> (\<exists>n \<in> set ps. is_dir s (dir @ [n, f]))"
    using Cons.IH [of "fold (\<lambda>f m. AList.update f True m) ?fs found"] Cons.prems by auto
  then show ?case using fs by (intro exI [of _ m]) (simp add: path read fold_update_keys del: set_filter, auto)
qed simp

lemma fetchEntities_ok:
  assumes wf: "disk_ok (st_disk s)" and free: "\<forall>q. \<not> denied (st_disk s) q" and dir: "stat (st_disk s) dir = Some Dir"
  shows "\<exists>m. fetchEntities s dir = (Some m, True) \<and>
    (\<forall>f. map_of m f \<noteq> None \<longleftrightarrow> (\<exists>n. \<not> nonEntityFolders n \<and> is_dir s (dir @ [n]) \<and> is_dir s (dir @ [n, f])))"
proof -
  let ?ps = "filter (\<lambda>n. is_dir s (dir @ [n]) \<and> \<not> nonEntityFolders n) (children (st_disk s) dir)"
  have ps: "plugin_dirs s dir = Some ?ps" using dir free by (simp add: plugin_dirs_def read_dir_def)
  have names: "plain n" if "n \<in> set (children (st_disk s) dir)" for n using that wf by (force simp: child_iff disk_ok_def)
  have mem: "n \<in> set ?ps \<longleftrightarrow> is_dir s (dir @ [n]) \<and> \<not> nonEntityFolders n" for n by (auto simp: child_stat is_dir_def)
  have all: "\<forall>n \<in> set ?ps. plain n \<and> is_dir s (dir @ [n])" using names by auto
  obtain m where m: "fetch_folders s dir ?ps [] = (m, True)"
    "\<forall>f. map_of m f \<noteq> None \<longleftrightarrow> map_of ([] :: (string, bool) gomap) f \<noteq> None \<or> (\<exists>n \<in> set ?ps. is_dir s (dir @ [n, f]))"
    using fetch_folders_ok [OF free all, of "[]"] by blast
  have "map_of m f \<noteq> None \<longleftrightarrow> (\<exists>n. \<not> nonEntityFolders n \<and> is_dir s (dir @ [n]) \<and> is_dir s (dir @ [n, f]))" for f
    using m(2) mem by (auto simp del: set_filter)
  then show ?thesis using ps m(1) by (intro exI [of _ m]) (simp add: fetchEntities_def)
qed

lemma ScanEntityFolders_finds:
  assumes wf: "store_wf s" and free: "\<forall>q. \<not> denied (st_disk s) q"
    and dir: "dir = DataDir s \<or> dir = CacheDir s" and n: "\<not> nonEntityFolders n" "is_dir s (dir @ [n])" "is_dir s (dir @ [n, f])"
  shows "\<exists>m. fst (ScanEntityFolders s) = Some m \<and> map_of m f \<noteq> None"
proof -
  have ok: "disk_ok (st_disk s)" and dirs: "CacheDir s = DataDir s @ [CACHE_DIR]" using wf by (simp_all add: store_wf_def)
  have up: "stat (st_disk s) p = Some Dir" if "stat (st_disk s) (p @ [n]) = Some Dir" for p n
    using that disk_wf_parent [of "st_disk s" "p @ [n]"] ok by (simp add: disk_ok_def)
  have at: "stat (st_disk s) dir = Some Dir" using up n(2) by (simp add: is_dir_def)
  then have data: "stat (st_disk s) (DataDir s) = Some Dir" using dir dirs up by auto
  obtain m where m: "fetchEntities s (DataDir s) = (Some m, True)"
    "\<forall>f. map_of m f \<noteq> None \<longleftrightarrow> (\<exists>n. \<not> nonEntityFolders n \<and> is_dir s (DataDir s @ [n]) \<and> is_dir s (DataDir s @ [n, f]))"
    using fetchEntities_ok [OF ok free data] by blast
  show ?thesis
  proof (cases "fetchEntities s (CacheDir s)")
    case (Pair r b)
    have merged: "map_of (fold (\<lambda>(k, _) m. AList.update k True m) c m) f = None \<longleftrightarrow> f \<notin> fst ` set c \<and> map_of m f = None" for c :: "(string, bool) gomap"
      by (induction c arbitrary: m) (auto simp: gomap_simps split: if_splits)
    show ?thesis
    proof (cases "dir = DataDir s")
      case True
      then have "map_of m f \<noteq> None" using m(2) n by blast
      then show ?thesis using Pair merged m(1) by (cases r; cases b) (simp_all add: ScanEntityFolders_def del: not_None_eq)
    next
      case False
      then have "dir = CacheDir s" using dir by simp
      then obtain c where c: "fetchEntities s (CacheDir s) = (Some c, True)" "map_of c f \<noteq> None" using fetchEntities_ok [OF ok free at] n by blast
      then have "f \<in> fst ` set c" by (metis map_of_eq_None_iff)
      then show ?thesis using c(1) m(1) merged by (simp add: ScanEntityFolders_def del: not_None_eq)
    qed
  qed
qed

lemma unregister_entities: "pt_entities (fold unregisterEntity ks p) = filter (\<lambda>(k, _). k \<notin> set ks) (pt_entities p)"
  by (induction ks arbitrary: p) (auto simp: unregisterEntity_def AList.delete_eq intro!: filter_cong)

lemma unregister_store:
  "pt_store (fold unregisterEntity ks p) = fold (\<lambda>folder s. fst (RemoveEntityFolders folder s)) (map (EntityFolder (pt_store p)) ks) (pt_store p)"
proof (induction ks arbitrary: p)
  case (Cons k ks)
  obtain d where d: "fst (RemoveEntityFolders (EntityFolder (pt_store p) k) (pt_store p)) = (pt_store p)\<lparr>st_disk := d\<rparr>" using RemoveEntityFolders_frame by blast
  have "EntityFolder ((pt_store p)\<lparr>st_disk := d\<rparr>) = EntityFolder (pt_store p)" by (simp add: EntityFolder_def fun_eq_iff)
  then show ?case using Cons.IH [of "unregisterEntity k p"] d by (simp add: unregisterEntity_def RemoveEntity_def)
qed simp

text \<open>A cleanup in \<^verbatim>\<open>Send\<close>: every registered entity but the agent's is unregistered, then folders of no registered entity go.\<close>

lemma Send_cleanup_store:
  fixes p :: "'b EntityPatcher"
  assumes "snd (needsCleanup now now2 p)"
  defines "s \<equiv> pt_store p" and "agent \<equiv> en_Key (pc_AgentEntity (pt_cfg p))"
  defines "s1 \<equiv> fold (\<lambda>folder s. fst (RemoveEntityFolders folder s)) (map (EntityFolder s) (filter (\<lambda>k. k \<noteq> agent) (map fst (pt_entities p)))) s"
  shows "pt_entities (Send_cleanup now now2 p) = filter (\<lambda>(k, _). k = agent) (pt_entities p)"
    and "pt_store (Send_cleanup now now2 p) = (case fst (ScanEntityFolders s1) of None \<Rightarrow> s1
      | Some found \<Rightarrow> fold (\<lambda>folder s. fst (RemoveEntityFolders folder s))
          (map fst (fold (\<lambda>key. AList.delete (sanitize_runes key)) (map fst (filter (\<lambda>(k, _). k = agent) (pt_entities p))) found)) s1)"
proof -
  obtain p1 where p1: "needsCleanup now now2 p = (p1, True)" "pt_cfg p1 = pt_cfg p" "pt_entities p1 = pt_entities p" "pt_store p1 = s"
    using assms(1) by (auto simp: needsCleanup_def Let_def s_def split: if_splits)
  let ?q = "p1\<lparr>pt_seenEntities := []\<rparr>"
  let ?ks = "filter (\<lambda>k. k \<noteq> agent) (map fst (pt_entities p))"
  have ks: "filter (\<lambda>k. k \<noteq> en_Key (pc_AgentEntity (pt_cfg ?q)) \<and> map_of (pt_seenEntities ?q) k = None) (map fst (pt_entities ?q)) = ?ks"
    by (simp add: p1 agent_def)
  have es: "pt_entities (fold unregisterEntity ?ks ?q) = filter (\<lambda>(k, _). k = agent) (pt_entities p)"
    unfolding unregister_entities by (force simp: p1 intro!: filter_cong)
  have st: "pt_store (fold unregisterEntity ?ks ?q) = s1" unfolding unregister_store by (simp add: p1 s1_def)
  have run: "Send_cleanup now now2 p = cleanOutdatedEntities ?q" using p1(1) by (simp add: Send_cleanup_def)
  show "pt_entities (Send_cleanup now now2 p) = filter (\<lambda>(k, _). k = agent) (pt_entities p)"
    unfolding run cleanOutdatedEntities_def ks Let_def using es by (simp split: option.split)
  show "pt_store (Send_cleanup now now2 p) = (case fst (ScanEntityFolders s1) of None \<Rightarrow> s1
      | Some found \<Rightarrow> fold (\<lambda>folder s. fst (RemoveEntityFolders folder s))
          (map fst (fold (\<lambda>key. AList.delete (sanitize_runes key)) (map fst (filter (\<lambda>(k, _). k = agent) (pt_entities p))) found)) s1)"
    unfolding run cleanOutdatedEntities_def ks Let_def es st by (simp add: st split: option.split)
qed

text \<open>
  C35. A cleanup started by \<^verbatim>\<open>Send\<close> unregisters every entity but the agent's and deletes its folders, also when the
  entity has reported since the last cleanup: the set of entities seen is emptied before it is consulted.
\<close>

theorem cleanup_forgets_active_entities:
  assumes needed: "snd (needsCleanup now now2 p)" and wf: "store_wf (pt_store p)" and free: "\<forall>q. \<not> denied (st_disk (pt_store p)) q"
    and k: "map_of (pt_entities p) k \<noteq> None" "k \<noteq> en_Key (pc_AgentEntity (pt_cfg p))" "plain (EntityFolder (pt_store p) k)"
    and q: "dir = DataDir (pt_store p) \<or> dir = CacheDir (pt_store p)" "\<not> nonEntityFolders n" "below (dir @ [n, EntityFolder (pt_store p) k]) q"
  shows "map_of (pt_entities (Send_cleanup now now2 p)) k = None \<and> stat (st_disk (pt_store (Send_cleanup now now2 p))) q = None"
proof
  let ?s = "pt_store p" and ?agent = "en_Key (pc_AgentEntity (pt_cfg p))"
  show "map_of (pt_entities (Send_cleanup now now2 p)) k = None"
    unfolding Send_cleanup_store(1) [OF needed] using k(2) by (auto simp: map_of_eq_None_iff)
  let ?run = "fold (\<lambda>folder s. fst (RemoveEntityFolders folder s))"
  let ?folders = "map (EntityFolder ?s) (filter (\<lambda>k. k \<noteq> ?agent) (map fst (pt_entities p)))"
  have "k \<in> fst ` set (pt_entities p)" using k(1) by (metis map_of_eq_None_iff)
  then have "EntityFolder ?s k \<in> set ?folders" using k(2) by auto
  then have gone: "stat (st_disk (?run ?folders ?s)) q = None" using fold_folders_gone [OF wf free _ k(3) q] by blast
  have "store_wf (?run ?folders ?s)" using fold_folders [OF wf, of ?folders] by auto
  then have "stat (st_disk (?run fs (?run ?folders ?s))) q = None" for fs using fold_folders [of "?run ?folders ?s" fs] shrinks_none [OF _ gone] by auto
  then show "stat (st_disk (pt_store (Send_cleanup now now2 p))) q = None"
    unfolding Send_cleanup_store(2) [OF needed] using gone by (simp split: option.split)
qed

text \<open>
  C34. The folder of the agent's own entity has a fixed name, which is not its sanitized key. A cleanup therefore takes it for
  the folder of an entity that is gone: it deletes the agent's inventory, with its cache and the deltas not sent yet, although
  the agent's entity is never to be removed.
\<close>

theorem cleanup_deletes_agent_inventory:
  assumes needed: "snd (needsCleanup now now2 p)" and wf: "store_wf (pt_store p)" and free: "\<forall>q. \<not> denied (st_disk (pt_store p)) q"
    and agent: "en_Key (pc_AgentEntity (pt_cfg p)) = defaultEntityKey (pt_store p)" "sanitize_runes (defaultEntityKey (pt_store p)) \<noteq> localEntityFolder"
    and q: "dir = DataDir (pt_store p) \<or> dir = CacheDir (pt_store p)" "\<not> nonEntityFolders n"
      "stat (st_disk (pt_store p)) (dir @ [n, localEntityFolder]) = Some Dir" "below (dir @ [n, localEntityFolder]) q"
  shows "stat (st_disk (pt_store (Send_cleanup now now2 p))) q = None"
proof -
  let ?s = "pt_store p" and ?run = "fold (\<lambda>folder s. fst (RemoveEntityFolders folder s))"
  let ?agent = "en_Key (pc_AgentEntity (pt_cfg p))"
  let ?folders = "map (EntityFolder ?s) (filter (\<lambda>k. k \<noteq> ?agent) (map fst (pt_entities p)))"
  obtain d where d: "?run ?folders ?s = ?s\<lparr>st_disk := d\<rparr>" "store_wf (?s\<lparr>st_disk := d\<rparr>)" "shrinks (st_disk ?s) d" using fold_folders [OF wf] by blast
  let ?t = "?s\<lparr>st_disk := d\<rparr>"
  have dwf: "disk_wf d" using d(2) by (simp add: store_wf_def disk_ok_def)
  have free': "\<forall>q. \<not> denied (st_disk ?t) q" using shrinks_free [OF d(3) free] by simp
  note store = Send_cleanup_store(2) [OF needed, unfolded d(1)]
  show ?thesis
  proof (cases "stat d (dir @ [n, localEntityFolder]) = None")
    case True
    then have none: "stat d q = None" using missing_below [OF dwf _ q(4)] by blast
    have "stat (st_disk (?run fs ?t)) q = None" for fs using fold_folders [OF d(2), of fs] shrinks_none none by auto
    then show ?thesis unfolding store using none by (simp split: option.split)
  next
    case False
    then have dir: "stat d (dir @ [n, localEntityFolder]) = Some Dir" using d(3) q(3) unfolding shrinks_def by metis
    then have "stat d (dir @ [n]) = Some Dir" using disk_wf_parent [OF dwf, of "dir @ [n, localEntityFolder]"] by (simp add: butlast_append)
    then obtain m where m: "fst (ScanEntityFolders ?t) = Some m" "map_of m localEntityFolder \<noteq> None"
      using ScanEntityFolders_finds [OF d(2) free', of dir n localEntityFolder] q(1,2) dir by (auto simp: is_dir_def)
    have "map_of (fold (\<lambda>key. AList.delete (sanitize_runes key)) ks m) localEntityFolder \<noteq> None"
      if "\<forall>k \<in> set ks. k = ?agent" for ks using that m(2) agent by (induction ks arbitrary: m) (auto simp: gomap_simps)
    then have "localEntityFolder \<in> fst ` set (fold (\<lambda>key. AList.delete (sanitize_runes key)) (map fst (filter (\<lambda>(k, _). k = ?agent) (pt_entities p))) m)"
      unfolding map_of_eq_None_iff not_not by auto
    moreover have "plain localEntityFolder" by code_simp
    ultimately show ?thesis unfolding store m(1) option.case
      using fold_folders_gone [OF d(2) free', of localEntityFolder _ dir n q] q(1,2,4) by simp
  qed
qed


section \<open>The handler\<close>

lemma set_disk_fields [simp]: "sn_sender (set_disk d w) = sn_sender w" "sn_ctx (set_disk d w) = sn_ctx w"
  by (simp_all add: set_disk_def)

lemma send_blocks_key: "send_blocks x post ck n blocks w reset = Returns (w', r) \<Longrightarrow> ps_Key (sn_sender w') = ps_Key (sn_sender w)"
proof (induction blocks arbitrary: n w reset)
  case (Cons block blocks)
  have save: "ps_Key (sn_sender (save_submission ck n v)) = ps_Key (sn_sender v)" for v :: "'a sending"
    by (simp add: save_submission_def split_beta)
  show ?case using Cons.prems by (auto simp: save Let_def dest!: Cons.IH split: prod.splits sum.splits option.splits if_splits)
qed simp

lemma Process_key:
  assumes "Process x post ck w = Returns (w', err)"
  shows "ps_Key (sn_sender w') = ps_Key (sn_sender w)"
proof -
  have time: "ps_Key (sn_sender (fst (isLastSubmissionTimeExceeded ck v))) = ps_Key (sn_sender v)" for v :: "'a sending"
    by (simp add: isLastSubmissionTimeExceeded_def split_beta)
  have update: "ps_Key (sn_sender (update_entity_id v)) = ps_Key (sn_sender v)" for v :: "'a sending"
    by (simp add: update_entity_id_def split_beta)
  have changed: "ps_Key (sn_sender (fst (agentEntityIDChanged v))) = ps_Key (sn_sender v)" for v :: "'a sending"
    by (simp add: agentEntityIDChanged_def Let_def split_beta update)
  have remove: "ps_Key (sn_sender (remove_cache ck b v)) = ps_Key (sn_sender v)" for v :: "'a sending" and b
    by (simp add: remove_cache_def Let_def update)
  have compact: "sn_sender (compact v) = sn_sender v" for v :: "'a sending" by (simp add: compact_def)
  have send: "ps_Key (sn_sender v') = ps_Key (sn_sender v)" if "sendAllDeltas x post ck deltas v = Returns (v', e)" for v v' :: "'a sending" and deltas e
    using that by (cases "send_blocks x post ck 0 deltas v False") (auto simp: sendAllDeltas_def full_reset_def Let_def dest: send_blocks_key split: if_splits)
  obtain s r where read: "ReadDeltas x (ps_Key (sn_sender w)) (sn_store w) = (s, r)" by (cases "ReadDeltas x (ps_Key (sn_sender w)) (sn_store w)")
  obtain w1 e1 where w1: "isLastSubmissionTimeExceeded ck (w\<lparr>sn_store := s\<rparr>) = (w1, e1)" by (cases "isLastSubmissionTimeExceeded ck (w\<lparr>sn_store := s\<rparr>)")
  obtain w2 e2 where w2: "agentEntityIDChanged w1 = (w2, e2)" by (cases "agentEntityIDChanged w1")
  have keys: "ps_Key (sn_sender w1) = ps_Key (sn_sender w)" "ps_Key (sn_sender w2) = ps_Key (sn_sender w)"
    using time [of "w\<lparr>sn_store := s\<rparr>"] changed [of w1] by (simp_all add: w1 w2)
  show ?thesis
  proof (cases r)
    case (Inl e)
    then show ?thesis using assms by (auto simp: Process_def read)
  next
    case (Inr deltas)
    then show ?thesis using assms keys send
      by (cases "sendAllDeltas x post ck deltas w2") (auto simp: Process_def read w1 w2 Let_def remove compact split: if_splits)
  qed
qed

lemma entry_ok_update: "list_all entry_ok m \<Longrightarrow> entry_ok (k, e) \<Longrightarrow> list_all entry_ok (AList.update k e m)"
  by (induction m) auto

lemma registerEntity_ok:
  assumes "patcher_ok agent p" "registerEntity entity p = (p', err)"
  shows "patcher_ok agent p'" "err = None \<Longrightarrow> en_Key entity \<in> fst ` set (pt_entities p')" "pt_cfg p' = pt_cfg p"
proof -
  have sender: "ps_Key t = en_Key entity" if "newPatchSender_agent cfg i s entity = (Some t, e)" for cfg i s t e
    using that by (auto simp: newPatchSender_agent_def newPatchSender_def Let_def split: option.splits)
  have none: "newPatchSender_agent cfg i s entity \<noteq> (None, None)" for cfg i s
    by (auto simp: newPatchSender_agent_def newPatchSender_def Let_def split: option.splits)
  obtain t e where t: "newPatchSender_agent (pc_Sender (pt_cfg p)) (ac_agentID (pt_ctx p)) (pt_store p) entity = (t, e)"
    by (cases "newPatchSender_agent (pc_Sender (pt_cfg p)) (ac_agentID (pt_ctx p)) (pt_store p) entity")
  consider "map_of (pt_entities p) (en_Key entity) \<noteq> None" "p' = p" | "p' = p" "err \<noteq> None"
    | u where "p' = p\<lparr>pt_entities := AList.update (en_Key entity) \<lparr>ie_sender = u, ie_needsReaping = True\<rparr> (pt_entities p)\<rparr>" "ps_Key u = en_Key entity"
    using assms(2) t none sender by (fastforce simp: registerEntity_def split: if_splits option.splits)
  then show "patcher_ok agent p'" "err = None \<Longrightarrow> en_Key entity \<in> fst ` set (pt_entities p')" "pt_cfg p' = pt_cfg p"
    using assms(1) by (cases; auto simp: patcher_ok_def entry_ok_update entry_ok_def dom_update gomap_simps map_of_eq_None_iff)+
qed

lemma Save_ok:
  assumes ok: "patcher_ok agent p" and save: "Save x sorter data p = Returns (p', err)"
  shows "patcher_ok agent p'"
proof (cases "po_NotApplicable data")
  case False
  obtain p1 e where reg: "registerEntity (po_Entity data) p = (p1, e)" by (cases "registerEntity (po_Entity data) p")
  note r = registerEntity_ok [OF ok reg]
  have base: "\<exists>s. p2 = p1\<lparr>pt_store := s\<rparr>" if "BasePatcher_save x sorter data p1 = Returns (p2, e)" for p2 e
    using that by (auto simp: BasePatcher_save_def split: if_splits prod.splits)
  have store: "patcher_ok agent (p1\<lparr>pt_store := s\<rparr>)" for s using r(1) by (simp add: patcher_ok_def)
  have seen: "patcher_ok agent (q\<lparr>pt_seenEntities := AList.update k () (pt_seenEntities q)\<rparr>)"
    if "patcher_ok agent q" "k \<in> fst ` set (pt_entities q)" for q :: "'a EntityPatcher" and k using that by (simp add: patcher_ok_def dom_update)
  show ?thesis
  proof (cases "BasePatcher_save x sorter data p1")
    case (Returns a)
    obtain p2 f where a: "a = (p2, f)" by (cases a)
    then obtain s where p2: "p2 = p1\<lparr>pt_store := s\<rparr>" using base Returns by blast
    show ?thesis using save False Returns a r store seen [OF store, of "en_Key (po_Entity data)"]
      by (auto simp: Save_def reg p2 split: option.splits)
  qed (use save False r(1) in \<open>auto simp: Save_def reg split: option.splits\<close>)
qed (use assms in \<open>simp add: Save_def\<close>)

lemma Reap_frame: "\<exists>s. Reap x unix p = p\<lparr>pt_store := s\<rparr>"
proof -
  have "\<exists>s. fold (\<lambda>(key, e) q. if ie_needsReaping e then reapEntity x unix key q else q) es p = p\<lparr>pt_store := s\<rparr>" for es
  proof (rule fold_inv [where I = "\<lambda>q. \<exists>s. q = p\<lparr>pt_store := s\<rparr>"])
    show "\<exists>s. p = p\<lparr>pt_store := s\<rparr>" by (intro exI [of _ "pt_store p"]) simp
  qed (auto simp: reapEntity_def split: prod.splits)
  then show ?thesis by (simp add: Reap_def)
qed

lemma cleanup_ok: "patcher_ok agent p \<Longrightarrow> patcher_ok agent (Send_cleanup now now2 p)"
proof (cases "snd (needsCleanup now now2 p)")
  case True
  assume ok: "patcher_ok agent p"
  have unreg: "pt_cfg (fold unregisterEntity ks q) = pt_cfg q" "pt_seenEntities (fold unregisterEntity ks q) = pt_seenEntities q" for ks and q :: "'a EntityPatcher"
    by (induction ks arbitrary: q) (simp_all add: unregisterEntity_def)
  obtain p1 where p1: "needsCleanup now now2 p = (p1, True)" "pt_cfg p1 = pt_cfg p"
    using True by (auto simp: needsCleanup_def Let_def split: if_splits)
  have "pt_cfg (Send_cleanup now now2 p) = pt_cfg p" "pt_seenEntities (Send_cleanup now now2 p) = []"
    by (simp_all add: Send_cleanup_def p1 cleanOutdatedEntities_def Let_def unreg split: option.split)
  then show ?thesis using ok Send_cleanup_store(1) [OF True] by (auto simp: patcher_ok_def list_all_iff image_iff split_beta)
next
  case False
  assume "patcher_ok agent p"
  then show ?thesis using False by (auto simp: Send_cleanup_def needsCleanup_def Let_def patcher_ok_def split: if_splits)
qed

lemma run_sender_ok:
  assumes ok: "patcher_ok agent p" and e: "entry_ok (key, e)" "key \<in> fst ` set (pt_entities p)" and run: "run_sender x post ck key e p = Returns (p', err)"
  shows "patcher_ok agent p' \<and> fst ` set (pt_entities p') = fst ` set (pt_entities p)"
proof -
  obtain w where w: "Process x post ck \<lparr>sn_sender = ie_sender e, sn_store = pt_store p, sn_ctx = pt_ctx p, sn_backend = pt_backend p\<rparr> = Returns (w, err)"
      "p' = p\<lparr>pt_entities := AList.update key (e\<lparr>ie_sender := sn_sender w\<rparr>) (pt_entities p), pt_store := sn_store w, pt_ctx := sn_ctx w, pt_backend := sn_backend w\<rparr>"
    using run unfolding run_sender_def
    by (cases "Process x post ck \<lparr>sn_sender = ie_sender e, sn_store = pt_store p, sn_ctx = pt_ctx p, sn_backend = pt_backend p\<rparr>") auto
  have "entry_ok (key, e\<lparr>ie_sender := sn_sender w\<rparr>)" using Process_key [OF w(1)] e(1) by (simp add: entry_ok_def)
  then show ?thesis using ok e(2) by (auto simp: w(2) patcher_ok_def entry_ok_update dom_update)
qed

lemma run_senders_ok:
  assumes "patcher_ok agent p" "list_all entry_ok es" "fst ` set es \<subseteq> fst ` set (pt_entities p)" "run_senders x post ck es p = Returns (p', err)"
  shows "patcher_ok agent p'"
  using assms
proof (induction es arbitrary: p)
  case (Cons a es)
  obtain key e where a: "a = (key, e)" by (cases a)
  obtain p1 err1 where p1: "run_sender x post (ck key) key e p = Returns (p1, err1)"
    using Cons.prems(4) by (cases "run_sender x post (ck key) key e p") (auto simp: a)
  have ok: "patcher_ok agent p1" "fst ` set (pt_entities p1) = fst ` set (pt_entities p)" using run_sender_ok [OF Cons.prems(1) _ _ p1] Cons.prems(2,3) by (auto simp: a)
  show ?case using Cons.prems(2-4) ok Cons.IH [OF ok(1)] by (auto simp: a p1 split: if_splits)
qed auto

lemma Send_ok:
  assumes "patcher_ok agent p" "Send x post ck now now2 p = Returns (p', err)"
  shows "patcher_ok agent p'"
proof -
  have ok: "patcher_ok agent (Send_cleanup now now2 p)" by (rule cleanup_ok [OF assms(1)])
  then show ?thesis using run_senders_ok [OF ok _ _ assms(2) [unfolded Send_def Let_def]] by (simp add: patcher_ok_def)
qed

lemma handler_step_ok: "handler_step post h h' \<Longrightarrow> handler_ok agent h \<Longrightarrow> handler_ok agent h'"
proof (induction rule: handler_step.induct)
  case (handle data h h')
  then show ?case by (auto simp: Handle_def handler_ok_def split: if_splits)
next
  case (listen x sorter h h')
  obtain data rest where q: "hd_dataCh h = data # rest" using listen(1) by (cases "hd_dataCh h") (auto simp: listenForData_def)
  obtain p err where p: "Save x sorter data (hd_patcher h) = Returns (p, err)"
    using listen(1) by (cases "Save x sorter data (hd_patcher h)") (auto simp: listenForData_def q)
  have "h' = h\<lparr>hd_dataCh := rest, hd_patcher := p\<rparr>" using listen(1) by (simp add: listenForData_def q p)
  then show ?case using listen(2) Save_ok [OF _ p, of agent] by (simp add: handler_ok_def q)
next
  case (reap h x unix)
  obtain s where s: "Reap x unix (hd_patcher h) = (hd_patcher h)\<lparr>pt_store := s\<rparr>" using Reap_frame by blast
  show ?case using reap by (simp add: reap_tick_def Let_def handler_ok_def s patcher_ok_def)
next
  case (send x ck now now2 h h')
  obtain p err where p: "Send x post ck now now2 (hd_patcher h) = Returns (p, err)"
    using send(1) by (cases "Send x post ck now now2 (hd_patcher h)") (auto simp: handler_send_def)
  then have "hd_patcher h' = p" "hd_dataCh h' = hd_dataCh h" "hd_cfg h' = hd_cfg h" using send(1) by (auto simp: handler_send_def split_beta)
  then show ?case using send(2) Send_ok [OF _ p, of agent] by (simp add: handler_ok_def)
qed

lemma NewEntityPatcher_ok:
  assumes "snd (newPatchSender_agent (pc_Sender cfg) (ac_agentID ctx) s (pc_AgentEntity cfg)) = None"
  shows "patcher_ok (en_Key (pc_AgentEntity cfg)) (NewEntityPatcher now cfg s ctx b)"
proof -
  obtain t where t: "newPatchSender_agent (pc_Sender cfg) (ac_agentID ctx) s (pc_AgentEntity cfg) = (Some t, None)" "ps_Key t = en_Key (pc_AgentEntity cfg)"
    using assms by (auto simp: newPatchSender_agent_def newPatchSender_def Let_def split: option.splits if_splits)
  then show ?thesis by (simp add: NewEntityPatcher_def registerEntity_def patcher_ok_def entry_ok_def gm_wf_def)
qed

lemma Reap_all:
  assumes "patcher_ok agent p"
  shows "Reap x unix p = fold (reapEntity x unix) (map fst (pt_entities p)) p"
proof -
  have "fold (\<lambda>(key, e) q. if ie_needsReaping e then reapEntity x unix key q else q) es q = fold (reapEntity x unix) (map fst es) q"
    if "list_all entry_ok es" for es and q :: "'a EntityPatcher" using that by (induction es arbitrary: q) (auto simp: entry_ok_def)
  then show ?thesis using assms by (simp add: Reap_def patcher_ok_def)
qed

text \<open>
  C33. Whatever the handler does, in any order: the agent's entity stays registered, every sender belongs to the entity it is
  registered for, only registered entities count as seen, and the queue keeps within its length. The mark that an entity needs
  reaping is never cleared, so every reaping goes over every registered entity.
\<close>

theorem handler_invariant:
  assumes "handler_reachable post (NewInventoryHandler hcfg (NewEntityPatcher now cfg s ctx b)) h"
    and "snd (newPatchSender_agent (pc_Sender cfg) (ac_agentID ctx) s (pc_AgentEntity cfg)) = None"
  shows "handler_ok (en_Key (pc_AgentEntity cfg)) h \<and>
    Reap x unix (hd_patcher h) = fold (reapEntity x unix) (map fst (pt_entities (hd_patcher h))) (hd_patcher h)"
proof -
  let ?agent = "en_Key (pc_AgentEntity cfg)"
  have init: "handler_ok ?agent (NewInventoryHandler hcfg (NewEntityPatcher now cfg s ctx b))"
    using NewEntityPatcher_ok [OF assms(2)] by (simp add: handler_ok_def NewInventoryHandler_def)
  from assms(1) have "handler_ok ?agent h" by (induction rule: handler_reachable.induct) (auto intro: init handler_step_ok)
  then show ?thesis using Reap_all by (auto simp: handler_ok_def)
qed

text \<open>
  After a submission the handler waits for the send interval if it succeeded, for an hour if the service limits the rate,
  and otherwise for a time that doubles with each failure in a row and stays within two minutes.
\<close>

lemma send_backoff:
  assumes "handler_send x post ck now now2 h = Returns h'" "0 \<le> hc_SendInterval (hd_cfg h)" "hc_SendInterval (hd_cfg h) \<le> MAX_BACKOFF * second"
    and "unat (hd_sendErrorCount h) < 2 ^ 32 - 1"
  shows "\<exists>p err. Send x post ck now now2 (hd_patcher h) = Returns (p, err) \<and>
    hd_sendTimer h' =
      (if err = None then hc_SendInterval (hd_cfg h)
       else if err = Some (SendError (IngestError 429)) then 3600 * second
       else if 30 \<le> unat (hd_sendErrorCount h) then 120 * second
       else min (120 * second) (2 ^ unat (hd_sendErrorCount h) * second + hc_SendInterval (hd_cfg h))) \<and>
    unat (hd_sendErrorCount h') =
      (if err = None then 0 else if err = Some (SendError (IngestError 429)) then MaxBackoffErrorCount else Suc (unat (hd_sendErrorCount h)))"
proof -
  obtain p err where p: "Send x post ck now now2 (hd_patcher h) = Returns (p, err)"
    using assms(1) by (cases "Send x post ck now now2 (hd_patcher h)") (auto simp: handler_send_def)
  let ?c = "hd_sendErrorCount h" and ?base = "hc_SendInterval (hd_cfg h)"
  have suc: "unat (?c + 1) = Suc (unat ?c)" using assms(4) by (simp add: unat_word_ariths)
  have backoff: "ExpBackoff ?base m c = (if 31 \<le> unat c then m else if c = 0 then min ?base m else min m (2 ^ (unat c - 1) * 1000000000 + ?base))" for m c
    using assms(2,3) by (intro ExpBackoff_value) (simp_all add: MAX_BACKOFF_def second_def)
  have h': "hd_sendErrorCount h' = fst (send_result err ?c)" "hd_sendTimer h' = ExpBackoff ?base (snd (send_result err ?c) * second) (fst (send_result err ?c))"
    using assms(1) by (auto simp: handler_send_def p split_beta)
  show ?thesis unfolding h'
    using suc assms(3) by (intro exI [of _ p] exI [of _ err]) (auto simp: p backoff send_result_def MAX_BACKOFF_def RATE_LIMITED_BACKOFF_def MaxBackoffErrorCount_def second_def)
qed

section \<open>Examples\<close>

lemma ex_other_store_wf: "store_wf ex_other_store"
proof -
  have "disk_ok (ex_disk ''{}'' [ex_delta 1 ''x''] ''{}'')" using ex_store_wf [of "''{}''" "[ex_delta 1 ''x'']" "''{}''"] by (simp add: store_wf_def)
  moreover have "list_all plain [''d'', ''p'', ''other'']" by code_simp
  ultimately show ?thesis using ex_store_wf [of "''{}''" "[ex_delta 1 ''x'']" "''{}''"] disk_ok_Mkdir by (simp add: ex_other_store_def store_wf_def)
qed

lemma ex_other_free: "\<forall>q. \<not> denied (st_disk ex_other_store) q"
  by (simp add: ex_other_store_def)

lemma ex_cleanup_needed: "snd (needsCleanup (200000 * second) (200000 * second) ex_patcher)"
  by (simp add: needsCleanup_def ex_patcher_def ex_patcher_cfg_def Let_def defaultRemoveEntitiesPeriod_def second_def)

lemma ex_patcher_fields [simp]: "pt_store ex_patcher = ex_other_store" "en_Key (pc_AgentEntity (pt_cfg ex_patcher)) = ex_key"
  "map_of (pt_entities ex_patcher) ''other'' \<noteq> None"
  by (simp_all add: ex_patcher_def ex_patcher_cfg_def ex_key_def NewWithoutID_def)

theorem cleanup_forgets_active_entities_witness:
  "map_of (pt_seenEntities ex_patcher) ''other'' = Some () \<and> stat (st_disk (pt_store ex_patcher)) [''d'', ''p'', ''other''] = Some Dir \<and>
   map_of (pt_entities (Send_cleanup (200000 * second) (200000 * second) ex_patcher)) ''other'' = None \<and>
   stat (st_disk (pt_store (Send_cleanup (200000 * second) (200000 * second) ex_patcher))) [''d'', ''p'', ''other''] = None"
proof -
  have there: "stat (st_disk ex_other_store) [''d'', ''p'', ''other''] = Some Dir" by code_simp
  have folder: "EntityFolder ex_other_store ''other'' = ''other''" "plain ''other''" "\<not> nonEntityFolders ''p''" "DataDir ex_other_store = [''d'']" "''other'' \<noteq> ex_key"
    by code_simp+
  have "below [''d'', ''p'', ''other''] [''d'', ''p'', ''other'']" by (simp add: below_def)
  then show ?thesis
    using cleanup_forgets_active_entities [OF ex_cleanup_needed, of "''other''" "[''d'']" "''p''" "[''d'', ''p'', ''other'']"] ex_other_store_wf ex_other_free folder there
    by (simp add: ex_patcher_fields del: not_None_eq) (simp add: ex_patcher_def)
qed

theorem cleanup_deletes_agent_inventory_witness:
  "stat (st_disk (pt_store ex_patcher)) (ex_cache_dir @ [''p'', localEntityFolder, ''a.pending'']) = Some (File (journal_text [ex_delta 1 ''x''])) \<and>
   stat (st_disk (pt_store (Send_cleanup (200000 * second) (200000 * second) ex_patcher))) (ex_cache_dir @ [''p'', localEntityFolder, ''a.pending'']) = None"
proof -
  have old: "stat (st_disk ex_other_store) q = stat (ex_disk ''{}'' [ex_delta 1 ''x''] ''{}'') q" if "stat (ex_disk ''{}'' [ex_delta 1 ''x''] ''{}'') q \<noteq> None" for q
    using stat_Mkdir_old [OF that] by (simp add: ex_other_store_def)
  have folder: "sanitize_runes ex_key \<noteq> localEntityFolder" "\<not> nonEntityFolders ''p''" by code_simp+
  have store: "CacheDir ex_other_store = ex_cache_dir" "defaultEntityKey ex_other_store = ex_key" by (simp_all add: ex_other_store_def ex_store_def)
  have "below (ex_cache_dir @ [''p'', localEntityFolder]) (ex_cache_dir @ [''p'', localEntityFolder, ''a.pending''])" by (simp add: below_def)
  then show ?thesis
    using cleanup_deletes_agent_inventory [OF ex_cleanup_needed, of ex_cache_dir "''p''" "ex_cache_dir @ [''p'', localEntityFolder, ''a.pending'']"]
      ex_other_store_wf ex_other_free folder store old by (simp add: ex_stat)
qed

theorem handler_invariant_witness:
  "handler_ok ex_key (reap_tick (ex_ext [] [] []) (\<lambda>_. 0) (NewInventoryHandler ex_handler_cfg (NewEntityPatcher second ex_patcher_cfg ex_other_store (sn_ctx (ex_sending [])) ())))"
proof -
  let ?h = "NewInventoryHandler ex_handler_cfg (NewEntityPatcher second ex_patcher_cfg ex_other_store (sn_ctx (ex_sending [])) ())"
  have "handler_reachable ex_service ?h (reap_tick (ex_ext [] [] []) (\<lambda>_. 0) ?h)" by (rule handler_reachable.step [OF handler_reachable.start handler_step.reap])
  moreover have "snd (newPatchSender_agent (pc_Sender ex_patcher_cfg) i s e) = None" for i s e
    by (simp add: ex_patcher_cfg_def newPatchSender_agent_def newPatchSender_def NewIngestClient_def ex_sender_cfg_def Let_def)
  moreover have "en_Key (pc_AgentEntity ex_patcher_cfg) = ex_key" by (simp add: ex_patcher_cfg_def NewWithoutID_def)
  ultimately show ?thesis using handler_invariant [of ex_service ex_handler_cfg second ex_patcher_cfg] by metis
qed

end
