(* ===== verification/Inventory_Round.thy ===== *)
theory Inventory_Round
  imports Entity_Patcher
begin

text \<open>
  One round of the inventory: the handler reaps the sources of the plugins and then sends.

  \<^item> \<open>synced\<close> says that the journal of a plugin leads from the inventory of the backend to the cached inventory, \<open>sourced\<close> that
    the source of a plugin can be read and compared, and \<open>touched\<close> that a store differs from another only in the journal, the
    cached inventory and the identifiers of one plugin.
  \<^item> Reaping a plugin keeps it \<open>synced\<close>, with a journal that leads to its source, and touches no other plugin; so do all plugins
    in turn, and writing the identifiers to their file changes neither.
  \<^item> With what the sender guarantees this gives the property of a whole round, in the root theory.
\<close>

section \<open>The store between two rounds\<close>

definition synced :: "ext \<Rightarrow> (json \<Rightarrow> json \<Rightarrow> json) \<Rightarrow> string \<Rightarrow> Store \<Rightarrow> PluginInfo \<Rightarrow> json \<Rightarrow> RawDelta list \<Rightarrow> bool" where
  "synced x patch key s p base ds \<longleftrightarrow>
     (\<exists>q a ms. same_slot q p \<and> tracked x key s q ds \<and> fresh_journal key q ds \<and>
        snd (deltaID q key) = last (snd (lastSentID q key) # map rd_ID ds) \<and>
        stat (st_disk s) (cachedFilePath s p key) = Some (File a) \<and> unmarshal_object x a = Some (JObj ms) \<and> replay patch ds base = JObj ms)"

definition sourced :: "ext \<Rightarrow> string \<Rightarrow> Store \<Rightarrow> PluginInfo \<Rightarrow> json \<Rightarrow> bool" where
  "sourced x key s p v \<longleftrightarrow>
     (\<exists>b ms. read_file (st_disk s) (SourceFilePath s p key) = Some b \<and> unmarshal_object x b = Some v \<and> v = JObj ms \<and> removeNils v = v) \<and>
     newPluginDelta x p key s \<noteq> None \<and> length (pi_Source p) \<le> MaxSourceLen \<and>
     (\<exists>q. map_of (plugins s) (pi_Source p) = Some q \<and> snd (deltaID q key) < max_int64)"

definition touched :: "string \<Rightarrow> PluginInfo \<Rightarrow> Store \<Rightarrow> Store \<Rightarrow> bool" where
  "touched key p s s' \<longleftrightarrow>
     (\<exists>m d. s' = s\<lparr>plugins := m, st_disk := d\<rparr> \<and> denied d = denied (st_disk s) \<and> full d = full (st_disk s) \<and>
        (\<forall>k. k \<noteq> pi_Source p \<longrightarrow> map_of m k = map_of (plugins s) k) \<and>
        (\<forall>f. stat d f \<noteq> stat (st_disk s) f \<longrightarrow>
           f \<in> {DeltaFilePath s p key, cachedFilePath s p key} \<and> (\<exists>c c'. stat (st_disk s) f = Some (File c) \<and> stat d f = Some (File c'))))"

text \<open>Two stores with the same directories and the same names of files below the entities.\<close>

definition same_names :: "Store \<Rightarrow> Store \<Rightarrow> bool" where
  "same_names s s' \<longleftrightarrow> DataDir s' = DataDir s \<and> CacheDir s' = CacheDir s \<and> EntityFolder s' = EntityFolder s \<and>
     denied (st_disk s') = denied (st_disk s) \<and>
     (\<forall>f. (stat (st_disk s') f = Some Dir \<longleftrightarrow> stat (st_disk s) f = Some Dir) \<and>
        (f \<noteq> CacheDir s @ [CACHE_ID_FILE] \<longrightarrow> (stat (st_disk s') f = None \<longleftrightarrow> stat (st_disk s) f = None)))"

text \<open>One step of the loop of \<open>update_caches\<close>.\<close>

definition reap_step :: "ext \<Rightarrow> (string \<Rightarrow> int) \<Rightarrow> string \<Rightarrow> PluginInfo \<Rightarrow> Store \<times> bool \<Rightarrow> Store \<times> bool" where
  "reap_step x unix key p = (\<lambda>(st, save). case updatePluginInventoryCache x (unix (pi_Source p)) p key st of (st1, updated, _) \<Rightarrow> (st1, save \<or> updated))"

text \<open>What the sender of an entity works on.\<close>

definition sending_of :: "inventory_entry \<Rightarrow> 'b EntityPatcher \<Rightarrow> 'b sending" where
  "sending_of e p = \<lparr>sn_sender = ie_sender e, sn_store = pt_store p, sn_ctx = pt_ctx p, sn_backend = pt_backend p\<rparr>"

text \<open>An example: the handler of an agent with one plugin, two pending deltas and a source that changed.\<close>

definition ex_round_store :: Store where
  "ex_round_store = ex_store (enc (ex_object ''y'')) [ex_delta 1 ''x'', ex_delta 2 ''y''] (enc (ex_object ''z''))"

definition ex_round_ext :: ext where
  "ex_round_ext = ex_ext (enc (ex_object ''y'')) (enc (ex_object ''z'')) (enc (ex_object ''z''))"

definition ex_round_entry :: inventory_entry where
  "ex_round_entry = \<lparr>ie_sender = sn_sender (ex_sending []), ie_needsReaping = True\<rparr>"

definition ex_round :: "(unit \<times> PostDeltaBody list) Handler" where
  "ex_round = NewInventoryHandler ex_handler_cfg
     \<lparr>pt_cfg = ex_patcher_cfg, pt_lastClean = second, pt_entities = [(ex_key, ex_round_entry)], pt_seenEntities = [],
      pt_store = ex_round_store, pt_ctx = sn_ctx (ex_sending []), pt_backend = ((), [])\<rparr>"

section \<open>Reaping one plugin\<close>

lemma touched_refl: "touched key p s s"
  unfolding touched_def by (intro exI [of _ "plugins s"] exI [of _ "st_disk s"]) simp

lemma touched_names:
  assumes "touched key p s s'"
  shows "same_names s s'"
proof -
  obtain m d where s': "s' = s\<lparr>plugins := m, st_disk := d\<rparr>" "denied d = denied (st_disk s)"
    and d: "\<forall>f. stat d f \<noteq> stat (st_disk s) f \<longrightarrow> f \<in> {DeltaFilePath s p key, cachedFilePath s p key} \<and>
      (\<exists>c c'. stat (st_disk s) f = Some (File c) \<and> stat d f = Some (File c'))"
    using assms unfolding touched_def by blast
  have "(stat d f = None \<longleftrightarrow> stat (st_disk s) f = None) \<and> (stat d f = Some Dir \<longleftrightarrow> stat (st_disk s) f = Some Dir)" for f
    using d [THEN spec [of _ f]] by (cases "stat d f = stat (st_disk s) f") auto
  then show ?thesis by (simp add: same_names_def s')
qed

lemma same_names_trans: "same_names s s' \<Longrightarrow> same_names s' s'' \<Longrightarrow> same_names s s''"
  by (simp add: same_names_def)

lemma empty_delta_value: "unmarshal_object x EMPTY_DELTA = Some (JObj [])"
proof -
  have "json_parse EMPTY_DELTA = Some (JObj [])" by code_simp
  then show ?thesis by (simp add: unmarshal_object_def object_value_def)
qed

lemma deltaID_int64: "plugin_ok q \<Longrightarrow> in_int64 (snd (deltaID q key))"
  by (auto simp: plugin_ok_def deltaID_def pi_entity_def in_int64_def min_int64_def max_int64_def Let_def split: option.splits dest!: map_of_SomeD)

text \<open>A delta appended to the journal of a plugin, with the number after the last.\<close>

lemma tracked_append:
  assumes tr: "tracked x key s q ds" and same: "same_slot q' q" and e: "rd_ok x e"
    and d: "stat d (DeltaFilePath s q key) = Some (File (journal_text (ds @ [e])))" "stat d (cachedFilePath s q key) = Some (File b)"
      "\<forall>f. f \<notin> {DeltaFilePath s q key, cachedFilePath s q key} \<longrightarrow> stat d f = stat (st_disk s) f"
      "denied d = denied (st_disk s)" "full d = full (st_disk s)"
  shows "tracked x key (s\<lparr>plugins := AList.update (pi_Source q) q' m, st_disk := d\<rparr>) q' (ds @ [e])"
proof -
  have ready: "slot_ready s q key" and ok: "slot_ok s q key" using tr by (simp_all add: tracked_def slot_ready_def)
  note ds = slot_distinct [OF ok] and sp = same_slot_paths [OF same]
  have arch: "stat d (archiveFilePath s q key) = stat (st_disk s) (archiveFilePath s q key)" using d(3) ds(2) not_sym [OF ds(3)] by simp
  have "slot_ready (s\<lparr>plugins := AList.update (pi_Source q) q' m, st_disk := d\<rparr>) q' key"
    by (rule slot_ready_frame [OF ready same]) (use d arch ready in \<open>auto simp: slot_ready_def file_ready_def\<close>)
  moreover have "cachedDirPath s q key \<notin> {DeltaFilePath s q key, cachedFilePath s q key}"
    using file_not_dir_other(1) [OF ok ok] by auto
  then have "stat d (cachedDirPath s q key) = Some Dir" using d(3) tr by (simp add: tracked_def)
  ultimately show ?thesis using d(1) e tr same sp by (simp add: tracked_def gomap_simps same_slot_def)
qed

lemma append_synced:
  assumes q: "same_slot q p" "tracked x key s q ds" "fresh_journal key q ds" "snd (deltaID q key) = last (snd (lastSentID q key) # map rd_ID ds)"
    and e: "rd_ok x e" "rd_Source e = pi_Source p" "rd_validate e" "rd_ID e = snd (deltaID (increaseDeltaID key q) key)" "snd (deltaID q key) < rd_ID e"
    and d: "stat d (DeltaFilePath s p key) = Some (File (journal_text (ds @ [e])))" "stat d (cachedFilePath s p key) = Some (File b)"
      "\<forall>f. f \<notin> {DeltaFilePath s p key, cachedFilePath s p key} \<longrightarrow> stat d f = stat (st_disk s) f"
      "denied d = denied (st_disk s)" "full d = full (st_disk s)"
    and b: "unmarshal_object x b = Some (JObj ms)" "replay patch (ds @ [e]) base = JObj ms"
  shows "synced x patch key (s\<lparr>plugins := AList.update (pi_Source p) (increaseDeltaID key q) (plugins s), st_disk := d\<rparr>) p base (ds @ [e])"
proof -
  let ?q = "increaseDeltaID key q"
  let ?s = "s\<lparr>plugins := AList.update (pi_Source p) ?q (plugins s), st_disk := d\<rparr>"
  have sp: "pi_Source q = pi_Source p" using q(1) by (simp add: same_slot_def)
  have same: "same_slot ?q q" by (rule entity_fields)
  have tr: "tracked x key ?s ?q (ds @ [e])"
    using tracked_append [OF q(2) same e(1)] d by (simp add: same_slot_paths [OF q(1)] sp)
  have sorted: "sorted_wrt (<) (snd (lastSentID q key) # map rd_ID ds)" using q(3) by (simp add: fresh_journal_def)
  have "i < rd_ID e" if "i \<in> set (snd (lastSentID q key) # map rd_ID ds)" for i
    using sorted_last_ge [OF sorted that] e(5) unfolding q(4) by simp
  then have "sorted_wrt (<) ((snd (lastSentID q key) # map rd_ID ds) @ [rd_ID e])" using sorted by (simp add: sorted_wrt_append)
  then have "fresh_journal key ?q (ds @ [e])" using q(3) e(2,3) by (simp add: fresh_journal_def sp)
  then show ?thesis
    unfolding synced_def using tr same_slot_trans [OF same q(1)] e(4) d(2) b by (intro exI [of _ ?q] exI [of _ b] exI [of _ ms]) simp
qed

lemma append_touched:
  assumes old: "stat (st_disk s) (DeltaFilePath s p key) = Some (File j)" "stat (st_disk s) (cachedFilePath s p key) = Some (File a)"
    and d: "stat d (DeltaFilePath s p key) = Some (File j')" "stat d (cachedFilePath s p key) = Some (File b)"
      "\<forall>f. f \<notin> {DeltaFilePath s p key, cachedFilePath s p key} \<longrightarrow> stat d f = stat (st_disk s) f"
      "denied d = denied (st_disk s)" "full d = full (st_disk s)"
  shows "touched key p s (s\<lparr>plugins := AList.update (pi_Source p) q (plugins s), st_disk := d\<rparr>)"
proof -
  have "f \<in> {DeltaFilePath s p key, cachedFilePath s p key} \<and> (\<exists>c c'. stat (st_disk s) f = Some (File c) \<and> stat d f = Some (File c'))"
    if "stat d f \<noteq> stat (st_disk s) f" for f
  proof -
    have "f = DeltaFilePath s p key \<or> f = cachedFilePath s p key" using d(3) that by blast
    then show ?thesis using d(1,2) old by auto
  qed
  then show ?thesis unfolding touched_def
    using d(4,5) by (intro exI [of _ "AList.update (pi_Source p) q (plugins s)"] exI [of _ d]) (simp add: gomap_simps)
qed

text \<open>What the update compares: the cached inventory, and a difference that leads from it to the source.\<close>

lemma reap_difference:
  assumes laws: "patch_law x patch" "\<forall>ms. patch (JObj ms) (JObj []) = JObj ms"
    and cached: "stat (st_disk s) (cachedFilePath s p key) = Some (File a)" "\<not> denied (st_disk s) (cachedFilePath s p key)" "unmarshal_object x a = Some (JObj ms)"
    and sourced: "sourced x key s p v"
  shows "\<exists>t diff. newPluginDelta x p key s = Some (t, False) \<and> unmarshal_object x t = Some diff \<and> patch (JObj ms) diff = v"
proof -
  obtain b ns where b: "read_file (st_disk s) (SourceFilePath s p key) = Some b" "unmarshal_object x b = Some v" "removeNils v = v" and v: "v = JObj ns"
    using sourced unfolding sourced_def by blast
  obtain t where t: "newPluginDelta x p key s = Some (t, False)" "getDeltaFromJSON x a b = Some t"
    using sourced cached(1,2) b(1) by (auto simp: sourced_def newPluginDelta_def read_file_Some [THEN iffD2])
  show ?thesis
  proof (cases "a = b")
    case True
    then show ?thesis using cached(3) b(2) t laws(2) empty_delta_value by (auto simp: getDeltaFromJSON_def)
  next
    case False
    then have "CreateMergePatch x a b = Some t" using t(2) by (simp add: getDeltaFromJSON_def)
    then obtain diff where "unmarshal_object x t = Some diff" "patch (JObj ms) diff = v"
      using laws(1) [unfolded patch_law_def] cached(3) b(2,3) unfolding v by blast
    then show ?thesis using t(1) by blast
  qed
qed

lemma reap_one:
  assumes laws: "float_law x" "patch_law x patch" "\<forall>ms. patch (JObj ms) (JObj []) = JObj ms" "in_int64 now"
    and wf: "store_wf s" and synced: "synced x patch key s p base ds" and sourced: "sourced x key s p v"
  shows "\<exists>s' u ds'. updatePluginInventoryCache x now p key s = (s', u, None) \<and> touched key p s s' \<and>
    synced x patch key s' p base ds' \<and> replay patch ds' base = v"
proof -
  obtain q a ms where q: "same_slot q p" "tracked x key s q ds" "fresh_journal key q ds"
      "snd (deltaID q key) = last (snd (lastSentID q key) # map rd_ID ds)"
    and a: "stat (st_disk s) (cachedFilePath s p key) = Some (File a)" "unmarshal_object x a = Some (JObj ms)" "replay patch ds base = JObj ms"
    using synced unfolding synced_def by blast
  have ready: "slot_ready s p key" and journal: "stat (st_disk s) (DeltaFilePath s p key) = Some (File (journal_text ds))"
    and dir: "stat (st_disk s) (cachedDirPath s p key) = Some Dir" and known: "map_of (plugins s) (pi_Source p) = Some q"
    using q(1,2) same_slot_paths [OF q(1)] by (simp_all add: tracked_def slot_ready_def same_slot_def)
  have id: "snd (deltaID q key) < max_int64" and src: "length (pi_Source p) \<le> MaxSourceLen" using known sourced by (auto simp: sourced_def)
  have old: "fst (MkdirAll (st_disk s) (cachedDirPath s p key)) = st_disk s" using Mkdir_old [OF _ dir] wf by (simp add: store_wf_def disk_ok_def)
  have "\<not> denied (st_disk s) (cachedFilePath s p key)" using ready by (simp add: slot_ready_def file_ready_def)
  from reap_difference [OF laws(2,3) a(1) this a(2) sourced] obtain t diff
    where t: "newPluginDelta x p key s = Some (t, False)" "unmarshal_object x t = Some diff" "patch (JObj ms) diff = v" by blast
  show ?thesis
  proof (cases "t = EMPTY_DELTA")
    case True
    then have "v = replay patch ds base" using t(2,3) empty_delta_value laws(3) a(3) by auto
    moreover have "updatePluginInventoryCache x now p key s = (s, False, None)" using t(1) True by (simp add: updatePluginInventoryCache_def)
    ultimately show ?thesis using synced touched_refl by blast
  next
    case False
    obtain b ms' where b: "read_file (st_disk s) (SourceFilePath s p key) = Some b" "unmarshal_object x b = Some v" "v = JObj ms'"
      using sourced unfolding sourced_def by blast
    let ?e = "next_delta s now p key diff False"
    have kq: "known_plugin s p = q" using known by (simp add: known_plugin_def)
    obtain d where d: "updatePluginInventoryCache x now p key s =
        (s\<lparr>plugins := AList.update (pi_Source p) (increaseDeltaID key q) (plugins s), st_disk := d\<rparr>, True, None)"
      "stat d (DeltaFilePath s p key) = Some (File (journal_text (ds @ [?e])))" "stat d (cachedFilePath s p key) = Some (File b)"
      "\<forall>f. f \<notin> {DeltaFilePath s p key, cachedFilePath s p key} \<longrightarrow> stat d f = stat (st_disk s) f"
      "denied d = denied (st_disk s)" "full d = full (st_disk s)"
      using update_spec [OF ready _ b(1) t(1) False t(2), of now] wf old journal
      by (auto simp: store_wf_def kq file_content_def journal_text_def)
    have "in_int64 (snd (deltaID q key))" by (rule deltaID_int64) (use wf known in \<open>auto simp: store_wf_def plugins_ok_def dest: map_of_SomeD\<close>)
    then have "to_int64 (snd (deltaID q key) + 1) = snd (deltaID q key) + 1" using id by (intro to_int64_id) (auto simp: in_int64_def)
    then have eid: "rd_ID ?e = snd (deltaID (increaseDeltaID key q) key)" "snd (deltaID q key) < rd_ID ?e" by (simp_all add: next_delta_def kq)
    have replay: "replay patch (ds @ [?e]) base = v" using t(3) a(3) by (simp add: replay_def next_delta_def)
    have e: "rd_ok x ?e" "rd_Source ?e = pi_Source p" "rd_validate ?e"
      using next_delta_ok [OF laws(1) t(2) laws(4)] src by (simp_all add: rd_validate_def next_delta_def)
    from append_synced [OF q e eid d(2-6) b(2) [unfolded b(3)] replay [unfolded b(3)]] append_touched [OF journal a(1) d(2-6)]
    show ?thesis using d(1) replay by blast
  qed
qed

section \<open>Reaping the other plugins\<close>

lemma synced_slot: "synced x patch key s p base ds \<Longrightarrow> slot_ok s p key"
  by (auto simp: synced_def tracked_def slot_ready_def same_slot_paths)

lemma synced_other:
  assumes touched: "touched key p s s'" and synced: "synced x patch key s r base ds"
    and ok: "plugin_ok p" "plugin_ok r" "slot_ok s p key" "pi_Source p \<noteq> pi_Source r"
  shows "synced x patch key s' r base ds"
proof -
  let ?F = "{DeltaFilePath s p key, cachedFilePath s p key}"
  obtain m d where s': "s' = s\<lparr>plugins := m, st_disk := d\<rparr>" "denied d = denied (st_disk s)" "full d = full (st_disk s)"
    and m: "\<forall>k. k \<noteq> pi_Source p \<longrightarrow> map_of m k = map_of (plugins s) k" and d: "\<And>f. stat d f \<noteq> stat (st_disk s) f \<Longrightarrow> f \<in> ?F"
    using touched unfolding touched_def by blast
  obtain q a ms where q: "same_slot q r" "tracked x key s q ds" and rest: "fresh_journal key q ds"
      "snd (deltaID q key) = last (snd (lastSentID q key) # map rd_ID ds)"
    and a: "stat (st_disk s) (cachedFilePath s r key) = Some (File a)" "unmarshal_object x a = Some (JObj ms)" "replay patch ds base = JObj ms"
    using synced unfolding synced_def by blast
  note slot = synced_slot [OF synced]
  have apart: "f \<notin> {cachedFilePath s r key, DeltaFilePath s r key, archiveFilePath s r key} \<and>
      f \<noteq> cachedDirPath s r key \<and> \<not> below f (cachedDirPath s r key)" if "f \<in> ?F" for f
    using slot_files_differ [OF ok(1,3,2) slot ok(4), of f] file_not_dir_other [OF slot ok(3), of f] that by blast
  have "tracked x key s' q ds" unfolding s'(1)
    by (rule tracked_frame [OF q(2) d _ s'(2,3)]) (use apart m ok(4) q(1) in \<open>auto simp: same_slot_paths [OF q(1)] same_slot_def\<close>)
  moreover have "stat d (cachedFilePath s r key) = stat (st_disk s) (cachedFilePath s r key)" using d apart by blast
  ultimately show ?thesis unfolding synced_def using q(1) rest a by (intro exI [of _ q] exI [of _ a] exI [of _ ms]) (simp add: s'(1))
qed

lemma sourced_other:
  assumes touched: "touched key p s s'" and sourced: "sourced x key s r v" and wf: "store_wf s"
    and ok: "plugin_ok p" "plugin_ok r" "slot_ok s p key" "slot_ok s r key" "pi_Source p \<noteq> pi_Source r"
  shows "sourced x key s' r v"
proof -
  let ?F = "{DeltaFilePath s p key, cachedFilePath s p key}"
  obtain m d where s': "s' = s\<lparr>plugins := m, st_disk := d\<rparr>" "denied d = denied (st_disk s)"
    and m: "\<forall>k. k \<noteq> pi_Source p \<longrightarrow> map_of m k = map_of (plugins s) k" and d: "\<And>f. stat d f \<noteq> stat (st_disk s) f \<Longrightarrow> f \<in> ?F"
    using touched unfolding touched_def by blast
  have "length (SourceFilePath s r key) = length (DataDir s) + 3" by (rule slot_paths [OF ok(4)]) simp
  moreover have "length f = length (DataDir s) + 4" if "f \<in> ?F" for f
    by (rule slot_paths [OF ok(3)]) (use that wf in \<open>auto simp: store_wf_def\<close>)
  ultimately have "SourceFilePath s r key \<notin> ?F" by fastforce
  then have src: "stat d (SourceFilePath s r key) = stat (st_disk s) (SourceFilePath s r key)" using d by blast
  have "cachedFilePath s r key \<notin> ?F" using slot_files_differ [OF ok(1,3,2,4,5)] by blast
  then have cached: "stat d (cachedFilePath s r key) = stat (st_disk s) (cachedFilePath s r key)" using d by blast
  note rd = read_file_eq [OF src s'(2)] read_file_eq [OF cached s'(2)]
  have "newPluginDelta x r key s' = newPluginDelta x r key s" by (auto simp: newPluginDelta_def s'(1) rd cached split: option.split)
  moreover have "map_of m (pi_Source r) = map_of (plugins s) (pi_Source r)" using m ok(5) by simp
  ultimately show ?thesis using sourced unfolding sourced_def by (simp add: s'(1) rd)
qed

lemma reap_step_app: "updatePluginInventoryCache x (unix (pi_Source p)) p key s = (s1, b, e) \<Longrightarrow> reap_step x unix key p (s, u) = (s1, u \<or> b)"
  by (simp add: reap_step_def)

lemma reap_all:
  assumes laws: "float_law x" "patch_law x patch" "\<forall>ms. patch (JObj ms) (JObj []) = JObj ms" "\<forall>k. in_int64 (unix k)"
    and "store_wf s" "distinct (map pi_Source ps)" "set ps \<subseteq> C" "inj_on pi_Source C" "\<forall>p \<in> C. plugin_ok p"
    and "\<forall>p \<in> set ps. sourced x key s p (v p)" "\<forall>p \<in> C. synced x patch key s p (base p) (J p)"
  shows "\<exists>s' save J'. fold (reap_step x unix key) ps (s, u) = (s', save) \<and> store_wf s' \<and> same_names s s' \<and>
    (\<forall>p \<in> C. synced x patch key s' p (base p) (J' p)) \<and> (\<forall>p \<in> set ps. replay patch (J' p) (base p) = v p) \<and> (\<forall>p. p \<notin> set ps \<longrightarrow> J' p = J p)"
  using assms(5-)
proof (induction ps arbitrary: s u J)
  case Nil
  then show ?case by (intro exI [of _ s] exI [of _ u] exI [of _ J]) (simp add: same_names_def)
next
  case (Cons p ps)
  have p: "p \<in> C" "plugin_ok p" using Cons.prems by auto
  obtain s1 b ds where s1: "updatePluginInventoryCache x (unix (pi_Source p)) p key s = (s1, b, None)" "touched key p s s1"
      "synced x patch key s1 p (base p) ds" "replay patch ds (base p) = v p"
    using reap_one [OF laws(1-3) laws(4) [THEN spec] Cons.prems(1), of key p "base p" "J p" "v p" "pi_Source p"] Cons.prems(6,7) p(1) by auto
  let ?J = "J(p := ds)"
  have slot: "slot_ok s r key" if "r \<in> C" for r using Cons.prems(7) that synced_slot by blast
  have apart: "pi_Source p \<noteq> pi_Source r" if "r \<in> C" "r \<noteq> p" for r using Cons.prems(4) p(1) that by (auto dest: inj_onD)
  have wf: "store_wf s1" using updatePluginInventoryCache_wf [OF Cons.prems(1) p(2), of x "unix (pi_Source p)" key] s1(1) by simp
  have 1: "\<forall>r \<in> C. synced x patch key s1 r (base r) (?J r)"
    using s1(3) synced_other [OF s1(2) _ p(2) _ slot [OF p(1)] apart] Cons.prems(5,7) by simp
  have "p \<notin> set ps" using Cons.prems(2) by auto
  then have 2: "\<forall>r \<in> set ps. sourced x key s1 r (v r)"
    using sourced_other [OF s1(2) _ Cons.prems(1) p(2) _ slot [OF p(1)] slot apart] Cons.prems(3,5,6) by (metis list.set_intros(2) subsetD)
  obtain s' save J' where s': "fold (reap_step x unix key) ps (s1, u \<or> b) = (s', save)" "store_wf s'" "same_names s1 s'"
      "\<forall>p \<in> C. synced x patch key s' p (base p) (J' p)" "\<forall>p \<in> set ps. replay patch (J' p) (base p) = v p" "\<forall>p. p \<notin> set ps \<longrightarrow> J' p = ?J p"
    using Cons.IH [OF wf _ _ Cons.prems(4,5) 2 1, of "u \<or> b"] Cons.prems(2,3) by auto
  show ?case
    using s' s1(1,4) \<open>p \<notin> set ps\<close> same_names_trans [OF touched_names [OF s1(2)] s'(3)]
    by (intro exI [of _ s'] exI [of _ save] exI [of _ J']) (simp add: reap_step_app [where e = None])
qed

section \<open>Writing the identifiers\<close>

lemma SaveState_frame:
  "\<exists>d. fst (SaveState s) = s\<lparr>st_disk := d\<rparr> \<and> denied d = denied (st_disk s) \<and> full d = full (st_disk s) \<and>
    (\<forall>f. stat d f \<noteq> stat (st_disk s) f \<longrightarrow> f = CacheDir s @ [CACHE_ID_FILE] \<and> stat (st_disk s) f \<noteq> Some Dir \<and> stat d f \<noteq> Some Dir)"
proof -
  have "plain CACHE_ID_FILE" by code_simp
  then have join: "fp_join (CacheDir s) [CACHE_ID_FILE] = CacheDir s @ [CACHE_ID_FILE]" by (simp add: fp_join_plain)
  show ?thesis
    by (rule exI [of _ "st_disk (fst (SaveState s))"])
      (auto simp: SaveState_def writePluginIDMap_def on_disk_def split_beta join stat_Write can_open_def)
qed

lemma saved_names: "same_names s (fst (SaveState s))"
proof -
  obtain d where d: "fst (SaveState s) = s\<lparr>st_disk := d\<rparr>" "denied d = denied (st_disk s)" "full d = full (st_disk s)"
    "\<And>f. stat d f \<noteq> stat (st_disk s) f \<Longrightarrow> f = CacheDir s @ [CACHE_ID_FILE] \<and> stat (st_disk s) f \<noteq> Some Dir \<and> stat d f \<noteq> Some Dir"
    using SaveState_frame [of s] by blast
  have "(stat d f = Some Dir \<longleftrightarrow> stat (st_disk s) f = Some Dir) \<and> (f \<noteq> CacheDir s @ [CACHE_ID_FILE] \<longrightarrow> stat d f = stat (st_disk s) f)" for f
    using d(4) [of f] by (cases "stat d f = stat (st_disk s) f") auto
  then show ?thesis by (simp add: same_names_def d(1,2))
qed

lemma saved_synced:
  assumes wf: "store_wf s" and synced: "synced x patch key s r base ds"
  shows "synced x patch key (fst (SaveState s)) r base ds"
proof -
  obtain d where d: "fst (SaveState s) = s\<lparr>st_disk := d\<rparr>" "denied d = denied (st_disk s)" "full d = full (st_disk s)"
    "\<And>f. stat d f \<noteq> stat (st_disk s) f \<Longrightarrow> f = CacheDir s @ [CACHE_ID_FILE] \<and> stat (st_disk s) f \<noteq> Some Dir \<and> stat d f \<noteq> Some Dir"
    using SaveState_frame [of s] by blast
  let ?F = "{f. f = CacheDir s @ [CACHE_ID_FILE] \<and> stat (st_disk s) f \<noteq> Some Dir}"
  obtain q a ms where q: "same_slot q r" "tracked x key s q ds" and rest: "fresh_journal key q ds"
      "snd (deltaID q key) = last (snd (lastSentID q key) # map rd_ID ds)"
    and a: "stat (st_disk s) (cachedFilePath s r key) = Some (File a)" "unmarshal_object x a = Some (JObj ms)" "replay patch ds base = JObj ms"
    using synced unfolding synced_def by blast
  note slot = synced_slot [OF synced]
  have dir: "stat (st_disk s) (cachedDirPath s q key) = Some Dir" using q(2) by (simp add: tracked_def)
  have apart: "f \<notin> {cachedFilePath s q key, DeltaFilePath s q key, archiveFilePath s q key} \<and>
      f \<noteq> cachedDirPath s q key \<and> \<not> below f (cachedDirPath s q key)" if f: "f \<in> ?F" for f
  proof -
    have "\<not> below f (cachedDirPath s q key)"
    proof
      assume "below f (cachedDirPath s q key)"
      then have "f = take (length f) (cachedDirPath s q key)" by (simp add: below_def)
      then show False using ancestor_dir [OF _ dir, of "length f"] wf f by (simp add: store_wf_def disk_ok_def)
    qed
    moreover have "f \<notin> {cachedFilePath s r key, DeltaFilePath s r key, archiveFilePath s r key, cachedDirPath s r key}"
      by (rule slot_paths [OF slot]) (use f in auto)
    ultimately show ?thesis by (simp add: same_slot_paths [OF q(1)])
  qed
  have inF: "f \<in> ?F" if "stat d f \<noteq> stat (st_disk s) f" for f using d(4) [OF that] by blast
  have "tracked x key (s\<lparr>plugins := plugins s, st_disk := d\<rparr>) q ds"
    by (rule tracked_frame [where F = ?F, OF q(2) inF apart d(2,3)]) simp_all
  then have "tracked x key (fst (SaveState s)) q ds" by (simp add: d(1))
  moreover have "stat d (cachedFilePath s r key) = stat (st_disk s) (cachedFilePath s r key)"
    using inF apart unfolding same_slot_paths(2) [OF q(1), symmetric] by blast
  ultimately show ?thesis unfolding synced_def using q(1) rest a by (intro exI [of _ q] exI [of _ a] exI [of _ ms]) (simp add: d(1))
qed

section \<open>The plugins that are reaped\<close>

lemma reaped_iff:
  "r \<in> set (reaped s dir key) \<longleftrightarrow>
     (\<exists>n f. r = newPluginInfo n f \<and> stat (st_disk s) (dir @ [n]) = Some Dir \<and> \<not> nonEntityFolders n \<and>
        stat (st_disk s) (dir @ [n, EntityFolder s key]) = Some Dir \<and> \<not> denied (st_disk s) (dir @ [n, EntityFolder s key]) \<and>
        has_suffix f ''.json'' \<and> stat (st_disk s) (dir @ [n, EntityFolder s key, f]) \<noteq> None)"
proof -
  define group where "group n = (let folder = dir @ [n, EntityFolder s key] in
      if stat (st_disk s) folder = Some Dir \<and> \<not> denied (st_disk s) folder
      then map (newPluginInfo n) (filter (\<lambda>f. has_suffix f ''.json'') (children (st_disk s) folder)) else [])" for n
  define ns where "ns = filter (\<lambda>n. is_dir s (dir @ [n]) \<and> \<not> nonEntityFolders n) (children (st_disk s) dir)"
  have group: "r \<in> set (group n) \<longleftrightarrow> stat (st_disk s) (dir @ [n, EntityFolder s key]) = Some Dir \<and> \<not> denied (st_disk s) (dir @ [n, EntityFolder s key]) \<and>
      (\<exists>f. r = newPluginInfo n f \<and> has_suffix f ''.json'' \<and> stat (st_disk s) (dir @ [n, EntityFolder s key, f]) \<noteq> None)" for n
  proof -
    have "f \<in> set (children (st_disk s) (dir @ [n, EntityFolder s key])) \<longleftrightarrow> stat (st_disk s) (dir @ [n, EntityFolder s key, f]) \<noteq> None" for f
      using child_stat [of f "st_disk s" "dir @ [n, EntityFolder s key]"] by simp
    then have "r \<in> set (map (newPluginInfo n) (filter (\<lambda>f. has_suffix f ''.json'') (children (st_disk s) (dir @ [n, EntityFolder s key])))) \<longleftrightarrow>
        (\<exists>f. r = newPluginInfo n f \<and> has_suffix f ''.json'' \<and> stat (st_disk s) (dir @ [n, EntityFolder s key, f]) \<noteq> None)"
      unfolding set_map set_filter image_iff by blast
    then show ?thesis unfolding group_def Let_def by simp
  qed
  have ns: "n \<in> set ns \<longleftrightarrow> stat (st_disk s) (dir @ [n]) = Some Dir \<and> \<not> nonEntityFolders n" for n
    unfolding ns_def using child_stat [of n "st_disk s" dir] by (auto simp: is_dir_def)
  have "set (reaped s dir key) = (\<Union>n \<in> set ns. set (group n))"
    unfolding reaped_def ns_def [symmetric] group_def [symmetric] by simp
  then show ?thesis using ns group by blast
qed

lemma names_reaped: "same_names s s' \<Longrightarrow> set (reaped s' (CacheDir s') key) = set (reaped s (CacheDir s) key)"
  unfolding set_eq_iff reaped_iff by (simp add: same_names_def)

lemma names_ok_stat:
  "names_ok s key \<longleftrightarrow> list_all meta_free (DataDir s) \<and> list_all meta_free (CacheDir s) \<and> plain (EntityFolder s key) \<and>
    meta_free (EntityFolder s key) \<and> (\<forall>p. stat (st_disk s) p \<noteq> None \<longrightarrow> list_all plain p \<and> list_all meta_free p)"
proof -
  have "stat (st_disk s) p \<noteq> None \<longleftrightarrow> p = [] \<or> p \<in> fst ` set (entries (st_disk s))" for p by (simp add: key_iff stat_def)
  then have "(\<forall>p \<in> fst ` set (entries (st_disk s)). list_all plain p \<and> list_all meta_free p) \<longleftrightarrow>
      (\<forall>p. stat (st_disk s) p \<noteq> None \<longrightarrow> list_all plain p \<and> list_all meta_free p)" by (metis list.pred_inject(1))
  then show ?thesis unfolding names_ok_def by blast
qed

lemma names_kept:
  assumes "same_names s s'" "store_wf s" "names_ok s key"
  shows "names_ok s' key"
proof -
  have cache: "plain CACHE_DIR" "plain CACHE_ID_FILE" "meta_free CACHE_ID_FILE" by code_simp+
  have "list_all plain p \<and> list_all meta_free p" if "stat (st_disk s') p \<noteq> None" for p
  proof (cases "p = CacheDir s @ [CACHE_ID_FILE]")
    case True
    then show ?thesis using assms(2,3) cache by (simp add: store_wf_def names_ok_def)
  next
    case False
    then have "stat (st_disk s) p \<noteq> None" using assms(1) that by (simp add: same_names_def)
    then show ?thesis using assms(3) [unfolded names_ok_stat] by blast
  qed
  then show ?thesis using assms(1,3) unfolding names_ok_stat by (simp add: same_names_def)
qed

section \<open>Reaping the entity\<close>

text \<open>The inventory of an entity before a round: every cached plugin is \<open>synced\<close>, every plugin with a source is cached and \<open>sourced\<close>.\<close>

lemma reap_entity:
  assumes laws: "float_law x" "patch_law x patch" "\<forall>ms. patch (JObj ms) (JObj []) = JObj ms" "\<forall>k. in_int64 (unix k)"
    and wf: "store_wf s" and names: "names_ok s key" and free: "\<not> denied (st_disk s) (DataDir s)" "\<not> denied (st_disk s) (CacheDir s)"
    and active: "set (reaped s (DataDir s) key) \<subseteq> set (reaped s (CacheDir s) key)" "reaped s (DataDir s) key \<noteq> []"
    and plugins: "\<forall>p \<in> set (reaped s (CacheDir s) key). synced x patch key s p (base p) (J p)"
      "\<forall>p \<in> set (reaped s (DataDir s) key). sourced x key s p (v p)"
  shows "\<exists>J'. store_wf (fst (UpdatePluginsInventoryCache x unix key s)) \<and> same_names s (fst (UpdatePluginsInventoryCache x unix key s)) \<and>
    (\<forall>p \<in> set (reaped s (CacheDir s) key). synced x patch key (fst (UpdatePluginsInventoryCache x unix key s)) p (base p) (J' p)) \<and>
    (\<forall>p \<in> set (reaped s (DataDir s) key). replay patch (J' p) (base p) = v p)"
proof -
  let ?ps = "reaped s (DataDir s) key" and ?C = "set (reaped s (CacheDir s) key)"
  obtain p where p: "p \<in> ?C" using active by (cases ?ps) auto
  obtain q where q: "tracked x key s q (J p)" using plugins(1) p by (auto simp: synced_def)
  have cache: "stat (st_disk s) (CacheDir s) = Some Dir" by (rule tracked_cache [OF q wf])
  have data: "stat (st_disk s) (DataDir s) = Some Dir"
    using ancestor_dir [OF _ cache, of "length (DataDir s)"] wf by (simp add: store_wf_def disk_ok_def)
  have collect: "collectPluginFiles s (DataDir s) key = Some ?ps" "collectPluginFiles s (CacheDir s) key = Some (reaped s (CacheDir s) key)"
    using collectPluginFiles_spec [OF names] names cache data free by (simp_all add: names_ok_def)
  have distinct: "distinct (map pi_Source (reaped s dir key))" for dir
    using reaped_sources [OF _ names] wf by (simp add: store_wf_def disk_ok_def disk_wf_def)
  have inj: "inj_on pi_Source ?C" using distinct by (simp add: distinct_map)
  have ok: "\<forall>p \<in> ?C. plugin_ok p" using collect_plugin_ok [OF wf collect(2)] by blast
  obtain s' save J' where s': "fold (reap_step x unix key) ?ps (s, False) = (s', save)" "store_wf s'" "same_names s s'"
      "\<forall>p \<in> ?C. synced x patch key s' p (base p) (J' p)" "\<forall>p \<in> set ?ps. replay patch (J' p) (base p) = v p"
    using reap_all [OF laws wf distinct active(1) inj ok plugins(2,1), of False] by blast
  have "update_caches x unix key ?ps s = (s', save)" using s'(1) by (simp add: update_caches_def reap_step_def [abs_def])
  then have u: "fst (UpdatePluginsInventoryCache x unix key s) = (if save then fst (SaveState s') else s')"
    by (simp add: UpdatePluginsInventoryCache_def collect(1))
  show ?thesis
    unfolding u using s'(2-5) SaveState_wf [OF s'(2)] saved_synced [OF s'(2)] same_names_trans [OF s'(3) saved_names]
    by (intro exI [of _ J']) auto
qed

lemma synced_pending: "synced x patch key s p base ds \<Longrightarrow> pending x key s p ds"
  by (auto simp: synced_def pending_def)

text \<open>Sending what was reaped.\<close>

lemma round_delivered:
  assumes service: "accepts post" "sn_backend w = (b, [])" and steady: "steady ck w" and wf: "store_wf (sn_store w)"
    and key: "key = ps_Key (sn_sender w)" "names_ok (sn_store w) key" "\<not> denied (st_disk (sn_store w)) (CacheDir (sn_store w))"
    and plugins: "set (reaped (sn_store w) (CacheDir (sn_store w)) key) = C" "C \<noteq> {}" "\<forall>p \<in> C. synced x patch key (sn_store w) p (base p) (J p)"
  shows "\<exists>w' b' bodies. Process x (logged post) ck w = Returns (w', None) \<and> sn_backend w' = (b', bodies) \<and>
    (\<forall>p \<in> C. filter (\<lambda>d. rd_Source d = pi_Source p) (concat (map pb_Deltas bodies)) = J p)"
proof -
  let ?rs = "reaped (sn_store w) (CacheDir (sn_store w)) key"
  have pending: "\<forall>r \<in> set ?rs. pending x key (sn_store w) r (J r)" using plugins(1,3) synced_pending by blast
  obtain w' b' bodies where w': "Process x (logged post) ck w = Returns (w', None)" "sn_backend w' = (b', bodies)"
      "concat (map pb_Deltas bodies) = concat (map J ?rs)"
    using pending_delivered [OF service steady wf key refl _ pending] plugins(1,2) by auto
  have "distinct (map pi_Source ?rs)" using reaped_sources [OF _ key(2)] wf by (simp add: store_wf_def disk_ok_def disk_wf_def)
  moreover have "rd_Source d = pi_Source q" if "q \<in> set ?rs" "d \<in> set (J q)" for q d
    using pending that by (force simp: pending_def fresh_journal_def same_slot_def list_all_iff)
  ultimately have "filter (\<lambda>d. rd_Source d = pi_Source p) (concat (map J ?rs)) = J p" if "p \<in> C" for p
    by (intro filter_journals) (use that plugins(1) in auto)
  then show ?thesis using w' by auto
qed

section \<open>The round of the handler\<close>

lemma reap_tick_one:
  assumes "pt_entities (hd_patcher h) = [(key, e)]" "ie_needsReaping e"
  shows "hd_patcher (reap_tick x unix h) = (hd_patcher h)\<lparr>pt_store := fst (UpdatePluginsInventoryCache x unix key (pt_store (hd_patcher h)))\<rparr>"
  using assms by (simp add: reap_tick_def Reap_def reapEntity_def Let_def)

lemma send_one:
  assumes "pt_entities p = [(key, e)]" "needsCleanup now now2 p = (p, False)" "Process x post (ck key) (sending_of e p) = Returns (w, None)"
  shows "\<exists>p'. Send x post ck now now2 p = Returns (p', None) \<and> pt_backend p' = sn_backend w"
  using assms by (simp add: Send_def Send_cleanup_def run_sender_def sending_of_def)

lemma cleanup_store: "needsCleanup now now2 p = (p, False) \<Longrightarrow> needsCleanup now now2 (p\<lparr>pt_store := s\<rparr>) = (p\<lparr>pt_store := s\<rparr>, False)"
proof -
  assume old: "needsCleanup now now2 p = (p, False)"
  show ?thesis
  proof (cases "pt_lastClean p = 0")
    case True
    then have "p\<lparr>pt_lastClean := now\<rparr> = p" using old by (simp add: needsCleanup_def)
    then have "now = 0" using True by (cases p) simp
    then show ?thesis using True by (cases p) (simp add: needsCleanup_def)
  next
    case False
    then show ?thesis using old by (auto simp: needsCleanup_def Let_def split: if_splits)
  qed
qed

lemma steady_store:
  "steady ck (sending_of e p) \<Longrightarrow> DataDir s = DataDir (pt_store p) \<Longrightarrow> steady ck (sending_of e (p\<lparr>pt_store := s\<rparr>))"
  by (simp add: steady_def sending_of_def)

section \<open>The example\<close>

lemma ex_round_fields [simp]:
  "pt_entities (hd_patcher ex_round) = [(ex_key, ex_round_entry)]" "ie_needsReaping ex_round_entry" "pt_store (hd_patcher ex_round) = ex_round_store"
  "pt_backend (hd_patcher ex_round) = ((), [])" "ps_Key (ie_sender ex_round_entry) = ex_key"
  by (simp_all add: ex_round_def ex_round_entry_def NewInventoryHandler_def ex_sending_def)

lemma ex_round_reaped:
  "reaped ex_round_store [''d''] ex_key = [ex_plugin\<lparr>pi_Entities := []\<rparr>]" "reaped ex_round_store ex_cache_dir ex_key = [ex_plugin\<lparr>pi_Entities := []\<rparr>]"
proof -
  show "reaped ex_round_store ex_cache_dir ex_key = [ex_plugin\<lparr>pi_Entities := []\<rparr>]" unfolding ex_round_store_def by (rule ex_reaped)
  let ?d = "ex_disk (enc (ex_object ''y'')) [ex_delta 1 ''x'', ex_delta 2 ''y''] (enc (ex_object ''z''))"
  have "children ?d [''d''] = sort [CACHE_DIR, ''p'']" by (simp add: children_def ex_disk_def ex_names)
  moreover have "sort [CACHE_DIR, ''p''] = [CACHE_DIR, ''p'']" "nonEntityFolders CACHE_DIR" "\<not> nonEntityFolders ''p''" by code_simp+
  moreover have "children ?d [''d'', ''p'', localEntityFolder] = [''a.json'']" by (simp add: children_def ex_disk_def ex_names)
  moreover have "has_suffix ''a.json'' ''.json''" by code_simp
  moreover have "newPluginInfo ''p'' ''a.json'' = ex_plugin\<lparr>pi_Entities := []\<rparr>" by code_simp
  moreover have "stat ?d [''d'', ''p''] = Some Dir" "stat ?d [''d'', ''p'', localEntityFolder] = Some Dir" by (simp_all add: stat_def ex_disk_def ex_names)
  ultimately show "reaped ex_round_store [''d''] ex_key = [ex_plugin\<lparr>pi_Entities := []\<rparr>]" by (simp add: reaped_def Let_def is_dir_def ex_round_store_def)
qed

lemma ex_round_paths:
  "cachedFilePath ex_round_store (ex_plugin\<lparr>pi_Entities := []\<rparr>) ex_key = ex_cache_dir @ [''p'', localEntityFolder, ''a.json'']"
  "SourceFilePath ex_round_store (ex_plugin\<lparr>pi_Entities := []\<rparr>) ex_key = [''d'', ''p'', localEntityFolder, ''a.json'']"
  using ex_paths(1,3) unfolding ex_round_store_def by (simp_all add: cachedFilePath_def SourceFilePath_def)

lemma ex_round_synced:
  "synced ex_round_ext ex_patch ex_key ex_round_store (ex_plugin\<lparr>pi_Entities := []\<rparr>) (JObj []) [ex_delta 1 ''x'', ex_delta 2 ''y'']"
proof -
  let ?ds = "[ex_delta 1 ''x'', ex_delta 2 ''y'']"
  have "list_all (rd_ok ex_round_ext) ?ds" by (simp add: ex_round_ext_def ex_delta_ok ex_ids)
  then have "tracked ex_round_ext ex_key ex_round_store ex_plugin ?ds" unfolding ex_round_store_def by (rule ex_tracked)
  moreover have "snd (deltaID ex_plugin ex_key) = 2" by code_simp
  moreover have "fresh_journal ex_key ex_plugin ?ds" by (simp add: fresh_journal_def rd_validate_def MaxSourceLen_def)
  moreover have "replay ex_patch ?ds (JObj []) = JObj [(''v'', JStr ''y'')]" by (simp add: replay_def ex_patch_def ex_object_def)
  moreover have "stat (st_disk ex_round_store) (cachedFilePath ex_round_store (ex_plugin\<lparr>pi_Entities := []\<rparr>) ex_key) = Some (File (enc (ex_object ''y'')))"
    unfolding ex_round_paths by (simp add: ex_round_store_def ex_stat)
  ultimately show ?thesis
    unfolding synced_def using ex_object_value [of _ _ _ "''y''", folded ex_round_ext_def]
    by (intro exI [of _ ex_plugin] exI [of _ "enc (ex_object ''y'')"] exI [of _ "[(''v'', JStr ''y'')]"])
      (simp add: same_slot_def ex_round_ext_def ex_object_def)
qed

lemma ex_round_sourced: "sourced ex_round_ext ex_key ex_round_store (ex_plugin\<lparr>pi_Entities := []\<rparr>) (ex_object ''z'')"
proof -
  have src: "read_file (st_disk ex_round_store) (SourceFilePath ex_round_store (ex_plugin\<lparr>pi_Entities := []\<rparr>) ex_key) = Some (enc (ex_object ''z''))"
    unfolding ex_round_paths by (simp add: ex_round_store_def read_file_def ex_stat)
  have cached: "stat (st_disk ex_round_store) (cachedFilePath ex_round_store (ex_plugin\<lparr>pi_Entities := []\<rparr>) ex_key) = Some (File (enc (ex_object ''y'')))"
    "read_file (st_disk ex_round_store) (cachedFilePath ex_round_store (ex_plugin\<lparr>pi_Entities := []\<rparr>) ex_key) = Some (enc (ex_object ''y''))"
    unfolding ex_round_paths by (simp_all add: ex_round_store_def read_file_def ex_stat)
  have "enc (ex_object ''y'') \<noteq> enc (ex_object ''z'')" "removeNils (ex_object ''z'') = ex_object ''z''" by code_simp+
  moreover have "snd (deltaID ex_plugin ex_key) = 2" by code_simp
  moreover have "newPluginDelta ex_round_ext (ex_plugin\<lparr>pi_Entities := []\<rparr>) ex_key ex_round_store \<noteq> None"
    unfolding newPluginDelta_def src option.case cached by (simp add: getDeltaFromJSON_def) (simp add: ex_round_ext_def ex_ext_def)
  ultimately show ?thesis
    unfolding sourced_def src using ex_object_value [of "enc (ex_object ''y'')" "enc (ex_object ''z'')" "enc (ex_object ''z'')" "''z''", folded ex_round_ext_def]
    by (simp add: MaxSourceLen_def ex_round_store_def max_int64_def) (simp add: ex_object_def)
qed

end
