(* ===== verification/Spec2Isabelle.thy ===== *)
theory Spec2Isabelle
  imports Watchdog_Core Watchdog_Component Export_Pipeline Process_Scanner Topn_Sampler Sketch_Codec Inventory_Round
begin

text \<open>
  A verification library for the infrastructure agent: the inventory pipeline of the agent and the five packages
  \<^verbatim>\<open>collector\<close>, \<^verbatim>\<open>sampler\<close>, \<^verbatim>\<open>sketch\<close>, \<^verbatim>\<open>export\<close> and \<^verbatim>\<open>watchdog\<close>. Paths below are relative to
  \<^verbatim>\<open>src/\<close>.

  \<^bold>\<open>The program and how its parts interact.\<close> Plugins report the inventory of entities. The handler
  (\<^verbatim>\<open>internal/agent/inventory/handler.go\<close>) queues the reports and runs two timers. The patcher behind it
  (\<^verbatim>\<open>patcher.go\<close>, \<^verbatim>\<open>entity_patcher.go\<close>) saves a report as a source file of the store, reaps (turns
  changed sources into deltas of a journal) and sends. The store (\<^verbatim>\<open>internal/agent/delta/store.go\<close>) keeps sources,
  cached inventory, journals and identifiers on disk. One sender per entity (\<^verbatim>\<open>internal/agent/patch_sender.go\<close>)
  reads the journals and posts them to the ingest service through \<^verbatim>\<open>pkg/backend/inventoryapi\<close>. The other five packages do
  not call the inventory: the collector scans processes and notifies consumers, the sampler keeps the processes with the
  highest scores, the sketch summarizes values for quantiles, the exporter batches and sends telemetry behind a circuit
  breaker, and the watchdog observes components, degrades and restarts them.

  \<^bold>\<open>Conventions.\<close> A struct is a record and an operation a function that returns the changed record; an operation
  that holds a mutex for its whole body is one atomic step, and one that releases it before a call is two. Where a mutex decides whether a call returns, it is part of the state and
  the result is an \<open>outcome\<close> (returns, blocks for ever, panics). Errors are values. A Go map is an association list whose order is any
  iteration order. Integers wrap at 64 bits where the source's can; times are integers of nanoseconds with saturating subtraction.
  Readings of the clock are arguments. Goroutines are steps or events of the environment. Logging is left out.

  \<^bold>\<open>Shared theories.\<close>
  \<^item> \<open>Go_Prelude\<close>: Go's maps, times, integers, strings and outcomes.
  \<^item> \<open>Float64\<close>: float64 as its bits, with comparisons; arithmetic is the parameter \<open>fmath\<close>.
  \<^item> \<open>Utf8_Text\<close>: the code points of a string of bytes, as \<^verbatim>\<open>range\<close> reads and \<^verbatim>\<open>WriteRune\<close> writes them.
  \<^item> \<open>Json_Text\<close>, \<open>Time_Text\<close>: the parts of \<^verbatim>\<open>encoding/json\<close>, \<^verbatim>\<open>strconv\<close> and
    \<^verbatim>\<open>time\<close> that write and read files, with round trips.
  \<^item> \<open>File_System\<close>: the disk, \<^verbatim>\<open>pkg/disk\<close>, \<^verbatim>\<open>pkg/helpers/io.go\<close>, paths and patterns; every operation
    keeps the tree well formed, also when it fails.
  \<^item> \<open>Array_Heap\<close>, \<open>Circuit_Interface\<close>: the contracts \<open>heap_order\<close> and \<open>circuit_breaker\<close>, each interpreted for the two
    implementations the program has.

  \<^bold>\<open>The inventory.\<close>
  \<^item> \<open>Lru_Cache\<close> (\<^verbatim>\<open>pkg/helpers/lru/lru.go\<close>): the linked list and its map implement a list ordered by recency.
  \<^item> \<open>Helpers\<close> (\<^verbatim>\<open>pkg/helpers/helpers.go\<close>): sanitized file names do not depend on their cache, which
    holds one name more than it should; the backoff of the
    handler at the widths of the source.
  \<^item> \<open>Delta_Store\<close> holds the operations of \<^verbatim>\<open>delta/store.go\<close> and \<^verbatim>\<open>delta/plugins.go\<close>.
    \<open>Delta_Journal\<close> shows that an update makes the journal of a plugin replay to its source, that reading returns all that is pending
    in bounded blocks, that an acknowledgement drops exactly what was sent, and two ways in which deltas are lost or repeated.
    \<open>Delta_State\<close> shows that every operation keeps the store well formed and that a restart keeps the identifiers.
  \<^item> \<open>Entity_Persist\<close> (\<^verbatim>\<open>delta/last_*.go\<close>): what is saved is read back after a restart.
    \<open>Entity_Key\<close> (\<^verbatim>\<open>pkg/entity/id.go\<close>): keys do not depend on the order of attributes, and when computing one panics.
  \<^item> \<open>Patch_Sender\<close> (\<^verbatim>\<open>patch_sender.go\<close>, \<^verbatim>\<open>inventoryapi\<close>): one call of \<open>Process\<close> delivers everything
    pending once and in order.
  \<^item> \<open>Entity_Patcher\<close> (\<^verbatim>\<open>inventory/*.go\<close>): the invariant of the handler over all its steps, and what a cleanup
    wrongly deletes. \<open>Inventory_Round\<close> follows one reaping through store and journals; with the sender it gives
    \<open>inventory_round\<close> below.

  \<^bold>\<open>Processes and sketches.\<close>
  \<^item> \<open>Collector_Config\<close>, \<open>Process_Scanner\<close> (\<^verbatim>\<open>collector/*.go\<close>): a scan makes the cache the scanned list, and its
    events lead from the old cache to the new one.
  \<^item> \<open>Process_Heap\<close> (\<^verbatim>\<open>sampler/heap.go\<close>): as written, every operation that changes the heap blocks on the lock
    it holds itself, so that no sequence of calls ever puts a process into a heap. Lemmas show what the bodies of the operations would do
    without the lock: updates keep the top scores, in heap order and indexed.
    \<open>Topn_Sampler\<close> (\<^verbatim>\<open>sampler/topn.go\<close>, \<^verbatim>\<open>config.go\<close>, \<^verbatim>\<open>metrics.go\<close>): the sampler blocks
    on the first process of the first scan that has one.
  \<^item> \<open>Bucket_Store\<close>, \<open>Ddsketch\<close>, \<open>Sketch_Codec\<close> (\<^verbatim>\<open>sketch/*.go\<close>): the two stores hold the counts added, and
    within the limits of the stores (100 buckets where a sketch changes its store by itself, 1000 where it stays sparse, any number where it
    stays dense) a sketch holds exactly the values it accepted, quantiles have the wanted rank and merging adds. As written, decoding blocks
    on every text that encoding makes; lemmas show that the body of decoding, after the lock, inverts encoding.

  \<^bold>\<open>Export.\<close> \<open>Export_Pipeline\<close> (\<^verbatim>\<open>export/config.go\<close>, \<^verbatim>\<open>circuit_breaker.go\<close>,
  \<^verbatim>\<open>batch.go\<close>, \<^verbatim>\<open>backoff.go\<close>, \<^verbatim>\<open>exporter.go\<close>): in every interleaving of adding, the ticker and shutting
  down, where a batch is detached under the lock and handed to the processor after it, batches lose and repeat nothing; the calls of the
  retry loop and where it ends.

  \<^bold>\<open>Watchdog.\<close>
  \<^item> \<open>Watchdog_Breaker\<close> (\<^verbatim>\<open>circuit_breaker.go\<close>): the invariant of all reachable states, opening exactly at the
    threshold, and a half-open state that is never left.
  \<^item> \<open>Watchdog_Config\<close> (\<^verbatim>\<open>config.go\<close>, \<^verbatim>\<open>threshold.go\<close>): what a validated configuration guarantees.
  \<^item> \<open>Watchdog_Monitor\<close> (\<^verbatim>\<open>monitor.go\<close>): histories and degradation levels after any rounds.
    \<open>Watchdog_Component\<close> (\<^verbatim>\<open>component_monitor.go\<close>): the length of a violation, and the averages of threads and bytes read for a
    usage that does not change.
  \<^item> \<open>Watchdog_Restart\<close> (\<^verbatim>\<open>restart_manager.go\<close>, \<^verbatim>\<open>degradation.go\<close>,
    \<^verbatim>\<open>diagnostics.go\<close>, \<^verbatim>\<open>deadlock.go\<close>): failing restarts end after the configured number.
  \<^item> \<open>Watchdog_Core\<close> (\<^verbatim>\<open>watchdog.go\<close>): its maps agree in every reachable state, a component that
    runs is not restarted while its count of restarts grows, and stopping can block.

  \<^bold>\<open>Fuel and loops.\<close> The JSON parser takes fuel; twice the length of the text is enough and more changes nothing
  (\<open>pval_fuel\<close>). The character classes of a file pattern are read with the length of the pattern as fuel, of which each range
  takes at least one character. The loop of \<^verbatim>\<open>RemoveUntilLen\<close> is a partial function, as a negative length makes it run for ever.
  All other loops are total functions.

  \<^bold>\<open>Parameters.\<close> The merge patch of the json-patch package, the text of a float64, the ingest service, regular
  expressions, float64 arithmetic, what components and consumers answer, and the order a sort leaves open. A theorem that needs a law of
  one of them has it as a hypothesis, and its witness instantiates it.

  \<^bold>\<open>Not modelled.\<close>
  \<^item> Parts that are calls to the system, the network or other processes: metric samplers (\<^verbatim>\<open>pkg/metrics\<close>), inventory plugins
    (\<^verbatim>\<open>pkg/plugins\<close>, \<^verbatim>\<open>internal/plugins\<close>), \<^verbatim>\<open>pkg/sysinfo\<close>, \<^verbatim>\<open>collector/platform\<close>,
    the OTLP clients and converters of \<^verbatim>\<open>export\<close>, the clients of telemetry, identity and commands
    (\<^verbatim>\<open>pkg/backend\<close>), integrations (\<^verbatim>\<open>internal/integrations\<close>, \<^verbatim>\<open>pkg/integrations\<close>),
    \<^verbatim>\<open>pkg/databind\<close>, the command channel, \<^verbatim>\<open>cmd\<close> and \<^verbatim>\<open>tools\<close>.
  \<^item> \<^verbatim>\<open>pkg/config\<close>, which a YAML library fills by reflection, and \<^verbatim>\<open>internal/agent/agent.go\<close>
    apart from how it makes senders: start-up and loops over channels of the parts above.
  \<^item> Of modelled packages: compression, headers and \<^verbatim>\<open>PostDeltasVortex\<close> of the ingest client, the length of the waits of a retry,
    the float64 export of the collector's metrics, \<^verbatim>\<open>GetTotalResourceUsage\<close>, which reads the Go runtime, the
    variants for Windows, and the calls of the watchdog to functions no file declares, which are parameters.
  \<^item> Nil maps and pointers that a file of plugin identifiers holding \<^verbatim>\<open>null\<close> leaves in the store.
  \<^item> Data races between operations that take no lock, running out of memory, and rounding in the scores of the sampler.
\<close>

section \<open>A round of the inventory\<close>

text \<open>
  C1. One round of the inventory handler, a reap followed by a send, brings the backend up to date. If every cached plugin
  has a journal that leads from the backend's inventory to its cached one, and the service accepts what it gets, then both
  return without an error, and the deltas the service received for a plugin, applied to the inventory it had, give the
  current source of the plugin. The handler has one entity and no cleanup is due.
\<close>

theorem inventory_round:
  assumes laws: "float_law x" "patch_law x patch" "\<forall>ms. patch (JObj ms) (JObj []) = JObj ms" "\<forall>k. in_int64 (unix k)"
    and service: "accepts post" "pt_backend (hd_patcher h) = (b, [])"
    and entity: "pt_entities (hd_patcher h) = [(key, e)]" "ie_needsReaping e" "ps_Key (ie_sender e) = key"
    and sender: "steady (ck key) (sending_of e (hd_patcher h))" "needsCleanup now now2 (hd_patcher h) = (hd_patcher h, False)"
    and store: "pt_store (hd_patcher h) = s" "store_wf s" "names_ok s key" "\<not> denied (st_disk s) (DataDir s)" "\<not> denied (st_disk s) (CacheDir s)"
    and active: "set (reaped s (DataDir s) key) \<subseteq> set (reaped s (CacheDir s) key)" "reaped s (DataDir s) key \<noteq> []"
    and plugins: "\<forall>p \<in> set (reaped s (CacheDir s) key). synced x patch key s p (base p) (J p)"
      "\<forall>p \<in> set (reaped s (DataDir s) key). sourced x key s p (v p)"
  shows "\<exists>h' b' bodies. handler_send x (logged post) ck now now2 (reap_tick x unix h) = Returns h' \<and> hd_sendErrorCount h' = 0 \<and>
    pt_backend (hd_patcher h') = (b', bodies) \<and>
    (\<forall>p \<in> set (reaped s (DataDir s) key).
       replay patch (filter (\<lambda>d. rd_Source d = pi_Source p) (concat (map pb_Deltas bodies))) (base p) = v p)"
proof -
  let ?s = "fst (UpdatePluginsInventoryCache x unix key s)" and ?p = "hd_patcher (reap_tick x unix h)"
  let ?C = "set (reaped s (CacheDir s) key)"
  obtain J' where J': "store_wf ?s" "same_names s ?s" "\<forall>p \<in> ?C. synced x patch key ?s p (base p) (J' p)"
      "\<forall>p \<in> set (reaped s (DataDir s) key). replay patch (J' p) (base p) = v p"
    using reap_entity [OF laws store(2-5) active plugins] by blast
  have p: "?p = (hd_patcher h)\<lparr>pt_store := ?s\<rparr>" using reap_tick_one [OF entity(1,2)] store(1) by simp
  have dirs: "DataDir ?s = DataDir s" "CacheDir ?s = CacheDir s" "denied (st_disk ?s) = denied (st_disk s)" using J'(2) by (simp_all add: same_names_def)
  have w: "sn_store (sending_of e ?p) = ?s" "sn_backend (sending_of e ?p) = (b, [])" "ps_Key (sn_sender (sending_of e ?p)) = key"
    using service(2) entity(3) by (simp_all add: sending_of_def p)
  have steady: "steady (ck key) (sending_of e ?p)" unfolding p by (rule steady_store [OF sender(1)]) (simp add: store(1) dirs)
  have "?C \<noteq> {}" using active by (cases "reaped s (DataDir s) key") auto
  then obtain w' b' bodies where w': "Process x (logged post) (ck key) (sending_of e ?p) = Returns (w', None)" "sn_backend w' = (b', bodies)"
      "\<forall>p \<in> ?C. filter (\<lambda>d. rd_Source d = pi_Source p) (concat (map pb_Deltas bodies)) = J' p"
    using round_delivered [OF service(1) w(2) steady, of key ?C x patch base J', unfolded w]
      J'(1,3) names_kept [OF J'(2) store(2,3)] names_reaped [OF J'(2)] store(5) dirs by auto
  have clean: "needsCleanup now now2 ?p = (?p, False)" "pt_entities ?p = [(key, e)]" unfolding p using cleanup_store [OF sender(2)] entity(1) by simp_all
  obtain p' where p': "Send x (logged post) ck now now2 ?p = Returns (p', None)" "pt_backend p' = sn_backend w'"
    using send_one [where ck = ck, OF clean(2,1) w'(1)] by blast
  then show ?thesis using w'(2,3) J'(4) active(1) by (auto simp: handler_send_def send_result_def)
qed

theorem inventory_round_witness:
  "\<exists>h' bodies. handler_send ex_round_ext (logged ex_service) (\<lambda>_. ex_clocks) 0 0 (reap_tick ex_round_ext (\<lambda>_. 0) ex_round) = Returns h' \<and>
     hd_sendErrorCount h' = 0 \<and> pt_backend (hd_patcher h') = ((), bodies) \<and>
     replay ex_patch (filter (\<lambda>d. rd_Source d = ''p/a'') (concat (map pb_Deltas bodies))) (JObj []) = ex_object ''z''"
proof -
  have steady: "steady ex_clocks (sending_of ex_round_entry (hd_patcher ex_round))"
    by (simp add: steady_def sending_of_def ex_round_def ex_round_entry_def NewInventoryHandler_def ex_sending_def ex_round_store_def
      ex_clocks_def ex_key_def EmptyID_def second_def plain_def)
  have clean: "needsCleanup 0 0 (hd_patcher ex_round) = (hd_patcher ex_round, False)"
    by (simp add: needsCleanup_def ex_round_def NewInventoryHandler_def second_def ex_patcher_cfg_def defaultRemoveEntitiesPeriod_def)
  have s: "store_wf ex_round_store" "names_ok ex_round_store ex_key" "DataDir ex_round_store = [''d'']" "CacheDir ex_round_store = ex_cache_dir"
    "\<not> denied (st_disk ex_round_store) q" for q
    by (simp_all add: ex_round_store_def ex_store_wf ex_names_ok)
  have "ex_patch (JObj ms) (JObj []) = JObj ms" for ms by (simp add: ex_patch_def)
  then show ?thesis
    using inventory_round [of ex_round_ext ex_patch "\<lambda>_. 0" ex_service ex_round "()" ex_key ex_round_entry "\<lambda>_. ex_clocks" 0 0 ex_round_store
        "\<lambda>_. JObj []" "\<lambda>_. [ex_delta 1 ''x'', ex_delta 2 ''y'']" "\<lambda>_. ex_object ''z''", unfolded s(3,4) ex_round_reaped]
      steady clean s ex_round_synced ex_round_sourced ex_accepts ex_ids(3) ex_float_law ex_patch_law
    by (auto simp: ex_round_ext_def)
qed

end
